(* ===== verification/Prelude.thy ===== *)
theory Prelude
  imports Main "HOL-Library.Word" "HOL-Library.AList"
begin

unbundle bit_operations_syntax

text \<open>
  Shared vocabulary of the development: the machine types of the Go code, the fact
  collections the component proofs extend, byte-level encodings
  (\<open>encoding/binary\<close>'s big-endian integers, hexadecimal and decimal rendering), Go's
  \<open>map\<close> as an association list with distinct keys, and the generic list lemmas that
  the wire formats rely on.
\<close>

section \<open>Machine types and fact collections\<close>

type_synonym byte = "8 word"
type_synonym u16 = "16 word"
type_synonym u32 = "32 word"
type_synonym u64 = "64 word"

text \<open>
  \<open>go_consts\<close> collects the numeric constants of the Go packages (sizes, tags, limits);
  \<open>gomap_simps\<close> the laws of Go maps; \<open>wire_simps\<close> the facts that evaluate encoders
  and decoders on lists of known length.
\<close>

named_theorems go_consts
named_theorems gomap_simps
named_theorems wire_simps

section \<open>Big-endian integers (encoding/binary)\<close>

text \<open>
  \<open>nat_be n v\<close> lists the \<open>n\<close> low-order bytes of \<open>v\<close>, most significant first;
  \<open>be_nat\<close> reads such a list back. The \<open>PutUint\<close>/\<open>Uint\<close> pairs of
  \<open>binary.BigEndian\<close> are these two at a fixed width.
\<close>

fun nat_be :: "nat \<Rightarrow> nat \<Rightarrow> byte list" where
  "nat_be 0 v = []"
| "nat_be (Suc n) v = nat_be n (v div 256) @ [of_nat v]"

definition be_nat :: "byte list \<Rightarrow> nat" where
  "be_nat bs = foldl (\<lambda>acc b. acc * 256 + unat b) 0 bs"

lemma length_nat_be [simp]: "length (nat_be n v) = n"
  by (induction n arbitrary: v) auto

lemma be_nat_Nil [simp]: "be_nat [] = 0"
  by (simp add: be_nat_def)

lemma be_nat_snoc [simp]: "be_nat (bs @ [b]) = be_nat bs * 256 + unat b"
  by (simp add: be_nat_def)

lemma unat_byte_less [simp]: "unat (b :: byte) < 256"
  using unsigned_less [where ?'a = nat and w = b] by simp

lemma unat_of_nat_byte: "unat (of_nat v :: byte) = v mod 256"
  by (simp add: unat_of_nat)

lemma be_nat_nat_be: "v < 256 ^ n \<Longrightarrow> be_nat (nat_be n v) = v"
proof (induction n arbitrary: v)
  case (Suc n)
  then have "v div 256 < 256 ^ n"
    by (simp add: less_mult_imp_div_less mult.commute)
  with Suc.IH show ?case
    by (simp add: unat_of_nat_byte)
qed simp

lemma be_nat_bound: "be_nat bs < 256 ^ length bs"
proof (induction bs rule: rev_induct)
  case (snoc b bs)
  have "be_nat (bs @ [b]) < (be_nat bs + 1) * 256"
    using unat_byte_less [of b] by simp
  also have "\<dots> \<le> 256 ^ length bs * 256"
    using snoc by (intro mult_right_mono) auto
  finally show ?case by (simp add: mult.commute)
qed simp

lemma nat_be_be_nat: "nat_be (length bs) (be_nat bs) = bs"
proof (induction bs rule: rev_induct)
  case (snoc b bs)
  have "(be_nat bs * 256 + unat b) div 256 = be_nat bs"
    using unat_byte_less [of b] by simp
  moreover have "of_nat (be_nat bs * 256 + unat b) = b"
    by (rule word_unat_eq_iff [THEN iffD2]) (simp only: unat_of_nat_byte, simp)
  ultimately show ?case using snoc by simp
qed simp

lemma nat_be_zeros: "nat_be (n + m) (v * 256 ^ m) = nat_be n v @ replicate m 0"
proof (induction m arbitrary: v)
  case (Suc m)
  have "v * 256 ^ Suc m div 256 = v * 256 ^ m"
    by (simp add: mult.assoc)
  moreover have "(of_nat (v * 256 ^ Suc m) :: byte) = 0"
    by (rule word_unat_eq_iff [THEN iffD2]) (simp only: unat_of_nat_byte, simp)
  ultimately show ?case
    using Suc by (simp add: replicate_append_same del: power_Suc of_nat_mult)
qed simp

definition put_u16 :: "u16 \<Rightarrow> byte list" where
  "put_u16 v = nat_be 2 (unat v)"

definition put_u32 :: "u32 \<Rightarrow> byte list" where
  "put_u32 v = nat_be 4 (unat v)"

definition put_u64 :: "u64 \<Rightarrow> byte list" where
  "put_u64 v = nat_be 8 (unat v)"

definition get_u16 :: "byte list \<Rightarrow> u16" where
  "get_u16 bs = of_nat (be_nat (take 2 bs))"

definition get_u32 :: "byte list \<Rightarrow> u32" where
  "get_u32 bs = of_nat (be_nat (take 4 bs))"

definition get_u64 :: "byte list \<Rightarrow> u64" where
  "get_u64 bs = of_nat (be_nat (take 8 bs))"

lemma length_put [simp]:
  "length (put_u16 a) = 2" "length (put_u32 b) = 4" "length (put_u64 c) = 8"
  by (simp_all add: put_u16_def put_u32_def put_u64_def)

lemma get_put_u16 [simp]: "get_u16 (put_u16 v @ rest) = v"
  using unsigned_less [where ?'a = nat and w = v] by (simp add: get_u16_def put_u16_def be_nat_nat_be)

lemma get_put_u32 [simp]: "get_u32 (put_u32 v @ rest) = v"
  using unsigned_less [where ?'a = nat and w = v] by (simp add: get_u32_def put_u32_def be_nat_nat_be)

lemma get_put_u64 [simp]: "get_u64 (put_u64 v @ rest) = v"
  using unsigned_less [where ?'a = nat and w = v] by (simp add: get_u64_def put_u64_def be_nat_nat_be)

lemma get_put_exact [simp]:
  "get_u16 (put_u16 a) = a" "get_u32 (put_u32 b) = b" "get_u64 (put_u64 c) = c"
  using get_put_u16 [of a "[]"] get_put_u32 [of b "[]"] get_put_u64 [of c "[]"] by simp_all

lemma put_get_u16: "length bs = 2 \<Longrightarrow> put_u16 (get_u16 bs) = bs"
  using be_nat_bound [of bs] nat_be_be_nat [of bs]
  by (simp add: get_u16_def put_u16_def unat_of_nat)

lemma put_get_u32: "length bs = 4 \<Longrightarrow> put_u32 (get_u32 bs) = bs"
  using be_nat_bound [of bs] nat_be_be_nat [of bs]
  by (simp add: get_u32_def put_u32_def unat_of_nat)

lemma put_get_u64: "length bs = 8 \<Longrightarrow> put_u64 (get_u64 bs) = bs"
  using be_nat_bound [of bs] nat_be_be_nat [of bs]
  by (simp add: get_u64_def put_u64_def unat_of_nat)

lemma put_inj [simp]:
  "put_u16 a = put_u16 a' \<longleftrightarrow> a = a'"
  "put_u32 b = put_u32 b' \<longleftrightarrow> b = b'"
  "put_u64 c = put_u64 c' \<longleftrightarrow> c = c'"
  by (metis get_put_exact(1), metis get_put_exact(2), metis get_put_exact(3))

lemma get_u16_bytes [wire_simps]:
  "get_u16 (a # b # rest) = push_bit 8 (ucast a) OR ucast b"
proof -
  have "be_nat [a, b] = unat a * 256 + unat b"
    by (simp add: be_nat_def)
  moreover have "(push_bit 8 (ucast a) OR ucast b :: u16) = of_nat (unat a * 256 + unat b)"
  proof -
    have disj: "(push_bit 8 (ucast a) :: u16) AND ucast b = 0"
      by (rule bit_word_eqI) (auto simp: bit_simps dest: bit_imp_le_length)
    have "(push_bit 8 (ucast a) OR ucast b :: u16) = push_bit 8 (ucast a) + ucast b"
      using disj by (simp add: disjunctive_add_eq_or)
    also have "\<dots> = of_nat (unat a * 256 + unat b)"
      by (simp add: push_bit_eq_mult of_nat_unat)
    finally show ?thesis .
  qed
  ultimately show ?thesis
    by (simp add: get_u16_def numeral_2_eq_2)
qed

text \<open>Incrementing a counter that has not reached its last value does not wrap.\<close>

lemma unat_inc: "w \<noteq> - 1 \<Longrightarrow> unat (w + 1) = unat w + 1"
  by (metis Suc_eq_plus1 add.commute add_eq_0_iff unatSuc add.inverse_inverse)

lemma unat_inc_less: "w \<noteq> - 1 \<Longrightarrow> unat (w :: 'a::len word) + 1 < 2 ^ LENGTH('a)"
  using unat_inc [of w] unsigned_less [where ?'a = nat and w = "w + 1"] by simp

section \<open>Rendering numbers\<close>

definition hex_digit :: "nat \<Rightarrow> char" where
  "hex_digit n = (if n < 10 then char_of (48 + n) else char_of (87 + n))"

text \<open>\<open>encoding/hex.EncodeToString\<close>: two lower-case digits per byte.\<close>

definition hex_encode :: "byte list \<Rightarrow> string" where
  "hex_encode bs = concat (map (\<lambda>b. [hex_digit (unat b div 16), hex_digit (unat b mod 16)]) bs)"

text \<open>\<open>strconv.Itoa\<close> and \<open>%d\<close> on a non-negative number.\<close>

fun show_nat :: "nat \<Rightarrow> string" where
  "show_nat n =
     (if n < 10 then [char_of (48 + n)] else show_nat (n div 10) @ [char_of (48 + n mod 10)])"

declare show_nat.simps [simp del]

text \<open>\<open>big.Int.Text(16)\<close> on a non-negative number: lower-case digits, no leading zero.\<close>

fun show_hex :: "nat \<Rightarrow> string" where
  "show_hex n =
     (if n < 16 then [hex_digit n] else show_hex (n div 16) @ [hex_digit (n mod 16)])"

declare show_hex.simps [simp del]

lemma of_char_hex_digit: "n < 16 \<Longrightarrow> of_char (hex_digit n) = (if n < 10 then 48 + n else 87 + n :: nat)"
  by (simp add: hex_digit_def)

lemma hex_digit_inj: "m < 16 \<Longrightarrow> n < 16 \<Longrightarrow> hex_digit m = hex_digit n \<Longrightarrow> m = n"
proof -
  assume "m < 16" "n < 16" "hex_digit m = hex_digit n"
  then have "(if m < 10 then 48 + m else 87 + m) = (if n < 10 then 48 + n else 87 + n)"
    using of_char_hex_digit [of m] of_char_hex_digit [of n] by simp
  then show "m = n" by (simp split: if_splits)
qed

lemma byte_nibbles: "(b :: byte) = c \<longleftrightarrow> unat b div 16 = unat c div 16 \<and> unat b mod 16 = unat c mod 16"
  by (metis div_mult_mod_eq word_unat_eq_iff)

lemma length_hex_encode [simp]: "length (hex_encode bs) = 2 * length bs"
  by (induction bs) (auto simp: hex_encode_def)

lemma hex_encode_inj: "hex_encode bs = hex_encode cs \<longleftrightarrow> bs = cs"
proof (induction bs arbitrary: cs)
  case Nil
  then show ?case by (cases cs) (auto simp: hex_encode_def)
next
  case (Cons b bs)
  show ?case
  proof (cases cs)
    case (Cons c cs')
    have "unat b div 16 < 16" "unat c div 16 < 16"
      by (simp_all add: less_mult_imp_div_less)
    then have "hex_digit (unat b div 16) = hex_digit (unat c div 16) \<longleftrightarrow> unat b div 16 = unat c div 16"
      and "hex_digit (unat b mod 16) = hex_digit (unat c mod 16) \<longleftrightarrow> unat b mod 16 = unat c mod 16"
      by (metis hex_digit_inj, metis hex_digit_inj mod_less_divisor zero_less_numeral)
    with Cons Cons.IH [of cs'] show ?thesis
      by (simp add: hex_encode_def byte_nibbles [of b c] conj_assoc)
  qed (simp add: hex_encode_def)
qed

section \<open>Lists\<close>

lemma take_eq_append: "n \<le> length xs \<Longrightarrow> take n xs = ys \<Longrightarrow> xs = ys @ drop n xs"
  by (metis append_take_drop_id)

lemma split_at_2: "length bs = m + n \<Longrightarrow> take m bs @ take n (drop m bs) = bs"
  by (metis append_take_drop_id length_drop add_diff_cancel_left' take_all order_refl)

lemma list_2_exhaust: "length bs = 2 \<Longrightarrow> \<exists>a b. bs = [a, b]"
  by (cases bs; cases "tl bs") auto

lemma hd_drop_conv: "n < length xs \<Longrightarrow> drop n xs = xs ! n # drop (Suc n) xs"
  by (rule Cons_nth_drop_Suc [symmetric])

lemma nth_0_drop: "1 \<le> length xs \<Longrightarrow> xs ! 0 # drop 1 xs = xs"
  by (cases xs) auto

lemma nth_01_drop: "2 \<le> length xs \<Longrightarrow> xs ! 0 # xs ! 1 # drop 2 xs = xs"
  by (cases xs; cases "tl xs") auto

section \<open>Go maps\<close>

text \<open>
  A Go \<open>map\<close> is an association list without duplicate keys (\<open>gm_wf\<close>): look-up,
  assignment, \<open>delete\<close> and \<open>len\<close> are the library's association-list operations. Go
  iterates over a map in an unspecified order; a model that iterates takes the list's
  order, and no theorem depends on which order that is.
\<close>

type_synonym ('k, 'v) gomap = "('k \<times> 'v) list"

definition gm_get :: "('k, 'v) gomap \<Rightarrow> 'k \<Rightarrow> 'v option" where
  "gm_get m k = map_of m k"

definition gm_set :: "'k \<Rightarrow> 'v \<Rightarrow> ('k, 'v) gomap \<Rightarrow> ('k, 'v) gomap" where
  "gm_set k v m = AList.update k v m"

definition gm_del :: "'k \<Rightarrow> ('k, 'v) gomap \<Rightarrow> ('k, 'v) gomap" where
  "gm_del k m = AList.delete k m"

definition gm_has :: "('k, 'v) gomap \<Rightarrow> 'k \<Rightarrow> bool" where
  "gm_has m k \<longleftrightarrow> gm_get m k \<noteq> None"

definition gm_len :: "('k, 'v) gomap \<Rightarrow> nat" where
  "gm_len m = length m"

definition gm_keys :: "('k, 'v) gomap \<Rightarrow> 'k list" where
  "gm_keys m = map fst m"

definition gm_vals :: "('k, 'v) gomap \<Rightarrow> 'v list" where
  "gm_vals m = map snd m"

definition gm_wf :: "('k, 'v) gomap \<Rightarrow> bool" where
  "gm_wf m \<longleftrightarrow> distinct (map fst m)"

lemma gm_get_Nil [simp]: "gm_get [] k = None"
  by (simp add: gm_get_def)

lemma gm_wf_Nil [simp]: "gm_wf []"
  by (simp add: gm_wf_def)

lemma gm_len_Nil [simp]: "gm_len [] = 0"
  by (simp add: gm_len_def)

lemma gm_del_Nil [simp]: "gm_del k [] = []"
  by (simp add: gm_del_def)

lemma gm_keys_Nil [simp]: "gm_keys [] = []"
  by (simp add: gm_keys_def)

lemma gm_get_set [gomap_simps]: "gm_get (gm_set k v m) k' = (if k' = k then Some v else gm_get m k')"
  by (simp add: gm_get_def gm_set_def update_conv')

lemma gm_get_del [gomap_simps]: "gm_get (gm_del k m) k' = (if k' = k then None else gm_get m k')"
  by (simp add: gm_get_def gm_del_def delete_conv')

lemma gm_has_Nil [simp]: "\<not> gm_has [] k"
  by (simp add: gm_has_def)

lemma gm_has_set [gomap_simps]: "gm_has (gm_set k v m) k' \<longleftrightarrow> k' = k \<or> gm_has m k'"
  by (simp add: gm_has_def gm_get_set)

lemma gm_has_del [gomap_simps]: "gm_has (gm_del k m) k' \<longleftrightarrow> k' \<noteq> k \<and> gm_has m k'"
  by (simp add: gm_has_def gm_get_del)

lemma gm_wf_set [simp]: "gm_wf m \<Longrightarrow> gm_wf (gm_set k v m)"
  by (simp add: gm_wf_def gm_set_def distinct_update)

lemma gm_wf_del [simp]: "gm_wf m \<Longrightarrow> gm_wf (gm_del k m)"
  by (simp add: gm_wf_def gm_del_def distinct_delete)

lemma gm_keys_get: "k \<in> set (gm_keys m) \<longleftrightarrow> gm_get m k \<noteq> None"
  by (simp add: gm_keys_def gm_get_def map_of_eq_None_iff)

lemma gm_in_set: "gm_wf m \<Longrightarrow> (k, v) \<in> set m \<longleftrightarrow> gm_get m k = Some v"
  by (simp add: gm_wf_def gm_get_def)

lemma gm_get_in_set: "gm_get m k = Some v \<Longrightarrow> (k, v) \<in> set m"
  by (simp add: gm_get_def map_of_SomeD)

lemma gm_len_del_le [simp]: "gm_len (gm_del k m) \<le> gm_len m"
  by (simp add: gm_len_def gm_del_def AList.delete_eq)

lemma gm_len_set_new: "gm_get m k = None \<Longrightarrow> gm_len (gm_set k v m) = Suc (gm_len m)"
  by (induction m) (auto simp: gm_get_def gm_len_def gm_set_def split: if_splits)

lemma gm_len_set_le: "gm_len (gm_set k v m) \<le> Suc (gm_len m)"
  by (induction m) (auto simp: gm_len_def gm_set_def)

lemma gm_set_new: "gm_get m k = None \<Longrightarrow> gm_set k v m = m @ [(k, v)]"
  by (induction m) (auto simp: gm_get_def gm_set_def split: if_splits)

lemma gm_del_absent: "gm_get m k = None \<Longrightarrow> gm_del k m = m"
  by (induction m) (auto simp: gm_get_def gm_del_def AList.delete_eq split: if_splits)

lemma gm_del_set [gomap_simps]: "gm_wf m \<Longrightarrow> gm_get m k = None \<Longrightarrow> gm_del k (gm_set k v m) = m"
  by (simp add: gm_set_new) (simp add: gm_del_def AList.delete_eq gm_get_def map_of_eq_None_iff filter_id_conv, force)

text \<open>
  The multiset view of a map's entries, for counting arguments: deleting a present key
  removes exactly its one entry.
\<close>

lemma gm_filter_del:
  assumes "gm_wf m" and "gm_get m k = Some v"
  shows "length (filter P m) = length (filter P (gm_del k m)) + (if P (k, v) then 1 else 0)"
  using assms
proof (induction m)
  case (Cons e m)
  obtain k' v' where e: "e = (k', v')" by (cases e)
  show ?case
  proof (cases "k' = k")
    case True
    with Cons.prems e have "v' = v" and "gm_get m k = None"
      by (simp_all add: gm_get_def gm_wf_def map_of_eq_None_iff)
    then have "gm_del k (e # m) = m"
      using True e gm_del_absent [of m k] by (simp add: gm_del_def AList.delete_eq)
    with True e \<open>v' = v\<close> show ?thesis by simp
  next
    case False
    with Cons e show ?thesis
      by (simp add: gm_get_def gm_wf_def gm_del_def AList.delete_eq)
  qed
qed simp

lemma gm_len_del: "gm_wf m \<Longrightarrow> gm_get m k = Some v \<Longrightarrow> gm_len m = Suc (gm_len (gm_del k m))"
  using gm_filter_del [of m k v "\<lambda>_. True"] by (simp add: gm_len_def)

text \<open>
  The contract of a Go map, as the components rely on it, and its interpretation on the
  operations above.
\<close>

locale go_map =
  fixes get :: "'m \<Rightarrow> 'k \<Rightarrow> 'v option"
    and set_key :: "'k \<Rightarrow> 'v \<Rightarrow> 'm \<Rightarrow> 'm"
    and del :: "'k \<Rightarrow> 'm \<Rightarrow> 'm"
    and size_of :: "'m \<Rightarrow> nat"
    and wf :: "'m \<Rightarrow> bool"
  assumes get_set: "get (set_key k v m) k' = (if k' = k then Some v else get m k')"
    and get_del: "get (del k m) k' = (if k' = k then None else get m k')"
    and wf_set: "wf m \<Longrightarrow> wf (set_key k v m)"
    and wf_del: "wf m \<Longrightarrow> wf (del k m)"
    and size_set: "size_of (set_key k v m) \<le> Suc (size_of m)"
    and size_del: "size_of (del k m) \<le> size_of m"
begin

lemma bounded_insert:
  "wf m \<Longrightarrow> size_of m < n \<Longrightarrow> wf (set_key k v m) \<and> size_of (set_key k v m) \<le> n"
  using wf_set size_set [of k v m] by fastforce

lemma bounded_delete:
  "wf m \<Longrightarrow> size_of m \<le> n \<Longrightarrow> wf (del k m) \<and> size_of (del k m) \<le> n"
  using wf_del size_del [of k m] le_trans by blast

lemma insert_keeps: "get m k' = Some v' \<Longrightarrow> k' \<noteq> k \<Longrightarrow> get (set_key k v m) k' = Some v'"
  by (simp add: get_set)

lemma delete_keeps: "get m k' = Some v' \<Longrightarrow> k' \<noteq> k \<Longrightarrow> get (del k m) k' = Some v'"
  by (simp add: get_del)

end

interpretation gm: go_map gm_get gm_set gm_del gm_len gm_wf
  by unfold_locales (simp_all add: gomap_simps gm_len_set_le)

section \<open>State machines\<close>

text \<open>
  The contract of a step relation and the sequences of its steps: what holds of the former
  carries over to the latter.
\<close>

locale step_system =
  fixes step :: "'s \<Rightarrow> 's \<Rightarrow> bool" and steps :: "'s \<Rightarrow> 's \<Rightarrow> bool"
  assumes steps_star: "steps s t \<longleftrightarrow> rtranclp step s t"
begin

lemma one: "step s t \<Longrightarrow> steps s t"
  by (simp add: steps_star)

lemma trans: "steps t u \<Longrightarrow> steps s t \<Longrightarrow> steps s u"
  unfolding steps_star by (rule rtranclp_trans)

lemma keeps:
  assumes "\<And>s t. step s t \<Longrightarrow> P s \<Longrightarrow> P t" and "steps s t" and "P s"
  shows "P t"
  using assms(2,3) unfolding steps_star by (induction rule: rtranclp_induct) (auto intro: assms(1))

end

end
