(* ===== verification/Go_Errors.thy ===== *)
theory Go_Errors
  imports Prelude
begin

text \<open>
  Go's \<open>error\<close> values. The sentinels are the package-level error variables that callers
  compare against with \<open>errors.Is\<close> (and the two TLS error types they test with
  \<open>errors.As\<close>); \<open>Msg\<close> is an error built from text alone, \<open>Wrap\<close> and \<open>Wrap2\<close>
  are the results of \<open>fmt.Errorf\<close> with one or two \<open>%w\<close> verbs and the text around
  them. \<open>Fault\<close> is a lower-level failure (a socket, a file, a system call) the code only
  passes on.
\<close>

section \<open>Errors\<close>

datatype sentinel =
    EOF
  | ErrUnexpectedEOF
  | ErrShortWrite
  | ErrClosedConn
  | ErrNotExist
  | ErrCanceled
  | ErrDeadlineExceeded
  | ErrNoSuchSession
  | ErrModeMismatch
  | ErrPublisherExists
  | ErrPortsMismatch
  | ErrDenied
  | ErrPublishClaim
  | ErrProtocolMismatch
  | ErrSessionClosed
  | ErrInvalidHostPort
  | ErrInvalidRange
  | ErrUsage
  | RelayPublisherExists
  | RelayNoSuchSession
  | RelaySessionKilled
  | RelayAmbiguousTag
  | RelayModeMismatch
  | RelayPortsMismatch
  | RelayPortOutOfRange
  | RelayNotPublisherCert
  | CertVerification
  | RemoteTLSAlert

datatype error =
    Sentinel sentinel
  | Fault nat
  | Msg string
  | Wrap string error string
  | Wrap2 error string error

type_synonym 'a result = "error + 'a"

text \<open>\<open>errors.Is\<close> against a sentinel: the wrapped errors are searched.\<close>

fun errors_is :: "error \<Rightarrow> sentinel \<Rightarrow> bool" where
  "errors_is (Sentinel s) t \<longleftrightarrow> s = t"
| "errors_is (Fault n) t \<longleftrightarrow> False"
| "errors_is (Msg m) t \<longleftrightarrow> False"
| "errors_is (Wrap p e q) t \<longleftrightarrow> errors_is e t"
| "errors_is (Wrap2 a m b) t \<longleftrightarrow> errors_is a t \<or> errors_is b t"

fun sentinel_text :: "sentinel \<Rightarrow> string" where
  "sentinel_text EOF = ''EOF''"
| "sentinel_text ErrUnexpectedEOF = ''unexpected EOF''"
| "sentinel_text ErrShortWrite = ''short write''"
| "sentinel_text ErrClosedConn = ''use of closed network connection''"
| "sentinel_text ErrNotExist = ''file does not exist''"
| "sentinel_text ErrCanceled = ''context canceled''"
| "sentinel_text ErrDeadlineExceeded = ''i/o timeout''"
| "sentinel_text ErrNoSuchSession = ''no active session for this token''"
| "sentinel_text ErrModeMismatch = ''mode does not match this session's publisher''"
| "sentinel_text ErrPublisherExists = ''this session already has an active publisher''"
| "sentinel_text ErrPortsMismatch = ''port count does not match this session's publisher''"
| "sentinel_text ErrDenied = ''relay denied this peer''"
| "sentinel_text ErrPublishClaim = ''publish claim rejected''"
| "sentinel_text ErrProtocolMismatch =
     ''relay protocol mismatch; upgrade relay, share, and listen together''"
| "sentinel_text ErrSessionClosed = ''session ended''"
| "sentinel_text ErrInvalidHostPort = ''hostport: invalid host:port''"
| "sentinel_text ErrInvalidRange = ''hostport: invalid port range''"
| "sentinel_text ErrUsage = ''invalid arguments''"
| "sentinel_text RelayPublisherExists = ''session already has an active publisher''"
| "sentinel_text RelayNoSuchSession = ''no active session for this identifier''"
| "sentinel_text RelaySessionKilled = ''session was ended by an operator''"
| "sentinel_text RelayAmbiguousTag = ''session tag matches more than one session''"
| "sentinel_text RelayModeMismatch = ''mode does not match this session's publisher''"
| "sentinel_text RelayPortsMismatch = ''port count does not match this session's publisher''"
| "sentinel_text RelayPortOutOfRange = ''port index is past the end of this session's range''"
| "sentinel_text RelayNotPublisherCert =
     ''data connection certificate does not match this session's publisher''"
| "sentinel_text CertVerification = ''tls: failed to verify certificate''"
| "sentinel_text RemoteTLSAlert = ''remote error: tls: alert''"

fun error_text :: "error \<Rightarrow> string" where
  "error_text (Sentinel s) = sentinel_text s"
| "error_text (Fault n) = ''fault '' @ show_nat n"
| "error_text (Msg m) = m"
| "error_text (Wrap p e q) = p @ error_text e @ q"
| "error_text (Wrap2 a m b) = error_text a @ m @ error_text b"

text \<open>
  The \<open>%q\<close> verb: a double-quoted text with Go's escapes for quotes, backslashes and control
  characters. Bytes above 127 are taken to be printable UTF-8 and stay as they are.
\<close>

definition quote_char :: "char \<Rightarrow> string" where
  "quote_char c =
     (let n = of_char c :: nat; esc = (\<lambda>m. [CHR 0x5C, char_of (m :: nat)])
      in if n = 34 \<or> n = 92 then esc n
         else if n = 7 then esc 97 else if n = 8 then esc 98 else if n = 9 then esc 116
         else if n = 10 then esc 110 else if n = 11 then esc 118 else if n = 12 then esc 102
         else if n = 13 then esc 114
         else if n < 32 \<or> n = 127
         then esc 120 @ [hex_digit (n div 16), hex_digit (n mod 16)]
         else [c])"

definition go_quote :: "string \<Rightarrow> string" where
  "go_quote s = [CHR 0x22] @ concat (map quote_char s) @ [CHR 0x22]"

text \<open>
  \<open>wrap p e\<close> is the common \<open>fmt.Errorf("p: %w", e)\<close>; \<open>on_error\<close> applies it to the
  error of a result and leaves a success alone.
\<close>

definition wrap :: "string \<Rightarrow> error \<Rightarrow> error" where
  "wrap p e = Wrap (p @ '': '') e []"

definition on_error :: "(error \<Rightarrow> error) \<Rightarrow> 'a result \<Rightarrow> 'a result" where
  "on_error f r = (case r of Inl e \<Rightarrow> Inl (f e) | Inr a \<Rightarrow> Inr a)"

lemma errors_is_wrap [simp]: "errors_is (wrap p e) t = errors_is e t"
  by (simp add: wrap_def)

lemma on_error_simps [simp]:
  "on_error f (Inl e) = Inl (f e)" "on_error f (Inr a) = Inr a"
  by (simp_all add: on_error_def)

lemma on_error_Inr_iff [simp]: "on_error f r = Inr a \<longleftrightarrow> r = Inr a"
  by (cases r) auto

end
