(* ===== verification/Certs.thy ===== *)
theory Certs
  imports Go_Errors
begin

text \<open>
  Certificates as the relay looks at them (\<^verbatim>\<open>internal/ca/ca.go\<close>, \<open>peerIdentity\<close> of
  \<^verbatim>\<open>internal/relay/registry.go\<close>): the raw DER bytes, the common name, the serial number
  and the extended key usages \<^verbatim>\<open>crypto/x509\<close> has no name for.
\<close>

section \<open>Certificates\<close>

record cert =
  cRaw :: "byte list"
  cCN :: string
  cSerial :: nat
  cUnknownEKU :: "nat list list"

text \<open>\<open>SerialNumber.Text(SerialTextBase)\<close>: lower-case hexadecimal, as \<open>ca crl\<close> writes it.\<close>

definition SerialTextBase :: nat where "SerialTextBase = 16"

definition serial_text :: "cert \<Rightarrow> string" where
  "serial_text c = show_hex (cSerial c)"

text \<open>\<open>Certificate.Equal\<close> compares the DER bytes.\<close>

definition cert_equal :: "cert \<Rightarrow> cert \<Rightarrow> bool" where
  "cert_equal a b \<longleftrightarrow> cRaw a = cRaw b"

definition adminEKUEnterprise :: nat where "adminEKUEnterprise = 62841"
definition adminEKULeaf :: nat where "adminEKULeaf = 1"

definition AdminEKU :: "nat list" where
  "AdminEKU = [1, 3, 6, 1, 4, 1, adminEKUEnterprise, 1, adminEKULeaf]"

fun has_oid :: "nat list \<Rightarrow> nat list list \<Rightarrow> bool" where
  "has_oid oid [] = False"
| "has_oid oid (u # us) = (if u = oid then True else has_oid oid us)"

definition HasAdminEKU :: "cert option \<Rightarrow> bool" where
  "HasAdminEKU ct =
     (case ct of None \<Rightarrow> False | Some c \<Rightarrow> has_oid AdminEKU (cUnknownEKU c))"

lemma HasAdminEKU_iff: "HasAdminEKU ct \<longleftrightarrow> (\<exists>c. ct = Some c \<and> AdminEKU \<in> set (cUnknownEKU c))"
proof -
  have "has_oid oid us \<longleftrightarrow> oid \<in> set us" for oid us by (induction us) auto
  then show ?thesis by (simp add: HasAdminEKU_def split: option.split)
qed

section \<open>Identities\<close>

record peer_identity =
  pCN :: string
  pSerial :: string
  pAddr :: string

definition identityOf :: "cert option \<Rightarrow> string option \<Rightarrow> peer_identity" where
  "identityOf c addr =
     (let i = \<lparr>pCN = [], pSerial = [], pAddr = []\<rparr>;
          i1 = (case addr of None \<Rightarrow> i | Some a \<Rightarrow> i\<lparr>pAddr := a\<rparr>)
      in case c of None \<Rightarrow> i1 | Some ct \<Rightarrow> i1\<lparr>pCN := cCN ct, pSerial := serial_text ct\<rparr>)"

text \<open>The serial texts of two certificates agree exactly when their serial numbers do.\<close>

lemma show_hex_nonempty [simp]: "show_hex n \<noteq> []"
  by (subst show_hex.simps) simp

lemma show_hex_inj: "show_hex m = show_hex n \<Longrightarrow> m = n"
proof (induction m arbitrary: n rule: show_hex.induct)
  case (1 m)
  show ?case
  proof (cases "m < 16"; cases "n < 16")
    assume "m < 16" "n < 16"
    with 1 show ?case using hex_digit_inj by (simp add: show_hex.simps [of m] show_hex.simps [of n])
  next
    assume "m < 16" "\<not> n < 16"
    with 1 have "[] = show_hex (n div 16)" by (simp add: show_hex.simps [of m] show_hex.simps [of n])
    then show ?case using show_hex_nonempty [of "n div 16"] by simp
  next
    assume "\<not> m < 16" "n < 16"
    with 1 have "show_hex (m div 16) = []" by (simp add: show_hex.simps [of m] show_hex.simps [of n])
    then show ?case by simp
  next
    assume a: "\<not> m < 16" "\<not> n < 16"
    with "1.prems" have "show_hex (m div 16) = show_hex (n div 16)" "hex_digit (m mod 16) = hex_digit (n mod 16)"
      by (simp_all add: show_hex.simps [of m] show_hex.simps [of n])
    with a "1.IH" have "m div 16 = n div 16" "m mod 16 = n mod 16"
      using hex_digit_inj [of "m mod 16" "n mod 16"] by auto
    then show ?case by (metis div_mult_mod_eq)
  qed
qed

lemma serial_text_inj: "serial_text a = serial_text b \<longleftrightarrow> cSerial a = cSerial b"
  using show_hex_inj by (auto simp: serial_text_def)

lemma serial_text_nonempty [simp]: "serial_text c \<noteq> []"
  by (simp add: serial_text_def)

end
