(* ===== verification/Go_IO.thy ===== *)
theory Go_IO
  imports Go_Errors
begin

text \<open>
  Byte streams. A \<open>conn\<close> is one end of a full-duplex connection as the code sees it: the
  bytes that will arrive and the error every read returns after them, the bytes written so
  far, a script for the outcomes of the coming writes (an empty script is a writer that
  never fails) and whether this end closed it. Deadlines are not timed: a deadline that
  fires is the error \<open>inerr\<close>, or a failing write of the script.

  \<open>read_full\<close> is \<open>io.ReadFull\<close>, \<open>conn_write\<close> a \<open>Write\<close> call and \<open>writeFull\<close> the
  helper of \<^verbatim>\<open>internal/proto/auth.go\<close>.
\<close>

section \<open>Connections\<close>

record conn =
  inb :: "byte list"
  inerr :: error
  outb :: "byte list"
  wscript :: "(nat \<times> error option) list"
  shut :: bool

definition new_conn :: "byte list \<Rightarrow> conn" where
  "new_conn bs = \<lparr>inb = bs, inerr = Sentinel EOF, outb = [], wscript = [], shut = False\<rparr>"

definition conn_close :: "'a conn_scheme \<Rightarrow> 'a conn_scheme" where
  "conn_close c = c\<lparr>shut := True\<rparr>"

section \<open>Reading\<close>

text \<open>
  \<open>io.ReadFull\<close>: an empty buffer needs no read; a stream that ends before the first byte
  gives \<open>io.EOF\<close>, one that ends part-way gives \<open>io.ErrUnexpectedEOF\<close>; any other error
  is returned as it is. What arrived before the error is gone either way.
\<close>

definition read_full :: "nat \<Rightarrow> 'a conn_scheme \<Rightarrow> byte list result \<times> 'a conn_scheme" where
  "read_full n c =
     (if n = 0 then (Inr [], c)
      else if shut c then (Inl (Sentinel ErrClosedConn), c)
      else if n \<le> length (inb c) then (Inr (take n (inb c)), c\<lparr>inb := drop n (inb c)\<rparr>)
      else (Inl (if inb c \<noteq> [] \<and> inerr c = Sentinel EOF
                 then Sentinel ErrUnexpectedEOF else inerr c), c\<lparr>inb := []\<rparr>))"

lemma inb_update_id [simp]: "c\<lparr>inb := inb c\<rparr> = c"
  by (cases c) simp

lemma read_full_InrD:
  "read_full n c = (Inr bs, c') \<Longrightarrow>
   n \<le> length (inb c) \<and> bs = take n (inb c) \<and> c' = c\<lparr>inb := drop n (inb c)\<rparr>"
  unfolding read_full_def by (cases "n = 0") (simp_all split: if_split_asm)

lemma read_full_Inr:
  assumes "read_full n c = (Inr bs, c')"
  shows "length bs = n" and "inb c = bs @ inb c'"
  using read_full_InrD [OF assms] by simp_all

lemma read_full_split:
  "read_full n c = (Inr bs, c') \<Longrightarrow> length bs = n \<and> inb c = bs @ inb c'"
  using read_full_Inr by blast

lemma read_full_ok:
  "\<not> shut c \<Longrightarrow> inb c = bs @ rest \<Longrightarrow> length bs = n \<Longrightarrow>
   read_full n c = (Inr bs, c\<lparr>inb := rest\<rparr>)"
  by (auto simp: read_full_def)

lemma read_full_short:
  "length (inb c) < n \<Longrightarrow> \<exists>e c'. read_full n c = (Inl e, c')"
  by (auto simp: read_full_def)

text \<open>No read touches the write side, or whether the connection is closed.\<close>

lemma read_full_frame:
  "read_full n c = (r, c') \<Longrightarrow>
   outb c' = outb c \<and> wscript c' = wscript c \<and> shut c' = shut c \<and> inerr c' = inerr c \<and>
   conn.more c' = conn.more c"
  by (auto simp: read_full_def split: if_splits)

lemma read_full_shrinks:
  "read_full n c = (r, c') \<Longrightarrow> length (inb c') \<le> length (inb c)"
  by (auto simp: read_full_def split: if_splits)

section \<open>Writing\<close>

text \<open>
  One \<open>Write\<close> call returns how many bytes it took and an error. The next entry of the
  script decides; without one the whole slice is taken. A write on a connection this end
  has closed fails at once.
\<close>

definition conn_write ::
  "byte list \<Rightarrow> 'a conn_scheme \<Rightarrow> (nat \<times> error option) \<times> 'a conn_scheme" where
  "conn_write p c =
     (if shut c then ((0, Some (Sentinel ErrClosedConn)), c)
      else case wscript c of
        [] \<Rightarrow> ((length p, None), c\<lparr>outb := outb c @ p\<rparr>)
      | (n, e) # ws \<Rightarrow>
          ((min n (length p), e), c\<lparr>outb := outb c @ take n p, wscript := ws\<rparr>))"

definition writeFull :: "byte list \<Rightarrow> 'a conn_scheme \<Rightarrow> error option \<times> 'a conn_scheme" where
  "writeFull p c =
     (case conn_write p c of
        ((n, e), c') \<Rightarrow>
          if e = None \<and> n \<noteq> length p then (Some (Sentinel ErrShortWrite), c') else (e, c'))"

text \<open>A write that reports success delivered every byte; a failed one at most a prefix.\<close>

lemma writeFull_None:
  "writeFull p c = (None, c') \<Longrightarrow> outb c' = outb c @ p \<and> \<not> shut c"
  by (auto simp: writeFull_def conn_write_def min_def split: if_splits list.splits prod.splits)

lemma writeFull_prefix:
  "writeFull p c = (r, c') \<Longrightarrow> \<exists>k. outb c' = outb c @ take k p"
  by (auto simp: writeFull_def conn_write_def split: if_splits list.splits prod.splits
      intro: exI [of _ 0] exI [of _ "length p"])

lemma writeFull_frame:
  "writeFull p c = (r, c') \<Longrightarrow>
   inb c' = inb c \<and> shut c' = shut c \<and> inerr c' = inerr c \<and> conn.more c' = conn.more c"
  by (auto simp: writeFull_def conn_write_def split: if_splits list.splits prod.splits)

lemma writeFull_ok:
  "\<not> shut c \<Longrightarrow> wscript c = [] \<Longrightarrow> writeFull p c = (None, c\<lparr>outb := outb c @ p\<rparr>)"
  by (simp add: writeFull_def conn_write_def)

lemma writeFull_short:
  "\<not> shut c \<Longrightarrow> wscript c = (n, None) # ws \<Longrightarrow> n < length p \<Longrightarrow>
   fst (writeFull p c) = Some (Sentinel ErrShortWrite)"
  by (simp add: writeFull_def conn_write_def)

section \<open>Message readers\<close>

text \<open>
  Most of the wire format has one shape: a fixed number of bytes is read with
  \<open>io.ReadFull\<close>, any failure is wrapped with the message's name, and the buffer is then
  decoded and validated. \<open>read_msg\<close> is that shape; the codecs below instantiate it.
\<close>

definition read_msg ::
  "string \<Rightarrow> nat \<Rightarrow> (byte list \<Rightarrow> 'm result) \<Rightarrow> 'a conn_scheme \<Rightarrow> 'm result \<times> 'a conn_scheme" where
  "read_msg name n dec c =
     (case read_full n c of
        (Inl e, c') \<Rightarrow> (Inl (wrap name e), c')
      | (Inr buf, c') \<Rightarrow> (dec buf, c'))"

definition write_msg ::
  "string \<Rightarrow> byte list \<Rightarrow> 'a conn_scheme \<Rightarrow> unit result \<times> 'a conn_scheme" where
  "write_msg name bs c =
     (case writeFull bs c of
        (Some e, c') \<Rightarrow> (Inl (wrap name e), c')
      | (None, c') \<Rightarrow> (Inr (), c'))"

lemma write_msg_Inr:
  "write_msg name bs c = (Inr u, c') \<Longrightarrow> outb c' = outb c @ bs \<and> inb c' = inb c"
  by (auto simp: write_msg_def split: prod.splits option.splits
      dest: writeFull_None writeFull_frame)

lemma write_msg_ok:
  "\<not> shut c \<Longrightarrow> wscript c = [] \<Longrightarrow>
   write_msg name bs c = (Inr (), c\<lparr>outb := outb c @ bs\<rparr>)"
  by (simp add: write_msg_def writeFull_ok)

lemma write_msg_frame:
  "write_msg name bs c = (r, c') \<Longrightarrow>
   inb c' = inb c \<and> shut c' = shut c \<and> inerr c' = inerr c \<and> conn.more c' = conn.more c"
  by (auto simp: write_msg_def split: prod.splits option.splits dest: writeFull_frame)

lemma read_msg_frame:
  "read_msg name n dec c = (r, c') \<Longrightarrow>
   outb c' = outb c \<and> wscript c' = wscript c \<and> shut c' = shut c \<and> inerr c' = inerr c \<and>
   conn.more c' = conn.more c"
  by (auto simp: read_msg_def split: prod.splits sum.splits dest: read_full_frame)

lemma read_msg_Inr:
  "read_msg name n dec c = (Inr m, c') \<Longrightarrow>
   \<exists>buf. length buf = n \<and> inb c = buf @ inb c' \<and> dec buf = Inr m"
  by (auto simp: read_msg_def split: prod.splits sum.splits dest: read_full_Inr)

lemma read_msg_ok:
  "\<not> shut c \<Longrightarrow> inb c = buf @ rest \<Longrightarrow> length buf = n \<Longrightarrow>
   read_msg name n dec c = (dec buf, c\<lparr>inb := rest\<rparr>)"
  by (simp add: read_msg_def read_full_ok)

text \<open>
  The contract of a fixed-width message: valid messages encode to \<open>width\<close> bytes, decoding
  inverts encoding, and whatever decodes is valid and was its encoding. From these follow
  the round trip over a connection, in both directions, and that a stream of messages is
  read back as it was written.
\<close>

locale fixed_codec =
  fixes enc :: "'m \<Rightarrow> byte list"
    and dec :: "byte list \<Rightarrow> 'm result"
    and valid :: "'m \<Rightarrow> bool"
    and width :: nat
  assumes enc_width: "valid m \<Longrightarrow> length (enc m) = width"
    and dec_enc: "valid m \<Longrightarrow> dec (enc m) = Inr m"
    and dec_sound: "length bs = width \<Longrightarrow> dec bs = Inr m \<Longrightarrow> valid m \<and> enc m = bs"
begin

lemma enc_inj: "valid m \<Longrightarrow> valid m' \<Longrightarrow> enc m = enc m' \<longleftrightarrow> m = m'"
  by (metis dec_enc sum.inject(2))

lemma enc_prefix_free: "valid m \<Longrightarrow> valid m' \<Longrightarrow> enc m @ xs = enc m' @ ys \<longleftrightarrow> m = m' \<and> xs = ys"
  using enc_width enc_inj by (metis append_eq_append_conv)

lemma read_enc:
  "valid m \<Longrightarrow> \<not> shut c \<Longrightarrow> inb c = enc m @ rest \<Longrightarrow>
   read_msg name width dec c = (Inr m, c\<lparr>inb := rest\<rparr>)"
  by (simp add: read_msg_ok enc_width dec_enc)

lemma read_sound:
  "read_msg name width dec c = (Inr m, c') \<Longrightarrow> valid m \<and> inb c = enc m @ inb c'"
  using read_msg_Inr dec_sound by metis

lemma read_iff:
  "\<not> shut c \<Longrightarrow>
   (\<exists>c'. read_msg name width dec c = (Inr m, c') \<and> inb c' = rest) \<longleftrightarrow>
   valid m \<and> inb c = enc m @ rest"
  using read_sound read_enc by fastforce

end

end
