(* ===== verification/Wire_Hello.thy ===== *)
theory Wire_Hello
  imports Go_IO
begin

text \<open>
  The first message on a control connection and relay's answer to it
  (\<^verbatim>\<open>internal/proto/hello.go\<close>): \<open>Role\<close>, \<open>Mode\<close>, \<open>Hello\<close> with its fixed-width
  encoding, and \<open>AckStatus\<close>. Go's \<open>uint8\<close> enumerations admit any byte, so they are
  bytes here too and the constants are values of that type; a \<open>[16]byte\<close> is a byte list
  whose length is part of the message's validity.
\<close>

section \<open>Roles, modes and identifiers\<close>

type_synonym role = byte
type_synonym mode = byte
type_synonym ack_status = byte
type_synonym subscriber_id = u64
type_synonym port_index = u16
type_synonym session_id = "byte list"

definition ALPN :: string where
  "ALPN = ''ggrok/3''"

definition RolePublish :: role where [go_consts]: "RolePublish = 1"
definition RoleSubscribe :: role where [go_consts]: "RoleSubscribe = 2"
definition ModeTCP :: mode where [go_consts]: "ModeTCP = 1"
definition SessionIDSize :: nat where [go_consts]: "SessionIDSize = 16"
definition DataSecretSize :: nat where [go_consts]: "DataSecretSize = 16"

definition mode_String :: "mode \<Rightarrow> string" where
  "mode_String m =
     (if m = ModeTCP then ''tcp'' else ''invalid mode ('' @ show_nat (unat m) @ '')'')"

definition roleByteSize :: nat where [go_consts]: "roleByteSize = 1"
definition modeByteSize :: nat where [go_consts]: "modeByteSize = 1"
definition portsByteSize :: nat where [go_consts]: "portsByteSize = 2"
definition helloPortsOffset :: nat where [go_consts]: "helloPortsOffset = 2"

definition helloSize :: nat where
  "helloSize = roleByteSize + modeByteSize + portsByteSize + SessionIDSize"

definition helloSessionOffset :: nat where
  "helloSessionOffset = helloPortsOffset + 2"

lemma hello_sizes [simp]: "helloSize = 20" "helloSessionOffset = 4"
  by (simp_all add: helloSize_def helloSessionOffset_def go_consts)

section \<open>Hello\<close>

record hello =
  hRole :: role
  hMode :: mode
  hSessionID :: session_id
  hPorts :: u16

text \<open>The validity checks \<open>WriteHello\<close> and \<open>ReadHello\<close> share, in their order.\<close>

definition check_hello :: "string \<Rightarrow> hello \<Rightarrow> hello result" where
  "check_hello what h =
     (if hRole h \<noteq> RolePublish \<and> hRole h \<noteq> RoleSubscribe
      then Inl (Msg (what @ '': invalid role '' @ show_nat (unat (hRole h))))
      else if hMode h \<noteq> ModeTCP
      then Inl (Msg (what @ '': invalid mode '' @ show_nat (unat (hMode h))))
      else if hPorts h = 0
      then Inl (Msg (what @ '': port count must be at least 1''))
      else Inr h)"

definition encodeHello :: "hello \<Rightarrow> byte list" where
  "encodeHello h = [hRole h, hMode h] @ put_u16 (hPorts h) @ hSessionID h"

definition WriteHello :: "hello \<Rightarrow> 'a conn_scheme \<Rightarrow> unit result \<times> 'a conn_scheme" where
  "WriteHello h c =
     (case check_hello ''write hello'' h of
        Inl e \<Rightarrow> (Inl e, c)
      | Inr h' \<Rightarrow> write_msg ''write hello'' (encodeHello h') c)"

definition decodeHello :: "byte list \<Rightarrow> hello result" where
  "decodeHello buf =
     check_hello ''read hello''
       \<lparr>hRole = buf ! 0, hMode = buf ! 1,
        hSessionID = take SessionIDSize (drop helloSessionOffset buf),
        hPorts = get_u16 (drop helloPortsOffset buf)\<rparr>"

definition ReadHello :: "'a conn_scheme \<Rightarrow> hello result \<times> 'a conn_scheme" where
  "ReadHello c = read_msg ''read hello'' helloSize decodeHello c"

text \<open>What a \<open>Hello\<close> on the wire may say.\<close>

definition hello_valid :: "hello \<Rightarrow> bool" where
  "hello_valid h \<longleftrightarrow>
     hRole h \<in> {RolePublish, RoleSubscribe} \<and> hMode h = ModeTCP \<and> hPorts h \<noteq> 0 \<and>
     length (hSessionID h) = SessionIDSize"

lemma check_hello_Inr [simp]:
  "check_hello what h = Inr h' \<longleftrightarrow>
   h' = h \<and> hRole h \<in> {RolePublish, RoleSubscribe} \<and> hMode h = ModeTCP \<and> hPorts h \<noteq> 0"
  by (auto simp: check_hello_def)

lemma length_encodeHello:
  "length (hSessionID h) = SessionIDSize \<Longrightarrow> length (encodeHello h) = helloSize"
  by (simp add: encodeHello_def go_consts)

lemma decode_encodeHello: "hello_valid h \<Longrightarrow> decodeHello (encodeHello h) = Inr h"
  by (cases h) (auto simp: decodeHello_def encodeHello_def hello_valid_def go_consts drop_append)

lemma decodeHello_sound:
  assumes "length bs = helloSize" and "decodeHello bs = Inr h"
  shows "hello_valid h \<and> encodeHello h = bs"
proof -
  let ?h = "\<lparr>hRole = bs ! 0, hMode = bs ! 1, hSessionID = take 16 (drop 4 bs),
             hPorts = get_u16 (drop 2 bs)\<rparr>"
  from assms have h: "h = ?h" and valid: "hello_valid h"
    by (auto simp: decodeHello_def hello_valid_def go_consts)
  have "put_u16 (get_u16 (drop 2 bs)) = take 2 (drop 2 bs)"
    using assms(1) put_get_u16 [of "take 2 (drop 2 bs)"] by (simp add: get_u16_def)
  then have "encodeHello h = [bs ! 0, bs ! 1] @ take 2 (drop 2 bs) @ take 16 (drop 4 bs)"
    by (simp add: encodeHello_def h)
  also have "\<dots> = bs"
    using assms(1) nth_01_drop [of bs] split_at_2 [of "drop 2 bs" 2 16] by simp
  finally show ?thesis using valid by simp
qed

interpretation hello_codec: fixed_codec encodeHello decodeHello hello_valid helloSize
  by unfold_locales
    (use length_encodeHello decode_encodeHello decodeHello_sound in \<open>auto simp: hello_valid_def\<close>)

lemma WriteHello_Inr:
  "WriteHello h c = (Inr u, c') \<Longrightarrow> outb c' = outb c @ encodeHello h \<and> inb c' = inb c"
  by (auto simp: WriteHello_def split: sum.splits dest: write_msg_Inr)

lemma ReadHello_sound:
  "ReadHello c = (Inr h, c') \<Longrightarrow> hello_valid h \<and> inb c = encodeHello h @ inb c'"
  unfolding ReadHello_def by (rule hello_codec.read_sound)

section \<open>Acks\<close>

definition AckOK :: ack_status where [go_consts]: "AckOK = 0"
definition AckNoSuchSession :: ack_status where [go_consts]: "AckNoSuchSession = 1"
definition AckModeMismatch :: ack_status where [go_consts]: "AckModeMismatch = 2"
definition AckPublisherExists :: ack_status where [go_consts]: "AckPublisherExists = 3"
definition AckPortsMismatch :: ack_status where [go_consts]: "AckPortsMismatch = 4"
definition AckDenied :: ack_status where [go_consts]: "AckDenied = 5"

definition ack_Err :: "ack_status \<Rightarrow> error option" where
  "ack_Err s =
     (if s = AckOK then None
      else if s = AckNoSuchSession then Some (Sentinel ErrNoSuchSession)
      else if s = AckModeMismatch then Some (Sentinel ErrModeMismatch)
      else if s = AckPublisherExists then Some (Sentinel ErrPublisherExists)
      else if s = AckPortsMismatch then Some (Sentinel ErrPortsMismatch)
      else if s = AckDenied then Some (Sentinel ErrDenied)
      else Some (Msg (''unknown ack status '' @ show_nat (unat s))))"

definition WriteAck :: "ack_status \<Rightarrow> 'a conn_scheme \<Rightarrow> unit result \<times> 'a conn_scheme" where
  "WriteAck s c = write_msg ''write ack'' [s] c"

definition ReadAck :: "'a conn_scheme \<Rightarrow> ack_status result \<times> 'a conn_scheme" where
  "ReadAck c = read_msg ''read ack'' 1 (\<lambda>buf. Inr (buf ! 0)) c"

interpretation ack_codec: fixed_codec "\<lambda>s :: ack_status. [s]" "\<lambda>buf. Inr (buf ! 0)" "\<lambda>_. True" 1
  by unfold_locales (auto simp: length_Suc_conv)

lemma WriteAck_frame:
  "WriteAck s c = (r, c') \<Longrightarrow> inb c' = inb c \<and> shut c' = shut c \<and> inerr c' = inerr c"
  unfolding WriteAck_def by (drule write_msg_frame) simp

lemma WriteAck_Inr: "WriteAck s c = (Inr u, c') \<Longrightarrow> outb c' = outb c @ [s]"
  unfolding WriteAck_def by (drule write_msg_Inr) simp

section \<open>Properties\<close>

text \<open>
  A \<open>Hello\<close> crosses the wire unchanged, and only a valid one crosses. What a successful
  \<open>WriteHello\<close> appends to the stream, \<open>ReadHello\<close> at the other end decodes to the same
  message, leaving whatever follows unread; and \<open>ReadHello\<close> succeeds on nothing but the
  encoding of a valid message (a known role and mode and a port count of at least one).
\<close>

theorem hello_roundtrip:
  assumes "WriteHello h c = (Inr u, c')" and "length (hSessionID h) = SessionIDSize"
    and "\<not> shut d" and "inb d = drop (length (outb c)) (outb c') @ rest"
  shows "ReadHello d = (Inr h, d\<lparr>inb := rest\<rparr>) \<and> hello_valid h \<and>
    (\<forall>d' h2 d2. ReadHello d' = (Inr h2, d2) \<longrightarrow> hello_valid h2 \<and> inb d' = encodeHello h2 @ inb d2)"
proof -
  have "hello_valid h"
    using assms(1,2) by (auto simp: WriteHello_def hello_valid_def split: sum.splits)
  moreover have "inb d = encodeHello h @ rest"
    using WriteHello_Inr [OF assms(1)] assms(4) by simp
  ultimately show ?thesis
    using assms(3) hello_codec.read_enc ReadHello_sound by (fastforce simp: ReadHello_def)
qed

lemma hello_roundtrip_witness:
  "ReadHello ((new_conn (encodeHello \<lparr>hRole = 1, hMode = 1, hSessionID = replicate 16 9, hPorts = 3\<rparr>))) =
     (Inr \<lparr>hRole = 1, hMode = 1, hSessionID = replicate 16 9, hPorts = 3\<rparr>, new_conn [])"
proof -
  let ?h = "\<lparr>hRole = 1, hMode = 1, hSessionID = replicate 16 9, hPorts = 3\<rparr> :: hello"
  have w: "WriteHello ?h (new_conn []) = (Inr (), (new_conn [])\<lparr>outb := encodeHello ?h\<rparr>)"
    by (simp add: WriteHello_def check_hello_def write_msg_ok new_conn_def go_consts)
  show ?thesis
    using conjunct1 [OF hello_roundtrip [OF w, of "new_conn (encodeHello ?h)" "[]"]]
    by (simp add: new_conn_def go_consts)
qed

end
