(* ===== verification/Session.thy ===== *)
theory Session
  imports Certs Go_IO Wire_Hello "HOL-Library.Multiset"
begin

text \<open>
  One publisher's session at the relay (\<^verbatim>\<open>internal/relay/session.go\<close>): its subscribers, the
  subscriber data connections that wait for the publisher, and the streams being spliced.
  Connections are named by numbers. Each operation below is the body of one critical section
  of the session's mutex; what the code does after releasing it (closing connections, writing
  frames) is done by the callers in \<open>Relay_World\<close>, on the connections returned here.

  The timer of a pending request has no state: its callback is \<open>removePending\<close>, and the
  step relation lets it fire at any moment and any number of times, also after the code has
  tried to stop it.
\<close>

section \<open>TLS connections and their peers\<close>

record tls_conn = conn +
  peerCerts :: "cert list"
  remoteAddr :: "string option"
  negotiated :: string

definition no_peer_certificate :: error where
  "no_peer_certificate = Msg ''no peer certificate''"

definition peerLeafCert :: "'a tls_conn_scheme \<Rightarrow> cert result" where
  "peerLeafCert c = (case peerCerts c of [] \<Rightarrow> Inl no_peer_certificate | leaf # _ \<Rightarrow> Inr leaf)"

text \<open>What a TLS connection knows of its peer is not touched by reading and writing.\<close>

lemma more_peer:
  fixes c d :: tls_conn
  shows "conn.more c = conn.more d \<Longrightarrow>
    peerCerts c = peerCerts d \<and> remoteAddr c = remoteAddr d \<and> negotiated c = negotiated d \<and>
    peerLeafCert c = peerLeafCert d"
  by (cases c; cases d) (simp add: peerLeafCert_def)

section \<open>State\<close>

definition maxSessionPeers :: nat where "maxSessionPeers = 1024"

record subscriberConn =
  scControl :: nat
  scCertKey :: "byte list"
  scPeer :: peer_identity
  scSince :: nat

record stream =
  stPort :: u16
  stStarted :: nat
  stIntoSub :: nat
  stIntoPub :: nat

record pendingRequest =
  prConn :: nat
  prPort :: u16
  prSince :: nat

record session =
  sMode :: mode
  sPublisher :: nat
  sPorts :: u16
  sPublisherCert :: cert
  sPublisherPeer :: peer_identity
  sSince :: nat
  sClosed :: bool
  sSubscribers :: "(u64, subscriberConn) gomap"
  sNextSubID :: u64
  sSubscriberCerts :: "(byte list, int) gomap"
  sNextReqID :: u64
  sPending :: "(u64, pendingRequest) gomap"
  sStreams :: "(u64, stream) gomap"

definition newSession :: "mode \<Rightarrow> u16 \<Rightarrow> nat \<Rightarrow> string option \<Rightarrow> cert \<Rightarrow> nat \<Rightarrow> session" where
  "newSession mode ports publisher addr publisherCert now =
     \<lparr>sMode = mode, sPublisher = publisher, sPorts = ports, sPublisherCert = publisherCert,
      sPublisherPeer = identityOf (Some publisherCert) addr, sSince = now, sClosed = False,
      sSubscribers = [], sNextSubID = 0, sSubscriberCerts = [], sNextReqID = 0,
      sPending = [], sStreams = []\<rparr>"

text \<open>Reading a missing key of a Go map of integers gives zero.\<close>

definition cert_count :: "(byte list, int) gomap \<Rightarrow> byte list \<Rightarrow> int" where
  "cert_count m k = (case gm_get m k of None \<Rightarrow> 0 | Some n \<Rightarrow> n)"

section \<open>Subscribers\<close>

definition addSubscriber ::
  "nat \<Rightarrow> 'a tls_conn_scheme \<Rightarrow> nat \<Rightarrow> session \<Rightarrow> u64 option \<times> session" where
  "addSubscriber control c now s =
     (case peerLeafCert c of
        Inl _ \<Rightarrow> (None, s)
      | Inr ct \<Rightarrow>
          (let certKey = cRaw ct
           in if sClosed s \<or> gm_len (sSubscribers s) \<ge> maxSessionPeers then (None, s)
              else let sid = sNextSubID s;
                       sub = \<lparr>scControl = control, scCertKey = certKey,
                              scPeer = identityOf (Some ct) (remoteAddr c), scSince = now\<rparr>
                   in (Some sid,
                       s\<lparr>sNextSubID := sid + 1,
                         sSubscribers := gm_set sid sub (sSubscribers s),
                         sSubscriberCerts :=
                           gm_set certKey (cert_count (sSubscriberCerts s) certKey + 1)
                             (sSubscriberCerts s)\<rparr>)))"

definition removeSubscriber :: "u64 \<Rightarrow> session \<Rightarrow> session" where
  "removeSubscriber sid s =
     (case gm_get (sSubscribers s) sid of
        None \<Rightarrow> s
      | Some sub \<Rightarrow>
          (let certs = gm_set (scCertKey sub) (cert_count (sSubscriberCerts s) (scCertKey sub) - 1)
                 (sSubscriberCerts s)
           in s\<lparr>sSubscribers := gm_del sid (sSubscribers s),
                sSubscriberCerts :=
                  (if cert_count certs (scCertKey sub) = 0 then gm_del (scCertKey sub) certs
                   else certs)\<rparr>))"

section \<open>Pending requests\<close>

text \<open>\<open>tc\<close> is \<open>None\<close> for a connection that is not a \<open>*tls.Conn\<close>.\<close>

definition addPending ::
  "nat \<Rightarrow> 'a tls_conn_scheme option \<Rightarrow> u16 \<Rightarrow> nat \<Rightarrow> session \<Rightarrow> u64 option \<times> session" where
  "addPending conn tc port now s =
     (case tc of
        None \<Rightarrow> (None, s)
      | Some c \<Rightarrow>
          (case peerLeafCert c of
             Inl _ \<Rightarrow> (None, s)
           | Inr ct \<Rightarrow>
               if sClosed s \<or> gm_len (sPending s) \<ge> maxSessionPeers then (None, s)
               else if cert_count (sSubscriberCerts s) (cRaw ct) = 0 then (None, s)
               else let rid = sNextReqID s;
                        req = \<lparr>prConn = conn, prPort = port, prSince = now\<rparr>
                    in (Some rid, s\<lparr>sNextReqID := rid + 1, sPending := gm_set rid req (sPending s)\<rparr>)))"

definition claimPending :: "u64 \<Rightarrow> session \<Rightarrow> (nat \<times> u16) option \<times> session" where
  "claimPending rid s =
     (case gm_get (sPending s) rid of
        None \<Rightarrow> (None, s)
      | Some req \<Rightarrow> (Some (prConn req, prPort req), s\<lparr>sPending := gm_del rid (sPending s)\<rparr>))"

text \<open>The connection to close, if this call won it.\<close>

definition removePending :: "u64 \<Rightarrow> session \<Rightarrow> nat option \<times> session" where
  "removePending rid s =
     (case claimPending rid s of (r, s1) \<Rightarrow> (map_option fst r, s1))"

section \<open>Streams and shutdown\<close>

definition addStream :: "u64 \<Rightarrow> stream \<Rightarrow> session \<Rightarrow> bool \<times> session" where
  "addStream rid str s =
     (if sClosed s then (False, s) else (True, s\<lparr>sStreams := gm_set rid str (sStreams s)\<rparr>))"

definition removeStream :: "u64 \<Rightarrow> session \<Rightarrow> session" where
  "removeStream rid s = s\<lparr>sStreams := gm_del rid (sStreams s)\<rparr>"

definition beginShutdown :: "session \<Rightarrow> ((u64, pendingRequest) gomap \<times> nat list) \<times> session" where
  "beginShutdown s =
     (if sClosed s then (([], []), s)
      else ((sPending s, map scControl (gm_vals (sSubscribers s))),
            s\<lparr>sClosed := True, sPending := []\<rparr>))"

section \<open>Invariant\<close>

definition subs_with :: "byte list \<Rightarrow> (u64, subscriberConn) gomap \<Rightarrow> nat" where
  "subs_with k subs = length (filter (\<lambda>e. scCertKey (snd e) = k) subs)"

definition certs_exact :: "(u64, subscriberConn) gomap \<Rightarrow> (byte list, int) gomap \<Rightarrow> bool" where
  "certs_exact subs certs \<longleftrightarrow>
     (\<forall>k. gm_get certs k = (if subs_with k subs = 0 then None else Some (int (subs_with k subs))))"

definition ids_below :: "u64 \<Rightarrow> (u64, 'v) gomap \<Rightarrow> bool" where
  "ids_below next_id m \<longleftrightarrow> (\<forall>k \<in> set (gm_keys m). unat k < unat next_id)"

definition sess_inv :: "session \<Rightarrow> bool" where
  "sess_inv s \<longleftrightarrow>
     gm_wf (sSubscribers s) \<and> gm_wf (sPending s) \<and> gm_wf (sStreams s) \<and>
     gm_len (sSubscribers s) \<le> maxSessionPeers \<and> gm_len (sPending s) \<le> maxSessionPeers \<and>
     certs_exact (sSubscribers s) (sSubscriberCerts s) \<and>
     ids_below (sNextSubID s) (sSubscribers s) \<and> ids_below (sNextReqID s) (sPending s) \<and>
     (sClosed s \<longrightarrow> sPending s = [])"

lemma cert_count_exact:
  "certs_exact subs certs \<Longrightarrow> cert_count certs k = int (subs_with k subs)"
  by (simp add: certs_exact_def cert_count_def)

lemma ids_below_fresh: "ids_below n m \<Longrightarrow> gm_get m n = None"
  using gm_keys_get [of n m] by (auto simp: ids_below_def)

lemma ids_below_set:
  "ids_below n m \<Longrightarrow> n \<noteq> - 1 \<Longrightarrow> ids_below (n + 1) (gm_set n v m)"
  unfolding ids_below_def gm_keys_get [symmetric]
  by (auto simp: gm_keys_get gomap_simps unat_inc less_Suc_eq split: if_splits)

lemma ids_below_del: "ids_below n m \<Longrightarrow> ids_below n (gm_del k m)"
  unfolding ids_below_def by (auto simp: gm_keys_get gomap_simps split: if_splits)

lemma ids_below_Nil [simp]: "ids_below n []"
  by (simp add: ids_below_def gm_keys_def)

lemma subs_with_new:
  "gm_get subs sid = None \<Longrightarrow>
   subs_with k (gm_set sid sub subs) = subs_with k subs + (if scCertKey sub = k then 1 else 0)"
  by (simp add: subs_with_def gm_set_new)

lemma subs_with_del:
  "gm_wf subs \<Longrightarrow> gm_get subs sid = Some sub \<Longrightarrow>
   subs_with k subs = subs_with k (gm_del sid subs) + (if scCertKey sub = k then 1 else 0)"
  using gm_filter_del [of subs sid sub "\<lambda>e. scCertKey (snd e) = k"] by (simp add: subs_with_def)

lemma certs_exact_add:
  assumes "certs_exact subs certs" and "gm_get subs sid = None"
  shows "certs_exact (gm_set sid sub subs)
    (gm_set (scCertKey sub) (cert_count certs (scCertKey sub) + 1) certs)"
  using assms cert_count_exact [OF assms(1)]
  by (simp add: certs_exact_def subs_with_new gomap_simps)

lemma certs_exact_remove:
  assumes "certs_exact subs certs" and "gm_wf subs" and "gm_get subs sid = Some sub"
  defines "certs' \<equiv> gm_set (scCertKey sub) (cert_count certs (scCertKey sub) - 1) certs"
  shows "certs_exact (gm_del sid subs)
    (if cert_count certs' (scCertKey sub) = 0 then gm_del (scCertKey sub) certs' else certs')"
proof -
  let ?k = "scCertKey sub"
  note n = subs_with_del [OF assms(2,3)]
  have count: "cert_count certs' ?k = int (subs_with ?k (gm_del sid subs))"
    using n [of ?k] cert_count_exact [OF assms(1), of ?k]
    by (simp add: certs'_def) (simp add: cert_count_def gomap_simps)
  have other: "gm_get certs' k = (if subs_with k (gm_del sid subs) = 0 then None
      else Some (int (subs_with k (gm_del sid subs))))" if "k \<noteq> ?k" for k
    using that assms(1) n [of k] by (simp add: certs'_def certs_exact_def gomap_simps)
  have "gm_get certs' ?k = Some (int (subs_with ?k (gm_del sid subs)))"
    using count by (simp add: certs'_def cert_count_def gomap_simps)
  show ?thesis
    unfolding certs_exact_def
  proof
    fix k
    show "gm_get (if cert_count certs' ?k = 0 then gm_del ?k certs' else certs') k =
        (if subs_with k (gm_del sid subs) = 0 then None else Some (int (subs_with k (gm_del sid subs))))"
      using count other [of k] \<open>gm_get certs' ?k = _\<close> by (cases "k = ?k") (simp_all add: gomap_simps)
  qed
qed

section \<open>Preservation\<close>

lemma newSession_inv: "sess_inv (newSession mode ports pub addr ct now)"
  by (simp add: sess_inv_def newSession_def certs_exact_def subs_with_def)

lemma addSubscriber_Some:
  assumes "addSubscriber control c now s = (Some sid, s')"
  shows "\<exists>ct. peerLeafCert c = Inr ct \<and> \<not> sClosed s \<and> gm_len (sSubscribers s) < maxSessionPeers \<and>
    sid = sNextSubID s \<and>
    s' = s\<lparr>sNextSubID := sid + 1,
      sSubscribers := gm_set sid \<lparr>scControl = control, scCertKey = cRaw ct,
        scPeer = identityOf (Some ct) (remoteAddr c), scSince = now\<rparr> (sSubscribers s),
      sSubscriberCerts := gm_set (cRaw ct) (cert_count (sSubscriberCerts s) (cRaw ct) + 1)
        (sSubscriberCerts s)\<rparr>"
  using assms by (auto simp: addSubscriber_def Let_def split: sum.split_asm if_split_asm)

lemma addSubscriber_None: "addSubscriber control c now s = (None, s') \<Longrightarrow> s' = s"
  by (auto simp: addSubscriber_def Let_def split: sum.split_asm if_split_asm)

lemma addSubscriber_inv:
  assumes "addSubscriber control c now s = (r, s')" and "sess_inv s" and "sNextSubID s \<noteq> - 1"
  shows "sess_inv s'"
proof (cases r)
  case None
  with assms show ?thesis using addSubscriber_None by blast
next
  case (Some sid)
  then obtain ct where a: "\<not> sClosed s" "gm_len (sSubscribers s) < maxSessionPeers" "sid = sNextSubID s"
    and s': "s' = s\<lparr>sNextSubID := sid + 1,
      sSubscribers := gm_set sid \<lparr>scControl = control, scCertKey = cRaw ct,
        scPeer = identityOf (Some ct) (remoteAddr c), scSince = now\<rparr> (sSubscribers s),
      sSubscriberCerts := gm_set (cRaw ct) (cert_count (sSubscriberCerts s) (cRaw ct) + 1)
        (sSubscriberCerts s)\<rparr>"
    using addSubscriber_Some assms(1) by blast
  let ?sub = "\<lparr>scControl = control, scCertKey = cRaw ct,
        scPeer = identityOf (Some ct) (remoteAddr c), scSince = now\<rparr>"
  have fresh: "gm_get (sSubscribers s) sid = None"
    using assms(2) a(3) ids_below_fresh by (auto simp: sess_inv_def)
  have "certs_exact (gm_set sid ?sub (sSubscribers s))
      (gm_set (cRaw ct) (cert_count (sSubscriberCerts s) (cRaw ct) + 1) (sSubscriberCerts s))"
    using certs_exact_add [OF _ fresh, of "sSubscriberCerts s" ?sub] assms(2) by (simp add: sess_inv_def)
  then show ?thesis
    using assms(2,3) a s' gm.bounded_insert [of "sSubscribers s" maxSessionPeers sid]
    by (simp add: sess_inv_def ids_below_set)
qed

lemma removeSubscriber_inv:
  assumes "sess_inv s"
  shows "sess_inv (removeSubscriber sid s)"
proof (cases "gm_get (sSubscribers s) sid")
  case (Some sub)
  have "gm_len (gm_del sid (sSubscribers s)) \<le> maxSessionPeers"
    using assms gm.bounded_delete [of "sSubscribers s" maxSessionPeers sid] by (simp add: sess_inv_def)
  with Some assms show ?thesis
    using certs_exact_remove [OF _ _ Some]
    by (simp add: removeSubscriber_def sess_inv_def Let_def ids_below_del)
qed (use assms in \<open>simp add: removeSubscriber_def\<close>)

lemma addPending_Some:
  assumes "addPending conn tc port now s = (Some rid, s')"
  shows "\<exists>c ct. tc = Some c \<and> peerLeafCert c = Inr ct \<and> \<not> sClosed s \<and>
    gm_len (sPending s) < maxSessionPeers \<and> cert_count (sSubscriberCerts s) (cRaw ct) \<noteq> 0 \<and>
    rid = sNextReqID s \<and>
    s' = s\<lparr>sNextReqID := rid + 1,
      sPending := gm_set rid \<lparr>prConn = conn, prPort = port, prSince = now\<rparr> (sPending s)\<rparr>"
  using assms by (auto simp: addPending_def Let_def split: option.split_asm sum.split_asm if_split_asm)

lemma addPending_None: "addPending conn tc port now s = (None, s') \<Longrightarrow> s' = s"
  by (auto simp: addPending_def Let_def split: option.split_asm sum.split_asm if_split_asm)

lemma addPending_inv:
  assumes "addPending conn tc port now s = (r, s')" and "sess_inv s" and "sNextReqID s \<noteq> - 1"
  shows "sess_inv s'"
proof (cases r)
  case None
  with assms show ?thesis using addPending_None by blast
next
  case (Some rid)
  note ok = addPending_Some [OF assms(1) [unfolded Some]]
  then show ?thesis
    using assms(2,3) gm.bounded_insert [of "sPending s" maxSessionPeers rid]
    by (auto simp: sess_inv_def ids_below_set)
qed

lemma claimPending_inv:
  assumes "claimPending rid s = (r, s')" and "sess_inv s"
  shows "sess_inv s'"
proof (cases "gm_get (sPending s) rid")
  case (Some req)
  then have s': "s' = s\<lparr>sPending := gm_del rid (sPending s)\<rparr>"
    using assms(1) by (simp add: claimPending_def)
  have "gm_len (gm_del rid (sPending s)) \<le> maxSessionPeers"
    using assms(2) gm.bounded_delete [of "sPending s" maxSessionPeers rid] by (simp add: sess_inv_def)
  with s' assms(2) show ?thesis
    by (auto simp: sess_inv_def ids_below_del)
qed (use assms in \<open>simp add: claimPending_def\<close>)

lemma removePending_inv:
  "removePending rid s = (r, s') \<Longrightarrow> sess_inv s \<Longrightarrow> sess_inv s'"
  using claimPending_inv by (auto simp: removePending_def split: prod.splits)

lemma addStream_inv: "addStream rid str s = (ok, s') \<Longrightarrow> sess_inv s \<Longrightarrow> sess_inv s'"
  by (auto simp: addStream_def sess_inv_def split: if_split_asm)

lemma removeStream_inv: "sess_inv s \<Longrightarrow> sess_inv (removeStream rid s)"
  by (simp add: removeStream_def sess_inv_def)

lemma beginShutdown_inv: "beginShutdown s = (r, s') \<Longrightarrow> sess_inv s \<Longrightarrow> sess_inv s'"
  by (auto simp: beginShutdown_def sess_inv_def split: if_split_asm)

section \<open>Histories\<close>

text \<open>
  Any interleaving of the critical sections of one session, with what each gave its caller.
  The two identifier counters are 64-bit and are taken not to run out: the steps that allocate
  an identifier require the counter to be below its last value.
\<close>

datatype sess_event =
    Joined u64 nat
  | Left u64
  | Requested u64 nat
  | Claimed u64 nat
  | Expired u64 "nat option"
  | StreamOn u64
  | StreamOff u64
  | Refused
  | ShutDown "(u64 \<times> nat) list" "nat list"

inductive sess_step :: "session \<Rightarrow> sess_event \<Rightarrow> session \<Rightarrow> bool" where
  join: "sNextSubID s \<noteq> - 1 \<Longrightarrow> addSubscriber control (c :: tls_conn) now s = (Some sid, s') \<Longrightarrow>
    sess_step s (Joined sid control) s'"
| leave: "gm_get (sSubscribers s) sid \<noteq> None \<Longrightarrow> sess_step s (Left sid) (removeSubscriber sid s)"
| leave_again: "gm_get (sSubscribers s) sid = None \<Longrightarrow> sess_step s Refused (removeSubscriber sid s)"
| request: "sNextReqID s \<noteq> - 1 \<Longrightarrow> addPending k (tc :: tls_conn option) port now s = (Some rid, s') \<Longrightarrow>
    sess_step s (Requested rid k) s'"
| claim: "claimPending rid s = (Some (k, port), s') \<Longrightarrow> sess_step s (Claimed rid k) s'"
| expire: "removePending rid s = (r, s') \<Longrightarrow> sess_step s (Expired rid r) s'"
| stream_on: "addStream rid str s = (True, s') \<Longrightarrow> sess_step s (StreamOn rid) s'"
| stream_off: "sess_step s (StreamOff rid) (removeStream rid s)"
| refuse_join: "addSubscriber control (c :: tls_conn) now s = (None, s') \<Longrightarrow> sess_step s Refused s'"
| refuse_request: "addPending k (tc :: tls_conn option) port now s = (None, s') \<Longrightarrow> sess_step s Refused s'"
| refuse_claim: "claimPending rid s = (None, s') \<Longrightarrow> sess_step s Refused s'"
| refuse_stream: "addStream rid str s = (False, s') \<Longrightarrow> sess_step s Refused s'"
| shutdown: "beginShutdown s = ((pending, controls), s') \<Longrightarrow>
    sess_step s (ShutDown (map (\<lambda>(rid, req). (rid, prConn req)) pending) controls) s'"

inductive sess_run :: "session \<Rightarrow> sess_event list \<Rightarrow> session \<Rightarrow> bool" where
  start: "sess_run s [] s"
| more: "sess_run s evs s' \<Longrightarrow> sess_step s' e s'' \<Longrightarrow> sess_run s (evs @ [e]) s''"

inductive_cases sess_stepE: "sess_step s e s'"
inductive_simps sess_step_joined: "sess_step s (Joined sid control) s'"
inductive_simps sess_step_requested: "sess_step s (Requested rid k) s'"

lemma claimPending_None: "claimPending rid s = (None, s') \<Longrightarrow> s' = s"
  by (auto simp: claimPending_def split: option.split_asm)

lemma sess_step_inv: "sess_step s e s' \<Longrightarrow> sess_inv s \<Longrightarrow> sess_inv s'"
  by (induction rule: sess_step.induct)
    (auto intro: addSubscriber_inv removeSubscriber_inv addPending_inv claimPending_inv
      removePending_inv addStream_inv removeStream_inv beginShutdown_inv
      dest: addSubscriber_None addPending_None claimPending_None)

lemma sess_run_inv: "sess_run s evs s' \<Longrightarrow> sess_inv s \<Longrightarrow> sess_inv s'"
  by (induction rule: sess_run.induct) (auto intro: sess_step_inv)

text \<open>Who got hold of which requested connection: a claim, the timer, or the shutdown.\<close>

fun handed :: "sess_event \<Rightarrow> (u64 \<times> nat) list" where
  "handed (Claimed rid k) = [(rid, k)]"
| "handed (Expired rid (Some k)) = [(rid, k)]"
| "handed (ShutDown pending controls) = pending"
| "handed _ = []"

fun requested :: "sess_event \<Rightarrow> (u64 \<times> nat) list" where
  "requested (Requested rid k) = [(rid, k)]"
| "requested _ = []"

definition waiting :: "session \<Rightarrow> (u64 \<times> nat) list" where
  "waiting s = map (\<lambda>(rid, req). (rid, prConn req)) (sPending s)"

text \<open>
  Ownership: the requested connections are those handed to someone and those still waiting,
  each exactly once.
\<close>

definition owned_once :: "sess_event list \<Rightarrow> session \<Rightarrow> bool" where
  "owned_once evs s \<longleftrightarrow>
     mset (concat (map requested evs)) = mset (concat (map handed evs)) + mset (waiting s) \<and>
     (\<forall>p \<in> set (concat (map requested evs)). unat (fst p) < unat (sNextReqID s)) \<and>
     distinct (map fst (concat (map requested evs)))"

lemma gm_mset_del:
  "gm_wf m \<Longrightarrow> gm_get m k = Some v \<Longrightarrow> mset m = add_mset (k, v) (mset (gm_del k m))"
proof (induction m)
  case (Cons e m)
  obtain k' v' where e: "e = (k', v')" by (cases e)
  show ?case
  proof (cases "k' = k")
    case True
    with Cons.prems e have "v' = v" and "gm_get m k = None"
      by (simp_all add: gm_get_def gm_wf_def map_of_eq_None_iff)
    then have "gm_del k (e # m) = m"
      using True e gm_del_absent [of m k] by (simp add: gm_del_def AList.delete_eq)
    with True e \<open>v' = v\<close> show ?thesis by simp
  next
    case False
    with Cons e show ?thesis
      by (simp add: gm_get_def gm_wf_def gm_del_def AList.delete_eq)
  qed
qed simp

lemma waiting_claim:
  assumes "gm_wf (sPending s)" and "gm_get (sPending s) rid = Some req"
  shows "mset (waiting s) =
    add_mset (rid, prConn req) (mset (waiting (s\<lparr>sPending := gm_del rid (sPending s)\<rparr>)))"
proof -
  have "image_mset (\<lambda>(rid, req). (rid, prConn req)) (mset (sPending s)) =
      image_mset (\<lambda>(rid, req). (rid, prConn req)) (add_mset (rid, req) (mset (gm_del rid (sPending s))))"
    using gm_mset_del [OF assms] by simp
  then show ?thesis by (simp add: waiting_def)
qed

lemma claimPending_Some:
  "claimPending rid s = (Some (k, port), s') \<Longrightarrow>
   \<exists>req. gm_get (sPending s) rid = Some req \<and> k = prConn req \<and> port = prPort req \<and>
     s' = s\<lparr>sPending := gm_del rid (sPending s)\<rparr>"
  by (auto simp: claimPending_def split: option.split_asm)

lemma removePending_cases:
  "removePending rid s = (r, s') \<Longrightarrow>
   r = None \<and> s' = s \<or>
   (\<exists>req. gm_get (sPending s) rid = Some req \<and> r = Some (prConn req) \<and>
      s' = s\<lparr>sPending := gm_del rid (sPending s)\<rparr>)"
  by (auto simp: removePending_def claimPending_def split: option.split_asm)

lemma owned_once_same:
  assumes "owned_once evs s" and "handed e = []" "requested e = []"
    and "sPending s' = sPending s" "sNextReqID s' = sNextReqID s"
  shows "owned_once (evs @ [e]) s'"
  using assms by (simp add: owned_once_def waiting_def)

lemma owned_once_handed:
  assumes "owned_once evs s" and "gm_wf (sPending s)" and "gm_get (sPending s) rid = Some req"
    and "handed e = [(rid, prConn req)]" "requested e = []"
  shows "owned_once (evs @ [e]) (s\<lparr>sPending := gm_del rid (sPending s)\<rparr>)"
  using assms waiting_claim [OF assms(2,3)] by (simp add: owned_once_def)

lemma owned_once_step:
  assumes "sess_step s e s'" and "owned_once evs s" and "sess_inv s"
  shows "owned_once (evs @ [e]) s'"
  using assms(1)
proof (cases rule: sess_step.cases)
  case (join control c now sid)
  then show ?thesis
    using addSubscriber_Some [OF join(3)] by (intro owned_once_same [OF assms(2)]) auto
next
  case (leave sid)
  then show ?thesis
    by (intro owned_once_same [OF assms(2)]) (auto simp: removeSubscriber_def Let_def split: option.split)
next
  case (leave_again sid)
  then show ?thesis
    by (intro owned_once_same [OF assms(2)]) (auto simp: removeSubscriber_def)
next
  case (request k tc port now rid)
  note ok = addPending_Some [OF request(3)]
  have inv: "ids_below (sNextReqID s) (sPending s)" using assms(3) by (simp add: sess_inv_def)
  have fresh: "gm_get (sPending s) rid = None" using ok ids_below_fresh [OF inv] by auto
  have w: "waiting s' = waiting s @ [(rid, k)]"
    using ok gm_set_new [OF fresh] by (auto simp: waiting_def)
  have n: "unat (sNextReqID s') = unat (sNextReqID s) + 1" "rid = sNextReqID s"
    using ok unat_inc [OF request(2)] by auto
  have "rid \<notin> fst ` set (concat (map requested evs))"
    using assms(2) n(2) by (fastforce simp: owned_once_def)
  then show ?thesis
    using assms(2) w n request(1) by (auto simp: owned_once_def less_Suc_eq)
next
  case (claim rid k port)
  obtain req where r: "gm_get (sPending s) rid = Some req" "k = prConn req"
    "s' = s\<lparr>sPending := gm_del rid (sPending s)\<rparr>"
    using claimPending_Some [OF claim(2)] by blast
  show ?thesis
    using assms(3) claim r by (simp add: sess_inv_def owned_once_handed [OF assms(2)])
next
  case (expire rid r)
  then consider "r = None" "s' = s" | req where "gm_get (sPending s) rid = Some req" "r = Some (prConn req)"
      "s' = s\<lparr>sPending := gm_del rid (sPending s)\<rparr>"
    using removePending_cases [OF expire(2)] by blast
  then show ?thesis
  proof cases
    case 1
    with expire show ?thesis by (intro owned_once_same [OF assms(2)]) auto
  next
    case 2
    with expire assms(3) show ?thesis by (simp add: sess_inv_def owned_once_handed [OF assms(2)])
  qed
next
  case (shutdown pending controls)
  show ?thesis
  proof (cases "sClosed s")
    case True
    with shutdown have "pending = []" "s' = s" by (simp_all add: beginShutdown_def)
    with shutdown(1) show ?thesis by (intro owned_once_same [OF assms(2)]) simp_all
  next
    case False
    with shutdown have "pending = sPending s" "s' = s\<lparr>sClosed := True, sPending := []\<rparr>"
      by (simp_all add: beginShutdown_def)
    with shutdown(1) assms(2) show ?thesis by (simp add: owned_once_def waiting_def)
  qed
qed (use assms(2) in \<open>auto intro!: owned_once_same [OF assms(2)] simp: addStream_def removeStream_def
      split: if_split_asm dest!: addSubscriber_None addPending_None claimPending_None\<close>)

lemma owned_once_run:
  "sess_run s evs s' \<Longrightarrow> sess_inv s \<Longrightarrow> sPending s = [] \<Longrightarrow> owned_once evs s'"
proof (induction rule: sess_run.induct)
  case (start s)
  then show ?case by (simp add: owned_once_def waiting_def)
next
  case (more s evs s' e s'')
  then show ?case using owned_once_step sess_run_inv by blast
qed

text \<open>Who was told that the session is over.\<close>

fun told :: "sess_event \<Rightarrow> nat list" where
  "told (ShutDown pending controls) = controls"
| "told _ = []"

definition live_sub :: "session \<Rightarrow> u64 \<Rightarrow> nat \<Rightarrow> bool" where
  "live_sub s sid control \<longleftrightarrow>
     (\<exists>sub. gm_get (sSubscribers s) sid = Some sub \<and> scControl sub = control)"

definition none_forgotten :: "sess_event list \<Rightarrow> session \<Rightarrow> bool" where
  "none_forgotten evs s \<longleftrightarrow>
     (\<forall>sid control. Joined sid control \<in> set evs \<longrightarrow>
        Left sid \<in> set evs \<or>
        live_sub s sid control \<and> (sClosed s \<longrightarrow> control \<in> set (concat (map told evs))))"

lemma none_forgotten_same:
  assumes "none_forgotten evs s" and "\<forall>sid control. e \<noteq> Joined sid control"
    and "sSubscribers s' = sSubscribers s" "sClosed s' = sClosed s"
  shows "none_forgotten (evs @ [e]) s'"
  using assms by (auto simp: none_forgotten_def live_sub_def)

lemma none_forgotten_step:
  assumes "sess_step s e s'" and "none_forgotten evs s" and "sess_inv s"
  shows "none_forgotten (evs @ [e]) s'"
  using assms(1)
proof (cases rule: sess_step.cases)
  case (join control c now sid)
  obtain ct where ok: "\<not> sClosed s" "sid = sNextSubID s"
    "s' = s\<lparr>sNextSubID := sid + 1,
      sSubscribers := gm_set sid \<lparr>scControl = control, scCertKey = cRaw ct,
        scPeer = identityOf (Some ct) (remoteAddr c), scSince = now\<rparr> (sSubscribers s),
      sSubscriberCerts := gm_set (cRaw ct) (cert_count (sSubscriberCerts s) (cRaw ct) + 1)
        (sSubscriberCerts s)\<rparr>"
    using addSubscriber_Some [OF join(3)] by blast
  have "gm_get (sSubscribers s) sid = None"
    using assms(3) ok(2) ids_below_fresh by (auto simp: sess_inv_def)
  then have old: "live_sub s' i k" if "live_sub s i k" for i k
    using that ok(3) by (auto simp: live_sub_def gomap_simps)
  have "live_sub s' sid control" using ok(3) by (simp add: live_sub_def gomap_simps)
  with old ok(1,3) join(1) assms(2) show ?thesis by (auto simp: none_forgotten_def)
next
  case (leave sid)
  then obtain sub where "gm_get (sSubscribers s) sid = Some sub" by auto
  then have "live_sub s' i k" if "live_sub s i k" "i \<noteq> sid" for i k
    using that leave(2) by (auto simp: live_sub_def removeSubscriber_def Let_def gomap_simps)
  moreover have "sClosed s' = sClosed s"
    using leave(2) by (auto simp: removeSubscriber_def Let_def split: option.split)
  ultimately show ?thesis
    using leave(1) assms(2) by (auto simp: none_forgotten_def)
next
  case (leave_again sid)
  then show ?thesis
    by (intro none_forgotten_same [OF assms(2)]) (auto simp: removeSubscriber_def)
next
  case (request k tc port now rid)
  then show ?thesis
    using addPending_Some [OF request(3)] by (intro none_forgotten_same [OF assms(2)]) auto
next
  case (claim rid k port)
  then show ?thesis
    using claimPending_Some [OF claim(2)] by (intro none_forgotten_same [OF assms(2)]) auto
next
  case (expire rid r)
  then show ?thesis
    using removePending_cases [OF expire(2)] by (intro none_forgotten_same [OF assms(2)]) auto
next
  case (shutdown pending controls)
  show ?thesis
  proof (cases "sClosed s")
    case True
    with shutdown have "s' = s" by (simp add: beginShutdown_def)
    with shutdown(1) show ?thesis by (intro none_forgotten_same [OF assms(2)]) auto
  next
    case False
    with shutdown have s': "s' = s\<lparr>sClosed := True, sPending := []\<rparr>"
      and c: "controls = map scControl (gm_vals (sSubscribers s))"
      by (simp_all add: beginShutdown_def)
    have reached: "k \<in> set controls" if "live_sub s i k" for i k
    proof -
      from that obtain sub where "gm_get (sSubscribers s) i = Some sub" "k = scControl sub"
        by (auto simp: live_sub_def)
      with gm_get_in_set [of "sSubscribers s" i sub] show ?thesis
        by (auto simp: c gm_vals_def intro!: rev_image_eqI)
    qed
    have "live_sub s' i k = live_sub s i k" for i k
      by (simp add: s' live_sub_def)
    note live_eq = this
    show ?thesis
      unfolding none_forgotten_def
    proof (intro allI impI)
      fix sid control
      assume "Joined sid control \<in> set (evs @ [e])"
      then have "sess_event.Left sid \<in> set evs \<or> live_sub s sid control"
        using assms(2) shutdown(1) by (auto simp: none_forgotten_def)
      then show "sess_event.Left sid \<in> set (evs @ [e]) \<or> live_sub s' sid control \<and>
          (sClosed s' \<longrightarrow> control \<in> set (concat (map told (evs @ [e]))))"
        using reached live_eq shutdown(1) by auto
    qed
  qed
qed (use assms(2) in \<open>auto intro!: none_forgotten_same [OF assms(2)] simp: addStream_def removeStream_def
      split: if_split_asm dest!: addSubscriber_None addPending_None claimPending_None\<close>)

lemma none_forgotten_run:
  "sess_run s evs s' \<Longrightarrow> sess_inv s \<Longrightarrow> none_forgotten evs s'"
proof (induction rule: sess_run.induct)
  case (start s)
  then show ?case by (simp add: none_forgotten_def)
next
  case (more s evs s' e s'')
  then show ?case using none_forgotten_step sess_run_inv by blast
qed

text \<open>A session that has shut down stays shut down and admits nothing.\<close>

definition admits :: "sess_event \<Rightarrow> bool" where
  "admits e \<longleftrightarrow> (\<exists>i k. e = Joined i k \<or> e = Requested i k \<or> e = StreamOn i)"

lemma closed_step:
  assumes "sess_step s e s'" and "sClosed s" and "sPending s = []"
  shows "sClosed s' \<and> sPending s' = [] \<and> \<not> admits e \<and> handed e = [] \<and> told e = []"
  using assms(1)
proof (cases rule: sess_step.cases)
  case (join control c now sid)
  then show ?thesis using addSubscriber_Some [OF join(3)] assms(2) by blast
next
  case (request k tc port now rid)
  then show ?thesis using addPending_Some [OF request(3)] assms(2) by blast
next
  case (expire rid r)
  then show ?thesis using removePending_cases [OF expire(2)] assms by (auto simp: admits_def)
qed (use assms(2,3) in \<open>auto simp: admits_def addStream_def removeStream_def beginShutdown_def claimPending_def
      removeSubscriber_def Let_def split: if_split_asm option.split option.split_asm
      dest!: addSubscriber_None addPending_None\<close>)

lemma closed_run:
  "sess_run s evs s' \<Longrightarrow> sClosed s \<Longrightarrow> sPending s = [] \<Longrightarrow>
   sClosed s' \<and> sPending s' = [] \<and> (\<forall>e \<in> set evs. \<not> admits e \<and> handed e = [] \<and> told e = [])"
proof (induction rule: sess_run.induct)
  case (more s evs s' e s'')
  then show ?case using closed_step [of s' e s''] by auto
qed simp

section \<open>Properties\<close>

text \<open>
  C11: The bookkeeping of a session is exact after any history: identifiers are below their
  counters, there are at most 1024 subscribers and 1024 waiting connections, the per-certificate
  counts equal the number of registered subscribers with that certificate, with no entry at
  zero, and a closed session has nothing waiting.
\<close>

theorem session_bookkeeping_exact:
  assumes "sess_run (newSession mode ports pub addr ct now) evs s"
  shows "gm_len (sSubscribers s) \<le> maxSessionPeers \<and> gm_len (sPending s) \<le> maxSessionPeers \<and>
    (\<forall>k. gm_get (sSubscriberCerts s) k =
       (let n = length (filter (\<lambda>e. scCertKey (snd e) = k) (sSubscribers s))
        in if n = 0 then None else Some (int n))) \<and>
    (sClosed s \<longrightarrow> sPending s = []) \<and>
    ids_below (sNextSubID s) (sSubscribers s) \<and> ids_below (sNextReqID s) (sPending s)"
  using sess_run_inv [OF assms newSession_inv]
  by (simp add: sess_inv_def certs_exact_def subs_with_def Let_def)

text \<open>
  Each waiting connection has one owner. Over any history, the connections that were put
  on hold are, each exactly once, those handed to a claim, to the timeout or to the shutdown,
  and those still waiting; and no request identifier is used twice. So an expired timer cannot
  close a connection a publisher has claimed, and no connection is paired twice or lost.
\<close>

theorem request_owned_once:
  assumes "sess_run (newSession mode ports pub addr ct now) evs s"
  shows "mset (concat (map requested evs)) =
      mset (concat (map handed evs)) + mset (map (\<lambda>(rid, req). (rid, prConn req)) (sPending s)) \<and>
    distinct (map fst (concat (map requested evs)))"
  using owned_once_run [OF assms newSession_inv]
  by (simp add: owned_once_def waiting_def) (simp add: newSession_def)

text \<open>
  C12: No subscriber waits on a dead session. Once the session has shut down, every subscriber
  that ever joined has left, or its control connection was among those the shutdown notified.
\<close>

theorem every_subscriber_told:
  assumes "sess_run (newSession mode ports pub addr ct now) evs s" and "sClosed s"
    and "Joined sid control \<in> set evs"
  shows "sess_event.Left sid \<in> set evs \<or> control \<in> set (concat (map told evs))"
  using none_forgotten_run [OF assms(1) newSession_inv] assms(2,3) by (auto simp: none_forgotten_def)

text \<open>
  Shutting down is final and happens once. After it, in any history, nobody joins, nothing
  is put on hold and no stream starts, and no later shutdown notifies or closes anyone again.
\<close>

theorem shutdown_is_final:
  assumes "beginShutdown s = (r, s1)" and "sess_inv s" and "sess_run s1 evs s2"
  shows "sClosed s2 \<and> (\<forall>e \<in> set evs. \<not> admits e \<and> handed e = [] \<and> told e = [])"
proof -
  have "sClosed s1 \<and> sPending s1 = []"
    using assms(1,2) by (auto simp: beginShutdown_def sess_inv_def split: if_split_asm)
  then show ?thesis using closed_run [OF assms(3)] by blast
qed

text \<open>A history: a subscriber joins, asks for a stream, the publisher claims it, shutdown.\<close>

definition sample_cert :: "byte \<Rightarrow> cert" where
  "sample_cert b = \<lparr>cRaw = [b], cCN = ''peer'', cSerial = unat b, cUnknownEKU = []\<rparr>"

definition sample_tls :: "byte \<Rightarrow> byte list \<Rightarrow> tls_conn" where
  "sample_tls b bs = \<lparr>inb = bs, inerr = Sentinel EOF, outb = [], wscript = [], shut = False,
     peerCerts = [sample_cert b], remoteAddr = None, negotiated = ALPN\<rparr>"

definition sample_session :: session where
  "sample_session = newSession ModeTCP 2 10 None (sample_cert 1) 0"

definition sample_sub :: subscriberConn where
  "sample_sub = \<lparr>scControl = 20, scCertKey = [2],
     scPeer = identityOf (Some (sample_cert 2)) None, scSince = 5\<rparr>"

definition sample_joined :: session where
  "sample_joined = sample_session\<lparr>sNextSubID := 1, sSubscribers := [(0, sample_sub)],
     sSubscriberCerts := [([2], 1)]\<rparr>"

definition sample_waiting :: session where
  "sample_waiting = sample_joined\<lparr>sNextReqID := 1,
     sPending := [(0, \<lparr>prConn = 21, prPort = 1, prSince = 6\<rparr>)]\<rparr>"

lemma sample_run_waiting:
  "sess_run sample_session [Joined 0 20, Requested 0 21] sample_waiting"
proof -
  have "addSubscriber 20 (sample_tls 2 []) 5 sample_session = (Some 0, sample_joined)"
    by (simp add: addSubscriber_def peerLeafCert_def sample_tls_def sample_cert_def sample_session_def
        newSession_def sample_joined_def sample_sub_def gm_set_def cert_count_def maxSessionPeers_def Let_def)
  then have "sess_step sample_session (Joined 0 20) sample_joined"
    by (intro sess_step.join) (simp_all add: sample_session_def newSession_def)
  moreover have "addPending 21 (Some (sample_tls 2 [])) 1 6 sample_joined = (Some 0, sample_waiting)"
    by (simp add: addPending_def peerLeafCert_def sample_tls_def sample_cert_def sample_session_def
        newSession_def sample_joined_def sample_waiting_def gm_set_def gm_get_def cert_count_def
        maxSessionPeers_def Let_def)
  then have "sess_step sample_joined (Requested 0 21) sample_waiting"
    by (intro sess_step.request) (simp_all add: sample_joined_def sample_session_def newSession_def)
  ultimately have "sess_run sample_session (([] @ [Joined 0 20]) @ [Requested 0 21]) sample_waiting"
    by (intro sess_run.more [OF sess_run.more [OF sess_run.start]])
  then show ?thesis by simp
qed

lemma sample_run_shut:
  "sess_run sample_session [Joined 0 20, Requested 0 21, ShutDown [(0, 21)] [20]]
     (sample_waiting\<lparr>sClosed := True, sPending := []\<rparr>)"
proof -
  have "beginShutdown sample_waiting =
      ((sPending sample_waiting, [20]), sample_waiting\<lparr>sClosed := True, sPending := []\<rparr>)"
    by (simp add: beginShutdown_def sample_waiting_def sample_joined_def sample_session_def newSession_def
        gm_vals_def sample_sub_def)
  then have "sess_step sample_waiting
      (ShutDown (map (\<lambda>(rid, req). (rid, prConn req)) (sPending sample_waiting)) [20])
      (sample_waiting\<lparr>sClosed := True, sPending := []\<rparr>)"
    by (rule sess_step.shutdown)
  then have "sess_run sample_session ([Joined 0 20, Requested 0 21] @ [ShutDown [(0, 21)] [20]])
      (sample_waiting\<lparr>sClosed := True, sPending := []\<rparr>)"
    by (intro sess_run.more [OF sample_run_waiting]) (simp add: sample_waiting_def)
  then show ?thesis by simp
qed

lemma session_bookkeeping_exact_witness:
  "gm_get (sSubscriberCerts sample_waiting) [2] = Some 1 \<and> gm_len (sPending sample_waiting) \<le> maxSessionPeers"
  using session_bookkeeping_exact [OF sample_run_waiting [unfolded sample_session_def]]
  by (simp add: sample_waiting_def sample_joined_def sample_sub_def Let_def gm_get_def)

lemma request_owned_once_witness:
  "mset [(0 :: u64, 21 :: nat)] = mset (concat (map handed [Joined 0 20, Requested 0 21, ShutDown [(0, 21)] [20]]))"
  using request_owned_once [OF sample_run_shut [unfolded sample_session_def]] by simp

lemma every_subscriber_told_witness:
  "20 \<in> set (concat (map told [Joined 0 20, Requested 0 21, ShutDown [(0, 21)] [20]]))"
  using every_subscriber_told [OF sample_run_shut [unfolded sample_session_def], of 0 20] by simp

lemma shutdown_is_final_witness:
  "\<exists>r s1. beginShutdown sample_session = (r, s1) \<and> sess_run s1 [] s1 \<and> sClosed s1"
proof -
  obtain r s1 where b: "beginShutdown sample_session = (r, s1)" by (cases "beginShutdown sample_session")
  moreover have "sess_inv sample_session" unfolding sample_session_def by (rule newSession_inv)
  ultimately show ?thesis using shutdown_is_final [OF b _ sess_run.start] sess_run.start by blast
qed

end
