(* ===== verification/Revocation.thy ===== *)
theory Revocation
  imports Certs Wire_Hello
begin

text \<open>
  The revocation set and the TLS configuration (\<^verbatim>\<open>internal/mtls/mtls.go\<close>). The atomic
  pointer is an option; the map behind it is one value, so a swap is one step. Loading key
  pairs and certificate pools is the TLS library's and the file system's work and comes in as
  the fields of a \<open>tls_env\<close>.
\<close>

section \<open>The set of revoked serials\<close>

type_synonym serials = "(string, unit) gomap"
type_synonym revocation_set = "serials option"

definition rev_zero :: revocation_set where
  "rev_zero = None"

text \<open>\<open>maps.Copy\<close>: every entry of the source is assigned into the new map.\<close>

definition maps_copy :: "('k, 'v) gomap \<Rightarrow> ('k, 'v) gomap \<Rightarrow> ('k, 'v) gomap" where
  "maps_copy dst src = fold (\<lambda>(k, v) m. gm_set k v m) src dst"

definition rev_Replace :: "serials \<Rightarrow> revocation_set \<Rightarrow> revocation_set" where
  "rev_Replace serials s = Some (maps_copy [] serials)"

definition NewRevocationSet :: "serials \<Rightarrow> revocation_set" where
  "NewRevocationSet serials = rev_Replace serials rev_zero"

definition rev_Contains :: "revocation_set \<Rightarrow> string \<Rightarrow> bool" where
  "rev_Contains s serial =
     (case s of None \<Rightarrow> False | Some current \<Rightarrow> gm_get current serial \<noteq> None)"

definition rev_Len :: "revocation_set \<Rightarrow> nat" where
  "rev_Len s = (case s of None \<Rightarrow> 0 | Some current \<Rightarrow> gm_len current)"

lemma gm_get_maps_copy:
  "gm_get (maps_copy dst src) k =
     (case gm_get (rev src) k of None \<Rightarrow> gm_get dst k | Some v \<Rightarrow> Some v)"
  unfolding maps_copy_def
  by (induction src rule: rev_induct) (auto simp: gm_set_def update_conv' gm_get_def split: option.splits)

lemma rev_Contains_Replace:
  "rev_Contains (rev_Replace serials s) x \<longleftrightarrow> x \<in> set (gm_keys serials)"
proof -
  have "gm_get (rev serials) x = None \<longleftrightarrow> x \<notin> set (gm_keys serials)"
    by (simp add: gm_get_def gm_keys_def map_of_eq_None_iff)
  then show ?thesis
    by (cases "gm_get (rev serials) x")
      (simp_all add: rev_Contains_def rev_Replace_def gm_get_maps_copy)
qed

lemma rev_Len_0: "rev_Len s = 0 \<Longrightarrow> \<not> rev_Contains s x"
  by (auto simp: rev_Len_def rev_Contains_def gm_len_def split: option.splits)

section \<open>The handshake hook\<close>

definition revoked_error :: "cert \<Rightarrow> error" where
  "revoked_error leaf = Msg (''certificate '' @ go_quote (cCN leaf) @ '' (serial '' @ serial_text leaf @
     '') has been revoked'')"

fun check_chains :: "revocation_set \<Rightarrow> cert list list \<Rightarrow> error option" where
  "check_chains r [] = None"
| "check_chains r (chain # chs) =
     (case chain of
        [] \<Rightarrow> check_chains r chs
      | leaf # _ \<Rightarrow>
          if rev_Contains r (serial_text leaf) then Some (revoked_error leaf)
          else check_chains r chs)"

definition verifyNotRevoked :: "revocation_set \<Rightarrow> cert list list \<Rightarrow> error option" where
  "verifyNotRevoked r chs = (if rev_Len r = 0 then None else check_chains r chs)"

lemma check_chains_None:
  "check_chains r chs = None \<longleftrightarrow>
   (\<forall>chain \<in> set chs. chain \<noteq> [] \<longrightarrow> \<not> rev_Contains r (serial_text (hd chain)))"
  by (induction chs) (auto split: list.splits)

lemma verifyNotRevoked_None:
  "verifyNotRevoked r chs = None \<longleftrightarrow>
   (\<forall>chain \<in> set chs. chain \<noteq> [] \<longrightarrow> \<not> rev_Contains r (serial_text (hd chain)))"
  by (auto simp: verifyNotRevoked_def check_chains_None rev_Len_0)

section \<open>The TLS configuration\<close>

record ('kp, 'pool) tls_env =
  loadX509KeyPair :: "string \<Rightarrow> string \<Rightarrow> 'kp result"
  readFile :: "string \<Rightarrow> byte list result"
  certsFromPEM :: "byte list \<Rightarrow> 'pool option"

datatype client_auth = NoClientCert | RequireAndVerifyClientCert
datatype curve = X25519MLKEM768

definition VersionTLS13 :: u16 where "VersionTLS13 = 0x0304"

record ('kp, 'pool) tls_config =
  tlsCertificates :: "'kp list"
  tlsNextProtos :: "string list"
  tlsMinVersion :: u16
  tlsCurves :: "curve list"
  tlsClientAuth :: client_auth
  tlsClientCAs :: "'pool option"
  tlsRootCAs :: "'pool option"
  tlsVerifiesRevocation :: bool
  tlsTicketsDisabled :: bool

text \<open>
  \<open>hasRevoked\<close> says whether the \<open>revoked\<close> handle is non-nil; the hook installed then is
  \<open>verifyNotRevoked\<close> on the handle, that is, on whatever set it holds at handshake time.
\<close>

definition LoadConfig ::
  "('kp, 'pool) tls_env \<Rightarrow> string \<Rightarrow> string \<Rightarrow> string \<Rightarrow> bool \<Rightarrow> bool \<Rightarrow> ('kp, 'pool) tls_config result" where
  "LoadConfig env certFile keyFile caFile server hasRevoked =
     (case loadX509KeyPair env certFile keyFile of
        Inl e \<Rightarrow> Inl (wrap ''load certificate/key'' e)
      | Inr kp \<Rightarrow>
          (case readFile env caFile of
             Inl e \<Rightarrow> Inl (wrap ''read ca certificate'' e)
           | Inr caPEM \<Rightarrow>
               (case certsFromPEM env caPEM of
                  None \<Rightarrow> Inl (Msg (''no certificates found in '' @ caFile))
                | Some pool \<Rightarrow>
                    (let cfg = \<lparr>tlsCertificates = [kp], tlsNextProtos = [ALPN],
                                tlsMinVersion = VersionTLS13, tlsCurves = [X25519MLKEM768],
                                tlsClientAuth = NoClientCert, tlsClientCAs = None,
                                tlsRootCAs = None, tlsVerifiesRevocation = False,
                                tlsTicketsDisabled = False\<rparr>
                     in Inr (if server
                             then cfg\<lparr>tlsClientAuth := RequireAndVerifyClientCert,
                                      tlsClientCAs := Some pool,
                                      tlsVerifiesRevocation := hasRevoked,
                                      tlsTicketsDisabled := True\<rparr>
                             else cfg\<lparr>tlsRootCAs := Some pool\<rparr>)))))"

lemma LoadConfig_Inr:
  "LoadConfig env cf kf caf server rv = Inr cfg \<Longrightarrow>
   tlsMinVersion cfg = VersionTLS13 \<and> tlsCurves cfg = [X25519MLKEM768] \<and> tlsNextProtos cfg = [ALPN] \<and>
   (if server
    then tlsClientAuth cfg = RequireAndVerifyClientCert \<and> tlsTicketsDisabled cfg \<and>
      tlsVerifiesRevocation cfg = rv \<and> tlsClientCAs cfg \<noteq> None
    else tlsRootCAs cfg \<noteq> None)"
  by (auto simp: LoadConfig_def Let_def split: sum.splits option.splits if_splits)

section \<open>Properties\<close>

text \<open>
  The handshake hook refuses exactly the revoked. After a reload has stored a serial list,
  a peer's verified chains pass if and only if no chain's leaf has a serial number, in the
  text form the list is kept in, that the list names; which list was stored before, and
  whether it was empty, makes no difference.
\<close>

theorem handshake_refuses_revoked:
  "verifyNotRevoked (rev_Replace serials s) chs = None \<longleftrightarrow>
   \<not> (\<exists>leaf rest. (leaf # rest) \<in> set chs \<and> serial_text leaf \<in> set (gm_keys serials))"
proof -
  have "(\<forall>chain \<in> set chs. chain \<noteq> [] \<longrightarrow> \<not> rev_Contains (rev_Replace serials s) (serial_text (hd chain))) \<longleftrightarrow>
    \<not> (\<exists>leaf rest. (leaf # rest) \<in> set chs \<and> serial_text leaf \<in> set (gm_keys serials))"
    unfolding rev_Contains_Replace by (metis list.collapse list.discI list.sel(1))
  then show ?thesis by (simp add: verifyNotRevoked_None)
qed

text \<open>
  A relay's listener can always be given a revocation list. The configuration of a server
  requires and verifies client certificates against the private CA, consults the revocation
  handle at every handshake whenever one exists (even an empty one), and never resumes a
  session, which would skip that check; and every configuration is TLS 1.3 with the hybrid
  post-quantum group alone.
\<close>

theorem server_config_verifies:
  assumes "LoadConfig env cf kf caf server rv = Inr cfg"
  shows "tlsMinVersion cfg = VersionTLS13 \<and> tlsCurves cfg = [X25519MLKEM768] \<and>
    (if server
     then tlsClientAuth cfg = RequireAndVerifyClientCert \<and> tlsTicketsDisabled cfg \<and>
       tlsVerifiesRevocation cfg = rv \<and> tlsClientCAs cfg \<noteq> None
     else tlsRootCAs cfg \<noteq> None)"
  using LoadConfig_Inr [OF assms] by (auto split: if_splits)

lemma server_config_verifies_witness:
  "\<exists>cfg :: (unit, unit) tls_config. LoadConfig \<lparr>loadX509KeyPair = \<lambda>_ _. Inr (), readFile = \<lambda>_. Inr [], certsFromPEM = \<lambda>_. Some ()\<rparr>
      ''c'' ''k'' ''ca'' True True = Inr cfg \<and> tlsTicketsDisabled cfg"
proof -
  let ?env = "\<lparr>loadX509KeyPair = \<lambda>_ _. Inr (), readFile = \<lambda>_. Inr [], certsFromPEM = \<lambda>_. Some ()\<rparr> ::
    (unit, unit) tls_env"
  obtain cfg where "LoadConfig ?env ''c'' ''k'' ''ca'' True True = Inr cfg"
    by (simp add: LoadConfig_def Let_def)
  with server_config_verifies [OF this] show ?thesis by auto
qed

end
