(* ===== verification/Connections.thy ===== *)
theory Connections
  imports Revocation
begin

text \<open>
  The set of live transports (\<^verbatim>\<open>internal/relay/connections.go\<close>). A raw transport is named
  by a number; a \<open>trackedConn\<close> is a raw transport with the set that tracks it. A transport
  maps to the serial it authenticated with, or to the empty text before that. The
  operations return, beside their result, the raw transports they close.

  Every operation holds the set's mutex for its whole body but for two points, which the step
  relation of the last section keeps apart: \<open>authenticate\<close> reads the revocation set and then
  records the serial, and a reload stores its new set before it scans. Go maps are iterated
  in the list's order.
\<close>

section \<open>State and operations\<close>

definition maxConnections :: nat where "maxConnections = 1024"

datatype net_conn = RawConn nat | TrackedConn nat nat

record connection_set =
  csSelf :: nat
  csConns :: "(nat, string) gomap"

definition new_connections :: "nat \<Rightarrow> connection_set" where
  "new_connections self = \<lparr>csSelf = self, csConns = []\<rparr>"

definition track :: "nat \<Rightarrow> connection_set \<Rightarrow> net_conn option \<times> connection_set" where
  "track conn s =
     (if gm_len (csConns s) \<ge> maxConnections then (None, s)
      else (Some (TrackedConn conn (csSelf s)), s\<lparr>csConns := gm_set conn [] (csConns s)\<rparr>))"

text \<open>
  \<open>authenticate\<close> in its two parts: the checks, which give the raw transport to record, and
  the record itself. \<open>revoked\<close> is \<open>None\<close> for a nil handle.
\<close>

definition authenticate_check ::
  "net_conn \<Rightarrow> string \<Rightarrow> revocation_set option \<Rightarrow> connection_set \<Rightarrow> nat option" where
  "authenticate_check conn serial revoked s =
     (case conn of
        RawConn _ \<Rightarrow> None
      | TrackedConn raw owner \<Rightarrow>
          if owner \<noteq> csSelf s \<or> serial = [] then None
          else if gm_get (csConns s) raw = None \<or>
                  (case revoked of None \<Rightarrow> False | Some r \<Rightarrow> rev_Contains r serial)
          then None else Some raw)"

definition authenticate_record :: "nat \<Rightarrow> string \<Rightarrow> connection_set \<Rightarrow> connection_set" where
  "authenticate_record raw serial s = s\<lparr>csConns := gm_set raw serial (csConns s)\<rparr>"

definition authenticate ::
  "net_conn \<Rightarrow> string \<Rightarrow> revocation_set option \<Rightarrow> connection_set \<Rightarrow> bool \<times> connection_set" where
  "authenticate conn serial revoked s =
     (case authenticate_check conn serial revoked s of
        None \<Rightarrow> (False, s)
      | Some raw \<Rightarrow> (True, authenticate_record raw serial s))"

text \<open>The loop over the map: what to close, the transport left for later, the map.\<close>

fun evict_scan ::
  "(string \<Rightarrow> bool) \<Rightarrow> nat option \<Rightarrow> (nat \<times> string) list \<Rightarrow> nat list \<Rightarrow> nat option \<Rightarrow>
   (nat, string) gomap \<Rightarrow> nat list \<times> nat option \<times> (nat, string) gomap" where
  "evict_scan matches reply [] conns deferred m = (conns, deferred, m)"
| "evict_scan matches reply ((conn, serial) # rest) conns deferred m =
     (if serial = [] \<or> \<not> matches serial then evict_scan matches reply rest conns deferred m
      else if Some conn = reply then evict_scan matches reply rest conns (Some conn) m
      else evict_scan matches reply rest (conns @ [conn]) deferred (gm_del conn m))"

definition raw_of :: "net_conn \<Rightarrow> nat" where
  "raw_of conn = (case conn of RawConn raw \<Rightarrow> raw | TrackedConn raw _ \<Rightarrow> raw)"

text \<open>
  The number of evictions, the transports closed at once, the one deferred, the new set.
\<close>

definition closeMatchingAfterReply ::
  "(string \<Rightarrow> bool) \<Rightarrow> net_conn option \<Rightarrow> connection_set \<Rightarrow>
   (nat \<times> nat list \<times> nat option) \<times> connection_set" where
  "closeMatchingAfterReply matches replyConn s =
     (let reply = map_option raw_of replyConn;
          (conns, deferred, m) = evict_scan matches reply (csConns s) [] None (csConns s);
          closed = length conns + (if deferred \<noteq> None then 1 else 0)
      in ((closed, conns, deferred), s\<lparr>csConns := m\<rparr>))"

definition finish_reply :: "nat option \<Rightarrow> connection_set \<Rightarrow> nat list \<times> connection_set" where
  "finish_reply deferred s =
     (case deferred of
        None \<Rightarrow> ([], s)
      | Some conn \<Rightarrow> ([conn], s\<lparr>csConns := gm_del conn (csConns s)\<rparr>))"

definition closeMatching ::
  "(string \<Rightarrow> bool) \<Rightarrow> connection_set \<Rightarrow> (nat \<times> nat list) \<times> connection_set" where
  "closeMatching matches s =
     (case closeMatchingAfterReply matches None s of
        ((closed, conns, deferred), s1) \<Rightarrow>
          (case finish_reply deferred s1 of (late, s2) \<Rightarrow> ((closed, conns @ late), s2)))"

definition closeAll :: "connection_set \<Rightarrow> nat list \<times> connection_set" where
  "closeAll s = (gm_keys (csConns s), s\<lparr>csConns := []\<rparr>)"

definition trackedConn_Close :: "nat \<Rightarrow> connection_set \<Rightarrow> nat list \<times> connection_set" where
  "trackedConn_Close raw s = ([raw], s\<lparr>csConns := gm_del raw (csConns s)\<rparr>)"

section \<open>What a scan does\<close>

definition covered :: "(string \<Rightarrow> bool) \<Rightarrow> (nat, string) gomap \<Rightarrow> nat \<Rightarrow> bool" where
  "covered matches m c \<longleftrightarrow> (\<exists>serial. gm_get m c = Some serial \<and> serial \<noteq> [] \<and> matches serial)"

lemma evict_scan_spec:
  assumes "evict_scan matches reply es conns deferred m = (conns', deferred', m')"
    and "distinct (map fst es)" and "gm_wf m"
  shows "gm_wf m' \<and> gm_len m' \<le> gm_len m \<and>
    set conns' = set conns \<union> {c. covered matches es c \<and> Some c \<noteq> reply} \<and>
    deferred' = (if \<exists>c. covered matches es c \<and> Some c = reply then reply else deferred) \<and>
    (\<forall>c. gm_get m' c = (if covered matches es c \<and> Some c \<noteq> reply then None else gm_get m c)) \<and>
    length conns' = length conns + card {c. covered matches es c \<and> Some c \<noteq> reply}"
  using assms
proof (induction matches reply es conns deferred m rule: evict_scan.induct)
  case (1 matches reply conns deferred m)
  then show ?case by (auto simp: covered_def)
next
  case (2 matches reply conn serial rest conns deferred m)
  let ?cov = "\<lambda>es. {c. covered matches es c \<and> Some c \<noteq> reply}"
  have notin: "\<not> covered matches rest conn"
    using "2.prems"(2) by (auto simp: covered_def gm_get_def dest: map_of_SomeD intro: rev_image_eqI)
  have cov: "covered matches ((conn, serial) # rest) c \<longleftrightarrow>
      (if c = conn then serial \<noteq> [] \<and> matches serial else covered matches rest c)" for c
    by (simp add: covered_def gm_get_def)
  have fin: "finite (?cov rest)"
  proof (rule finite_subset)
    show "?cov rest \<subseteq> fst ` set rest"
      by (auto simp: covered_def gm_get_def dest!: map_of_SomeD intro: rev_image_eqI)
  qed simp
  consider (skip) "serial = [] \<or> \<not> matches serial"
    | (reply) "serial \<noteq> []" "matches serial" "Some conn = reply"
    | (evict) "serial \<noteq> []" "matches serial" "Some conn \<noteq> reply" by blast
  then show ?case
  proof cases
    case skip
    then have "covered matches ((conn, serial) # rest) c \<longleftrightarrow> covered matches rest c" for c
      using cov notin by auto
    then show ?thesis using "2.IH"(1) "2.prems" skip by simp
  next
    case reply
    then have "covered matches ((conn, serial) # rest) c \<and> Some c \<noteq> reply \<longleftrightarrow>
        covered matches rest c \<and> Some c \<noteq> reply" for c
      using cov by auto
    moreover have "\<exists>c. covered matches ((conn, serial) # rest) c \<and> Some c = reply"
      using reply cov by (intro exI [of _ conn]) simp
    ultimately show ?thesis using "2.IH"(2) "2.prems" reply by auto
  next
    case evict
    have ih: "gm_wf m' \<and> gm_len m' \<le> gm_len (gm_del conn m) \<and>
      set conns' = set (conns @ [conn]) \<union> ?cov rest \<and>
      deferred' = (if \<exists>c. covered matches rest c \<and> Some c = reply then reply else deferred) \<and>
      (\<forall>c. gm_get m' c = (if covered matches rest c \<and> Some c \<noteq> reply then None else gm_get (gm_del conn m) c)) \<and>
      length conns' = length (conns @ [conn]) + card (?cov rest)"
      using "2.prems" evict by (intro "2.IH"(3)) auto
    have "?cov ((conn, serial) # rest) = insert conn (?cov rest)"
      using evict cov by auto
    moreover have "card (insert conn (?cov rest)) = Suc (card (?cov rest))"
      using fin notin by simp
    moreover have "(\<exists>c. covered matches ((conn, serial) # rest) c \<and> Some c = reply) \<longleftrightarrow>
        (\<exists>c. covered matches rest c \<and> Some c = reply)"
      using evict(3) cov by metis
    moreover have "gm_len m' \<le> gm_len m"
      using ih gm_len_del_le [of conn m] by (meson le_trans)
    ultimately show ?thesis using ih evict cov by (auto simp: gomap_simps)
  qed
qed

text \<open>The whole operation, over the set before and the set after.\<close>

lemma closeMatchingAfterReply_spec:
  assumes "closeMatchingAfterReply matches replyConn s = ((closed, conns, deferred), s')"
    and "gm_wf (csConns s)"
  defines "reply \<equiv> map_option raw_of replyConn"
  shows "gm_wf (csConns s') \<and> gm_len (csConns s') \<le> gm_len (csConns s) \<and>
    set conns = {c. covered matches (csConns s) c \<and> Some c \<noteq> reply} \<and>
    deferred = (if \<exists>c. covered matches (csConns s) c \<and> Some c = reply then reply else None) \<and>
    (\<forall>c. gm_get (csConns s') c =
      (if covered matches (csConns s) c \<and> Some c \<noteq> reply then None else gm_get (csConns s) c)) \<and>
    closed = card {c. covered matches (csConns s) c} \<and> csSelf s' = csSelf s"
proof -
  obtain conns0 deferred0 m where e: "evict_scan matches reply (csConns s) [] None (csConns s) = (conns0, deferred0, m)"
    by (metis prod_cases3)
  then have r: "conns = conns0" "deferred = deferred0" "s' = s\<lparr>csConns := m\<rparr>"
    "closed = length conns0 + (if deferred0 \<noteq> None then 1 else 0)"
    using assms(1) by (auto simp: closeMatchingAfterReply_def Let_def reply_def)
  have d: "distinct (map fst (csConns s))" using assms(2) by (simp add: gm_wf_def)
  note spec = evict_scan_spec [OF e d assms(2)]
  let ?C = "{c. covered matches (csConns s) c}"
  let ?N = "{c. covered matches (csConns s) c \<and> Some c \<noteq> reply}"
  have fin: "finite ?C"
  proof (rule finite_subset)
    show "?C \<subseteq> fst ` set (csConns s)"
      by (auto simp: covered_def gm_get_def dest!: map_of_SomeD intro: rev_image_eqI)
  qed simp
  have "card ?C = card ?N + (if deferred0 \<noteq> None then 1 else 0)"
  proof (cases "\<exists>c. covered matches (csConns s) c \<and> Some c = reply")
    case True
    then obtain c where c: "covered matches (csConns s) c" "reply = Some c" by auto
    then have "?C = insert c ?N" by auto
    moreover have "finite ?N" using fin by (rule rev_finite_subset) auto
    ultimately have "card ?C = Suc (card ?N)" using c(2) by simp
    moreover have "deferred0 \<noteq> None" using spec True c(2) by simp
    ultimately show ?thesis by simp
  next
    case False
    then have "?C = ?N" by auto
    with spec False show ?thesis by auto
  qed
  then show ?thesis using spec r by auto
qed

section \<open>Interleavings of admission and reload\<close>

text \<open>
  The steps of concurrent handlers on one set and one revocation handle. \<open>admAuth\<close> is an
  \<open>authenticate\<close> call between its check and its record, when it holds the mutex; \<open>admReload\<close>
  is the phase of the reload in progress, of which \<open>reloadMu\<close> allows one at a time.
\<close>

datatype reload_phase = NoReload | Stored "net_conn option" | Replying "nat option"

record admission =
  admSet :: connection_set
  admRevoked :: revocation_set
  admReload :: reload_phase
  admAuth :: "(nat \<times> string) option"

definition adm_init :: "nat \<Rightarrow> serials \<Rightarrow> admission" where
  "adm_init self serials = \<lparr>admSet = new_connections self, admRevoked = NewRevocationSet serials,
     admReload = NoReload, admAuth = None\<rparr>"

inductive adm_step :: "admission \<Rightarrow> admission \<Rightarrow> bool" where
  accept: "admAuth a = None \<Longrightarrow> gm_get (csConns (admSet a)) raw = None \<Longrightarrow>
    track raw (admSet a) = (r, s') \<Longrightarrow> adm_step a (a\<lparr>admSet := s'\<rparr>)"
| check: "admAuth a = None \<Longrightarrow>
    authenticate_check conn serial (Some (admRevoked a)) (admSet a) = Some raw \<Longrightarrow>
    adm_step a (a\<lparr>admAuth := Some (raw, serial)\<rparr>)"
| record_serial: "admAuth a = Some (raw, serial) \<Longrightarrow>
    adm_step a (a\<lparr>admSet := authenticate_record raw serial (admSet a), admAuth := None\<rparr>)"
| store: "admReload a = NoReload \<Longrightarrow>
    adm_step a (a\<lparr>admRevoked := rev_Replace serials (admRevoked a), admReload := Stored reply\<rparr>)"
| scan: "admAuth a = None \<Longrightarrow> admReload a = Stored reply \<Longrightarrow>
    closeMatchingAfterReply (rev_Contains (admRevoked a)) reply (admSet a) = ((n, conns, deferred), s') \<Longrightarrow>
    adm_step a (a\<lparr>admSet := s', admReload := Replying deferred\<rparr>)"
| finish: "admAuth a = None \<Longrightarrow> admReload a = Replying deferred \<Longrightarrow>
    finish_reply deferred (admSet a) = (late, s') \<Longrightarrow>
    adm_step a (a\<lparr>admSet := s', admReload := NoReload\<rparr>)"
| close: "admAuth a = None \<Longrightarrow> trackedConn_Close raw (admSet a) = (cs, s') \<Longrightarrow>
    adm_step a (a\<lparr>admSet := s'\<rparr>)"

inductive adm_reach :: "nat \<Rightarrow> serials \<Rightarrow> admission \<Rightarrow> bool" for self serials where
  init: "adm_reach self serials (adm_init self serials)"
| step: "adm_reach self serials a \<Longrightarrow> adm_step a b \<Longrightarrow> adm_reach self serials b"

inductive_cases adm_stepE: "adm_step a b"

definition live_serials_ok :: "admission \<Rightarrow> nat option \<Rightarrow> bool" where
  "live_serials_ok a deferred \<longleftrightarrow>
     (\<forall>c. covered (rev_Contains (admRevoked a)) (csConns (admSet a)) c \<longrightarrow> Some c = deferred) \<and>
     (\<forall>raw serial. admAuth a = Some (raw, serial) \<longrightarrow> \<not> rev_Contains (admRevoked a) serial)"

definition adm_inv :: "admission \<Rightarrow> bool" where
  "adm_inv a \<longleftrightarrow>
     gm_wf (csConns (admSet a)) \<and> gm_len (csConns (admSet a)) \<le> maxConnections \<and>
     (\<forall>raw serial. admAuth a = Some (raw, serial) \<longrightarrow>
        serial \<noteq> [] \<and> gm_get (csConns (admSet a)) raw \<noteq> None) \<and>
     (case admReload a of
        NoReload \<Rightarrow> live_serials_ok a None
      | Stored reply \<Rightarrow> True
      | Replying deferred \<Rightarrow> live_serials_ok a deferred)"

lemma gm_len_set_present:
  "gm_get m k \<noteq> None \<Longrightarrow> gm_len (gm_set k v m) = gm_len m"
  by (induction m) (auto simp: gm_get_def gm_len_def gm_set_def split: if_splits)

lemma adm_inv_init: "adm_inv (adm_init self serials)"
  by (simp add: adm_inv_def adm_init_def new_connections_def live_serials_ok_def covered_def)

lemma authenticate_check_Some:
  "authenticate_check conn serial (Some r) s = Some raw \<Longrightarrow>
   serial \<noteq> [] \<and> gm_get (csConns s) raw \<noteq> None \<and> \<not> rev_Contains r serial"
  by (auto simp: authenticate_check_def split: net_conn.splits if_splits)

lemma covered_set:
  "covered P (gm_set k v m) c \<longleftrightarrow> (if c = k then v \<noteq> [] \<and> P v else covered P m c)"
  by (simp add: covered_def gomap_simps)

lemma covered_del: "covered P (gm_del k m) c \<longleftrightarrow> c \<noteq> k \<and> covered P m c"
  by (simp add: covered_def gomap_simps)

lemma live_serials_record:
  assumes "live_serials_ok a d" and "admAuth a = Some (raw, serial)"
  shows "live_serials_ok (a\<lparr>admSet := authenticate_record raw serial (admSet a), admAuth := None\<rparr>) d"
  using assms by (auto simp: live_serials_ok_def authenticate_record_def covered_set)

lemma live_serials_check:
  assumes "live_serials_ok a d" and "authenticate_check conn serial (Some (admRevoked a)) (admSet a) = Some raw"
  shows "live_serials_ok (a\<lparr>admAuth := Some (raw, serial)\<rparr>) d"
  using assms authenticate_check_Some [OF assms(2)] by (simp add: live_serials_ok_def)

lemma live_serials_del:
  "live_serials_ok a d \<Longrightarrow>
   live_serials_ok (a\<lparr>admSet := (admSet a)\<lparr>csConns := gm_del raw (csConns (admSet a))\<rparr>\<rparr>) d"
  by (auto simp: live_serials_ok_def covered_del)

lemma live_serials_new:
  "live_serials_ok a d \<Longrightarrow> gm_get (csConns (admSet a)) raw = None \<Longrightarrow>
   live_serials_ok (a\<lparr>admSet := (admSet a)\<lparr>csConns := gm_set raw [] (csConns (admSet a))\<rparr>\<rparr>) d"
  by (auto simp: live_serials_ok_def covered_set)

lemma live_serials_phase [simp]:
  "live_serials_ok (a\<lparr>admReload := p\<rparr>) d = live_serials_ok a d"
  by (simp add: live_serials_ok_def)

lemma adm_inv_step:
  assumes "adm_step a b" and "adm_inv a"
  shows "adm_inv b"
  using assms(1)
proof (cases rule: adm_step.cases)
  case (accept raw r s')
  show ?thesis
  proof (cases "gm_len (csConns (admSet a)) \<ge> maxConnections")
    case True
    then have "s' = admSet a" using accept by (simp add: track_def)
    then have "b = a" using accept by (cases a) simp
    with assms(2) show ?thesis by simp
  next
    case False
    then have s': "s' = (admSet a)\<lparr>csConns := gm_set raw [] (csConns (admSet a))\<rparr>"
      using accept by (simp add: track_def)
    show ?thesis
      using assms(2) accept False s' live_serials_new [of a _ raw] gm_len_set_new [of "csConns (admSet a)" raw "[]"]
      by (auto simp: adm_inv_def gomap_simps split: reload_phase.splits)
  qed
next
  case (check conn serial raw)
  show ?thesis
    using assms(2) check(1) authenticate_check_Some [OF check(3)] live_serials_check [OF _ check(3)]
    by (auto simp: adm_inv_def split: reload_phase.splits)
next
  case (record_serial raw serial)
  have "gm_get (csConns (admSet a)) raw \<noteq> None"
    using assms(2) record_serial(2) by (auto simp: adm_inv_def)
  then have "gm_len (gm_set raw serial (csConns (admSet a))) = gm_len (csConns (admSet a))"
    by (rule gm_len_set_present)
  then show ?thesis
    using assms(2) record_serial live_serials_record [OF _ record_serial(2)]
    by (auto simp: adm_inv_def authenticate_record_def split: reload_phase.splits)
next
  case (store serials reply)
  then show ?thesis using assms(2) by (auto simp: adm_inv_def)
next
  case (scan reply n conns deferred s')
  have "gm_wf (csConns (admSet a))" using assms(2) by (simp add: adm_inv_def)
  note spec = closeMatchingAfterReply_spec [OF scan(4) this]
  have "gm_len (csConns s') \<le> maxConnections"
    using spec assms(2) by (auto simp: adm_inv_def)
  moreover have "Some c = deferred" if "covered (rev_Contains (admRevoked a)) (csConns s') c" for c
  proof -
    from that obtain v where v: "gm_get (csConns s') c = Some v" "v \<noteq> []" "rev_Contains (admRevoked a) v"
      by (auto simp: covered_def)
    then have "gm_get (csConns (admSet a)) c = Some v"
      "\<not> (covered (rev_Contains (admRevoked a)) (csConns (admSet a)) c \<and> Some c \<noteq> map_option raw_of reply)"
      using spec by (metis option.distinct(1))+
    moreover from this(1) v have "covered (rev_Contains (admRevoked a)) (csConns (admSet a)) c"
      by (auto simp: covered_def)
    ultimately show ?thesis using spec by auto
  qed
  ultimately show ?thesis
    using spec scan(1,2) by (simp add: adm_inv_def live_serials_ok_def)
next
  case (finish deferred late s')
  show ?thesis
  proof (cases deferred)
    case None
    then have "s' = admSet a" using finish by (simp add: finish_reply_def)
    then have "b = a\<lparr>admReload := NoReload\<rparr>" using finish by (cases a) simp
    moreover have "adm_inv (a\<lparr>admReload := NoReload\<rparr>)"
      using finish(3) None assms(2) by (simp add: adm_inv_def)
    ultimately show ?thesis by simp
  next
    case (Some c)
    then have s': "s' = (admSet a)\<lparr>csConns := gm_del c (csConns (admSet a))\<rparr>"
      using finish by (simp add: finish_reply_def)
    have "live_serials_ok a (Some c)" using assms(2) finish Some by (simp add: adm_inv_def)
    then have "live_serials_ok (a\<lparr>admSet := s'\<rparr>) None"
      using s' finish by (auto simp: live_serials_ok_def covered_del)
    then show ?thesis
      using assms(2) finish s' le_trans [OF gm_len_del_le] by (auto simp: adm_inv_def live_serials_ok_def)
  qed
next
  case (close raw cs s')
  then have s': "s' = (admSet a)\<lparr>csConns := gm_del raw (csConns (admSet a))\<rparr>"
    by (simp add: trackedConn_Close_def)
  show ?thesis
    using assms(2) close s' live_serials_del [of a _ raw] le_trans [OF gm_len_del_le]
    by (auto simp: adm_inv_def split: reload_phase.splits)
qed

lemma adm_reach_inv: "adm_reach self serials a \<Longrightarrow> adm_inv a"
  by (induction rule: adm_reach.induct) (auto intro: adm_inv_init adm_inv_step)

section \<open>Properties\<close>

text \<open>
  C5: No revoked peer stays admitted. Whatever accepts, authentications, closes and reloads
  interleave, once no reload is in progress every transport that authenticated did so with a
  serial the current list does not name: a peer whose check read the old list is caught by
  the scan that follows the swap. And there are never more than 1024 transports.
\<close>

theorem reload_leaves_no_revoked:
  assumes "adm_reach self serials a"
  shows "gm_len (csConns (admSet a)) \<le> maxConnections \<and>
    (admReload a = NoReload \<longrightarrow>
      (\<forall>c serial. gm_get (csConns (admSet a)) c = Some serial \<and> serial \<noteq> [] \<longrightarrow>
         \<not> rev_Contains (admRevoked a) serial))"
proof -
  note inv = adm_reach_inv [OF assms]
  have "\<not> rev_Contains (admRevoked a) serial"
    if idle: "admReload a = NoReload" and c: "gm_get (csConns (admSet a)) c = Some serial" "serial \<noteq> []"
    for c serial
  proof
    assume "rev_Contains (admRevoked a) serial"
    with c have "covered (rev_Contains (admRevoked a)) (csConns (admSet a)) c" by (auto simp: covered_def)
    moreover have "live_serials_ok a None" using inv idle by (simp add: adm_inv_def)
    ultimately show False by (auto simp: live_serials_ok_def)
  qed
  moreover have "gm_len (csConns (admSet a)) \<le> maxConnections" using inv by (simp add: adm_inv_def)
  ultimately show ?thesis by blast
qed

text \<open>
  What an eviction closes. It closes at once exactly the transports whose recorded serial
  matches, except the one the reply travels on, which \<open>finish\<close> closes; it counts them all;
  and the set keeps every other transport and its serial.
\<close>

theorem eviction_exact:
  assumes "closeMatchingAfterReply matches replyConn s = ((closed, conns, deferred), s1)"
    and "finish_reply deferred s1 = (late, s2)" and "gm_wf (csConns s)"
  shows "set (conns @ late) = {c. covered matches (csConns s) c} \<and>
    closed = card {c. covered matches (csConns s) c} \<and>
    set late = {c. covered matches (csConns s) c \<and> Some c = map_option raw_of replyConn} \<and>
    (\<forall>c. gm_get (csConns s2) c = (if covered matches (csConns s) c then None else gm_get (csConns s) c))"
proof -
  note spec = closeMatchingAfterReply_spec [OF assms(1,3)]
  let ?reply = "map_option raw_of replyConn"
  show ?thesis
  proof (cases "\<exists>c. covered matches (csConns s) c \<and> Some c = ?reply")
    case True
    then obtain c where c: "covered matches (csConns s) c" "?reply = Some c" by metis
    then have "deferred = Some c" using spec True by simp
    then have "late = [c]" "s2 = s1\<lparr>csConns := gm_del c (csConns s1)\<rparr>"
      using assms(2) by (simp_all add: finish_reply_def)
    with spec c show ?thesis by (auto simp: gomap_simps)
  next
    case False
    have "deferred = (if \<exists>c. covered matches (csConns s) c \<and> Some c = ?reply then ?reply else None)"
      using spec by blast
    then have "deferred = None" unfolding if_not_P [OF False] .
    then have "late = []" "s2 = s1" using assms(2) by (simp_all add: finish_reply_def)
    moreover have "set conns = {c. covered matches (csConns s) c \<and> Some c \<noteq> ?reply}"
      "closed = card {c. covered matches (csConns s) c}"
      "\<forall>c. gm_get (csConns s1) c =
        (if covered matches (csConns s) c \<and> Some c \<noteq> ?reply then None else gm_get (csConns s) c)"
      using spec by blast+
    ultimately show ?thesis using False by auto
  qed
qed

text \<open>A set of three transports: one unauthenticated, two with serials.\<close>

definition sample_set :: connection_set where
  "sample_set = \<lparr>csSelf = 0, csConns = [(1, []), (2, ''ab''), (3, ''cd'')]\<rparr>"

lemma eviction_exact_witness:
  "closeMatchingAfterReply (\<lambda>s. True) (Some (TrackedConn 3 0)) sample_set =
     ((2, [2], Some 3), \<lparr>csSelf = 0, csConns = [(1, []), (3, ''cd'')]\<rparr>) \<and>
   {c. covered (\<lambda>s. True) (csConns sample_set) c} = {2, 3}"
proof -
  have run: "closeMatchingAfterReply (\<lambda>s. True) (Some (TrackedConn 3 0)) sample_set =
     ((2, [2], Some 3), \<lparr>csSelf = 0, csConns = [(1, []), (3, ''cd'')]\<rparr>)"
    by (simp add: closeMatchingAfterReply_def sample_set_def raw_of_def gm_del_def AList.delete_eq)
  have fin: "finish_reply (Some 3) \<lparr>csSelf = 0, csConns = [(1, []), (3, ''cd'')]\<rparr> =
      ([3], \<lparr>csSelf = 0, csConns = [(1, [])]\<rparr>)"
    by (simp add: finish_reply_def gm_del_def AList.delete_eq)
  show ?thesis
    using run conjunct1 [OF eviction_exact [OF run fin]] by (simp add: sample_set_def gm_wf_def)
qed

lemma reload_leaves_no_revoked_witness:
  "\<exists>a. adm_reach 0 [] a \<and> admReload a = NoReload \<and>
     gm_get (csConns (admSet a)) 7 = Some ''ab'' \<and> \<not> rev_Contains (admRevoked a) ''ab''"
proof -
  let ?a0 = "adm_init 0 []"
  let ?s1 = "\<lparr>csSelf = 0, csConns = [(7, [])]\<rparr>"
  let ?a1 = "?a0\<lparr>admSet := ?s1\<rparr>"
  let ?a2 = "?a1\<lparr>admAuth := Some (7, ''ab'')\<rparr>"
  let ?a3 = "?a2\<lparr>admSet := authenticate_record 7 ''ab'' (admSet ?a2), admAuth := None\<rparr>"
  have "adm_step ?a0 ?a1"
    by (rule adm_step.accept [where raw = 7 and r = "Some (TrackedConn 7 0)"])
      (simp_all add: adm_init_def new_connections_def track_def gm_set_def maxConnections_def)
  moreover have "adm_step ?a1 ?a2"
    by (rule adm_step.check [where conn = "TrackedConn 7 0"])
      (simp_all add: adm_init_def authenticate_check_def gm_get_def rev_Contains_def
        NewRevocationSet_def rev_Replace_def maps_copy_def)
  moreover have "adm_step ?a2 ?a3"
    by (rule adm_step.record_serial) simp
  ultimately have "adm_reach 0 [] ?a3"
    by (meson adm_reach.init adm_reach.step)
  moreover have "admReload ?a3 = NoReload" by (simp add: adm_init_def)
  moreover have "gm_get (csConns (admSet ?a3)) 7 = Some ''ab''"
    by (simp add: authenticate_record_def gomap_simps)
  ultimately show ?thesis
    using reload_leaves_no_revoked [of 0 "[]" ?a3] by blast
qed

end
