(* ===== verification/Wire_Control.thy ===== *)
theory Wire_Control
  imports Wire_Hello
begin

text \<open>
  The length-prefixed frames of a control connection (\<^verbatim>\<open>internal/proto/control.go\<close>) and
  the two payloads they carry: a \<open>ControlRequestData\<close> request and a
  \<open>ControlSessionClosed\<close> reason.
\<close>

section \<open>Frames\<close>

type_synonym control_type = byte
type_synonym close_reason = byte

definition ControlPing :: control_type where [go_consts]: "ControlPing = 1"
definition ControlPong :: control_type where [go_consts]: "ControlPong = 2"
definition ControlRequestData :: control_type where [go_consts]: "ControlRequestData = 3"
definition ControlSessionClosed :: control_type where [go_consts]: "ControlSessionClosed = 4"
definition controlHeaderSize :: nat where [go_consts]: "controlHeaderSize = 1 + 4"
definition maxControlPayload :: nat where [go_consts]: "maxControlPayload = 1024"

text \<open>One frame on the wire: type, 32-bit big-endian length, payload.\<close>

definition encodeControl :: "control_type \<Rightarrow> byte list \<Rightarrow> byte list" where
  "encodeControl typ payload = [typ] @ put_u32 (of_nat (length payload)) @ payload"

definition WriteControlFrame ::
  "control_type \<Rightarrow> byte list \<Rightarrow> 'a conn_scheme \<Rightarrow> unit result \<times> 'a conn_scheme" where
  "WriteControlFrame typ payload c =
     (if length payload > maxControlPayload
      then (Inl (Msg (''write control frame: payload too large ('' @
                      show_nat (length payload) @ '' bytes)'')), c)
      else write_msg ''write control frame'' (encodeControl typ payload) c)"

definition ReadControlFrame ::
  "'a conn_scheme \<Rightarrow> (control_type \<times> byte list) result \<times> 'a conn_scheme" where
  "ReadControlFrame c =
     (case read_full controlHeaderSize c of
        (Inl e, c1) \<Rightarrow> (Inl (wrap ''read control frame'' e), c1)
      | (Inr header, c1) \<Rightarrow>
          (let typ = header ! 0; len = get_u32 (drop 1 header)
           in if unat len > maxControlPayload
              then (Inl (Msg (''read control frame: payload too large ('' @
                              show_nat (unat len) @ '' bytes)'')), c1)
              else case read_full (unat len) c1 of
                     (Inl e, c2) \<Rightarrow> (Inl (wrap ''read control frame'' e), c2)
                   | (Inr payload, c2) \<Rightarrow> (Inr (typ, payload), c2)))"

lemma length_encodeControl [simp]:
  "length (encodeControl typ payload) = controlHeaderSize + length payload"
  by (simp add: encodeControl_def go_consts)

lemma control_length_fits:
  "length payload \<le> maxControlPayload \<Longrightarrow> unat (of_nat (length payload) :: u32) = length payload"
  by (simp add: go_consts unat_of_nat)

lemma ReadControlFrame_encode:
  assumes "length payload \<le> maxControlPayload" and "\<not> shut c"
    and "inb c = encodeControl typ payload @ rest"
  shows "ReadControlFrame c = (Inr (typ, payload), c\<lparr>inb := rest\<rparr>)"
proof -
  have "read_full controlHeaderSize c =
        (Inr (typ # put_u32 (of_nat (length payload))), c\<lparr>inb := payload @ rest\<rparr>)"
    using assms by (intro read_full_ok) (simp_all add: encodeControl_def go_consts)
  moreover have "read_full (length payload) (c\<lparr>inb := payload @ rest\<rparr>) =
        (Inr payload, c\<lparr>inb := rest\<rparr>)"
    using assms by (subst read_full_ok [where bs = payload and rest = rest]) simp_all
  ultimately show ?thesis
    using assms(1) by (simp add: ReadControlFrame_def Let_def control_length_fits)
qed

lemma ReadControlFrame_sound:
  assumes "ReadControlFrame c = (Inr (typ, payload), c')"
  shows "length payload \<le> maxControlPayload \<and> inb c = encodeControl typ payload @ inb c'"
proof -
  obtain header c1 where h: "read_full controlHeaderSize c = (Inr header, c1)"
    and ty: "typ = header ! 0" and len: "unat (get_u32 (drop 1 header)) \<le> maxControlPayload"
    and p: "read_full (unat (get_u32 (drop 1 header))) c1 = (Inr payload, c')"
    using assms by (auto simp: ReadControlFrame_def Let_def split: prod.splits sum.splits if_splits)
  have hl: "length header = 5" and c: "inb c = header @ inb c1"
    using read_full_Inr [OF h] by (simp_all add: go_consts)
  have pl: "length payload = unat (get_u32 (drop 1 header))" and c1: "inb c1 = payload @ inb c'"
    using read_full_Inr [OF p] by simp_all
  have "put_u32 (of_nat (length payload)) = drop 1 header"
    using hl by (simp add: pl put_get_u32)
  then have "encodeControl typ payload = header @ payload"
    using nth_0_drop [of header] hl by (simp add: encodeControl_def ty)
  with len pl c c1 show ?thesis by simp
qed

text \<open>Each frame read takes its header off the stream, so a read loop makes progress.\<close>

lemma ReadControlFrame_shrinks:
  "ReadControlFrame c = (Inr (typ, payload), c') \<Longrightarrow> length (inb c') < length (inb c)"
  by (drule ReadControlFrame_sound) (simp add: go_consts)

lemma ReadControlFrame_frame:
  "ReadControlFrame c = (r, c') \<Longrightarrow>
   outb c' = outb c \<and> wscript c' = wscript c \<and> shut c' = shut c \<and> inerr c' = inerr c"
  unfolding ReadControlFrame_def Let_def
  by (auto split: prod.splits sum.splits if_splits dest!: read_full_frame)

lemma WriteControlFrame_Inr:
  "WriteControlFrame typ payload c = (Inr u, c') \<Longrightarrow>
   outb c' = outb c @ encodeControl typ payload \<and> length payload \<le> maxControlPayload"
  by (auto simp: WriteControlFrame_def split: if_splits dest: write_msg_Inr)

lemma WriteControlFrame_frame:
  "WriteControlFrame typ payload c = (r, c') \<Longrightarrow>
   inb c' = inb c \<and> shut c' = shut c \<and> inerr c' = inerr c"
  by (auto simp: WriteControlFrame_def split: if_splits dest: write_msg_frame)

section \<open>Session closed\<close>

definition ReasonPublisherGone :: close_reason where [go_consts]: "ReasonPublisherGone = 1"
definition sessionClosedSize :: nat where [go_consts]: "sessionClosedSize = 1"

definition reason_String :: "close_reason \<Rightarrow> string" where
  "reason_String r =
     (if r = ReasonPublisherGone then ''publisher disconnected''
      else ''unspecified reason ('' @ show_nat (unat r) @ '')'')"

definition WriteSessionClosed ::
  "close_reason \<Rightarrow> 'a conn_scheme \<Rightarrow> unit result \<times> 'a conn_scheme" where
  "WriteSessionClosed reason c = WriteControlFrame ControlSessionClosed [reason] c"

definition ReadSessionClosed :: "byte list \<Rightarrow> close_reason result" where
  "ReadSessionClosed payload =
     (if length payload \<noteq> sessionClosedSize
      then Inl (Msg (''read session closed: want '' @ show_nat sessionClosedSize @
                     '' byte, got '' @ show_nat (length payload)))
      else Inr (payload ! 0))"

interpretation session_closed_codec:
  fixed_codec "\<lambda>r :: close_reason. [r]" ReadSessionClosed "\<lambda>_. True" sessionClosedSize
  by unfold_locales (auto simp: ReadSessionClosed_def go_consts length_Suc_conv)

section \<open>Data requests\<close>

definition requestDataSize :: nat where [go_consts]: "requestDataSize = 8 + 2"
definition requestDataPortOff :: nat where [go_consts]: "requestDataPortOff = 8"

definition encodeRequestData :: "u64 \<times> port_index \<Rightarrow> byte list" where
  "encodeRequestData rp = put_u64 (fst rp) @ put_u16 (snd rp)"

definition WriteRequestData ::
  "u64 \<Rightarrow> port_index \<Rightarrow> 'a conn_scheme \<Rightarrow> unit result \<times> 'a conn_scheme" where
  "WriteRequestData rid port c = WriteControlFrame ControlRequestData (encodeRequestData (rid, port)) c"

definition ReadRequestData :: "byte list \<Rightarrow> (u64 \<times> port_index) result" where
  "ReadRequestData payload =
     (if length payload \<noteq> requestDataSize
      then Inl (Msg (''read request data: want '' @ show_nat requestDataSize @
                     '' bytes, got '' @ show_nat (length payload)))
      else Inr (get_u64 payload, get_u16 (drop requestDataPortOff payload)))"

lemma length_encodeRequestData [simp]: "length (encodeRequestData rp) = requestDataSize"
  by (simp add: encodeRequestData_def go_consts)

lemma Read_encodeRequestData: "ReadRequestData (encodeRequestData rp) = Inr rp"
  by (simp add: ReadRequestData_def encodeRequestData_def go_consts)

lemma ReadRequestData_sound:
  assumes "ReadRequestData bs = Inr rp"
  shows "encodeRequestData rp = bs"
proof -
  have len: "length bs = 10" and rp: "rp = (get_u64 bs, get_u16 (drop 8 bs))"
    using assms by (auto simp: ReadRequestData_def go_consts split: if_splits)
  have "put_u64 (get_u64 bs) = take 8 bs" and "put_u16 (get_u16 (drop 8 bs)) = drop 8 bs"
    using len put_get_u64 [of "take 8 bs"] put_get_u16 [of "drop 8 bs"]
    by (simp_all add: get_u64_def)
  then show ?thesis by (simp add: encodeRequestData_def rp)
qed

interpretation request_data_codec:
  fixed_codec encodeRequestData ReadRequestData "\<lambda>_. True" requestDataSize
  by unfold_locales (simp_all add: Read_encodeRequestData ReadRequestData_sound)

section \<open>Properties\<close>

text \<open>A run of frames on the wire, and a reader that takes frames until a read fails.\<close>

fun write_frames ::
  "(control_type \<times> byte list) list \<Rightarrow> conn \<Rightarrow> error option \<times> conn" where
  "write_frames [] c = (None, c)"
| "write_frames ((ty, payload) # fs) c =
     (case WriteControlFrame ty payload c of
        (Inl e, c1) \<Rightarrow> (Some e, c1)
      | (Inr _, c1) \<Rightarrow> write_frames fs c1)"

function read_frames :: "conn \<Rightarrow> (control_type \<times> byte list) list \<times> error \<times> conn" where
  "read_frames c =
     (case ReadControlFrame c of
        (Inl e, c1) \<Rightarrow> ([], e, c1)
      | (Inr f, c1) \<Rightarrow> (case read_frames c1 of (fs, e, c2) \<Rightarrow> (f # fs, e, c2)))"
  by pat_completeness auto
termination
  by (relation "measure (\<lambda>c. length (inb c))") (auto dest!: ReadControlFrame_shrinks [OF sym])

declare read_frames.simps [simp del]

definition encode_frames :: "(control_type \<times> byte list) list \<Rightarrow> byte list" where
  "encode_frames fs = concat (map (\<lambda>(ty, payload). encodeControl ty payload) fs)"

lemma write_frames_None:
  "write_frames fs c = (None, c') \<Longrightarrow>
   outb c' = outb c @ encode_frames fs \<and> (\<forall>(ty, payload) \<in> set fs. length payload \<le> maxControlPayload)"
proof (induction fs c rule: write_frames.induct)
  case (2 ty payload fs c)
  obtain r c1 where w: "WriteControlFrame ty payload c = (r, c1)"
    by (cases "WriteControlFrame ty payload c")
  with "2.prems" obtain u where "r = Inr u" by (cases r) auto
  with "2.prems" "2.IH" [OF w [symmetric]] WriteControlFrame_Inr [of ty payload c u c1] w
  show ?case by (auto simp: encode_frames_def)
qed (simp add: encode_frames_def)

lemma read_frames_end:
  assumes "\<not> shut c" "inerr c = Sentinel EOF" "inb c = []"
  shows "read_frames c = ([], wrap ''read control frame'' (Sentinel EOF), c)"
  using assms by (simp add: read_frames.simps [of c] ReadControlFrame_def read_full_def go_consts)

lemma read_frames_encoded:
  "\<not> shut c \<Longrightarrow> inerr c = Sentinel EOF \<Longrightarrow> inb c = encode_frames fs \<Longrightarrow>
   \<forall>(ty, payload) \<in> set fs. length payload \<le> maxControlPayload \<Longrightarrow>
   \<exists>c'. read_frames c = (fs, wrap ''read control frame'' (Sentinel EOF), c')"
proof (induction fs arbitrary: c)
  case Nil
  then show ?case using read_frames_end [of c] by (simp add: encode_frames_def)
next
  case (Cons f fs)
  obtain ty payload where f: "f = (ty, payload)" by (cases f)
  then have len: "length payload \<le> maxControlPayload" using Cons.prems(4) by simp
  have "inb c = encodeControl ty payload @ encode_frames fs"
    using Cons.prems(3) f by (simp add: encode_frames_def)
  then have r: "ReadControlFrame c = (Inr (ty, payload), c\<lparr>inb := encode_frames fs\<rparr>)"
    using ReadControlFrame_encode [OF len] Cons.prems(1) by blast
  obtain c' where "read_frames (c\<lparr>inb := encode_frames fs\<rparr>) =
      (fs, wrap ''read control frame'' (Sentinel EOF), c')"
    using Cons.IH [of "c\<lparr>inb := encode_frames fs\<rparr>"] Cons.prems by auto
  with r show ?case by (simp add: read_frames.simps [of c] f)
qed

text \<open>
  Control frames keep their boundaries. Any sequence of frames written without an error
  is read back frame by frame, types and payloads unchanged, up to a clean end of the stream;
  each payload is within the 1024 bytes a reader will allocate for.
\<close>

theorem control_frames_roundtrip:
  assumes "write_frames fs c = (None, c')"
    and "\<not> shut d" "inerr d = Sentinel EOF" "inb d = drop (length (outb c)) (outb c')"
  shows "(\<exists>d'. read_frames d = (fs, wrap ''read control frame'' (Sentinel EOF), d')) \<and>
    (\<forall>(ty, payload) \<in> set fs. length payload \<le> maxControlPayload)"
  using write_frames_None [OF assms(1)] read_frames_encoded [OF assms(2,3), of fs] assms(4) by simp

lemma control_frames_roundtrip_witness:
  "\<exists>d'. read_frames (new_conn (encode_frames [(1, []), (4, [1]), (2, [])])) =
     ([(1, []), (4, [1]), (2, [])], wrap ''read control frame'' (Sentinel EOF), d')"
proof -
  let ?fs = "[(1, []), (4, [1]), (2, [])] :: (control_type \<times> byte list) list"
  have "write_frames ?fs (new_conn []) = (None, (new_conn [])\<lparr>outb := encode_frames ?fs\<rparr>)"
    by (simp add: WriteControlFrame_def write_msg_ok new_conn_def encode_frames_def go_consts)
  from control_frames_roundtrip [OF this, of "new_conn (encode_frames ?fs)"]
  show ?thesis by (simp add: new_conn_def)
qed

text \<open>
  The two control payloads are their own messages: a data request and a session-closed
  reason are decoded to what was encoded, and a payload of any other length, such as the one
  of the other message, is refused by each decoder.
\<close>

theorem control_payloads_decode:
  "ReadRequestData (encodeRequestData (rid, port)) = Inr (rid, port) \<and>
   ReadSessionClosed [reason] = Inr reason \<and>
   (\<forall>bs. (\<exists>e. ReadRequestData bs = Inl e) \<longleftrightarrow> length bs \<noteq> requestDataSize) \<and>
   (\<forall>bs. (\<exists>e. ReadSessionClosed bs = Inl e) \<longleftrightarrow> length bs \<noteq> sessionClosedSize) \<and>
   (\<forall>bs rp. ReadRequestData bs = Inr rp \<longleftrightarrow> bs = encodeRequestData rp)"
proof (intro conjI allI)
  fix bs rp
  show "ReadRequestData bs = Inr rp \<longleftrightarrow> bs = encodeRequestData rp"
    using Read_encodeRequestData [of rp] ReadRequestData_sound [of bs rp] by (cases rp) auto
qed (simp_all add: Read_encodeRequestData, simp_all add: ReadSessionClosed_def ReadRequestData_def go_consts)

end
