(* ===== verification/Relay_World.thy ===== *)
theory Relay_World
  imports Session Connections Wire_Control
begin

text \<open>
  The state the relay's handlers share: the connections, the set of live transports, the
  revocation set, the sessions (on a heap, because a handler keeps its pointer to a session
  after the registry has dropped it) and the registry's two maps. A connection and its raw
  transport have the same number. Time is a clock reading in the state.

  Here are also the effects that run outside any mutex: closing connections and
  \<open>notifySessionClosed\<close>, and with them \<open>shutdown\<close>
  (\<^verbatim>\<open>internal/relay/session.go\<close>). The hard timer of \<open>notifySessionClosed\<close> closes the same
  connections the loop closes and has no effect of its own here.
\<close>

section \<open>The shared state\<close>

record world =
  wNet :: "nat \<Rightarrow> tls_conn"
  wConns :: connection_set
  wRevoked :: revocation_set
  wSess :: "nat \<Rightarrow> session"
  wNextSess :: nat
  wSessions :: "(session_id, nat) gomap"
  wKilled :: "(session_id, unit) gomap"
  wNow :: nat

definition on_net :: "nat \<Rightarrow> (tls_conn \<Rightarrow> 'r \<times> tls_conn) \<Rightarrow> world \<Rightarrow> 'r \<times> world" where
  "on_net k f w = (case f (wNet w k) of (r, c) \<Rightarrow> (r, w\<lparr>wNet := (wNet w)(k := c)\<rparr>))"

definition do_net :: "nat \<Rightarrow> (tls_conn \<Rightarrow> 'r \<times> tls_conn) \<Rightarrow> world \<Rightarrow> world" where
  "do_net k f w = snd (on_net k f w)"

definition on_sess :: "nat \<Rightarrow> (session \<Rightarrow> 'r \<times> session) \<Rightarrow> world \<Rightarrow> 'r \<times> world" where
  "on_sess ref f w = (case f (wSess w ref) of (r, s) \<Rightarrow> (r, w\<lparr>wSess := (wSess w)(ref := s)\<rparr>))"

definition do_sess :: "nat \<Rightarrow> (session \<Rightarrow> session) \<Rightarrow> world \<Rightarrow> world" where
  "do_sess ref f w = w\<lparr>wSess := (wSess w)(ref := f (wSess w ref))\<rparr>"

text \<open>Closing a TLS connection closes its tracked transport, which leaves the set.\<close>

definition tls_close :: "nat \<Rightarrow> world \<Rightarrow> world" where
  "tls_close k w =
     w\<lparr>wNet := (wNet w)(k := conn_close (wNet w k)),
       wConns := snd (trackedConn_Close k (wConns w))\<rparr>"

text \<open>What each step leaves alone.\<close>

definition same_registry :: "world \<Rightarrow> world \<Rightarrow> bool" where
  "same_registry w w' \<longleftrightarrow>
     wSessions w' = wSessions w \<and> wKilled w' = wKilled w \<and> wNextSess w' = wNextSess w"

lemma same_registry_refl [simp]: "same_registry w w"
  by (simp add: same_registry_def)

lemma same_registry_trans: "same_registry w w' \<Longrightarrow> same_registry w' w'' \<Longrightarrow> same_registry w w''"
  by (simp add: same_registry_def)

lemma on_net_registry: "on_net k f w = (r, w') \<Longrightarrow> same_registry w w' \<and> wSess w' = wSess w"
  by (auto simp: on_net_def same_registry_def split: prod.splits)

lemma on_net_at: "on_net k f w = (r, w') \<Longrightarrow> f (wNet w k) = (r, wNet w' k) \<and> (\<forall>i. i \<noteq> k \<longrightarrow> wNet w' i = wNet w i)"
  by (auto simp: on_net_def split: prod.splits)

text \<open>A refused registration leaves every session and the slot as they were.\<close>

lemma do_net_registry [simp]: "same_registry w (do_net k f w)" "wSess (do_net k f w) = wSess w"
  by (auto simp: do_net_def on_net_def same_registry_def split: prod.splits)

lemma on_sess_registry: "on_sess ref f w = (r, w') \<Longrightarrow> same_registry w w' \<and> wNet w' = wNet w"
  by (auto simp: on_sess_def same_registry_def split: prod.splits)

lemma do_sess_registry [simp]: "same_registry w (do_sess ref f w)"
  by (simp add: do_sess_def same_registry_def)

lemma tls_close_registry [simp]: "same_registry w (tls_close k w)" "wSess (tls_close k w) = wSess w"
  by (simp_all add: tls_close_def same_registry_def)

lemma tls_close_net:
  "wNet (tls_close k w) i = (if i = k then conn_close (wNet w k) else wNet w i)"
  by (simp add: tls_close_def)

section \<open>Shutdown\<close>

definition notify_one :: "nat \<Rightarrow> world \<Rightarrow> world" where
  "notify_one control w =
     tls_close control (do_net control (WriteSessionClosed ReasonPublisherGone) w)"

definition notifySessionClosed :: "nat list \<Rightarrow> world \<Rightarrow> world" where
  "notifySessionClosed controls w = fold notify_one controls w"

definition close_pending :: "(u64, pendingRequest) gomap \<Rightarrow> world \<Rightarrow> world" where
  "close_pending pending w = fold (\<lambda>req w. tls_close (prConn req) w) (gm_vals pending) w"

definition session_shutdown :: "nat \<Rightarrow> world \<Rightarrow> nat \<times> world" where
  "session_shutdown ref w =
     (case on_sess ref beginShutdown w of
        ((pending, controls), w1) \<Rightarrow>
          (length controls, notifySessionClosed controls (close_pending pending w1)))"

lemma fold_registry:
  assumes "\<And>x w. same_registry w (f x w)" and "\<And>x w. wSess (f x w) = wSess w"
  shows "same_registry w (fold f xs w) \<and> wSess (fold f xs w) = wSess w"
proof (induction xs arbitrary: w)
  case (Cons x xs)
  show ?case
    using Cons.IH [of "f x w"] same_registry_trans [OF assms(1)] assms(2) by auto
qed simp

lemma notify_one_registry [simp]:
  "same_registry w (notify_one k w)" "wSess (notify_one k w) = wSess w"
  using same_registry_trans [OF do_net_registry(1) tls_close_registry(1)] by (simp_all add: notify_one_def)

lemma session_shutdown_registry:
  assumes "session_shutdown ref w = (n, w')"
  shows "same_registry w w' \<and> wSess w' = (wSess w)(ref := snd (beginShutdown (wSess w ref)))"
proof -
  obtain pending controls w1 where b: "on_sess ref beginShutdown w = ((pending, controls), w1)"
    by (metis prod.exhaust)
  have w1: "same_registry w w1" "wSess w1 = (wSess w)(ref := snd (beginShutdown (wSess w ref)))"
    using b by (auto simp: on_sess_def same_registry_def split: prod.splits)
  have c: "same_registry w1 (close_pending pending w1) \<and> wSess (close_pending pending w1) = wSess w1"
    unfolding close_pending_def by (rule fold_registry) simp_all
  have "same_registry (close_pending pending w1) (notifySessionClosed controls (close_pending pending w1)) \<and>
      wSess (notifySessionClosed controls (close_pending pending w1)) = wSess (close_pending pending w1)"
    unfolding notifySessionClosed_def by (rule fold_registry) simp_all
  with assms b w1 c show ?thesis
    by (auto simp: session_shutdown_def intro: same_registry_trans)
qed

text \<open>What the network sees: connections only ever become closed, and the named ones are.\<close>

definition only_closes :: "world \<Rightarrow> world \<Rightarrow> bool" where
  "only_closes w w' \<longleftrightarrow> (\<forall>k. shut (wNet w k) \<longrightarrow> shut (wNet w' k))"

lemma only_closes_refl [simp]: "only_closes w w"
  by (simp add: only_closes_def)

lemma only_closes_trans: "only_closes w w' \<Longrightarrow> only_closes w' w'' \<Longrightarrow> only_closes w w''"
  by (simp add: only_closes_def)

lemma tls_close_closes [simp]: "only_closes w (tls_close k w)" "shut (wNet (tls_close k w) k)"
  by (simp_all add: only_closes_def tls_close_net conn_close_def)

lemma WriteSessionClosed_shut: "WriteSessionClosed r c = (x, c') \<Longrightarrow> shut c' = shut c"
  by (auto simp: WriteSessionClosed_def dest: WriteControlFrame_frame)

lemma notify_one_closes [simp]: "only_closes w (notify_one k w)" "shut (wNet (notify_one k w) k)"
proof -
  have "only_closes w (do_net k (WriteSessionClosed ReasonPublisherGone) w)"
    by (auto simp: only_closes_def do_net_def on_net_def split: prod.split dest!: WriteSessionClosed_shut)
  then show "only_closes w (notify_one k w)"
    unfolding notify_one_def using tls_close_closes(1) only_closes_trans by blast
qed (simp add: notify_one_def)

lemma fold_closes:
  assumes "\<And>x w. only_closes w (f x w)" and "\<And>x w. shut (wNet (f x w) (key x))"
  shows "only_closes w (fold f xs w) \<and> (\<forall>x \<in> set xs. shut (wNet (fold f xs w) (key x)))"
proof (induction xs arbitrary: w)
  case (Cons x xs)
  have "only_closes (f x w) (fold f xs (f x w))" using Cons.IH by blast
  then show ?case
    using Cons.IH [of "f x w"] assms only_closes_trans [OF assms(1)] by (auto simp: only_closes_def)
qed simp

lemma session_shutdown_closes:
  assumes "session_shutdown ref w = (n, w')"
  shows "only_closes w w' \<and>
    (\<forall>req \<in> set (gm_vals (fst (fst (beginShutdown (wSess w ref))))). shut (wNet w' (prConn req))) \<and>
    (\<forall>k \<in> set (snd (fst (beginShutdown (wSess w ref)))). shut (wNet w' k)) \<and>
    n = length (snd (fst (beginShutdown (wSess w ref))))"
proof -
  obtain pending controls w1 where b: "on_sess ref beginShutdown w = ((pending, controls), w1)"
    by (metis prod.exhaust)
  then have f: "fst (beginShutdown (wSess w ref)) = (pending, controls)" and w1: "wNet w1 = wNet w"
    by (auto simp: on_sess_def split: prod.splits)
  let ?w2 = "close_pending pending w1"
  let ?w3 = "notifySessionClosed controls ?w2"
  have c: "only_closes w1 ?w2 \<and> (\<forall>req \<in> set (gm_vals pending). shut (wNet ?w2 (prConn req)))"
    unfolding close_pending_def by (rule fold_closes) simp_all
  have d: "only_closes ?w2 ?w3 \<and> (\<forall>k \<in> set controls. shut (wNet ?w3 k))"
    unfolding notifySessionClosed_def by (rule fold_closes) simp_all
  have r: "n = length controls" "w' = ?w3" using assms b by (simp_all add: session_shutdown_def)
  show ?thesis using c d f w1 r by (auto simp: only_closes_def)
qed

end
