(* ===== verification/Base32.thy ===== *)
theory Base32
  imports Go_Errors
begin

text \<open>
  \<open>encoding/base32\<close>'s standard alphabet without padding, as \<open>tokenEncoding\<close> of
  \<^verbatim>\<open>internal/proto/token.go\<close> uses it. The encoder turns each group of up to five bytes into
  base-32 digits, zero bits filling the last one; the decoder drops line breaks, reads up to
  eight digits at a time, and keeps as many bytes as the digits of the last group determine.
  It also has the library's quirk that, with padding off, the byte 255 plays the padding
  character's part (\<open>byte(NoPadding)\<close>).
\<close>

section \<open>Base-32 digits of a 40-bit number\<close>

fun digits32 :: "nat \<Rightarrow> nat \<Rightarrow> nat list" where
  "digits32 0 v = []"
| "digits32 (Suc n) v = digits32 n (v div 32) @ [v mod 32]"

definition val32 :: "nat list \<Rightarrow> nat" where
  "val32 ds = foldl (\<lambda>acc d. acc * 32 + d) 0 ds"

lemma length_digits32 [simp]: "length (digits32 n v) = n"
  by (induction n arbitrary: v) auto

lemma digits32_less: "d \<in> set (digits32 n v) \<Longrightarrow> d < 32"
  by (induction n arbitrary: v) auto

lemma val32_snoc [simp]: "val32 (ds @ [d]) = val32 ds * 32 + d"
  by (simp add: val32_def)

lemma val32_digits32: "v < 32 ^ n \<Longrightarrow> val32 (digits32 n v) = v"
proof (induction n arbitrary: v)
  case 0
  then show ?case by (simp add: val32_def)
next
  case (Suc n)
  then have "v div 32 < 32 ^ n"
    by (simp add: less_mult_imp_div_less mult.commute)
  with Suc.IH show ?case by simp
qed

lemma digits32_zeros: "digits32 (n + m) (v * 32 ^ m) = digits32 n v @ replicate m 0"
proof (induction m arbitrary: v)
  case (Suc m)
  have "v * 32 ^ Suc m div 32 = v * 32 ^ m"
    by (simp add: mult.assoc)
  with Suc show ?case
    by (simp add: replicate_append_same)
qed simp

section \<open>Encoding\<close>

definition b32_char :: "nat \<Rightarrow> char" where
  "b32_char d = (if d < 26 then char_of (65 + d) else char_of (24 + d))"

text \<open>How many digits a group of \<open>n\<close> bytes takes: its bits, rounded up to fives.\<close>

definition b32_len :: "nat \<Rightarrow> nat" where
  "b32_len n = (8 * n + 4) div 5"

definition b32_group :: "byte list \<Rightarrow> string" where
  "b32_group bs =
     map b32_char (take (b32_len (length bs)) (digits32 8 (be_nat bs * 256 ^ (5 - length bs))))"

function b32_encode :: "byte list \<Rightarrow> string" where
  "b32_encode bs = (if bs = [] then [] else b32_group (take 5 bs) @ b32_encode (drop 5 bs))"
  by pat_completeness auto
termination
  by (relation "measure length") auto

declare b32_encode.simps [simp del]

section \<open>Decoding\<close>

definition b32_value :: "char \<Rightarrow> nat option" where
  "b32_value c =
     (let k = of_char c
      in if 65 \<le> k \<and> k \<le> 90 then Some (k - 65)
         else if 50 \<le> k \<and> k \<le> 55 then Some (k - 24) else None)"

definition stripNewlines :: "string \<Rightarrow> string" where
  "stripNewlines s = filter (\<lambda>c. of_char c \<noteq> (13 :: nat) \<and> of_char c \<noteq> (10 :: nat)) s"

definition pad_char :: char where
  "pad_char = char_of (255 :: nat)"

text \<open>
  One group: the digits read so far and the rest of the input. \<open>None\<close> is a corrupt input;
  otherwise the group's digits, the unread input, and whether decoding ends here.
\<close>

function b32_read :: "nat list \<Rightarrow> string \<Rightarrow> (nat list \<times> string \<times> bool) option" where
  "b32_read ds src =
     (if 8 \<le> length ds then Some (ds, src, False)
      else case src of
        [] \<Rightarrow> Some (ds, [], True)
      | c # src' \<Rightarrow>
          if c = pad_char \<and> 2 \<le> length ds \<and> length src' < 8 then
            (if length src' + length ds < 7 then None
             else if list_ex (\<lambda>d. d \<noteq> pad_char) (take (7 - length ds) src') then None
             else if length ds \<in> {1, 3, 6} then None
             else Some (ds, src', True))
          else (case b32_value c of
                  None \<Rightarrow> None
                | Some v \<Rightarrow> b32_read (ds @ [v]) src'))"
  by pat_completeness auto
termination
  by (relation "measure (\<lambda>(ds, src). length src)") auto

declare b32_read.simps [simp del]

text \<open>How many bytes \<open>n\<close> digits of a group yield; 1, 3 and 6 digits yield none.\<close>

definition b32_bytes :: "nat \<Rightarrow> nat" where
  "b32_bytes n =
     (if n = 8 then 5 else if n = 7 then 4 else if n = 5 then 3
      else if n = 4 then 2 else if n = 2 then 1 else 0)"

definition b32_ungroup :: "nat list \<Rightarrow> byte list" where
  "b32_ungroup ds = take (b32_bytes (length ds)) (nat_be 5 (val32 ds * 32 ^ (8 - length ds)))"

lemma b32_read_rest: "b32_read ds src = Some (ds', src', e) \<Longrightarrow> length src' \<le> length src"
proof (induction ds src rule: b32_read.induct)
  case (1 ds src)
  show ?case
  proof (cases "8 \<le> length ds \<or> src = []")
    case True
    with "1.prems" show ?thesis by (auto simp: b32_read.simps [of ds src] split: if_splits)
  next
    case False
    then obtain c t where src: "src = c # t" and ds: "\<not> 8 \<le> length ds"
      by (cases src) auto
    show ?thesis
    proof (cases "c = pad_char \<and> 2 \<le> length ds \<and> length t < 8")
      case True
      with "1.prems" src ds show ?thesis
        by (simp add: b32_read.simps [of ds "pad_char # t"] split: if_split_asm)
    next
      case nopad: False
      with "1.prems" src ds obtain v where v: "b32_value c = Some v"
        and r: "b32_read (ds @ [v]) t = Some (ds', src', e)"
        by (auto simp: b32_read.simps [of ds "c # t"] split: if_split_asm option.splits)
      have "length src' \<le> length t"
        using "1.IH" [OF ds src nopad v r] .
      with src show ?thesis by simp
    qed
  qed
qed

lemma b32_read_first:
  assumes "b32_read [] src = Some (ds', src', e)" and "src \<noteq> []"
  shows "length src' < length src"
proof -
  obtain c t where src: "src = c # t" using assms(2) by (cases src) auto
  with assms(1) obtain v where "b32_read [v] t = Some (ds', src', e)"
    by (auto simp: b32_read.simps [of "[]"] split: option.splits)
  from b32_read_rest [OF this] src show ?thesis by simp
qed

function b32_decode_src :: "string \<Rightarrow> byte list option" where
  "b32_decode_src src =
     (if src = [] then Some []
      else case b32_read [] src of
        None \<Rightarrow> None
      | Some (ds, src', e) \<Rightarrow>
          if e then Some (b32_ungroup ds)
          else map_option (\<lambda>bs. b32_ungroup ds @ bs) (b32_decode_src src'))"
  by pat_completeness auto
termination
  by (relation "measure length") (auto dest: b32_read_first)

declare b32_decode_src.simps [simp del]

text \<open>\<open>DecodeString\<close>; the text of a \<open>CorruptInputError\<close> is not modelled beyond its prefix.\<close>

definition b32_decode :: "string \<Rightarrow> byte list result" where
  "b32_decode s =
     (case b32_decode_src (stripNewlines s) of
        None \<Rightarrow> Inl (Msg ''illegal base32 data at input byte'')
      | Some bs \<Rightarrow> Inr bs)"

section \<open>Round trip\<close>

lemma b32_char_value: "d < 32 \<Longrightarrow> b32_value (b32_char d) = Some d"
  by (auto simp: b32_value_def b32_char_def Let_def)

lemma of_char_b32_char:
  "d < 32 \<Longrightarrow> of_char (b32_char d) = (if d < 26 then 65 + d else 24 + d :: nat)"
  by (simp add: b32_char_def)

lemma b32_char_not_special:
  assumes "d < 32"
  shows "b32_char d \<noteq> pad_char" and "of_char (b32_char d) \<noteq> (13 :: nat)"
    and "of_char (b32_char d) \<noteq> (10 :: nat)"
proof -
  have "of_char pad_char = (255 :: nat)" by (simp add: pad_char_def)
  moreover have "of_char (b32_char d) \<noteq> (255 :: nat)"
    using of_char_b32_char [OF assms] assms by (simp split: if_splits)
  ultimately show "b32_char d \<noteq> pad_char" by metis
  show "of_char (b32_char d) \<noteq> (13 :: nat)" "of_char (b32_char d) \<noteq> (10 :: nat)"
    using of_char_b32_char [OF assms] by (simp_all split: if_splits)
qed

text \<open>Reading digits back: eight of them fill a group, fewer end the input.\<close>

lemma b32_read_digits:
  "\<forall>d \<in> set vs. d < 32 \<Longrightarrow> length ds + length vs \<le> 8 \<Longrightarrow>
   length ds + length vs = 8 \<or> rest = [] \<Longrightarrow>
   b32_read ds (map b32_char vs @ rest) =
     Some (ds @ vs, rest, length ds + length vs \<noteq> 8)"
proof (induction vs arbitrary: ds)
  case Nil
  then show ?case by (auto simp: b32_read.simps [of ds rest])
next
  case (Cons v vs)
  then have "b32_read (ds @ [v]) (map b32_char vs @ rest) =
      Some (ds @ v # vs, rest, length ds + length (v # vs) \<noteq> 8)"
    by simp
  with Cons.prems show ?case
    by (simp add: b32_read.simps [of ds "b32_char v # map b32_char vs @ rest"]
        b32_char_value b32_char_not_special)
qed

lemma b32_len_facts:
  assumes "0 < n" and "n \<le> 5"
  shows "b32_len n \<le> 8" and "0 < b32_len n" and "b32_len n = 8 \<longleftrightarrow> n = 5"
    and "b32_bytes (b32_len n) = n"
    and "(32 :: nat) ^ (8 - b32_len n) dvd 256 ^ (5 - n)"
proof -
  from assms consider "n = 1" | "n = 2" | "n = 3" | "n = 4" | "n = 5" by linarith
  then show "b32_len n \<le> 8" "0 < b32_len n" "b32_len n = 8 \<longleftrightarrow> n = 5"
    "b32_bytes (b32_len n) = n" "(32 :: nat) ^ (8 - b32_len n) dvd 256 ^ (5 - n)"
    by (cases; simp add: b32_len_def b32_bytes_def)+
qed

text \<open>The digits kept of a 40-bit number whose low digits are zero determine it.\<close>

lemma digits32_take:
  assumes "N < 32 ^ 8" and "k \<le> 8" and "32 ^ (8 - k) dvd N"
  shows "val32 (take k (digits32 8 N)) * 32 ^ (8 - k) = N"
proof -
  obtain q where q: "N = q * 32 ^ (8 - k)"
    using assms(3) by (metis dvd_def mult.commute)
  have "q * 32 ^ (8 - k) < 32 ^ k * 32 ^ (8 - k)"
    using assms(1,2) q by (simp add: power_add [symmetric])
  then have "q < 32 ^ k" by simp
  moreover have "take k (digits32 8 N) = digits32 k q"
    using digits32_zeros [of k "8 - k" q] assms(2) by (simp add: q)
  ultimately show ?thesis by (simp add: val32_digits32 q)
qed

lemma b32_group_digits:
  assumes "bs \<noteq> []" and "length bs \<le> 5"
  shows "\<exists>vs. b32_group bs = map b32_char vs \<and> length vs = b32_len (length bs) \<and>
    (\<forall>d \<in> set vs. d < 32) \<and> b32_ungroup vs = bs"
proof -
  define n where "n = length bs"
  define N where "N = be_nat bs * 256 ^ (5 - n)"
  define vs where "vs = take (b32_len n) (digits32 8 N)"
  have n: "0 < n" "n \<le> 5"
    using assms by (simp_all add: n_def)
  note len = b32_len_facts [OF n]
  have "N < 256 ^ n * 256 ^ (5 - n)"
    using be_nat_bound [of bs] by (simp add: N_def n_def)
  also have "\<dots> = 32 ^ 8"
    using n by (simp add: power_add [symmetric])
  finally have "val32 vs * 32 ^ (8 - b32_len n) = N"
    unfolding vs_def using len(1,5) by (intro digits32_take) (simp_all add: N_def)
  moreover have "length vs = b32_len n"
    using len(1) by (simp add: vs_def)
  ultimately have "b32_ungroup vs = take n (nat_be 5 N)"
    using len(4) by (simp add: b32_ungroup_def)
  also have "nat_be 5 N = bs @ replicate (5 - n) 0"
    using nat_be_zeros [of n "5 - n" "be_nat bs"] n nat_be_be_nat [of bs]
    by (simp add: N_def n_def)
  finally have "b32_ungroup vs = bs" by (simp add: n_def)
  moreover have "b32_group bs = map b32_char vs"
    by (simp add: b32_group_def vs_def n_def N_def)
  moreover have "\<forall>d \<in> set vs. d < 32"
    using digits32_less by (auto simp: vs_def dest: in_set_takeD)
  ultimately show ?thesis using len(1) by (auto simp: vs_def n_def min_def)
qed

lemma b32_decode_encode_src: "b32_decode_src (b32_encode bs) = Some bs"
proof (induction bs rule: b32_encode.induct)
  case (1 bs)
  show ?case
  proof (cases "bs = []")
    case True
    then show ?thesis by (simp add: b32_encode.simps b32_decode_src.simps)
  next
    case False
    let ?g = "take 5 bs"
    obtain vs where g: "b32_group ?g = map b32_char vs" and vs: "length vs = b32_len (length ?g)"
      "\<forall>d \<in> set vs. d < 32" "b32_ungroup vs = ?g"
      using b32_group_digits [of ?g] False by auto
    have enc: "b32_encode bs = map b32_char vs @ b32_encode (drop 5 bs)"
      using False g by (simp add: b32_encode.simps [of bs])
    have full: "length vs \<le> 8" "length vs = 8 \<longleftrightarrow> 5 \<le> length bs" "vs \<noteq> []"
    proof -
      have "0 < length ?g" and "length ?g \<le> 5" using False by simp_all
      from b32_len_facts(1-3) [OF this] vs(1)
      show "length vs \<le> 8" "length vs = 8 \<longleftrightarrow> 5 \<le> length bs" "vs \<noteq> []" by auto
    qed
    have rest: "5 \<le> length bs \<or> b32_encode (drop 5 bs) = []"
      by (simp add: b32_encode.simps [of "drop 5 bs"])
    have "b32_read [] (b32_encode bs) = Some (vs, b32_encode (drop 5 bs), length vs \<noteq> 8)"
      using b32_read_digits [of vs "[]" "b32_encode (drop 5 bs)"] vs(2) full rest enc by auto
    moreover have "b32_encode bs \<noteq> []" using enc full(3) by simp
    ultimately have dec: "b32_decode_src (b32_encode bs) =
        (if length vs \<noteq> 8 then Some (b32_ungroup vs)
         else map_option (\<lambda>bs. b32_ungroup vs @ bs) (b32_decode_src (b32_encode (drop 5 bs))))"
      by (simp add: b32_decode_src.simps [of "b32_encode bs"])
    have "b32_decode_src (b32_encode (drop 5 bs)) = Some (drop 5 bs)"
      using 1 False by simp
    with dec full(2) vs(3) show ?thesis
      by (cases "5 \<le> length bs") simp_all
  qed
qed

lemma b32_encode_digits: "\<exists>vs. b32_encode bs = map b32_char vs \<and> (\<forall>d \<in> set vs. d < 32)"
proof (induction bs rule: b32_encode.induct)
  case (1 bs)
  show ?case
  proof (cases "bs = []")
    case False
    obtain us where us: "b32_group (take 5 bs) = map b32_char us" "\<forall>d \<in> set us. d < 32"
      using b32_group_digits [of "take 5 bs"] False by auto
    obtain vs where vs: "b32_encode (drop 5 bs) = map b32_char vs" "\<forall>d \<in> set vs. d < 32"
      using 1 False by blast
    have "b32_encode bs = map b32_char (us @ vs)" using us(1) vs(1) False by (simp add: b32_encode.simps [of bs])
    then show ?thesis using us(2) vs(2) by (intro exI [of _ "us @ vs"]) auto
  qed (simp add: b32_encode.simps)
qed

lemma stripNewlines_encode: "stripNewlines (b32_encode bs) = b32_encode bs"
proof -
  obtain vs where "b32_encode bs = map b32_char vs" "\<forall>d \<in> set vs. d < 32" using b32_encode_digits by blast
  then show ?thesis by (auto simp: stripNewlines_def filter_id_conv dest: b32_char_not_special)
qed

lemma b32_decode_encode: "b32_decode (b32_encode bs) = Inr bs"
  by (simp add: b32_decode_def stripNewlines_encode b32_decode_encode_src)

lemma length_b32_encode: "length (b32_encode bs) = 8 * (length bs div 5) + b32_len (length bs mod 5)"
proof (induction bs rule: b32_encode.induct)
  case (1 bs)
  show ?case
  proof (cases "bs = []")
    case False
    have g: "length (b32_group (take 5 bs)) = b32_len (min 5 (length bs))"
    proof -
      have "b32_len (min 5 (length bs)) \<le> 8" by (simp add: b32_len_def)
      then show ?thesis by (simp add: b32_group_def min.commute)
    qed
    show ?thesis
    proof (cases "5 \<le> length bs")
      case True
      then have "length bs div 5 = Suc ((length bs - 5) div 5)" "length bs mod 5 = (length bs - 5) mod 5"
        by (simp_all add: le_div_geq le_mod_geq)
      with True False 1 g show ?thesis by (simp add: b32_encode.simps [of bs] b32_len_def)
    next
      case le: False
      with False g show ?thesis
        by (simp add: b32_encode.simps [of bs] b32_encode.simps [of "[]"])
    qed
  qed (simp add: b32_encode.simps b32_len_def)
qed

end
