(* ===== verification/Credentials.thy ===== *)
theory Credentials
  imports Base32 Wire_Hello
begin

text \<open>
  Session secrets (\<^verbatim>\<open>internal/proto/token.go\<close> and \<^verbatim>\<open>internal/proto/crypto.go\<close>):
  session keys, subscriber tokens, the credentials derived from either, and their text form.

  The cryptographic primitives are not code of this repository. They are the fields of a
  \<open>crypto\<close> record that every definition using them takes as an argument; \<open>crypto_ok\<close>
  states what the code relies on: output widths, that a parsed public key is the one that was
  encoded, that a signature made by a key verifies under it, and that an AEAD opens what it
  sealed.
\<close>

section \<open>Primitives\<close>

record ('sk, 'pk) crypto =
  hkdf :: "byte list \<Rightarrow> string \<Rightarrow> nat \<Rightarrow> byte list"
  sha256 :: "byte list \<Rightarrow> byte list"
  hmac256 :: "byte list \<Rightarrow> byte list \<Rightarrow> byte list"
  mldsa_sk :: "byte list \<Rightarrow> 'sk result"
  mldsa_pub :: "'sk \<Rightarrow> 'pk"
  mldsa_pk_bytes :: "'pk \<Rightarrow> byte list"
  mldsa_pk :: "byte list \<Rightarrow> 'pk result"
  mldsa_sign :: "'sk \<Rightarrow> byte list \<Rightarrow> string \<Rightarrow> byte list result"
  mldsa_verify :: "'pk \<Rightarrow> byte list \<Rightarrow> byte list \<Rightarrow> string \<Rightarrow> error option"
  sk_size :: nat
  pk_size :: nat
  sig_size :: nat
  aead_new :: "byte list \<Rightarrow> unit result"
  aead_seal :: "byte list \<Rightarrow> byte list \<Rightarrow> byte list \<Rightarrow> byte list"
  aead_open :: "byte list \<Rightarrow> byte list \<Rightarrow> byte list \<Rightarrow> byte list result"

definition aead_overhead :: nat where [go_consts]: "aead_overhead = 16"
definition aead_key_size :: nat where [go_consts]: "aead_key_size = 32"

definition aead_ok :: "('sk, 'pk) crypto \<Rightarrow> bool" where
  "aead_ok cr \<longleftrightarrow>
     (\<forall>key. length key = aead_key_size \<longrightarrow> aead_new cr key = Inr ()) \<and>
     (\<forall>key n p. aead_open cr key n (aead_seal cr key n p) = Inr p) \<and>
     (\<forall>key n p. length (aead_seal cr key n p) = length p + aead_overhead)"

definition kdf_ok :: "('sk, 'pk) crypto \<Rightarrow> bool" where
  "kdf_ok cr \<longleftrightarrow>
     (\<forall>s i n. n \<le> 255 * 32 \<longrightarrow> length (hkdf cr s i n) = n) \<and>
     (\<forall>m. length (sha256 cr m) = 32) \<and> (\<forall>k m. length (hmac256 cr k m) = 32)"

definition mldsa_ok :: "('sk, 'pk) crypto \<Rightarrow> bool" where
  "mldsa_ok cr \<longleftrightarrow>
     (\<forall>pk. length (mldsa_pk_bytes cr pk) = pk_size cr) \<and>
     (\<forall>pk. mldsa_pk cr (mldsa_pk_bytes cr pk) = Inr pk) \<and>
     (\<forall>sk m ctx sig. mldsa_sign cr sk m ctx = Inr sig \<longrightarrow>
        length sig = sig_size cr \<and> mldsa_verify cr (mldsa_pub cr sk) m sig ctx = None)"

definition crypto_ok :: "('sk, 'pk) crypto \<Rightarrow> bool" where
  "crypto_ok cr \<longleftrightarrow> kdf_ok cr \<and> mldsa_ok cr \<and> aead_ok cr"

section \<open>Derivation\<close>

type_synonym session_key = "byte list"
type_synonym subscriber_token = "byte list"
type_synonym data_secret = "byte list"
type_synonym data_key = "byte list"

definition signSeedInfo :: string where "signSeedInfo = ''ggrok/publisher-sign''"
definition dataSecretInfo :: string where "dataSecretInfo = ''ggrok/data''"
definition sessionIDInfo :: string where "sessionIDInfo = ''ggrok/session-id''"
definition pubKeyInfo :: string where "pubKeyInfo = ''ggrok data key publisher->subscriber''"
definition subKeyInfo :: string where "subKeyInfo = ''ggrok data key subscriber->publisher''"
definition SessionKeySize :: nat where [go_consts]: "SessionKeySize = 16"

definition SubscriberTokenSize :: nat where
  [go_consts]: "SubscriberTokenSize = DataSecretSize + SessionIDSize"

definition sessionLogTagBytes :: nat where [go_consts]: "sessionLogTagBytes = 6"

text \<open>\<open>SessionID.LogTag\<close>: the hexadecimal form of the first six bytes.\<close>

definition LogTag :: "session_id \<Rightarrow> string" where
  "LogTag s = hex_encode (take sessionLogTagBytes s)"

definition deriveKey :: "('sk, 'pk) crypto \<Rightarrow> byte list \<Rightarrow> string \<Rightarrow> nat \<Rightarrow> byte list" where
  "deriveKey cr secret info n = hkdf cr secret info n"

record 'sk credentials =
  crID :: session_id
  crData :: data_secret
  crSigner :: "'sk option"

definition sessionIDFor :: "('sk, 'pk) crypto \<Rightarrow> 'pk \<Rightarrow> session_id" where
  "sessionIDFor cr pk =
     (let digest = sha256 cr (mldsa_pk_bytes cr pk)
      in deriveKey cr digest sessionIDInfo SessionIDSize)"

definition SessionKey_Credentials ::
  "('sk, 'pk) crypto \<Rightarrow> session_key \<Rightarrow> 'sk credentials result" where
  "SessionKey_Credentials cr k =
     (let seed = deriveKey cr k signSeedInfo (sk_size cr)
      in case mldsa_sk cr seed of
           Inl e \<Rightarrow> Inl (wrap ''derive session signing key'' e)
         | Inr signer \<Rightarrow>
             Inr \<lparr>crID = sessionIDFor cr (mldsa_pub cr signer),
                  crData = deriveKey cr k dataSecretInfo DataSecretSize,
                  crSigner = Some signer\<rparr>)"

definition SubscriberToken_Credentials :: "subscriber_token \<Rightarrow> 'sk credentials" where
  "SubscriberToken_Credentials t =
     \<lparr>crID = take SessionIDSize (drop DataSecretSize t),
      crData = take DataSecretSize t, crSigner = None\<rparr>"

definition credentials_SubscriberToken :: "'sk credentials \<Rightarrow> subscriber_token" where
  "credentials_SubscriberToken c = crData c @ crID c"

definition deriveDataKeys :: "('sk, 'pk) crypto \<Rightarrow> data_secret \<Rightarrow> data_key \<times> data_key" where
  "deriveDataKeys cr secret =
     (deriveKey cr secret pubKeyInfo aead_key_size, deriveKey cr secret subKeyInfo aead_key_size)"

text \<open>The widths Go's array types give the fields.\<close>

definition creds_wf :: "'sk credentials \<Rightarrow> bool" where
  "creds_wf c \<longleftrightarrow> length (crID c) = SessionIDSize \<and> length (crData c) = DataSecretSize"

lemma length_deriveKey [simp]: "kdf_ok cr \<Longrightarrow> n \<le> 8160 \<Longrightarrow> length (deriveKey cr s i n) = n"
  by (simp add: kdf_ok_def deriveKey_def)

lemma length_sessionIDFor [simp]: "kdf_ok cr \<Longrightarrow> length (sessionIDFor cr pk) = SessionIDSize"
  by (simp add: sessionIDFor_def Let_def go_consts)

lemma SessionKey_Credentials_Inr:
  "SessionKey_Credentials cr k = Inr c \<Longrightarrow>
   \<exists>sk. crSigner c = Some sk \<and> crID c = sessionIDFor cr (mldsa_pub cr sk)"
  by (auto simp: SessionKey_Credentials_def Let_def split: sum.splits)

lemma SessionKey_Credentials_wf:
  "kdf_ok cr \<Longrightarrow> SessionKey_Credentials cr k = Inr c \<Longrightarrow> creds_wf c"
  by (auto simp: SessionKey_Credentials_def Let_def creds_wf_def go_consts split: sum.splits)

section \<open>Text form\<close>

definition SessionKey_String :: "session_key \<Rightarrow> string" where
  "SessionKey_String k = b32_encode k"

definition SubscriberToken_String :: "subscriber_token \<Rightarrow> string" where
  "SubscriberToken_String t = b32_encode t"

definition decodeSecret :: "string \<Rightarrow> nat \<Rightarrow> byte list result" where
  "decodeSecret s n =
     (case b32_decode s of
        Inl e \<Rightarrow> Inl e
      | Inr decoded \<Rightarrow>
          if length decoded \<noteq> n
          then Inl (Msg (''want '' @ show_nat n @ '' bytes, got '' @ show_nat (length decoded)))
          else Inr decoded)"

definition ParseSessionKey :: "string \<Rightarrow> session_key result" where
  "ParseSessionKey s = on_error (wrap ''parse session key'') (decodeSecret s SessionKeySize)"

definition ParseSubscriberToken :: "string \<Rightarrow> subscriber_token result" where
  "ParseSubscriberToken s =
     on_error (wrap ''parse subscriber token'') (decodeSecret s SubscriberTokenSize)"

text \<open>\<open>NewSessionKey\<close>, given what \<open>crypto/rand\<close> delivers.\<close>

definition NewSessionKey :: "byte list result \<Rightarrow> session_key result" where
  "NewSessionKey drawn = on_error (wrap ''generate session key'') drawn"

lemma decodeSecret_encode: "decodeSecret (b32_encode bs) n = Inr bs \<longleftrightarrow> length bs = n"
  by (simp add: decodeSecret_def b32_decode_encode)

lemma decodeSecret_width: "decodeSecret s n = Inr bs \<Longrightarrow> length bs = n"
  by (auto simp: decodeSecret_def split: sum.splits if_splits)

lemma decodeSecret_encode_other:
  "length bs \<noteq> n \<Longrightarrow> \<exists>m. decodeSecret (b32_encode bs) n = Inl (Msg m)"
  by (simp add: decodeSecret_def b32_decode_encode)

section \<open>A concrete instance\<close>

text \<open>
  An instance of the primitives that computes, with one-byte keys and signatures. It shows
  that \<open>crypto_ok\<close> can be met and is what the concrete executions below run on; it has no
  cryptographic strength and no theorem about the program is stated for it alone.
\<close>

definition sample_crypto :: "(byte, byte) crypto" where
  "sample_crypto =
     \<lparr>hkdf = (\<lambda>s i n. take n (map of_char i @ s @ replicate n 0)),
      sha256 = (\<lambda>m. take 32 (m @ replicate 32 0)),
      hmac256 = (\<lambda>k m. take 32 (drop 13 k @ m @ replicate 32 0)),
      mldsa_sk = (\<lambda>seed. case seed of [] \<Rightarrow> Inl (Msg ''empty seed'') | b # _ \<Rightarrow> Inr b),
      mldsa_pub = (\<lambda>sk. sk),
      mldsa_pk_bytes = (\<lambda>pk. [pk]),
      mldsa_pk = (\<lambda>bs. case bs of [b] \<Rightarrow> Inr b | _ \<Rightarrow> Inl (Msg ''bad public key'')),
      mldsa_sign = (\<lambda>sk m ctx. Inr [sk + of_nat (length m)]),
      mldsa_verify = (\<lambda>pk m sig ctx.
        if sig = [pk + of_nat (length m)] then None else Some (Msg ''bad signature'')),
      sk_size = 1, pk_size = 1, sig_size = 1,
      aead_new = (\<lambda>k. if length k = 32 then Inr () else Inl (Msg ''bad key length'')),
      aead_seal = (\<lambda>k n p. p @ replicate 16 0),
      aead_open = (\<lambda>k n ct.
        if length ct < 16 then Inl (Msg ''message authentication failed'')
        else Inr (take (length ct - 16) ct))\<rparr>"

lemma sample_crypto_ok: "crypto_ok sample_crypto"
  by (auto simp: crypto_ok_def kdf_ok_def mldsa_ok_def aead_ok_def sample_crypto_def go_consts min_def)

lemma sample_parts_ok [simp]:
  "kdf_ok sample_crypto" "mldsa_ok sample_crypto" "aead_ok sample_crypto"
  using sample_crypto_ok by (simp_all add: crypto_ok_def)

section \<open>Properties\<close>

text \<open>
  C15: A secret prints to a text that parses back to it, as the kind of secret it is and as no
  other: the text of a session key is no subscriber token and the text of a token no session
  key. Whatever parses has the width of its array type.
\<close>

theorem secret_text_roundtrip:
  assumes "length k = SessionKeySize" and "length t = SubscriberTokenSize"
  shows "ParseSessionKey (SessionKey_String k) = Inr k \<and>
    ParseSubscriberToken (SubscriberToken_String t) = Inr t \<and>
    (\<exists>e. ParseSubscriberToken (SessionKey_String k) = Inl e) \<and>
    (\<exists>e. ParseSessionKey (SubscriberToken_String t) = Inl e) \<and>
    (\<forall>s k'. ParseSessionKey s = Inr k' \<longrightarrow> length k' = SessionKeySize) \<and>
    (\<forall>s t'. ParseSubscriberToken s = Inr t' \<longrightarrow> length t' = SubscriberTokenSize)"
proof -
  have "length k \<noteq> SubscriberTokenSize" "length t \<noteq> SessionKeySize"
    using assms by (simp_all add: go_consts)
  then obtain m1 m2 where "decodeSecret (b32_encode k) SubscriberTokenSize = Inl m1"
    "decodeSecret (b32_encode t) SessionKeySize = Inl m2"
    using decodeSecret_encode_other by meson
  then show ?thesis
    using assms decodeSecret_width
    by (auto simp: ParseSessionKey_def ParseSubscriberToken_def SessionKey_String_def
        SubscriberToken_String_def decodeSecret_encode)
qed

lemma secret_text_roundtrip_witness:
  "ParseSessionKey (SessionKey_String (replicate 16 7)) = Inr (replicate 16 7) \<and>
   ParseSubscriberToken (SubscriberToken_String (replicate 32 9)) = Inr (replicate 32 9)"
  using secret_text_roundtrip [of "replicate 16 7" "replicate 32 9"] by (simp add: go_consts)

lemma token_of_credentials:
  assumes "creds_wf c"
  shows "length (credentials_SubscriberToken c) = SubscriberTokenSize"
    and "SubscriberToken_Credentials (credentials_SubscriberToken c) = c\<lparr>crSigner := None\<rparr>"
  using assms by (simp_all add: creds_wf_def credentials_SubscriberToken_def SubscriberToken_Credentials_def go_consts)

text \<open>
  What a publisher hands out. The printed subscriber token of a session key's credentials
  parses to credentials with the same session identifier and the same data secret, so both
  ends meet at relay and derive the same tunnel keys, and with no signing key.
\<close>

theorem token_joins_session:
  fixes cr :: "('sk, 'pk) crypto"
  assumes "kdf_ok cr" and "SessionKey_Credentials cr k = Inr c"
  shows "\<exists>t. ParseSubscriberToken (SubscriberToken_String (credentials_SubscriberToken c)) = Inr t \<and>
    SubscriberToken_Credentials t = c\<lparr>crSigner := None\<rparr> \<and> crSigner c \<noteq> None \<and>
    deriveDataKeys cr (crData (SubscriberToken_Credentials t :: 'sk credentials)) =
      deriveDataKeys cr (crData c)"
proof -
  note tok = token_of_credentials [OF SessionKey_Credentials_wf [OF assms]]
  then have "ParseSubscriberToken (SubscriberToken_String (credentials_SubscriberToken c)) =
      Inr (credentials_SubscriberToken c)"
    by (simp add: ParseSubscriberToken_def SubscriberToken_String_def decodeSecret_encode)
  then show ?thesis
    using tok(2) SessionKey_Credentials_Inr [OF assms(2)] by auto
qed

lemma token_joins_session_witness:
  "\<exists>c t. SessionKey_Credentials sample_crypto (replicate 16 7) = Inr c \<and>
     ParseSubscriberToken (SubscriberToken_String (credentials_SubscriberToken c)) = Inr t \<and>
     SubscriberToken_Credentials t = c\<lparr>crSigner := None\<rparr>"
proof -
  obtain c where c: "SessionKey_Credentials sample_crypto (replicate 16 7) = Inr c"
    by (simp add: SessionKey_Credentials_def deriveKey_def sample_crypto_def signSeedInfo_def Let_def)
  with token_joins_session [OF sample_parts_ok(1) c] show ?thesis by blast
qed

end
