(* ===== verification/Claim.thy ===== *)
theory Claim
  imports Credentials
begin

text \<open>
  The publish claim (\<^verbatim>\<open>internal/proto/claim.go\<close>): relay challenges a publisher, which
  signs the challenge together with its \<open>Hello\<close>; and \<open>Handshake\<close> of
  \<^verbatim>\<open>internal/proto/hello.go\<close>, the peer's side of opening a control connection. What the
  random source delivers is an argument.
\<close>

section \<open>The claim\<close>

definition challengeSize :: nat where [go_consts]: "challengeSize = 32"

definition publishClaimContext :: string where
  "publishClaimContext = ''ggrok/publish-claim''"

definition publishProofSize :: "('sk, 'pk) crypto \<Rightarrow> nat" where
  "publishProofSize cr = pk_size cr + sig_size cr"

definition publishClaim :: "byte list \<Rightarrow> hello \<Rightarrow> byte list" where
  "publishClaim challenge h = challenge @ encodeHello h"

definition provePublisher ::
  "('sk, 'pk) crypto \<Rightarrow> 'sk credentials \<Rightarrow> hello \<Rightarrow> 'a conn_scheme \<Rightarrow> unit result \<times> 'a conn_scheme"
where
  "provePublisher cr creds h c =
     (case crSigner creds of
        None \<Rightarrow>
          (Inl (Msg ''prove publisher: no session key (subscriber credentials cannot publish)''), c)
      | Some signer \<Rightarrow>
          (case read_full challengeSize c of
             (Inl e, c1) \<Rightarrow> (Inl (wrap ''read publish challenge'' e), c1)
           | (Inr challenge, c1) \<Rightarrow>
               (case mldsa_sign cr signer (publishClaim challenge h) publishClaimContext of
                  Inl e \<Rightarrow> (Inl (wrap ''sign publish claim'' e), c1)
                | Inr sig \<Rightarrow>
                    write_msg ''write publish claim''
                      (mldsa_pk_bytes cr (mldsa_pub cr signer) @ sig) c1)))"

definition verifyPublishClaim ::
  "('sk, 'pk) crypto \<Rightarrow> hello \<Rightarrow> byte list \<Rightarrow> 'a conn_scheme \<Rightarrow> unit result \<times> 'a conn_scheme"
where
  "verifyPublishClaim cr h challenge c =
     (case writeFull challenge c of
        (Some e, c1) \<Rightarrow> (Inl (wrap ''write publish challenge'' e), c1)
      | (None, c1) \<Rightarrow>
          (case read_full (publishProofSize cr) c1 of
             (Inl e, c2) \<Rightarrow> (Inl (wrap ''read publish claim'' e), c2)
           | (Inr pf, c2) \<Rightarrow>
               (case mldsa_pk cr (take (pk_size cr) pf) of
                  Inl e \<Rightarrow> (Inl (Wrap2 (Sentinel ErrPublishClaim) '': '' e), c2)
                | Inr pk \<Rightarrow>
                    if sessionIDFor cr pk \<noteq> hSessionID h
                    then (Inl (Wrap [] (Sentinel ErrPublishClaim)
                                '': session key does not derive this session identifier''), c2)
                    else case mldsa_verify cr pk (publishClaim challenge h)
                                (drop (pk_size cr) pf) publishClaimContext of
                           Some e \<Rightarrow> (Inl (Wrap2 (Sentinel ErrPublishClaim) '': '' e), c2)
                         | None \<Rightarrow> (Inr (), c2))))"

definition VerifyPublishClaim ::
  "('sk, 'pk) crypto \<Rightarrow> byte list result \<Rightarrow> hello \<Rightarrow> 'a conn_scheme \<Rightarrow> unit result \<times> 'a conn_scheme"
where
  "VerifyPublishClaim cr drawn h c =
     (case drawn of
        Inl e \<Rightarrow> (Inl (wrap ''draw publish challenge'' e), c)
      | Inr challenge \<Rightarrow> verifyPublishClaim cr h challenge c)"

text \<open>What relay knows of a claimant it accepts.\<close>

definition claim_proved :: "('sk, 'pk) crypto \<Rightarrow> hello \<Rightarrow> byte list \<Rightarrow> byte list \<Rightarrow> bool" where
  "claim_proved cr h challenge pf \<longleftrightarrow>
     (\<exists>pk. mldsa_pk cr (take (pk_size cr) pf) = Inr pk \<and>
        sessionIDFor cr pk = hSessionID h \<and>
        mldsa_verify cr pk (publishClaim challenge h) (drop (pk_size cr) pf)
          publishClaimContext = None)"

lemma verifyPublishClaim_Inr:
  assumes "verifyPublishClaim cr h challenge c = (Inr u, c')"
  shows "\<exists>pf. inb c = pf @ inb c' \<and> length pf = publishProofSize cr \<and>
           claim_proved cr h challenge pf \<and> outb c' = outb c @ challenge"
proof -
  obtain e c1 where w0: "writeFull challenge c = (e, c1)" by (cases "writeFull challenge c")
  obtain q c2 where q0: "read_full (publishProofSize cr) c1 = (q, c2)"
    by (cases "read_full (publishProofSize cr) c1")
  obtain pf pk where w: "writeFull challenge c = (None, c1)"
    and r: "read_full (publishProofSize cr) c1 = (Inr pf, c')"
    and pk: "mldsa_pk cr (take (pk_size cr) pf) = Inr pk" "sessionIDFor cr pk = hSessionID h"
      "mldsa_verify cr pk (publishClaim challenge h) (drop (pk_size cr) pf) publishClaimContext = None"
    using assms w0 q0
    by (simp add: verifyPublishClaim_def split: option.split_asm sum.split_asm if_split_asm)
  have "inb c = pf @ inb c'" "length pf = publishProofSize cr" "outb c' = outb c @ challenge"
    using writeFull_frame [OF w] writeFull_None [OF w] read_full_Inr [OF r] read_full_frame [OF r]
    by simp_all
  with pk show ?thesis by (auto simp: claim_proved_def)
qed

lemma verifyPublishClaim_ok:
  assumes "\<not> shut c" and "wscript c = []" and "inb c = pf @ rest"
    and "length pf = publishProofSize cr" and "claim_proved cr h challenge pf"
  shows "verifyPublishClaim cr h challenge c =
           (Inr (), c\<lparr>outb := outb c @ challenge, inb := rest\<rparr>)"
proof -
  have "read_full (publishProofSize cr) (c\<lparr>outb := outb c @ challenge\<rparr>) =
        (Inr pf, c\<lparr>outb := outb c @ challenge, inb := rest\<rparr>)"
    using assms by (subst read_full_ok [where bs = pf and rest = rest]) simp_all
  with assms show ?thesis
    by (auto simp: verifyPublishClaim_def writeFull_ok claim_proved_def)
qed

lemma verifyPublishClaim_frame:
  "verifyPublishClaim cr h challenge c = (r, c') \<Longrightarrow> shut c' = shut c \<and> inerr c' = inerr c"
proof -
  assume a: "verifyPublishClaim cr h challenge c = (r, c')"
  obtain e c1 where w: "writeFull challenge c = (e, c1)" by (cases "writeFull challenge c")
  obtain q c2 where q: "read_full (publishProofSize cr) c1 = (q, c2)"
    by (cases "read_full (publishProofSize cr) c1")
  have "c' = c1 \<or> c' = c2"
    using a w q by (simp add: verifyPublishClaim_def split: option.split_asm sum.split_asm if_split_asm)
  then show ?thesis using writeFull_frame [OF w] read_full_frame [OF q] by (elim disjE) simp_all
qed

lemma VerifyPublishClaim_Inr:
  "VerifyPublishClaim cr drawn h c = (Inr u, c') \<Longrightarrow>
   \<exists>challenge pf. drawn = Inr challenge \<and> inb c = pf @ inb c' \<and>
     length pf = publishProofSize cr \<and> claim_proved cr h challenge pf"
  by (cases drawn) (simp_all add: VerifyPublishClaim_def, drule verifyPublishClaim_Inr, blast)

lemma VerifyPublishClaim_frame:
  "VerifyPublishClaim cr drawn h c = (r, c') \<Longrightarrow> shut c' = shut c \<and> inerr c' = inerr c"
  by (cases drawn) (simp_all add: VerifyPublishClaim_def verifyPublishClaim_frame)

text \<open>A publisher's answer is exactly what relay accepts for its challenge and \<open>Hello\<close>.\<close>

lemma provePublisher_Inr:
  assumes "provePublisher cr creds h c = (Inr u, c')"
  shows "\<exists>sk challenge sig. crSigner creds = Some sk \<and> length challenge = challengeSize \<and>
           inb c = challenge @ inb c' \<and>
           mldsa_sign cr sk (publishClaim challenge h) publishClaimContext = Inr sig \<and>
           outb c' = outb c @ mldsa_pk_bytes cr (mldsa_pub cr sk) @ sig"
proof -
  obtain sk where sk: "crSigner creds = Some sk"
    using assms by (auto simp: provePublisher_def split: option.splits)
  with assms obtain challenge c1 sig where r: "read_full challengeSize c = (Inr challenge, c1)"
    and s: "mldsa_sign cr sk (publishClaim challenge h) publishClaimContext = Inr sig"
    and w: "write_msg ''write publish claim'' (mldsa_pk_bytes cr (mldsa_pub cr sk) @ sig) c1 = (Inr u, c')"
    by (auto simp: provePublisher_def split: prod.splits sum.splits)
  have "inb c = challenge @ inb c'" "length challenge = challengeSize"
    "outb c' = outb c @ mldsa_pk_bytes cr (mldsa_pub cr sk) @ sig"
    using write_msg_Inr [OF w] read_full_Inr [OF r] read_full_frame [OF r] by simp_all
  with sk s show ?thesis by blast
qed

lemma signed_claim_proved:
  assumes "mldsa_ok cr" and "mldsa_sign cr sk (publishClaim challenge h) publishClaimContext = Inr sig"
    and "hSessionID h = sessionIDFor cr (mldsa_pub cr sk)"
  shows "claim_proved cr h challenge (mldsa_pk_bytes cr (mldsa_pub cr sk) @ sig)"
    and "length (mldsa_pk_bytes cr (mldsa_pub cr sk) @ sig) = publishProofSize cr"
  using assms by (auto simp: claim_proved_def mldsa_ok_def publishProofSize_def)

text \<open>The signed message determines the challenge and the \<open>Hello\<close> it was made for.\<close>

lemma publishClaim_inj:
  "length ch = length ch' \<Longrightarrow> hello_valid h \<Longrightarrow> hello_valid h' \<Longrightarrow>
   publishClaim ch h = publishClaim ch' h' \<longleftrightarrow> ch = ch' \<and> h = h'"
  by (auto simp: publishClaim_def hello_codec.enc_inj)

section \<open>Handshake\<close>

definition Handshake ::
  "('sk, 'pk) crypto \<Rightarrow> role \<Rightarrow> mode \<Rightarrow> u16 \<Rightarrow> 'sk credentials \<Rightarrow> 'a conn_scheme \<Rightarrow>
   error option \<times> 'a conn_scheme" where
  "Handshake cr role mode ports creds c =
     (let h = \<lparr>hRole = role, hMode = mode, hSessionID = crID creds, hPorts = ports\<rparr>
      in case WriteHello h c of
           (Inl e, c1) \<Rightarrow> (Some e, c1)
         | (Inr _, c1) \<Rightarrow>
             (case (if role = RolePublish then provePublisher cr creds h c1 else (Inr (), c1)) of
                (Inl e, c2) \<Rightarrow> (Some e, c2)
              | (Inr _, c2) \<Rightarrow>
                  (case ReadAck c2 of
                     (Inl e, c3) \<Rightarrow> (Some e, c3)
                   | (Inr status, c3) \<Rightarrow> (ack_Err status, c3))))"

section \<open>Properties\<close>

text \<open>
  C2: The publisher slot takes a proof. When relay accepts a publish claim, the claimant sent
  a public key from which the claimed session identifier is derived, and a signature that
  verifies under it over the challenge relay has just drawn and this very \<open>Hello\<close>; the
  signed bytes determine both, so a claim signed for another challenge, session, mode or port
  count was signed over other bytes.
\<close>

theorem publish_claim_sound:
  assumes "VerifyPublishClaim cr drawn h c = (Inr u, c')" and "hello_valid h"
  shows "\<exists>challenge pf pk. drawn = Inr challenge \<and> inb c = pf @ inb c' \<and>
    outb c' = outb c @ challenge \<and> length pf = publishProofSize cr \<and>
    mldsa_pk cr (take (pk_size cr) pf) = Inr pk \<and> sessionIDFor cr pk = hSessionID h \<and>
    mldsa_verify cr pk (publishClaim challenge h) (drop (pk_size cr) pf) publishClaimContext = None \<and>
    (\<forall>challenge' h'. length challenge' = length challenge \<and> hello_valid h' \<and>
       publishClaim challenge' h' = publishClaim challenge h \<longrightarrow> challenge' = challenge \<and> h' = h)"
proof -
  obtain challenge where d: "drawn = Inr challenge" "verifyPublishClaim cr h challenge c = (Inr u, c')"
    using assms(1) by (cases drawn) (auto simp: VerifyPublishClaim_def)
  obtain pf where pf: "inb c = pf @ inb c'" "length pf = publishProofSize cr"
    "claim_proved cr h challenge pf" "outb c' = outb c @ challenge"
    using verifyPublishClaim_Inr [OF d(2)] by blast
  have "challenge' = challenge \<and> h' = h"
    if "length challenge' = length challenge" "hello_valid h'"
      "publishClaim challenge' h' = publishClaim challenge h" for challenge' h'
    using that publishClaim_inj [OF that(1,2) assms(2)] by simp
  with d(1) pf show ?thesis unfolding claim_proved_def by blast
qed

text \<open>
  An honest publisher is accepted. If the holder of a session key answers relay's
  challenge for a \<open>Hello\<close> that names its own session, and relay reads that answer, relay's
  check of the claim succeeds and consumes exactly the answer.
\<close>

theorem honest_publisher_accepted:
  assumes "mldsa_ok cr" and "SessionKey_Credentials cr k = Inr creds"
    and "hSessionID h = crID creds"
    and "provePublisher cr creds h p = (Inr u, p')"
    and "inb p = challenge @ inb p'"
    and "\<not> shut r" "wscript r = []" "inb r = drop (length (outb p)) (outb p') @ rest"
  shows "VerifyPublishClaim cr (Inr challenge) h r = (Inr (), r\<lparr>outb := outb r @ challenge, inb := rest\<rparr>)"
proof -
  obtain sk sig where s: "crSigner creds = Some sk"
    "mldsa_sign cr sk (publishClaim challenge h) publishClaimContext = Inr sig"
    "outb p' = outb p @ mldsa_pk_bytes cr (mldsa_pub cr sk) @ sig"
    using provePublisher_Inr [OF assms(4)] assms(5) by auto
  have "hSessionID h = sessionIDFor cr (mldsa_pub cr sk)"
    using SessionKey_Credentials_Inr [OF assms(2)] s(1) assms(3) by auto
  from signed_claim_proved [OF assms(1) s(2) this] assms(6-8) s(3) show ?thesis
    by (simp add: VerifyPublishClaim_def verifyPublishClaim_ok)
qed

text \<open>
  A publisher of the sample instance, what it claims, and the two ends of the exchange.
\<close>

definition sample_signer :: "byte credentials" where
  "sample_signer = \<lparr>crID = sessionIDFor sample_crypto (103 :: byte), crData = replicate 16 5,
     crSigner = Some 103\<rparr>"

definition sample_hello :: hello where
  "sample_hello = \<lparr>hRole = RolePublish, hMode = ModeTCP, hSessionID = crID sample_signer, hPorts = 3\<rparr>"

definition sample_proof :: "byte list" where
  "sample_proof = [103, 103 + of_nat (length (publishClaim (replicate 32 1) sample_hello))]"

lemma sample_hello_valid [simp]: "hello_valid sample_hello"
  by (simp add: sample_hello_def hello_valid_def sample_signer_def go_consts)

lemma sample_proof_proves: "claim_proved sample_crypto sample_hello (replicate 32 1) sample_proof"
  by (simp add: claim_proved_def sample_proof_def sample_hello_def sample_signer_def)
    (simp add: sample_crypto_def)

lemma sample_claim_runs:
  "verifyPublishClaim sample_crypto sample_hello (replicate 32 1) (new_conn sample_proof) =
     (Inr (), (new_conn sample_proof)\<lparr>outb := replicate 32 1, inb := []\<rparr>)"
  using verifyPublishClaim_ok [OF _ _ _ _ sample_proof_proves, of "new_conn sample_proof" "[]"]
  by (simp add: new_conn_def publishProofSize_def sample_proof_def) (simp add: sample_crypto_def)

lemma publish_claim_sound_witness:
  "\<exists>pf pk. sample_proof = pf \<and> mldsa_pk sample_crypto (take 1 pf) = Inr pk \<and>
     sessionIDFor sample_crypto pk = hSessionID sample_hello"
proof -
  have run: "VerifyPublishClaim sample_crypto (Inr (replicate 32 1)) sample_hello (new_conn sample_proof) =
      (Inr (), (new_conn sample_proof)\<lparr>outb := replicate 32 1, inb := []\<rparr>)"
    by (simp add: VerifyPublishClaim_def sample_claim_runs)
  have "pk_size sample_crypto = 1" by (simp add: sample_crypto_def)
  with publish_claim_sound [OF run sample_hello_valid] show ?thesis
    by (auto simp: new_conn_def)
qed

lemma honest_publisher_accepted_witness:
  "\<exists>creds p'. SessionKey_Credentials sample_crypto (replicate 16 7) = Inr creds \<and>
     provePublisher sample_crypto creds sample_hello (new_conn (replicate 32 1)) = (Inr (), p') \<and>
     VerifyPublishClaim sample_crypto (Inr (replicate 32 1)) sample_hello (new_conn (outb p')) =
       (Inr (), (new_conn (outb p'))\<lparr>outb := replicate 32 1, inb := []\<rparr>)"
proof -
  obtain creds where c: "SessionKey_Credentials sample_crypto (replicate 16 7) = Inr creds"
    "crID creds = hSessionID sample_hello" "crSigner creds = Some 103"
    by (simp add: SessionKey_Credentials_def deriveKey_def signSeedInfo_def Let_def
        sample_hello_def sample_signer_def sample_crypto_def)
  obtain p' where p: "provePublisher sample_crypto creds sample_hello (new_conn (replicate 32 1)) = (Inr (), p')"
    "inb p' = []"
    by (simp add: provePublisher_def c read_full_def new_conn_def go_consts)
      (simp add: sample_crypto_def write_msg_def writeFull_def conn_write_def)
  have "VerifyPublishClaim sample_crypto (Inr (replicate 32 1)) sample_hello (new_conn (outb p')) =
      (Inr (), (new_conn (outb p'))\<lparr>outb := outb (new_conn (outb p')) @ replicate 32 1, inb := []\<rparr>)"
    by (rule honest_publisher_accepted [OF _ c(1) c(2) [symmetric] p(1)])
      (simp_all add: p(2) new_conn_def)
  with c p show ?thesis by (auto simp: new_conn_def)
qed

end
