(* ===== verification/Wire_Attach.thy ===== *)
theory Wire_Attach
  imports Wire_Hello
begin

text \<open>
  The first byte of every connection (\<^verbatim>\<open>internal/proto/connkind.go\<close>) and the first
  message of a data connection (\<^verbatim>\<open>internal/proto/attach.go\<close>).
\<close>

section \<open>Connection kinds\<close>

type_synonym conn_kind = byte

definition ConnControl :: conn_kind where [go_consts]: "ConnControl = 1"
definition ConnData :: conn_kind where [go_consts]: "ConnData = 2"
definition ConnAdmin :: conn_kind where [go_consts]: "ConnAdmin = 3"

definition validConnKind :: "conn_kind \<Rightarrow> bool" where
  "validConnKind kind \<longleftrightarrow> kind = ConnControl \<or> kind = ConnData \<or> kind = ConnAdmin"

definition WriteConnKind :: "conn_kind \<Rightarrow> 'a conn_scheme \<Rightarrow> unit result \<times> 'a conn_scheme" where
  "WriteConnKind kind c =
     (if \<not> validConnKind kind
      then (Inl (Msg (''write conn kind: invalid kind '' @ show_nat (unat kind))), c)
      else write_msg ''write conn kind'' [kind] c)"

definition decodeConnKind :: "byte list \<Rightarrow> conn_kind result" where
  "decodeConnKind buf =
     (let kind = buf ! 0
      in if \<not> validConnKind kind
         then Inl (Msg (''read conn kind: invalid kind '' @ show_nat (unat kind)))
         else Inr kind)"

definition ReadConnKind :: "'a conn_scheme \<Rightarrow> conn_kind result \<times> 'a conn_scheme" where
  "ReadConnKind c = read_msg ''read conn kind'' 1 decodeConnKind c"

interpretation conn_kind_codec: fixed_codec "\<lambda>k. [k]" decodeConnKind validConnKind 1
  by unfold_locales (auto simp: decodeConnKind_def Let_def length_Suc_conv split: if_splits)

section \<open>Attach\<close>

type_synonym attach_kind = byte

definition AttachSubscriber :: attach_kind where [go_consts]: "AttachSubscriber = 1"
definition AttachPublisher :: attach_kind where [go_consts]: "AttachPublisher = 2"

definition attachSize :: nat where
  "attachSize = 1 + SessionIDSize + 8 + 2"

definition attachRequestOffset :: nat where
  "attachRequestOffset = 1 + SessionIDSize"

definition attachPortOffset :: nat where
  "attachPortOffset = attachRequestOffset + 8"

lemma attach_sizes [simp]:
  "attachSize = 27" "attachRequestOffset = 17" "attachPortOffset = 25"
  by (simp_all add: attachSize_def attachRequestOffset_def attachPortOffset_def go_consts)

record attach =
  aKind :: attach_kind
  aSessionID :: session_id
  aRequestID :: u64
  aPort :: port_index

definition check_attach :: "string \<Rightarrow> attach \<Rightarrow> attach result" where
  "check_attach what a =
     (if aKind a \<noteq> AttachSubscriber \<and> aKind a \<noteq> AttachPublisher
      then Inl (Msg (what @ '': invalid kind '' @ show_nat (unat (aKind a))))
      else Inr a)"

definition encodeAttach :: "attach \<Rightarrow> byte list" where
  "encodeAttach a = [aKind a] @ aSessionID a @ put_u64 (aRequestID a) @ put_u16 (aPort a)"

definition writeAttach :: "attach \<Rightarrow> bool \<Rightarrow> 'a conn_scheme \<Rightarrow> unit result \<times> 'a conn_scheme" where
  "writeAttach a withKind c =
     (case check_attach ''write attach'' a of
        Inl e \<Rightarrow> (Inl e, c)
      | Inr a' \<Rightarrow>
          write_msg ''write attach''
            (if withKind then ConnData # encodeAttach a' else encodeAttach a') c)"

definition WriteAttach :: "attach \<Rightarrow> 'a conn_scheme \<Rightarrow> unit result \<times> 'a conn_scheme" where
  "WriteAttach a c = writeAttach a False c"

definition WriteDataAttach :: "attach \<Rightarrow> 'a conn_scheme \<Rightarrow> unit result \<times> 'a conn_scheme" where
  "WriteDataAttach a c = writeAttach a True c"

definition decodeAttach :: "byte list \<Rightarrow> attach result" where
  "decodeAttach buf =
     check_attach ''read attach''
       \<lparr>aKind = buf ! 0,
        aSessionID = drop 1 (take attachRequestOffset buf),
        aRequestID = get_u64 (drop attachRequestOffset buf),
        aPort = get_u16 (drop attachPortOffset buf)\<rparr>"

definition ReadAttach :: "'a conn_scheme \<Rightarrow> attach result \<times> 'a conn_scheme" where
  "ReadAttach c = read_msg ''read attach'' attachSize decodeAttach c"

definition attach_valid :: "attach \<Rightarrow> bool" where
  "attach_valid a \<longleftrightarrow>
     aKind a \<in> {AttachSubscriber, AttachPublisher} \<and> length (aSessionID a) = SessionIDSize"

lemma check_attach_Inr [simp]:
  "check_attach what a = Inr a' \<longleftrightarrow> a' = a \<and> aKind a \<in> {AttachSubscriber, AttachPublisher}"
  by (auto simp: check_attach_def)

lemma length_encodeAttach:
  "length (aSessionID a) = SessionIDSize \<Longrightarrow> length (encodeAttach a) = attachSize"
  by (simp add: encodeAttach_def go_consts)

lemma decode_encodeAttach: "attach_valid a \<Longrightarrow> decodeAttach (encodeAttach a) = Inr a"
  by (cases a) (auto simp: decodeAttach_def encodeAttach_def attach_valid_def go_consts)

lemma decodeAttach_sound:
  assumes "length bs = attachSize" and "decodeAttach bs = Inr a"
  shows "attach_valid a \<and> encodeAttach a = bs"
proof -
  have a: "a = \<lparr>aKind = bs ! 0, aSessionID = take 16 (drop 1 bs),
                aRequestID = get_u64 (drop 17 bs), aPort = get_u16 (drop 25 bs)\<rparr>"
    and valid: "attach_valid a"
    using assms by (auto simp: decodeAttach_def attach_valid_def go_consts drop_take)
  have "put_u64 (get_u64 (drop 17 bs)) = take 8 (drop 17 bs)"
    and "put_u16 (get_u16 (drop 25 bs)) = drop 25 bs"
    using assms(1) put_get_u64 [of "take 8 (drop 17 bs)"] put_get_u16 [of "drop 25 bs"]
    by (simp_all add: get_u64_def)
  then have "encodeAttach a = bs ! 0 # take 16 (drop 1 bs) @ take 8 (drop 17 bs) @ drop 25 bs"
    by (simp add: encodeAttach_def a)
  also have "\<dots> = bs"
    using assms(1) nth_0_drop [of bs] append_take_drop_id [of 16 "drop 1 bs"]
      append_take_drop_id [of 8 "drop 17 bs"]
    by simp
  finally show ?thesis using valid by simp
qed

interpretation attach_codec: fixed_codec encodeAttach decodeAttach attach_valid attachSize
  by unfold_locales
    (use length_encodeAttach decode_encodeAttach decodeAttach_sound in \<open>auto simp: attach_valid_def\<close>)

lemma ReadAttach_sound:
  "ReadAttach c = (Inr a, c') \<Longrightarrow> attach_valid a \<and> inb c = encodeAttach a @ inb c'"
  unfolding ReadAttach_def by (rule attach_codec.read_sound)

section \<open>Properties\<close>

text \<open>
  The combined preamble of a data connection. \<open>WriteDataAttach\<close> puts in one write the
  bytes that \<open>WriteConnKind ConnData\<close> followed by \<open>WriteAttach\<close> would, and a relay that
  reads the kind and then the attach gets \<open>ConnData\<close> and the same message, with every
  sealed byte behind it left for the splice.
\<close>

theorem data_attach_roundtrip:
  assumes "WriteDataAttach a c = (Inr u, c')" and "length (aSessionID a) = SessionIDSize"
    and "\<not> shut c" "wscript c = []"
    and "\<not> shut d" and "inb d = drop (length (outb c)) (outb c') @ rest"
  shows "WriteAttach a (snd (WriteConnKind ConnData c)) = (Inr (), c') \<and>
    ReadConnKind d = (Inr ConnData, d\<lparr>inb := encodeAttach a @ rest\<rparr>) \<and>
    ReadAttach (d\<lparr>inb := encodeAttach a @ rest\<rparr>) = (Inr a, d\<lparr>inb := rest\<rparr>)"
proof -
  have kind: "aKind a \<in> {AttachSubscriber, AttachPublisher}"
    using assms(1) by (auto simp: WriteDataAttach_def writeAttach_def split: sum.splits)
  then have check: "check_attach what a = Inr a" for what by simp
  have c': "c' = c\<lparr>outb := outb c @ ConnData # encodeAttach a\<rparr>"
    using assms(1,3,4) by (simp add: WriteDataAttach_def writeAttach_def check write_msg_ok)
  have valid: "attach_valid a" using kind assms(2) by (simp add: attach_valid_def)
  have "WriteConnKind ConnData c = (Inr (), c\<lparr>outb := outb c @ [ConnData]\<rparr>)"
    using assms(3,4) by (simp add: WriteConnKind_def validConnKind_def write_msg_ok)
  then have "WriteAttach a (snd (WriteConnKind ConnData c)) = (Inr (), c')"
    using assms(3,4) by (simp add: WriteAttach_def writeAttach_def check write_msg_ok c')
  moreover have "ReadConnKind d = (Inr ConnData, d\<lparr>inb := encodeAttach a @ rest\<rparr>)"
    using assms(5,6) conn_kind_codec.read_enc [of ConnData d "encodeAttach a @ rest"]
    by (simp add: ReadConnKind_def validConnKind_def c')
  moreover have "ReadAttach (d\<lparr>inb := encodeAttach a @ rest\<rparr>) = (Inr a, d\<lparr>inb := rest\<rparr>)"
    using assms(5) valid attach_codec.read_enc [of a "d\<lparr>inb := encodeAttach a @ rest\<rparr>" rest]
    by (simp add: ReadAttach_def)
  ultimately show ?thesis by blast
qed

lemma data_attach_roundtrip_witness:
  "let a = \<lparr>aKind = 1, aSessionID = replicate 16 9, aRequestID = 4, aPort = 2\<rparr>;
       d = new_conn (ConnData # encodeAttach a @ [77])
   in ReadAttach (d\<lparr>inb := encodeAttach a @ [77]\<rparr>) = (Inr a, d\<lparr>inb := [77]\<rparr>)"
proof -
  let ?a = "\<lparr>aKind = 1, aSessionID = replicate 16 9, aRequestID = 4, aPort = 2\<rparr> :: attach"
  have w: "WriteDataAttach ?a (new_conn []) =
      (Inr (), (new_conn [])\<lparr>outb := ConnData # encodeAttach ?a\<rparr>)"
    by (simp add: WriteDataAttach_def writeAttach_def check_attach_def write_msg_ok new_conn_def go_consts)
  show ?thesis
    using data_attach_roundtrip [OF w, of "new_conn (ConnData # encodeAttach ?a @ [77])" "[77]"]
    by (simp add: new_conn_def go_consts Let_def)
qed

end
