(* ===== verification/Splice.thy ===== *)
theory Splice
  imports Go_IO
begin

text \<open>
  The splice of two byte streams (\<^verbatim>\<open>internal/streamio/splice.go\<close>). Its two copy directions
  run concurrently; a schedule says which of them makes the next turn of its loop and how many
  bytes that turn's \<open>Read\<close> delivers, so every interleaving of the two goroutines is a
  schedule. Both directions go through the buffered loop of \<open>io.CopyBuffer\<close>; the buffer pool
  and the \<open>WriterTo\<close>/\<open>ReaderFrom\<close> short cuts move the same bytes and are not modelled apart.
\<close>

section \<open>One turn of a copy\<close>

definition copyBufferSize :: nat where "copyBufferSize = 128 * 1024"

text \<open>
  \<open>Read\<close> into a buffer, when \<open>n\<close> bytes (at least one, at most the buffer) would be
  delivered if as many are there.
\<close>

definition conn_read :: "nat \<Rightarrow> 'a conn_scheme \<Rightarrow> (byte list \<times> error option) \<times> 'a conn_scheme" where
  "conn_read n c =
     (if shut c then (([], Some (Sentinel ErrClosedConn)), c)
      else if inb c = [] then (([], Some (inerr c)), c)
      else let k = max 1 (min n copyBufferSize)
           in ((take k (inb c), None), c\<lparr>inb := drop k (inb c)\<rparr>))"

text \<open>
  A turn of \<open>io.CopyBuffer\<close> from \<open>src\<close> to \<open>dst\<close>: the bytes counted as written, and whether
  the loop goes on.
\<close>

definition copy_turn ::
  "nat \<Rightarrow> 'a conn_scheme \<Rightarrow> 'a conn_scheme \<Rightarrow> (nat \<times> bool) \<times> 'a conn_scheme \<times> 'a conn_scheme" where
  "copy_turn n dst src =
     (case conn_read n src of
        (([], er), src1) \<Rightarrow> ((0, er = None), dst, src1)
      | ((buf, er), src1) \<Rightarrow>
          (case conn_write buf dst of
             ((nw, ew), dst1) \<Rightarrow>
               ((nw, ew = None \<and> nw = length buf \<and> er = None), dst1, src1)))"

section \<open>The splice\<close>

record 'x splice_state =
  spA :: "'x conn_scheme"
  spB :: "'x conn_scheme"
  doneA :: bool
  doneB :: bool
  intoA :: nat
  intoB :: nat
  counted :: bool
  cntA :: nat
  cntB :: nat

definition splice_start :: "'x conn_scheme \<Rightarrow> 'x conn_scheme \<Rightarrow> (nat \<times> nat) option \<Rightarrow> 'x splice_state" where
  "splice_start a b c =
     \<lparr>spA = a, spB = b, doneA = False, doneB = False, intoA = 0, intoB = 0,
      counted = (c \<noteq> None), cntA = (case c of None \<Rightarrow> 0 | Some p \<Rightarrow> fst p),
      cntB = (case c of None \<Rightarrow> 0 | Some p \<Rightarrow> snd p)\<rparr>"

text \<open>
  \<open>countingWriter.Write\<close> adds what the write took; the direction that ends closes the side it
  wrote into.
\<close>

definition count_write :: "bool \<Rightarrow> nat \<Rightarrow> nat \<Rightarrow> nat" where
  "count_write counting n sofar = (if counting \<and> n > 0 then sofar + n else sofar)"

definition turn_into_A :: "nat \<Rightarrow> 'x splice_state \<Rightarrow> 'x splice_state" where
  "turn_into_A n st =
     (if doneA st then st
      else case copy_turn n (spA st) (spB st) of
             ((nw, go), a, b) \<Rightarrow>
               st\<lparr>spA := (if go then a else conn_close a), spB := b, doneA := \<not> go,
                  intoA := intoA st + nw, cntA := count_write (counted st) nw (cntA st)\<rparr>)"

definition turn_into_B :: "nat \<Rightarrow> 'x splice_state \<Rightarrow> 'x splice_state" where
  "turn_into_B n st =
     (if doneB st then st
      else case copy_turn n (spB st) (spA st) of
             ((nw, go), b, a) \<Rightarrow>
               st\<lparr>spB := (if go then b else conn_close b), spA := a, doneB := \<not> go,
                  intoB := intoB st + nw, cntB := count_write (counted st) nw (cntB st)\<rparr>)"

definition splice_turn :: "bool \<times> nat \<Rightarrow> 'x splice_state \<Rightarrow> 'x splice_state" where
  "splice_turn t st = (if fst t then turn_into_A (snd t) st else turn_into_B (snd t) st)"

definition splice_run :: "(bool \<times> nat) list \<Rightarrow> 'x splice_state \<Rightarrow> 'x splice_state" where
  "splice_run sched st = fold splice_turn sched st"

text \<open>Once the schedule is used up, the directions run to their ends one after the other.\<close>

lemma copy_turn_shrinks:
  "copy_turn n dst src = ((nw, True), dst1, src1) \<Longrightarrow> length (inb src1) < length (inb src)"
  by (auto simp: copy_turn_def conn_read_def Let_def split: if_split_asm list.split_asm prod.split_asm)

lemma copy_turn_dst_inb:
  "copy_turn n dst src = ((nw, go), dst1, src1) \<Longrightarrow> inb dst1 = inb dst"
  by (auto simp: copy_turn_def conn_read_def conn_write_def Let_def
      split: if_split_asm list.split_asm prod.split_asm)

function finish_A :: "'x splice_state \<Rightarrow> 'x splice_state" where
  "finish_A st = (if doneA st then st else finish_A (turn_into_A copyBufferSize st))"
  by pat_completeness auto
termination
proof (relation "measures [\<lambda>st. if doneA st then 0 else 1, \<lambda>st. length (inb (spB st))]", goal_cases)
  case (2 st)
  obtain nw go a b where t: "copy_turn copyBufferSize (spA st) (spB st) = ((nw, go), a, b)"
    by (metis prod.exhaust)
  show ?case
    using 2 t copy_turn_shrinks [of copyBufferSize "spA st" "spB st" nw a b]
    by (cases go) (auto simp: turn_into_A_def)
qed simp

function finish_B :: "'x splice_state \<Rightarrow> 'x splice_state" where
  "finish_B st = (if doneB st then st else finish_B (turn_into_B copyBufferSize st))"
  by pat_completeness auto
termination
proof (relation "measures [\<lambda>st. if doneB st then 0 else 1, \<lambda>st. length (inb (spA st))]", goal_cases)
  case (2 st)
  obtain nw go a b where t: "copy_turn copyBufferSize (spB st) (spA st) = ((nw, go), b, a)"
    by (metis prod.exhaust)
  show ?case
    using 2 t copy_turn_shrinks [of copyBufferSize "spB st" "spA st" nw b a]
    by (cases go) (auto simp: turn_into_B_def)
qed simp

declare finish_A.simps [simp del] finish_B.simps [simp del]

definition splice_final ::
  "(bool \<times> nat) list \<Rightarrow> 'x conn_scheme \<Rightarrow> 'x conn_scheme \<Rightarrow> (nat \<times> nat) option \<Rightarrow> 'x splice_state" where
  "splice_final sched a b c = finish_B (finish_A (splice_run sched (splice_start a b c)))"

text \<open>The two entry points: totals, the two ends, and the counter if there is one.\<close>

definition splice_pair ::
  "(bool \<times> nat) list \<Rightarrow> 'x conn_scheme \<Rightarrow> 'x conn_scheme \<Rightarrow> (nat \<times> nat) \<times> 'x conn_scheme \<times> 'x conn_scheme" where
  "splice_pair sched a b =
     (let st = splice_final sched a b None in ((intoA st, intoB st), spA st, spB st))"

definition SpliceCounted ::
  "(bool \<times> nat) list \<Rightarrow> 'x conn_scheme \<Rightarrow> 'x conn_scheme \<Rightarrow> nat \<times> nat \<Rightarrow>
   (nat \<times> nat) \<times> (nat \<times> nat) \<times> 'x conn_scheme \<times> 'x conn_scheme" where
  "SpliceCounted sched a b c =
     (let st = splice_final sched a b (Some c)
      in ((intoA st, intoB st), (cntA st, cntB st), spA st, spB st))"

section \<open>What a splice moves\<close>

text \<open>
  Each end has got a prefix of what was to be read from the other, as long as the count says.
\<close>

definition splice_inv :: "'x conn_scheme \<Rightarrow> 'x conn_scheme \<Rightarrow> 'x splice_state \<Rightarrow> bool" where
  "splice_inv a b st \<longleftrightarrow>
     outb (spA st) = outb a @ take (intoA st) (inb b) \<and> intoA st \<le> length (inb b) \<and>
     outb (spB st) = outb b @ take (intoB st) (inb a) \<and> intoB st \<le> length (inb a) \<and>
     (doneA st \<longrightarrow> shut (spA st)) \<and> (doneB st \<longrightarrow> shut (spB st)) \<and>
     (\<not> doneA st \<longrightarrow> inb (spB st) = drop (intoA st) (inb b)) \<and>
     (\<not> doneB st \<longrightarrow> inb (spA st) = drop (intoB st) (inb a))"

lemma copy_turn_spec:
  assumes "copy_turn n dst src = ((nw, go), dst1, src1)"
  shows "outb dst1 = outb dst @ take nw (inb src) \<and> nw \<le> length (inb src) \<and>
    outb src1 = outb src \<and> inb dst1 = inb dst \<and> shut dst1 = shut dst \<and> shut src1 = shut src \<and>
    (go \<longrightarrow> inb src1 = drop nw (inb src))"
proof -
  obtain buf er s1 where r: "conn_read n src = ((buf, er), s1)" by (metis prod.exhaust)
  have rd: "buf = take (length buf) (inb src)" "length buf \<le> length (inb src)"
    "er = None \<longrightarrow> inb s1 = drop (length buf) (inb src)" "outb s1 = outb src" "shut s1 = shut src"
    using r by (auto simp: conn_read_def Let_def min_def split: if_split_asm)
  show ?thesis
  proof (cases buf)
    case Nil
    with assms r rd show ?thesis by (auto simp: copy_turn_def)
  next
    case (Cons x xs)
    obtain m ew d1 where w: "conn_write buf dst = ((m, ew), d1)" by (metis prod.exhaust)
    have wr: "outb d1 = outb dst @ take m buf" "m \<le> length buf" "inb d1 = inb dst" "shut d1 = shut dst"
      using w by (auto simp: conn_write_def min_def split: if_split_asm list.split_asm prod.split_asm)
    have "take m buf = take m (inb src)"
      using rd(1) wr(2) by (metis min.absorb1 take_take)
    with assms r w Cons rd wr show ?thesis by (auto simp: copy_turn_def)
  qed
qed

lemma splice_inv_start: "splice_inv a b (splice_start a b c)"
  by (simp add: splice_inv_def splice_start_def)

lemma take_drop_add: "take i xs @ take j (drop i xs) = take (i + j) xs"
  by (simp add: take_add)

lemma splice_inv_A:
  assumes "splice_inv a b st"
  shows "splice_inv a b (turn_into_A n st)"
proof (cases "doneA st")
  case False
  obtain nw go d r where t: "copy_turn n (spA st) (spB st) = ((nw, go), d, r)"
    by (metis prod.exhaust)
  note sp = copy_turn_spec [OF t]
  have src: "inb (spB st) = drop (intoA st) (inb b)" using assms False by (simp add: splice_inv_def)
  have "intoA st \<le> length (inb b)" using assms by (simp add: splice_inv_def)
  moreover have "nw \<le> length (inb (spB st))" using sp by blast
  ultimately have len: "nw + intoA st \<le> length (inb b)" by (simp add: src)
  show ?thesis
    using assms False t sp len
    by (cases go) (simp_all add: splice_inv_def turn_into_A_def conn_close_def src take_drop_add add.commute)
qed (use assms in \<open>simp add: turn_into_A_def\<close>)

lemma splice_inv_B:
  assumes "splice_inv a b st"
  shows "splice_inv a b (turn_into_B n st)"
proof (cases "doneB st")
  case False
  obtain nw go d r where t: "copy_turn n (spB st) (spA st) = ((nw, go), d, r)"
    by (metis prod.exhaust)
  note sp = copy_turn_spec [OF t]
  have src: "inb (spA st) = drop (intoB st) (inb a)" using assms False by (simp add: splice_inv_def)
  have "intoB st \<le> length (inb a)" using assms by (simp add: splice_inv_def)
  moreover have "nw \<le> length (inb (spA st))" using sp by blast
  ultimately have len: "nw + intoB st \<le> length (inb a)" by (simp add: src)
  show ?thesis
    using assms False t sp len
    by (cases go) (simp_all add: splice_inv_def turn_into_B_def conn_close_def src take_drop_add add.commute)
qed (use assms in \<open>simp add: turn_into_B_def\<close>)

text \<open>Any invariant of the two turns holds of the whole splice.\<close>

lemma splice_final_induct:
  assumes "P (splice_start a b c)"
    and "\<And>n st. P st \<Longrightarrow> P (turn_into_A n st)" and "\<And>n st. P st \<Longrightarrow> P (turn_into_B n st)"
  shows "P (splice_final sched a b c)"
proof -
  have run: "P (splice_run sched st)" if "P st" for st
    unfolding splice_run_def using that
    by (induction sched arbitrary: st) (auto simp: splice_turn_def assms(2,3))
  have fA: "P st \<Longrightarrow> P (finish_A st)" for st
    by (induction st rule: finish_A.induct) (subst finish_A.simps, simp add: assms(2))
  have fB: "P st \<Longrightarrow> P (finish_B st)" for st
    by (induction st rule: finish_B.induct) (subst finish_B.simps, simp add: assms(3))
  show ?thesis unfolding splice_final_def by (intro fB fA run assms(1))
qed

lemma finish_A_done: "doneA (finish_A st)"
  by (induction st rule: finish_A.induct) (subst finish_A.simps, simp)

lemma turn_into_B_doneA [simp]: "doneA (turn_into_B n st) = doneA st"
  by (simp add: turn_into_B_def split: prod.split)

lemma finish_B_done: "doneB (finish_B st) \<and> doneA (finish_B st) = doneA st"
  by (induction st rule: finish_B.induct) (subst (1 2) finish_B.simps, simp)

lemma splice_final_inv: "splice_inv a b (splice_final sched a b c)"
  by (rule splice_final_induct) (simp_all add: splice_inv_start splice_inv_A splice_inv_B)

definition count_inv :: "nat \<times> nat \<Rightarrow> 'x splice_state \<Rightarrow> bool" where
  "count_inv c st \<longleftrightarrow> counted st \<and> cntA st = fst c + intoA st \<and> cntB st = snd c + intoB st"

lemma splice_final_count: "count_inv c (splice_final sched a b (Some c))"
proof (rule splice_final_induct)
  show "count_inv c (splice_start a b (Some c))" by (simp add: count_inv_def splice_start_def)
qed (auto simp: count_inv_def turn_into_A_def turn_into_B_def count_write_def split: prod.split)

text \<open>With writers that do not fail, the direction that ends first has moved everything.\<close>

definition first_inv :: "'x conn_scheme \<Rightarrow> 'x conn_scheme \<Rightarrow> 'x splice_state \<Rightarrow> bool" where
  "first_inv a b st \<longleftrightarrow>
     wscript (spA st) = [] \<and> wscript (spB st) = [] \<and>
     (\<not> doneA st \<longrightarrow> \<not> shut (spA st)) \<and> (\<not> doneB st \<longrightarrow> \<not> shut (spB st)) \<and>
     (doneA st \<or> doneB st \<longrightarrow> intoA st = length (inb b) \<or> intoB st = length (inb a))"

lemma copy_turn_faultless:
  assumes "copy_turn n dst src = ((nw, go), dst1, src1)" and "wscript dst = []" "\<not> shut dst" "\<not> shut src"
  shows "wscript dst1 = [] \<and> wscript src1 = wscript src \<and> (\<not> go \<longrightarrow> inb src = [] \<and> nw = 0)"
proof (cases "inb src")
  case Nil
  with assms show ?thesis by (auto simp: copy_turn_def conn_read_def)
next
  case (Cons x xs)
  obtain k where k: "max (Suc 0) (min n copyBufferSize) = Suc k"
    by (metis max.cobounded1 Suc_le_D)
  show ?thesis
    using assms Cons by (auto simp: copy_turn_def conn_read_def conn_write_def Let_def k)
qed

lemma wscript_frame_src:
  "copy_turn n dst src = ((nw, go), dst1, src1) \<Longrightarrow> wscript src1 = wscript src \<and> (wscript dst = [] \<longrightarrow> wscript dst1 = [])"
  by (auto simp: copy_turn_def conn_read_def conn_write_def Let_def
      split: if_split_asm list.split_asm prod.split_asm)

lemma first_inv_A:
  assumes "first_inv a b st" and "splice_inv a b st"
  shows "first_inv a b (turn_into_A n st)"
proof (cases "doneA st")
  case False
  obtain nw go d r where t: "copy_turn n (spA st) (spB st) = ((nw, go), d, r)"
    by (metis prod.exhaust)
  note sp = copy_turn_spec [OF t] and ws = wscript_frame_src [OF t]
  have src: "inb (spB st) = drop (intoA st) (inb b)" "intoA st \<le> length (inb b)"
    using assms(2) False by (simp_all add: splice_inv_def)
  show ?thesis
  proof (cases "doneB st")
    case True
    with assms False t sp ws show ?thesis
      by (cases go) (auto simp: first_inv_def turn_into_A_def conn_close_def src)
  next
    case other: False
    have "\<not> go \<longrightarrow> intoA st + nw = length (inb b)"
      using copy_turn_faultless [OF t] assms(1) False other src by (auto simp: first_inv_def)
    with assms False other t sp ws show ?thesis
      by (cases go) (auto simp: first_inv_def turn_into_A_def conn_close_def)
  qed
qed (use assms in \<open>simp add: turn_into_A_def\<close>)

lemma first_inv_B:
  assumes "first_inv a b st" and "splice_inv a b st"
  shows "first_inv a b (turn_into_B n st)"
proof (cases "doneB st")
  case False
  obtain nw go d r where t: "copy_turn n (spB st) (spA st) = ((nw, go), d, r)"
    by (metis prod.exhaust)
  note sp = copy_turn_spec [OF t] and ws = wscript_frame_src [OF t]
  have src: "inb (spA st) = drop (intoB st) (inb a)" "intoB st \<le> length (inb a)"
    using assms(2) False by (simp_all add: splice_inv_def)
  show ?thesis
  proof (cases "doneA st")
    case True
    with assms False t sp ws show ?thesis
      by (cases go) (auto simp: first_inv_def turn_into_B_def conn_close_def src)
  next
    case other: False
    have "\<not> go \<longrightarrow> intoB st + nw = length (inb a)"
      using copy_turn_faultless [OF t] assms(1) False other src by (auto simp: first_inv_def)
    with assms False other t sp ws show ?thesis
      by (cases go) (auto simp: first_inv_def turn_into_B_def conn_close_def)
  qed
qed (use assms in \<open>simp add: turn_into_B_def\<close>)

lemma splice_final_first:
  assumes "wscript a = []" "wscript b = []" "\<not> shut a" "\<not> shut b"
  shows "first_inv a b (splice_final sched a b c)"
proof -
  have "first_inv a b (splice_final sched a b c) \<and> splice_inv a b (splice_final sched a b c)"
  proof (rule splice_final_induct)
    show "first_inv a b (splice_start a b c) \<and> splice_inv a b (splice_start a b c)"
      using assms splice_inv_start by (simp add: first_inv_def splice_start_def)
  qed (auto simp: first_inv_A first_inv_B splice_inv_A splice_inv_B)
  then show ?thesis ..
qed

section \<open>Properties\<close>

text \<open>
  C13: A splice forwards bytes unchanged and in order, and ends with both sides closed. Under
  every interleaving of its two directions, each side receives a prefix of what the other
  delivers, the totals returned are the lengths of those prefixes and the running counters
  have grown by exactly them; and if no write fails, at least one direction has carried its
  stream to its very end (the other may be cut short by the close that follows).
\<close>

theorem splice_forwards:
  assumes "SpliceCounted sched a b c = ((nA, nB), c', a', b')"
  shows "outb a' = outb a @ take nA (inb b) \<and> nA \<le> length (inb b) \<and>
    outb b' = outb b @ take nB (inb a) \<and> nB \<le> length (inb a) \<and>
    shut a' \<and> shut b' \<and> c' = (fst c + nA, snd c + nB) \<and>
    (wscript a = [] \<and> wscript b = [] \<and> \<not> shut a \<and> \<not> shut b \<longrightarrow>
       nA = length (inb b) \<or> nB = length (inb a))"
proof -
  let ?st = "splice_final sched a b (Some c)"
  have r: "nA = intoA ?st" "nB = intoB ?st" "c' = (cntA ?st, cntB ?st)" "a' = spA ?st" "b' = spB ?st"
    using assms by (simp_all add: SpliceCounted_def Let_def)
  have fin: "doneA ?st" "doneB ?st"
    by (simp_all add: splice_final_def finish_A_done finish_B_done)
  have "splice_inv a b ?st" by (rule splice_final_inv)
  then have "outb a' = outb a @ take nA (inb b) \<and> nA \<le> length (inb b) \<and>
      outb b' = outb b @ take nB (inb a) \<and> nB \<le> length (inb a) \<and> shut a' \<and> shut b'"
    using fin r by (simp add: splice_inv_def)
  moreover have "c' = (fst c + nA, snd c + nB)"
    using splice_final_count [of c sched a b] r by (simp add: count_inv_def)
  moreover have "nA = length (inb b) \<or> nB = length (inb a)"
    if "wscript a = []" "wscript b = []" "\<not> shut a" "\<not> shut b"
    using splice_final_first [OF that, of sched "Some c"] fin r by (simp add: first_inv_def)
  ultimately show ?thesis by blast
qed

lemma splice_forwards_witness:
  "\<exists>nA nB c' a' b'. SpliceCounted [(True, 1), (False, 2)] (new_conn [1, 2, 3]) (new_conn [7, 8]) (0, 0) =
     ((nA, nB), c', a', b') \<and> (nA = 2 \<or> nB = 3) \<and> shut a' \<and> shut b'"
proof -
  obtain nA nB c' a' b' where
    s: "SpliceCounted [(True, 1), (False, 2)] (new_conn [1, 2, 3]) (new_conn [7, 8]) (0, 0) = ((nA, nB), c', a', b')"
    by (metis prod.exhaust)
  with splice_forwards [OF s] show ?thesis by (auto simp: new_conn_def)
qed

end
