(* ===== verification/Registry.thy ===== *)
theory Registry
  imports Relay_World Claim Wire_Attach Splice
begin

text \<open>
  The registry of active sessions (\<^verbatim>\<open>internal/relay/registry.go\<close>). \<open>reg_claim_slot\<close>,
  \<open>reg_delete\<close> and \<open>kill_pick\<close> are the registry's critical sections; the handlers
  \<open>Register\<close>, \<open>Subscribe\<close>, \<open>Kill\<close>, \<open>AttachSubscriberData\<close> and \<open>AttachPublisherData\<close> compose
  them with the session's critical sections and with network I/O in the code's order. The
  functions the code returns (unregister, release) are operations of their own here, on the
  session's identifier and its place on the heap. Logging is left out.
\<close>

section \<open>Critical sections of the registry\<close>

definition NewRegistry :: "world \<Rightarrow> world" where
  [simp]: "NewRegistry w = w\<lparr>wSessions := [], wKilled := []\<rparr>"

definition reg_claim_slot :: "nat \<Rightarrow> hello \<Rightarrow> cert \<Rightarrow> world \<Rightarrow> (sentinel + nat) \<times> world" where
  "reg_claim_slot control h publisherCert w =
     (let sid = hSessionID h
      in if gm_has (wKilled w) sid then (Inl RelaySessionKilled, w)
         else if gm_has (wSessions w) sid then (Inl RelayPublisherExists, w)
         else let ref = wNextSess w;
                  s = newSession (hMode h) (hPorts h) control (remoteAddr (wNet w control))
                        publisherCert (wNow w)
              in (Inr ref, w\<lparr>wSess := (wSess w)(ref := s), wNextSess := ref + 1,
                             wSessions := gm_set sid ref (wSessions w)\<rparr>))"

definition reg_delete :: "session_id \<Rightarrow> world \<Rightarrow> world" where
  "reg_delete sid w = w\<lparr>wSessions := gm_del sid (wSessions w)\<rparr>"

definition sessionFor :: "session_id \<Rightarrow> world \<Rightarrow> nat option" where
  "sessionFor sid w = gm_get (wSessions w) sid"

definition kill_scan ::
  "string \<Rightarrow> (session_id \<times> nat) list \<Rightarrow> (session_id \<times> nat) option \<times> nat" where
  "kill_scan tag sessions =
     fold (\<lambda>(sid, ref) (found, matches).
             if LogTag sid = tag then (Some (sid, ref), matches + 1) else (found, matches))
       sessions (None, 0)"

definition kill_pick :: "string \<Rightarrow> world \<Rightarrow> (sentinel + session_id \<times> nat) \<times> world" where
  "kill_pick tag w =
     (case kill_scan tag (wSessions w) of
        (Some (sid, ref), matches) \<Rightarrow>
          if matches > 1 then (Inl RelayAmbiguousTag, w)
          else (Inr (sid, ref), w\<lparr>wKilled := gm_set sid () (wKilled w),
                                  wSessions := gm_del sid (wSessions w)\<rparr>)
      | (None, matches) \<Rightarrow> (Inl RelayNoSuchSession, w))"

section \<open>Publishers\<close>

definition Register ::
  "('sk, 'pk) crypto \<Rightarrow> byte list result \<Rightarrow> nat \<Rightarrow> hello \<Rightarrow> world \<Rightarrow> nat result \<times> world" where
  "Register cr drawn control h w =
     (case peerLeafCert (wNet w control) of
        Inl e \<Rightarrow> (Inl (wrap ''register publisher'' e), do_net control (WriteAck AckDenied) w)
      | Inr publisherCert \<Rightarrow>
          (case on_net control (VerifyPublishClaim cr drawn h) w of
             (Inl e, w1) \<Rightarrow>
               (Inl (wrap ''register publisher'' e), do_net control (WriteAck AckDenied) w1)
           | (Inr _, w1) \<Rightarrow>
               (case reg_claim_slot control h publisherCert w1 of
                  (Inl refusal, w2) \<Rightarrow>
                    if refusal = RelaySessionKilled
                    then (Inl (wrap ''register publisher'' (Sentinel refusal)),
                          do_net control (WriteAck AckDenied) w2)
                    else (Inl (Sentinel refusal), do_net control (WriteAck AckPublisherExists) w2)
                | (Inr ref, w2) \<Rightarrow>
                    (case on_net control (WriteAck AckOK) w2 of
                       (Inl e, w3) \<Rightarrow>
                         (Inl (wrap ''ack publisher'' e),
                          snd (session_shutdown ref (reg_delete (hSessionID h) w3)))
                     | (Inr _, w3) \<Rightarrow> (Inr ref, w3)))))"

definition unregister :: "session_id \<Rightarrow> nat \<Rightarrow> world \<Rightarrow> nat \<times> world" where
  "unregister sid ref w = session_shutdown ref (reg_delete sid w)"

section \<open>Subscribers\<close>

definition release :: "nat \<Rightarrow> subscriber_id \<Rightarrow> world \<Rightarrow> world" where
  "release ref sub w = do_sess ref (removeSubscriber sub) w"

definition ports_mismatch :: "u16 \<Rightarrow> u16 \<Rightarrow> error" where
  "ports_mismatch theirs ours =
     Wrap [] (Sentinel RelayPortsMismatch)
       ('': publisher has '' @ show_nat (unat theirs) @ '', subscriber has '' @ show_nat (unat ours))"

definition Subscribe :: "nat \<Rightarrow> hello \<Rightarrow> world \<Rightarrow> (subscriber_id \<times> nat) result \<times> world" where
  "Subscribe control h w =
     (case sessionFor (hSessionID h) w of
        None \<Rightarrow>
          (Inl (Sentinel RelayNoSuchSession), do_net control (WriteAck AckNoSuchSession) w)
      | Some ref \<Rightarrow>
          if sMode (wSess w ref) \<noteq> hMode h
          then (Inl (Sentinel RelayModeMismatch), do_net control (WriteAck AckModeMismatch) w)
          else if sPorts (wSess w ref) \<noteq> hPorts h
          then (Inl (ports_mismatch (sPorts (wSess w ref)) (hPorts h)),
                do_net control (WriteAck AckPortsMismatch) w)
          else case on_sess ref (addSubscriber control (wNet w control) (wNow w)) w of
                 (None, w1) \<Rightarrow>
                   (Inl (Sentinel RelayNoSuchSession),
                    do_net control (WriteAck AckNoSuchSession) w1)
               | (Some sub, w1) \<Rightarrow>
                   (case on_net control (WriteAck AckOK) w1 of
                      (Inl e, w2) \<Rightarrow> (Inl (wrap ''ack subscriber'' e), release ref sub w2)
                    | (Inr _, w2) \<Rightarrow> (Inr (sub, ref), w2)))"

section \<open>Kill\<close>

definition Kill :: "string \<Rightarrow> world \<Rightarrow> nat result \<times> world" where
  "Kill tag w =
     (case kill_pick tag w of
        (Inl e, w1) \<Rightarrow> (Inl (Wrap [] (Sentinel e) ('': '' @ tag)), w1)
      | (Inr (sid, ref), w1) \<Rightarrow>
          (case session_shutdown ref (tls_close (sPublisher (wSess w1 ref)) w1) of
             (notified, w2) \<Rightarrow> (Inr notified, w2)))"

section \<open>Data connections\<close>

definition port_out_of_range :: "u16 \<Rightarrow> u16 \<Rightarrow> error" where
  "port_out_of_range port ports =
     Wrap [] (Sentinel RelayPortOutOfRange)
       ('': port '' @ show_nat (unat port) @ '' of '' @ show_nat (unat ports))"

definition drop_pending :: "nat \<Rightarrow> u64 \<Rightarrow> world \<Rightarrow> world" where
  "drop_pending ref rid w =
     (case on_sess ref (removePending rid) w of
        (None, w1) \<Rightarrow> w1
      | (Some conn, w1) \<Rightarrow> tls_close conn w1)"

definition AttachSubscriberData :: "nat \<Rightarrow> session_id \<Rightarrow> u16 \<Rightarrow> world \<Rightarrow> error option \<times> world" where
  "AttachSubscriberData subConn sid port w =
     (case sessionFor sid w of
        None \<Rightarrow>
          (Some (Sentinel RelayNoSuchSession), do_net subConn (WriteAck AckNoSuchSession) w)
      | Some ref \<Rightarrow>
          if sMode (wSess w ref) \<noteq> ModeTCP
          then (Some (Sentinel RelayModeMismatch), do_net subConn (WriteAck AckModeMismatch) w)
          else if port \<ge> sPorts (wSess w ref)
          then (Some (port_out_of_range port (sPorts (wSess w ref))),
                do_net subConn (WriteAck AckPortsMismatch) w)
          else case on_sess ref (addPending subConn (Some (wNet w subConn)) port (wNow w)) w of
                 (None, w1) \<Rightarrow>
                   (Some (Sentinel RelayNoSuchSession),
                    do_net subConn (WriteAck AckNoSuchSession) w1)
               | (Some rid, w1) \<Rightarrow>
                   (case on_net subConn (WriteAck AckOK) w1 of
                      (Inl e, w2) \<Rightarrow>
                        (Some (wrap ''ack subscriber data conn'' e), drop_pending ref rid w2)
                    | (Inr _, w2) \<Rightarrow>
                        (case on_net (sPublisher (wSess w2 ref)) (WriteRequestData rid port) w2 of
                           (Inl e, w3) \<Rightarrow>
                             (Some (wrap ''request publisher data conn'' e), drop_pending ref rid w3)
                         | (Inr _, w3) \<Rightarrow> (None, w3))))"

text \<open>
  The splice of a paired stream, under a schedule of its two directions, and the registration
  of the stream around it.
\<close>

definition splice_conns :: "(bool \<times> nat) list \<Rightarrow> nat \<Rightarrow> nat \<Rightarrow> world \<Rightarrow> world" where
  "splice_conns sched subConn pubConn w =
     (case SpliceCounted sched (wNet w subConn) (wNet w pubConn) (0, 0) of
        (totals, counter, a, b) \<Rightarrow>
          tls_close pubConn (tls_close subConn
            (w\<lparr>wNet := (wNet w)(subConn := a, pubConn := b)\<rparr>)))"

definition unknown_request :: "u64 \<Rightarrow> error" where
  "unknown_request rid = Msg (''unknown or expired request id '' @ show_nat (unat rid))"

definition AttachPublisherData ::
  "(bool \<times> nat) list \<Rightarrow> session_id \<Rightarrow> u64 \<Rightarrow> nat \<Rightarrow> world \<Rightarrow> error option \<times> world" where
  "AttachPublisherData sched sid rid pubConn w =
     (case sessionFor sid w of
        None \<Rightarrow> (Some (Sentinel RelayNoSuchSession), w)
      | Some ref \<Rightarrow>
          (case peerLeafCert (wNet w pubConn) of
             Inl e \<Rightarrow> (Some (wrap ''attach publisher data'' e), w)
           | Inr ct \<Rightarrow>
               if \<not> cert_equal ct (sPublisherCert (wSess w ref))
               then (Some (Sentinel RelayNotPublisherCert), w)
               else case on_sess ref (claimPending rid) w of
                      (None, w1) \<Rightarrow> (Some (unknown_request rid), w1)
                    | (Some (subConn, port), w1) \<Rightarrow>
                        (case on_sess ref (addStream rid
                                \<lparr>stPort = port, stStarted = wNow w1, stIntoSub = 0, stIntoPub = 0\<rparr>) w1 of
                           (False, w2) \<Rightarrow>
                             (Some (Sentinel RelayNoSuchSession), tls_close pubConn (tls_close subConn w2))
                         | (True, w2) \<Rightarrow>
                             (None, do_sess ref (removeStream rid)
                                      (splice_conns sched subConn pubConn w2)))))"

end
