(* ===== verification/Registry_Steps.thy ===== *)
theory Registry_Steps
  imports Registry
begin

text \<open>
  Concurrent handlers of the registry. A state is the relay's world and the obligations its
  publishers' handlers hold: a pair of a session identifier and a session for every
  \<open>Register\<close> that took the slot and has not given it back. The steps are the registry's
  critical sections; everything else a handler does leaves the registry's maps alone. The
  handlers of \<open>Registry\<close> are shown to be sequences of these steps, so that what holds of every
  interleaving of steps holds of every interleaving of handlers.
\<close>

section \<open>Steps\<close>

record reg_state =
  rsWorld :: world
  rsOwners :: "(session_id \<times> nat) list"

definition reg_init :: "world \<Rightarrow> reg_state" where
  "reg_init w = \<lparr>rsWorld = w\<lparr>wSessions := [], wKilled := []\<rparr>, rsOwners = []\<rparr>"

inductive reg_step :: "reg_state \<Rightarrow> reg_state \<Rightarrow> bool" where
  claim: "reg_claim_slot control h ct (rsWorld s) = (Inr ref, w') \<Longrightarrow>
    reg_step s \<lparr>rsWorld = w', rsOwners = (hSessionID h, ref) # rsOwners s\<rparr>"
| drop: "(sid, ref) \<in> set (rsOwners s) \<Longrightarrow>
    reg_step s \<lparr>rsWorld = reg_delete sid (rsWorld s), rsOwners = removeAll (sid, ref) (rsOwners s)\<rparr>"
| kill: "kill_pick tag (rsWorld s) = (Inr (sid, ref), w') \<Longrightarrow>
    reg_step s \<lparr>rsWorld = w', rsOwners = rsOwners s\<rparr>"
| other: "same_registry (rsWorld s) w' \<Longrightarrow> reg_step s \<lparr>rsWorld = w', rsOwners = rsOwners s\<rparr>"

inductive reg_steps :: "reg_state \<Rightarrow> reg_state \<Rightarrow> bool" where
  refl: "reg_steps s s"
| trans: "reg_steps s t \<Longrightarrow> reg_step t u \<Longrightarrow> reg_steps s u"

inductive_cases reg_stepE: "reg_step s t"

interpretation reg_sys: step_system reg_step reg_steps
proof
  fix s t
  show "reg_steps s t \<longleftrightarrow> rtranclp reg_step s t"
  proof
    assume "reg_steps s t"
    then show "rtranclp reg_step s t"
      by (induction rule: reg_steps.induct) (auto intro: rtranclp.rtrancl_into_rtrancl)
  next
    assume "rtranclp reg_step s t"
    then show "reg_steps s t" by (induction rule: rtranclp_induct) (auto intro: reg_steps.intros)
  qed
qed

lemma reg_steps_trans: "reg_steps t u \<Longrightarrow> reg_steps s t \<Longrightarrow> reg_steps s u"
  by (rule reg_sys.trans)

lemma reg_steps_one: "reg_step s t \<Longrightarrow> reg_steps s t"
  by (rule reg_sys.one)

lemma reg_steps_other:
  "same_registry w w' \<Longrightarrow> reg_steps \<lparr>rsWorld = w, rsOwners = ow\<rparr> \<lparr>rsWorld = w', rsOwners = ow\<rparr>"
  using reg_step.other [of "\<lparr>rsWorld = w, rsOwners = ow\<rparr>" w'] by (intro reg_steps_one) simp

section \<open>The invariant\<close>

text \<open>
  Every registered session is owned by the handler that registered it; an owner's session is
  the registered one unless an operator killed it; and a killed identifier is not registered.
\<close>

definition reg_inv :: "reg_state \<Rightarrow> bool" where
  "reg_inv s \<longleftrightarrow>
     (let w = rsWorld s in
       gm_wf (wSessions w) \<and> gm_wf (wKilled w) \<and>
       (\<forall>sid ref. gm_get (wSessions w) sid = Some ref \<longrightarrow> (sid, ref) \<in> set (rsOwners s)) \<and>
       (\<forall>sid ref. (sid, ref) \<in> set (rsOwners s) \<longrightarrow>
          ref < wNextSess w \<and>
          (gm_get (wSessions w) sid = Some ref \<or> gm_has (wKilled w) sid)) \<and>
       (\<forall>sid. gm_has (wKilled w) sid \<longrightarrow> gm_get (wSessions w) sid = None))"

lemma reg_inv_init: "reg_inv (reg_init w)"
  by (simp add: reg_inv_def reg_init_def)

lemma reg_claim_slot_Inr:
  assumes "reg_claim_slot control h ct w = (Inr ref, w')"
  shows "\<not> gm_has (wKilled w) (hSessionID h) \<and> gm_get (wSessions w) (hSessionID h) = None \<and>
    ref = wNextSess w \<and>
    w' = w\<lparr>wSess := (wSess w)(ref := newSession (hMode h) (hPorts h) control
              (remoteAddr (wNet w control)) ct (wNow w)),
           wNextSess := ref + 1, wSessions := gm_set (hSessionID h) ref (wSessions w)\<rparr>"
  using assms by (auto simp: reg_claim_slot_def Let_def gm_has_def split: if_split_asm)

lemma reg_claim_slot_Inl:
  "reg_claim_slot control h ct w = (Inl e, w') \<Longrightarrow>
   w' = w \<and> e \<in> {RelaySessionKilled, RelayPublisherExists} \<and>
   (e = RelaySessionKilled \<longleftrightarrow> gm_has (wKilled w) (hSessionID h)) \<and>
   (e = RelayPublisherExists \<longrightarrow> gm_has (wSessions w) (hSessionID h))"
  by (auto simp: reg_claim_slot_def Let_def split: if_split_asm)

lemma kill_scan_gen:
  "fold (\<lambda>(sid, ref) (found, matches).
      if LogTag sid = tag then (Some (sid, ref), matches + 1) else (found, matches)) es (f, n) =
   (case filter (\<lambda>e. LogTag (fst e) = tag) es of
      [] \<Rightarrow> (f, n) | m \<Rightarrow> (Some (last m), n + length m))"
proof (induction es arbitrary: f n)
  case (Cons e es)
  obtain sid ref where e: "e = (sid, ref)" by (cases e)
  show ?case
    using Cons.IH e by (auto split: list.split)
qed simp

lemma kill_scan_filter:
  "kill_scan tag es =
   (case filter (\<lambda>e. LogTag (fst e) = tag) es of
      [] \<Rightarrow> (None, 0) | m \<Rightarrow> (Some (last m), length m))"
  unfolding kill_scan_def kill_scan_gen by (simp split: list.split)

text \<open>The critical section of \<open>Kill\<close>, by the sessions whose tag matches.\<close>

definition tagged :: "string \<Rightarrow> world \<Rightarrow> (session_id \<times> nat) list" where
  "tagged tag w = filter (\<lambda>e. LogTag (fst e) = tag) (wSessions w)"

lemma kill_pick_cases:
  "kill_pick tag w =
   (case tagged tag w of
      [] \<Rightarrow> (Inl RelayNoSuchSession, w)
    | [(sid, ref)] \<Rightarrow>
        (Inr (sid, ref), w\<lparr>wKilled := gm_set sid () (wKilled w),
                           wSessions := gm_del sid (wSessions w)\<rparr>)
    | _ \<Rightarrow> (Inl RelayAmbiguousTag, w))"
proof -
  have scan: "kill_scan tag (wSessions w) = (case tagged tag w of [] \<Rightarrow> (None, 0) | m \<Rightarrow> (Some (last m), length m))"
    by (simp add: kill_scan_filter tagged_def)
  show ?thesis
  proof (cases "tagged tag w")
    case Nil
    with scan show ?thesis by (simp add: kill_pick_def)
  next
    case (Cons e es)
    obtain sid ref where l: "last (e # es) = (sid, ref)" by (cases "last (e # es)")
    with scan Cons have "kill_scan tag (wSessions w) = (Some (sid, ref), Suc (length es))" by simp
    with Cons l show ?thesis by (cases es) (auto simp: kill_pick_def split: prod.splits)
  qed
qed

lemma kill_pick_Inr:
  assumes "kill_pick tag w = (Inr (sid, ref), w')"
  shows "tagged tag w = [(sid, ref)] \<and> (sid, ref) \<in> set (wSessions w) \<and> LogTag sid = tag \<and>
    w' = w\<lparr>wKilled := gm_set sid () (wKilled w), wSessions := gm_del sid (wSessions w)\<rparr>"
proof -
  have m: "tagged tag w = [(sid, ref)]"
    and w': "w' = w\<lparr>wKilled := gm_set sid () (wKilled w), wSessions := gm_del sid (wSessions w)\<rparr>"
    using assms by (auto simp: kill_pick_cases split: list.split_asm prod.split_asm)
  have "(sid, ref) \<in> set (tagged tag w)" by (simp add: m)
  then show ?thesis using m w' by (simp add: tagged_def)
qed

lemma kill_pick_Inl: "kill_pick tag w = (Inl e, w') \<Longrightarrow> w' = w \<and> length (tagged tag w) \<noteq> 1"
  by (auto simp: kill_pick_cases split: list.split_asm prod.split_asm)

lemma reg_invI:
  assumes "gm_wf (wSessions w)" "gm_wf (wKilled w)"
    and "\<And>sid ref. gm_get (wSessions w) sid = Some ref \<Longrightarrow> (sid, ref) \<in> set ow"
    and "\<And>sid ref. (sid, ref) \<in> set ow \<Longrightarrow> ref < wNextSess w \<and>
      (gm_get (wSessions w) sid = Some ref \<or> gm_has (wKilled w) sid)"
    and "\<And>sid. gm_has (wKilled w) sid \<Longrightarrow> gm_get (wSessions w) sid = None"
  shows "reg_inv \<lparr>rsWorld = w, rsOwners = ow\<rparr>"
  unfolding reg_inv_def Let_def using assms by simp

lemma reg_invD:
  assumes "reg_inv s"
  shows "gm_wf (wSessions (rsWorld s))" "gm_wf (wKilled (rsWorld s))"
    and "gm_get (wSessions (rsWorld s)) sid = Some ref \<Longrightarrow> (sid, ref) \<in> set (rsOwners s)"
    and "(sid, ref) \<in> set (rsOwners s) \<Longrightarrow> ref < wNextSess (rsWorld s)"
    and "(sid, ref) \<in> set (rsOwners s) \<Longrightarrow>
      gm_get (wSessions (rsWorld s)) sid = Some ref \<or> gm_has (wKilled (rsWorld s)) sid"
    and "gm_has (wKilled (rsWorld s)) sid \<Longrightarrow> gm_get (wSessions (rsWorld s)) sid = None"
  using assms unfolding reg_inv_def Let_def by blast+

lemma reg_inv_step:
  assumes "reg_step s t" and "reg_inv s"
  shows "reg_inv t"
  using assms(1)
proof (cases rule: reg_step.cases)
  case (claim control h ct ref w')
  note new = reg_claim_slot_Inr [OF claim(2)] and inv = reg_invD [OF assms(2)]
  show ?thesis
    unfolding claim(1)
  proof (rule reg_invI, goal_cases)
    case (3 sid r)
    then show ?case using new inv(3) [of sid r] by (auto simp: gomap_simps split: if_split_asm)
  next
    case (4 sid r)
    then show ?case using new inv(4,5) [of sid r] by (auto simp: gomap_simps less_Suc_eq)
  next
    case (5 sid)
    then show ?case using new inv(6) [of sid] by (auto simp: gomap_simps)
  qed (use new inv(1,2) in simp_all)
next
  case (drop sid ref)
  note inv = reg_invD [OF assms(2)]
  show ?thesis
    unfolding drop(1)
  proof (rule reg_invI, goal_cases)
    case (3 sid' r)
    then show ?case using inv(3) [of sid' r] by (auto simp: reg_delete_def gomap_simps split: if_split_asm)
  next
    case (4 sid' r)
    then have o: "(sid', r) \<in> set (rsOwners s)" "(sid', r) \<noteq> (sid, ref)" by auto
    show ?case
    proof (cases "sid' = sid")
      case True
      then have "\<not> gm_get (wSessions (rsWorld s)) sid = Some r \<or> \<not> gm_get (wSessions (rsWorld s)) sid = Some ref"
        using o(2) by auto
      then have "gm_has (wKilled (rsWorld s)) sid"
        using inv(5) [OF drop(2)] inv(5) [OF o(1)] True by auto
      then show ?thesis using inv(4) [OF o(1)] True by (simp add: reg_delete_def)
    next
      case False
      then show ?thesis using inv(4,5) [OF o(1)] by (simp add: reg_delete_def gomap_simps)
    qed
  next
    case (5 sid')
    then show ?case using inv(6) [of sid'] by (simp add: reg_delete_def gomap_simps)
  qed (use inv(1,2) in \<open>simp_all add: reg_delete_def\<close>)
next
  case (kill tag sid ref w')
  note picked = kill_pick_Inr [OF kill(2)] and inv = reg_invD [OF assms(2)]
  show ?thesis
    unfolding kill(1)
  proof (rule reg_invI, goal_cases)
    case (3 sid' r)
    then show ?case using picked inv(3) [of sid' r] by (auto simp: gomap_simps split: if_split_asm)
  next
    case (4 sid' r)
    then show ?case using picked inv(4,5) [of sid' r] by (auto simp: gomap_simps)
  next
    case (5 sid')
    then show ?case using picked inv(6) [of sid'] by (auto simp: gomap_simps)
  qed (use picked inv(1,2) in simp_all)
next
  case (other w')
  note inv = reg_invD [OF assms(2)]
  show ?thesis
    unfolding other(1)
    by (rule reg_invI) (use other(2) inv in \<open>simp_all add: same_registry_def\<close>)
qed

lemma reg_steps_inv: "reg_steps s t \<Longrightarrow> reg_inv s \<Longrightarrow> reg_inv t"
  by (rule reg_sys.keeps [where P = reg_inv, OF reg_inv_step])

text \<open>A kill is never forgotten.\<close>

lemma killed_step:
  assumes "reg_step s t" and "gm_has (wKilled (rsWorld s)) sid"
  shows "gm_has (wKilled (rsWorld t)) sid"
  using assms(1)
proof (cases rule: reg_step.cases)
  case (claim control h ct ref w')
  then show ?thesis using assms(2) reg_claim_slot_Inr [OF claim(2)] by simp
next
  case (kill tag sid' ref w')
  then show ?thesis using assms(2) kill_pick_Inr [OF kill(2)] by (simp add: gomap_simps)
qed (use assms(2) in \<open>simp_all add: reg_delete_def same_registry_def\<close>)

lemma killed_steps:
  "reg_steps s t \<Longrightarrow> gm_has (wKilled (rsWorld s)) sid \<Longrightarrow> gm_has (wKilled (rsWorld t)) sid"
  by (induction rule: reg_steps.induct) (auto dest: killed_step)

section \<open>The handlers as sequences of steps\<close>

lemma VerifyPublishClaim_net_registry:
  "on_net k f w = (r, w1) \<Longrightarrow> wSessions w1 = wSessions w \<and> wKilled w1 = wKilled w \<and> wSess w1 = wSess w"
  by (auto simp: on_net_def split: prod.splits)

lemma Register_steps:
  assumes "Register cr drawn control h w = (r, w')"
  shows "\<exists>ow'. reg_steps \<lparr>rsWorld = w, rsOwners = ow\<rparr> \<lparr>rsWorld = w', rsOwners = ow'\<rparr> \<and>
    (case r of Inl e \<Rightarrow> set ow' \<subseteq> set ow | Inr ref \<Rightarrow> ow' = (hSessionID h, ref) # ow)"
proof (cases "peerLeafCert (wNet w control)")
  case (Inl e)
  with assms show ?thesis by (auto simp: Register_def intro!: exI [of _ ow] reg_steps_other)
next
  case (Inr ct)
  obtain v w1 where v: "on_net control (VerifyPublishClaim cr drawn h) w = (v, w1)" by (metis prod.exhaust)
  have s1: "same_registry w w1" using on_net_registry [OF v] by simp
  show ?thesis
  proof (cases v)
    case (Inl e)
    with assms Inr v s1 show ?thesis
      by (auto simp: Register_def intro!: exI [of _ ow] reg_steps_other same_registry_trans [OF s1])
  next
    case v': (Inr u)
    obtain q w2 where c: "reg_claim_slot control h ct w1 = (q, w2)" by (metis prod.exhaust)
    show ?thesis
    proof (cases q)
      case (Inl refusal)
      then have "w2 = w1" using c reg_claim_slot_Inl by blast
      with assms Inr v v' c Inl s1 show ?thesis
        by (auto simp: Register_def split: if_split_asm
            intro!: exI [of _ ow] reg_steps_other same_registry_trans [OF s1])
    next
      case q': (Inr ref)
      let ?S0 = "\<lparr>rsWorld = w, rsOwners = ow\<rparr>"
      let ?S2 = "\<lparr>rsWorld = w2, rsOwners = (hSessionID h, ref) # ow\<rparr>"
      have "reg_step \<lparr>rsWorld = w1, rsOwners = ow\<rparr> ?S2"
        using reg_step.claim [of control h ct "\<lparr>rsWorld = w1, rsOwners = ow\<rparr>" ref w2] c q' by simp
      then have st2: "reg_steps ?S0 ?S2"
        using reg_steps_other [OF s1] reg_steps.trans by blast
      obtain a w3 where a: "on_net control (WriteAck AckOK) w2 = (a, w3)" by (metis prod.exhaust)
      have st3: "reg_steps ?S0 \<lparr>rsWorld = w3, rsOwners = (hSessionID h, ref) # ow\<rparr>"
        using on_net_registry [OF a] reg_steps_other reg_steps_trans st2 by blast
      show ?thesis
      proof (cases a)
        case a': (Inr u')
        with assms Inr v v' c q' a have "r = Inr ref" "w' = w3" by (auto simp: Register_def)
        with st3 show ?thesis by auto
      next
        case (Inl e)
        obtain n w4 where d: "session_shutdown ref (reg_delete (hSessionID h) w3) = (n, w4)"
          by (metis prod.exhaust)
        let ?ow' = "removeAll (hSessionID h, ref) ((hSessionID h, ref) # ow)"
        from Inl assms Inr v v' c q' a d have r: "r = Inl (wrap ''ack publisher'' e)" "w' = w4"
          by (auto simp: Register_def)
        have "reg_step \<lparr>rsWorld = w3, rsOwners = (hSessionID h, ref) # ow\<rparr>
            \<lparr>rsWorld = reg_delete (hSessionID h) w3, rsOwners = ?ow'\<rparr>"
          using reg_step.drop [of "hSessionID h" ref "\<lparr>rsWorld = w3, rsOwners = (hSessionID h, ref) # ow\<rparr>"]
          by simp
        then have "reg_steps ?S0 \<lparr>rsWorld = reg_delete (hSessionID h) w3, rsOwners = ?ow'\<rparr>"
          using st3 reg_steps.trans by blast
        moreover have "reg_steps \<lparr>rsWorld = reg_delete (hSessionID h) w3, rsOwners = ?ow'\<rparr>
            \<lparr>rsWorld = w4, rsOwners = ?ow'\<rparr>"
          using session_shutdown_registry [OF d] by (intro reg_steps_other) simp
        ultimately have "reg_steps ?S0 \<lparr>rsWorld = w4, rsOwners = ?ow'\<rparr>"
          using reg_steps_trans by blast
        with r show ?thesis by (intro exI [of _ ?ow']) auto
      qed
    qed
  qed
qed

lemma unregister_steps:
  assumes "unregister sid ref w = (n, w')" and "(sid, ref) \<in> set ow"
  shows "reg_steps \<lparr>rsWorld = w, rsOwners = ow\<rparr> \<lparr>rsWorld = w', rsOwners = removeAll (sid, ref) ow\<rparr>"
proof -
  have "reg_step \<lparr>rsWorld = w, rsOwners = ow\<rparr> \<lparr>rsWorld = reg_delete sid w, rsOwners = removeAll (sid, ref) ow\<rparr>"
    using reg_step.drop [of sid ref "\<lparr>rsWorld = w, rsOwners = ow\<rparr>"] assms(2) by simp
  moreover have "reg_steps \<lparr>rsWorld = reg_delete sid w, rsOwners = removeAll (sid, ref) ow\<rparr>
      \<lparr>rsWorld = w', rsOwners = removeAll (sid, ref) ow\<rparr>"
    using session_shutdown_registry assms(1) by (intro reg_steps_other) (auto simp: unregister_def)
  ultimately show ?thesis using reg_steps_one reg_steps_trans by blast
qed

lemma release_registry [simp]: "same_registry w (release ref sub w)"
  by (simp add: release_def)

lemma Subscribe_registry:
  assumes "Subscribe control h w = (r, w')"
  shows "same_registry w w'"
proof (cases "sessionFor (hSessionID h) w")
  case None
  with assms show ?thesis by (auto simp: Subscribe_def)
next
  case (Some ref)
  obtain q w1 where q: "on_sess ref (addSubscriber control (wNet w control) (wNow w)) w = (q, w1)"
    by (metis prod.exhaust)
  obtain a w2 where a: "on_net control (WriteAck AckOK) w1 = (a, w2)" by (metis prod.exhaust)
  have s: "same_registry w w1" "same_registry w1 w2"
    using on_sess_registry [OF q] on_net_registry [OF a] by simp_all
  have t: "same_registry w w2" using s same_registry_trans by blast
  show ?thesis
    using assms Some q a s t same_registry_trans [OF s(1) do_net_registry(1)]
      same_registry_trans [OF t release_registry]
    by (auto simp: Subscribe_def split: if_split_asm option.split_asm sum.split_asm)
qed

lemma drop_pending_registry: "same_registry w (drop_pending ref rid w)"
proof -
  obtain r w1 where r: "on_sess ref (removePending rid) w = (r, w1)" by (metis prod.exhaust)
  have "same_registry w w1" using on_sess_registry [OF r] by simp
  with r show ?thesis
    using same_registry_trans [OF _ tls_close_registry(1)] by (cases r) (auto simp: drop_pending_def)
qed

lemma AttachSubscriberData_registry:
  assumes "AttachSubscriberData k sid port w = (r, w')"
  shows "same_registry w w'"
proof (cases "sessionFor sid w")
  case None
  with assms show ?thesis by (auto simp: AttachSubscriberData_def)
next
  case (Some ref)
  obtain q w1 where q: "on_sess ref (addPending k (Some (wNet w k)) port (wNow w)) w = (q, w1)"
    by (metis prod.exhaust)
  obtain a w2 where a: "on_net k (WriteAck AckOK) w1 = (a, w2)" by (metis prod.exhaust)
  have s1: "same_registry w w1" using on_sess_registry [OF q] by simp
  have s2: "same_registry w w2" using on_net_registry [OF a] same_registry_trans [OF s1] by blast
  show ?thesis
  proof (cases q)
    case None
    with assms Some q s1 same_registry_trans [OF s1 do_net_registry(1)] show ?thesis
      by (auto simp: AttachSubscriberData_def split: if_split_asm)
  next
    case q': (Some rid)
    obtain b w3 where b: "on_net (sPublisher (wSess w2 ref)) (WriteRequestData rid port) w2 = (b, w3)"
      by (metis prod.exhaust)
    have s3: "same_registry w w3" using on_net_registry [OF b] same_registry_trans [OF s2] by blast
    show ?thesis
      using assms Some q q' a b s3 same_registry_trans [OF s2 drop_pending_registry]
        same_registry_trans [OF s3 drop_pending_registry]
      by (auto simp: AttachSubscriberData_def split: if_split_asm sum.split_asm)
  qed
qed

lemma splice_conns_registry [simp]: "same_registry w (splice_conns sched a b w)"
  by (auto simp: splice_conns_def tls_close_def same_registry_def split: prod.split)

lemma AttachPublisherData_registry:
  assumes "AttachPublisherData sched sid rid k w = (r, w')"
  shows "same_registry w w'"
proof (cases "sessionFor sid w")
  case None
  with assms show ?thesis by (auto simp: AttachPublisherData_def)
next
  case (Some ref)
  show ?thesis
  proof (cases "peerLeafCert (wNet w k)")
    case (Inl e)
    with assms Some show ?thesis by (auto simp: AttachPublisherData_def)
  next
    case (Inr ct)
    obtain q w1 where q: "on_sess ref (claimPending rid) w = (q, w1)" by (metis prod.exhaust)
    have s1: "same_registry w w1" using on_sess_registry [OF q] by simp
    show ?thesis
    proof (cases q)
      case None
      with assms Some Inr q s1 show ?thesis by (auto simp: AttachPublisherData_def split: if_split_asm)
    next
      case q': (Some p)
      obtain c port where p: "p = (c, port)" by (cases p)
      obtain a w2 where a: "on_sess ref (addStream rid
          \<lparr>stPort = port, stStarted = wNow w1, stIntoSub = 0, stIntoPub = 0\<rparr>) w1 = (a, w2)"
        by (metis prod.exhaust)
      have s2: "same_registry w w2" using on_sess_registry [OF a] same_registry_trans [OF s1] by blast
      have "same_registry w (do_sess ref (removeStream rid) (splice_conns sched c k w2))"
        using s2 by (rule same_registry_trans)
          (rule same_registry_trans [OF splice_conns_registry do_sess_registry])
      moreover have "same_registry w (tls_close k (tls_close c w2))"
        using s2 by (rule same_registry_trans)
          (rule same_registry_trans [OF tls_close_registry(1) tls_close_registry(1)])
      ultimately show ?thesis
        using assms Some Inr q q' p a
        by (auto simp: AttachPublisherData_def split: if_split_asm bool.split_asm)
    qed
  qed
qed

lemma Kill_steps:
  assumes "Kill tag w = (r, w')"
  shows "reg_steps \<lparr>rsWorld = w, rsOwners = ow\<rparr> \<lparr>rsWorld = w', rsOwners = ow\<rparr>"
proof -
  obtain q w1 where q: "kill_pick tag w = (q, w1)" by (metis prod.exhaust)
  show ?thesis
  proof (cases q)
    case (Inl e)
    with q have "w1 = w" using kill_pick_Inl by blast
    with assms q Inl show ?thesis by (auto simp: Kill_def intro: reg_steps.refl)
  next
    case (Inr p)
    obtain sid ref where p: "p = (sid, ref)" by (cases p)
    obtain n w2 where d: "session_shutdown ref (tls_close (sPublisher (wSess w1 ref)) w1) = (n, w2)"
      by (metis prod.exhaust)
    have "reg_step \<lparr>rsWorld = w, rsOwners = ow\<rparr> \<lparr>rsWorld = w1, rsOwners = ow\<rparr>"
      using reg_step.kill [of tag "\<lparr>rsWorld = w, rsOwners = ow\<rparr>" sid ref w1] q Inr p by simp
    moreover have "same_registry w1 w2"
      using session_shutdown_registry [OF d] same_registry_trans [OF tls_close_registry(1)] by blast
    then have "reg_steps \<lparr>rsWorld = w1, rsOwners = ow\<rparr> \<lparr>rsWorld = w2, rsOwners = ow\<rparr>"
      by (rule reg_steps_other)
    moreover have "w' = w2" using assms q Inr p d by (simp add: Kill_def)
    ultimately show ?thesis using reg_steps_one reg_steps_trans by blast
  qed
qed

end
