(* ===== verification/Registry_Props.thy ===== *)
theory Registry_Props
  imports Registry_Steps
begin

text \<open>
  What the registry promises: who gets a publisher's slot, what a kill does, whom a subscriber
  is attached to, and which data connections are paired.
\<close>

section \<open>Publishers\<close>

lemma Register_Inr:
  assumes "Register cr drawn k h w = (Inr ref, w')"
  obtains ct u u' w1 w2 where "peerLeafCert (wNet w k) = Inr ct"
    "on_net k (VerifyPublishClaim cr drawn h) w = (Inr u, w1)"
    "reg_claim_slot k h ct w1 = (Inr ref, w2)"
    "on_net k (WriteAck AckOK) w2 = (Inr u', w')"
proof -
  obtain ct where ct: "peerLeafCert (wNet w k) = Inr ct"
    using assms by (cases "peerLeafCert (wNet w k)") (auto simp: Register_def)
  obtain v w1 where v: "on_net k (VerifyPublishClaim cr drawn h) w = (v, w1)" by (metis prod.exhaust)
  obtain u where u: "v = Inr u" using assms ct v by (cases v) (auto simp: Register_def)
  obtain q w2 where q: "reg_claim_slot k h ct w1 = (q, w2)" by (metis prod.exhaust)
  obtain ref' where r: "q = Inr ref'"
    using assms ct v u q by (cases q) (auto simp: Register_def split: if_split_asm)
  obtain a w3 where a: "on_net k (WriteAck AckOK) w2 = (a, w3)" by (metis prod.exhaust)
  from assms ct v u q r a obtain u' where "a = Inr u'" "w3 = w'" "ref' = ref"
    by (cases a) (auto simp: Register_def)
  with that ct v u q r a show ?thesis by blast
qed

lemma Register_refused:
  assumes "sessionFor (hSessionID h) w \<noteq> None \<or> gm_has (wKilled w) (hSessionID h)"
    and "Register cr drawn k h w = (r, w')"
  shows "(\<exists>e. r = Inl e) \<and> same_registry w w' \<and> wSess w' = wSess w"
proof (cases "peerLeafCert (wNet w k)")
  case (Inl e)
  with assms show ?thesis by (auto simp: Register_def)
next
  case (Inr ct)
  obtain v w1 where v: "on_net k (VerifyPublishClaim cr drawn h) w = (v, w1)" by (metis prod.exhaust)
  have s1: "same_registry w w1" "wSess w1 = wSess w" using on_net_registry [OF v] by simp_all
  have d: "same_registry w (do_net k x w1) \<and> wSess (do_net k x w1) = wSess w"
    for x :: "tls_conn \<Rightarrow> unit result \<times> tls_conn"
    using same_registry_trans [OF s1(1) do_net_registry(1)] s1(2) by simp
  show ?thesis
  proof (cases v)
    case (Inl e)
    with assms(2) Inr v d show ?thesis by (auto simp: Register_def)
  next
    case v': (Inr u)
    have "gm_has (wKilled w1) (hSessionID h) \<or> gm_has (wSessions w1) (hSessionID h)"
      using assms(1) s1(1) by (auto simp: same_registry_def sessionFor_def gm_has_def)
    then have "\<exists>e. reg_claim_slot k h ct w1 = (Inl e, w1)"
      by (auto simp: reg_claim_slot_def Let_def)
    then obtain e where "reg_claim_slot k h ct w1 = (Inl e, w1)" by blast
    with assms(2) Inr v v' d show ?thesis by (auto simp: Register_def split: if_split_asm)
  qed
qed

text \<open>
  A relay with one session: publisher 10, subscriber 20, data connection 21 waiting under
  request 0; connection 1 is a publisher about to claim the sample session, 11 a data
  connection of publisher 10, 30 a second subscriber.
\<close>

definition sample_sid :: session_id where "sample_sid = replicate 16 9"

definition sample_net :: "nat \<Rightarrow> tls_conn" where
  "sample_net k =
     (if k = 1 then sample_tls 1 sample_proof
      else if k = 10 then sample_tls 1 []
      else if k = 11 then sample_tls 1 [104, 105]
      else if k = 21 then sample_tls 2 [7]
      else sample_tls 2 [])"

definition sample_relay :: world where
  "sample_relay = \<lparr>wNet = sample_net, wConns = new_connections 0, wRevoked = None,
     wSess = (\<lambda>_. sample_waiting), wNextSess = 1, wSessions = [(sample_sid, 0)], wKilled = [],
     wNow = 7\<rparr>"

definition sample_sub_hello :: hello where
  "sample_sub_hello = \<lparr>hRole = RoleSubscribe, hMode = ModeTCP, hSessionID = sample_sid, hPorts = 2\<rparr>"

lemmas sample_defs = sample_relay_def sample_net_def sample_tls_def sample_cert_def
  sample_waiting_def sample_joined_def sample_session_def newSession_def sample_sub_hello_def

lemma sample_sid_ne: "hSessionID sample_hello \<noteq> sample_sid"
proof -
  have "hd (hSessionID sample_hello) = 103"
    by (simp add: sample_hello_def sample_signer_def sessionIDFor_def deriveKey_def
        sample_crypto_def sessionIDInfo_def SessionIDSize_def Let_def)
  moreover have "hd sample_sid = 9" by (simp add: sample_sid_def)
  ultimately show ?thesis by auto
qed

lemma sample_register_runs:
  "\<exists>w'. Register sample_crypto (Inr (replicate 32 1)) 1 sample_hello sample_relay = (Inr 1, w')"
proof -
  let ?c = "sample_tls 1 sample_proof"
  have v: "VerifyPublishClaim sample_crypto (Inr (replicate 32 1)) sample_hello ?c =
      (Inr (), ?c\<lparr>outb := outb ?c @ replicate 32 1, inb := []\<rparr>)"
    unfolding VerifyPublishClaim_def
    using verifyPublishClaim_ok [OF _ _ _ _ sample_proof_proves, of ?c "[]"]
    by (simp add: sample_tls_def publishProofSize_def sample_proof_def) (simp add: sample_crypto_def)
  let ?w1 = "sample_relay\<lparr>wNet := sample_net(1 := ?c\<lparr>outb := outb ?c @ replicate 32 1, inb := []\<rparr>)\<rparr>"
  have n: "on_net 1 (VerifyPublishClaim sample_crypto (Inr (replicate 32 1)) sample_hello) sample_relay =
      (Inr (), ?w1)"
    using v by (simp add: on_net_def sample_relay_def sample_net_def)
  have p: "peerLeafCert (wNet sample_relay 1) = Inr (sample_cert 1)"
    by (simp add: peerLeafCert_def sample_relay_def sample_net_def sample_tls_def)
  obtain w2 where c: "reg_claim_slot 1 sample_hello (sample_cert 1) ?w1 = (Inr 1, w2)" and w2: "wNet w2 = wNet ?w1"
    using sample_sid_ne by (simp add: reg_claim_slot_def Let_def gm_has_def gm_get_def sample_relay_def)
  obtain w3 where a: "on_net 1 (WriteAck AckOK) w2 = (Inr (), w3)"
    using w2 by (simp add: on_net_def WriteAck_def write_msg_ok sample_tls_def)
  show ?thesis using p n c a by (simp add: Register_def)
qed

lemma sample_tagged: "tagged (LogTag sample_sid) sample_relay = [(sample_sid, 0)]"
  by (simp add: tagged_def sample_relay_def)

lemma sample_waiting_inv: "sess_inv sample_waiting \<and> sNextSubID sample_waiting \<noteq> - 1"
  using sess_run_inv [OF sample_run_waiting] newSession_inv
  by (simp add: sample_session_def) (simp add: sample_waiting_def sample_joined_def sample_session_def)

text \<open>
  C1: The publisher's slot goes to a proved claim for a free session, and to nothing else.
  When \<open>Register\<close> succeeds, the peer proved the session its own over relay's fresh challenge
  and this \<open>Hello\<close>, the identifier was neither taken nor killed, the challenge and a positive
  ack are what relay wrote, and the new session carries the peer's certificate, mode and port
  count and is open, with nobody attached.
\<close>

theorem register_takes_proved_slot:
  assumes "Register cr drawn k h w = (Inr ref, w')"
  shows "\<exists>challenge pf ct. drawn = Inr challenge \<and> inb (wNet w k) = pf @ inb (wNet w' k) \<and>
    claim_proved cr h challenge pf \<and>
    outb (wNet w' k) = outb (wNet w k) @ challenge @ [AckOK] \<and>
    sessionFor (hSessionID h) w = None \<and> \<not> gm_has (wKilled w) (hSessionID h) \<and>
    sessionFor (hSessionID h) w' = Some ref \<and> peerLeafCert (wNet w k) = Inr ct \<and>
    sPublisher (wSess w' ref) = k \<and> sPublisherCert (wSess w' ref) = ct \<and>
    sMode (wSess w' ref) = hMode h \<and> sPorts (wSess w' ref) = hPorts h \<and>
    \<not> sClosed (wSess w' ref) \<and> sSubscribers (wSess w' ref) = [] \<and> sPending (wSess w' ref) = []"
  using assms
proof (rule Register_Inr)
  fix ct u u' w1 w2
  assume ct: "peerLeafCert (wNet w k) = Inr ct"
    and v: "on_net k (VerifyPublishClaim cr drawn h) w = (Inr u, w1)"
    and c: "reg_claim_slot k h ct w1 = (Inr ref, w2)"
    and a: "on_net k (WriteAck AckOK) w2 = (Inr u', w')"
  have v': "VerifyPublishClaim cr drawn h (wNet w k) = (Inr u, wNet w1 k)" using on_net_at [OF v] by simp
  obtain challenge where d: "drawn = Inr challenge"
    "verifyPublishClaim cr h challenge (wNet w k) = (Inr u, wNet w1 k)"
    using v' by (cases drawn) (auto simp: VerifyPublishClaim_def)
  obtain pf where pf: "inb (wNet w k) = pf @ inb (wNet w1 k)" "claim_proved cr h challenge pf"
    "outb (wNet w1 k) = outb (wNet w k) @ challenge"
    using verifyPublishClaim_Inr [OF d(2)] by blast
  have slot: "\<not> gm_has (wKilled w1) (hSessionID h)" "gm_get (wSessions w1) (hSessionID h) = None"
    and w2: "w2 = w1\<lparr>wSess := (wSess w1)(ref := newSession (hMode h) (hPorts h) k
              (remoteAddr (wNet w1 k)) ct (wNow w1)),
           wNextSess := ref + 1, wSessions := gm_set (hSessionID h) ref (wSessions w1)\<rparr>"
    using reg_claim_slot_Inr [OF c] by simp_all
  have ack: "WriteAck AckOK (wNet w2 k) = (Inr u', wNet w' k)" using on_net_at [OF a] by simp
  have s1: "same_registry w w1" using on_net_registry [OF v] by simp
  have s3: "wSess w' = wSess w2" "wSessions w' = wSessions w2"
    using on_net_registry [OF a] by (simp_all add: same_registry_def)
  have net: "inb (wNet w' k) = inb (wNet w1 k)" "outb (wNet w' k) = outb (wNet w1 k) @ [AckOK]"
    using WriteAck_Inr [OF ack] WriteAck_frame [OF ack] w2 by simp_all
  have new: "wSess w' ref = newSession (hMode h) (hPorts h) k (remoteAddr (wNet w1 k)) ct (wNow w1)"
    using s3 w2 by simp
  show ?thesis
    using d(1) pf net slot s1 s3 w2 ct new
    by (intro exI [of _ challenge] exI [of _ pf] exI [of _ ct])
      (simp add: sessionFor_def same_registry_def gomap_simps newSession_def)
qed

lemma register_takes_proved_slot_witness:
  "\<exists>w'. Register sample_crypto (Inr (replicate 32 1)) 1 sample_hello sample_relay = (Inr 1, w') \<and>
     sessionFor (hSessionID sample_hello) w' = Some 1 \<and> sPublisher (wSess w' 1) = 1"
  using sample_register_runs register_takes_proved_slot by blast

text \<open>
  A registered publisher is not displaced, and a kill is not undone. While a session is
  registered, or once its identifier has been killed, a claim on that identifier is refused
  whatever it proves, and the registry and all sessions stay as they were.
\<close>

theorem register_never_displaces:
  assumes "sessionFor (hSessionID h) w = Some ref0 \<or> gm_has (wKilled w) (hSessionID h)"
    and "Register cr drawn k h w = (r, w')"
  shows "(\<exists>e. r = Inl e) \<and> wSessions w' = wSessions w \<and> wKilled w' = wKilled w \<and> wSess w' = wSess w"
  using Register_refused [of h w cr drawn k r w'] assms by (auto simp: same_registry_def)

lemma register_never_displaces_witness:
  "\<exists>e w'. Register sample_crypto (Inr []) 30 sample_sub_hello sample_relay = (Inl e, w') \<and>
     wSessions w' = wSessions sample_relay"
proof -
  obtain r w' where r: "Register sample_crypto (Inr []) 30 sample_sub_hello sample_relay = (r, w')"
    by (metis prod.exhaust)
  have "sessionFor (hSessionID sample_sub_hello) sample_relay = Some 0"
    by (simp add: sessionFor_def sample_sub_hello_def sample_relay_def gm_get_def)
  with register_never_displaces [of sample_sub_hello sample_relay 0 sample_crypto "Inr []" 30 r w'] r
  have "\<exists>e. r = Inl e" "wSessions w' = wSessions sample_relay" by simp_all
  with r show ?thesis by blast
qed

section \<open>Interleavings\<close>

text \<open>
  C7: Whatever the handlers interleave, the registry's slots stay with their owners: a
  registered session belongs to the handler that registered it, so giving a slot back removes
  that handler's own session or nothing, never one that another publisher has since registered;
  and a killed identifier is never registered again.
\<close>

theorem slots_stay_with_owners:
  assumes "reg_steps (reg_init w0) s"
  shows "(\<forall>sid ref. (sid, ref) \<in> set (rsOwners s) \<longrightarrow>
      gm_get (wSessions (rsWorld s)) sid = Some ref \<or>
      gm_get (wSessions (rsWorld s)) sid = None \<and> gm_has (wKilled (rsWorld s)) sid) \<and>
    (\<forall>sid ref. gm_get (wSessions (rsWorld s)) sid = Some ref \<longrightarrow> (sid, ref) \<in> set (rsOwners s)) \<and>
    (\<forall>sid. gm_has (wKilled (rsWorld s)) sid \<longrightarrow> gm_get (wSessions (rsWorld s)) sid = None)"
  using reg_invD(3,5,6) [OF reg_steps_inv [OF assms reg_inv_init]] by blast

lemma slots_stay_with_owners_witness:
  "\<exists>s. reg_steps (reg_init sample_relay) s \<and> rsOwners s = [(sample_sid, 1)] \<and>
     gm_get (wSessions (rsWorld s)) sample_sid = Some 1"
proof -
  obtain w' where c: "reg_claim_slot 10 sample_sub_hello (sample_cert 1) (rsWorld (reg_init sample_relay)) = (Inr 1, w')"
    by (simp add: reg_claim_slot_def Let_def reg_init_def sample_relay_def)
  let ?s = "\<lparr>rsWorld = w', rsOwners = [(sample_sid, 1)]\<rparr>"
  have s: "reg_steps (reg_init sample_relay) ?s"
    using reg_steps_one [OF reg_step.claim [OF c]] by (simp add: reg_init_def sample_sub_hello_def)
  moreover have "\<not> gm_has (wKilled w') sample_sid"
    using reg_claim_slot_Inr [OF c] by (simp add: reg_init_def)
  ultimately show ?thesis
    using slots_stay_with_owners [OF s] by (intro exI [of _ ?s]) auto
qed

text \<open>
  The handlers are those steps. Each of \<open>Register\<close>, \<open>unregister\<close>, \<open>Subscribe\<close>, \<open>Kill\<close>,
  \<open>AttachSubscriberData\<close> and \<open>AttachPublisherData\<close> is a sequence of the registry's atomic
  steps; a successful registration, and only that, leaves its caller with the slot to give
  back.
\<close>

theorem handlers_are_steps:
  shows "(Register cr drawn k h w = (r1, w1) \<longrightarrow>
      (\<exists>ow'. reg_steps \<lparr>rsWorld = w, rsOwners = ow\<rparr> \<lparr>rsWorld = w1, rsOwners = ow'\<rparr> \<and>
         (case r1 of Inl e \<Rightarrow> set ow' \<subseteq> set ow | Inr ref \<Rightarrow> ow' = (hSessionID h, ref) # ow))) \<and>
    (unregister sid ref w = (n, w2) \<and> (sid, ref) \<in> set ow \<longrightarrow>
      reg_steps \<lparr>rsWorld = w, rsOwners = ow\<rparr> \<lparr>rsWorld = w2, rsOwners = removeAll (sid, ref) ow\<rparr>) \<and>
    (Subscribe k h w = (r3, w3) \<longrightarrow>
      reg_steps \<lparr>rsWorld = w, rsOwners = ow\<rparr> \<lparr>rsWorld = w3, rsOwners = ow\<rparr>) \<and>
    (Kill tag w = (r4, w4) \<longrightarrow>
      reg_steps \<lparr>rsWorld = w, rsOwners = ow\<rparr> \<lparr>rsWorld = w4, rsOwners = ow\<rparr>) \<and>
    (AttachSubscriberData k sid port w = (r5, w5) \<longrightarrow>
      reg_steps \<lparr>rsWorld = w, rsOwners = ow\<rparr> \<lparr>rsWorld = w5, rsOwners = ow\<rparr>) \<and>
    (AttachPublisherData sched sid rid k w = (r6, w6) \<longrightarrow>
      reg_steps \<lparr>rsWorld = w, rsOwners = ow\<rparr> \<lparr>rsWorld = w6, rsOwners = ow\<rparr>)"
  using Register_steps unregister_steps Kill_steps reg_steps_other [OF Subscribe_registry]
    reg_steps_other [OF AttachSubscriberData_registry] reg_steps_other [OF AttachPublisherData_registry]
  by (intro conjI impI; (elim conjE)?) blast+

lemma handlers_are_steps_witness:
  "\<exists>w'. Register sample_crypto (Inr (replicate 32 1)) 1 sample_hello sample_relay = (Inr 1, w') \<and>
     reg_steps \<lparr>rsWorld = sample_relay, rsOwners = []\<rparr> \<lparr>rsWorld = w', rsOwners = [(hSessionID sample_hello, 1)]\<rparr>"
proof -
  obtain w' where w': "Register sample_crypto (Inr (replicate 32 1)) 1 sample_hello sample_relay = (Inr 1, w')"
    using sample_register_runs by blast
  then show ?thesis
    using handlers_are_steps [of sample_crypto "Inr (replicate 32 1)" 1 sample_hello sample_relay "Inr 1" w' "[]"] by auto
qed

section \<open>Kill\<close>

text \<open>
  C8: A kill ends one session for good. If it succeeds, the tag named exactly one session; the
  session's publisher, every subscriber's control connection and every waiting data connection
  are closed, the session admits nobody any more, the count returned is that of its
  subscribers, and after any further steps of any handlers a registration of that identifier
  is still refused.
\<close>

theorem kill_ends_session:
  assumes "Kill tag w = (Inr n, w')"
  shows "\<exists>sid ref. tagged tag w = [(sid, ref)] \<and> sessionFor sid w' = None \<and>
    sClosed (wSess w' ref) \<and> shut (wNet w' (sPublisher (wSess w ref))) \<and>
    (\<not> sClosed (wSess w ref) \<longrightarrow>
       n = gm_len (sSubscribers (wSess w ref)) \<and>
       (\<forall>sub \<in> set (gm_vals (sSubscribers (wSess w ref))). shut (wNet w' (scControl sub))) \<and>
       (\<forall>req \<in> set (gm_vals (sPending (wSess w ref))). shut (wNet w' (prConn req)))) \<and>
    (\<forall>ow s (cr :: ('sk, 'pk) crypto) drawn k h. reg_steps \<lparr>rsWorld = w', rsOwners = ow\<rparr> s \<and> hSessionID h = sid \<longrightarrow>
       (\<exists>e. fst (Register cr drawn k h (rsWorld s)) = Inl e))"
proof -
  obtain q w1 where q: "kill_pick tag w = (q, w1)" by (metis prod.exhaust)
  obtain sid ref where q': "q = Inr (sid, ref)"
    using assms q by (cases q) (auto simp: Kill_def)
  note picked = kill_pick_Inr [OF q [unfolded q']]
  obtain w2 where d: "session_shutdown ref (tls_close (sPublisher (wSess w1 ref)) w1) = (n, w2)" and w': "w' = w2"
    using assms q q' by (auto simp: Kill_def split: prod.split_asm)
  let ?w1' = "tls_close (sPublisher (wSess w1 ref)) w1"
  have sess: "wSess w1 = wSess w" "wSess ?w1' = wSess w" using picked by simp_all
  note reg = session_shutdown_registry [OF d] and cl = session_shutdown_closes [OF d]
  have closed: "sClosed (wSess w2 ref)"
    using reg by (auto simp: beginShutdown_def)
  have pub: "shut (wNet w2 (sPublisher (wSess w ref)))"
    using cl sess by (auto simp: only_closes_def)
  have killed: "gm_has (wKilled w2) sid" "gm_get (wSessions w2) sid = None"
    using reg picked tls_close_registry(1) [of w1 "sPublisher (wSess w1 ref)"]
    by (simp_all add: same_registry_def gomap_simps)
  have all: "n = gm_len (sSubscribers (wSess w ref)) \<and>
       (\<forall>sub \<in> set (gm_vals (sSubscribers (wSess w ref))). shut (wNet w2 (scControl sub))) \<and>
       (\<forall>req \<in> set (gm_vals (sPending (wSess w ref))). shut (wNet w2 (prConn req)))"
    if "\<not> sClosed (wSess w ref)"
    using cl sess that by (simp add: beginShutdown_def gm_vals_def gm_len_def)
  have never: "\<exists>e. fst (Register cr drawn k h (rsWorld s)) = Inl e"
    if "reg_steps \<lparr>rsWorld = w2, rsOwners = ow\<rparr> s" "hSessionID h = sid"
    for ow s h k and drawn :: "byte list result" and cr :: "('sk, 'pk) crypto"
  proof -
    have "gm_has (wKilled (rsWorld s)) sid" using killed_steps [OF that(1)] killed(1) by simp
    then show ?thesis
      using Register_refused [of h "rsWorld s" cr drawn k] that(2) by (metis eq_fst_iff)
  qed
  show ?thesis
    using picked closed pub killed all never w' by (intro exI [of _ sid] exI [of _ ref]) (auto simp: sessionFor_def)
qed

lemma kill_ends_session_witness:
  "\<exists>n w'. Kill (LogTag sample_sid) sample_relay = (Inr n, w') \<and> n = 1 \<and> shut (wNet w' 10) \<and>
     (\<exists>e. fst (Register sample_crypto (Inr []) 10 sample_sub_hello w') = Inl e)"
proof -
  have "\<exists>n w'. Kill (LogTag sample_sid) sample_relay = (Inr n, w')"
    by (simp add: Kill_def kill_pick_cases sample_tagged split: prod.split)
  then obtain n w' where k: "Kill (LogTag sample_sid) sample_relay = (Inr n, w')" by blast
  obtain sid ref where e: "tagged (LogTag sample_sid) sample_relay = [(sid, ref)]"
    and pub: "shut (wNet w' (sPublisher (wSess sample_relay ref)))"
    and cnt: "\<not> sClosed (wSess sample_relay ref) \<Longrightarrow> n = gm_len (sSubscribers (wSess sample_relay ref))"
    and never: "\<And>ow s h k. reg_steps \<lparr>rsWorld = w', rsOwners = ow\<rparr> s \<Longrightarrow> hSessionID h = sid \<Longrightarrow>
      \<exists>e. fst (Register sample_crypto (Inr []) k h (rsWorld s)) = Inl e"
    using kill_ends_session [OF k, where 'sk = byte and 'pk = byte] by blast
  have sid: "sid = sample_sid" "ref = 0" using e sample_tagged by simp_all
  have "wSess sample_relay 0 = sample_waiting" by (simp add: sample_relay_def)
  moreover have "sPublisher sample_waiting = 10" "\<not> sClosed sample_waiting" "gm_len (sSubscribers sample_waiting) = 1"
    by (simp_all add: sample_waiting_def sample_joined_def sample_session_def newSession_def gm_len_def)
  moreover have "\<exists>e. fst (Register sample_crypto (Inr []) 10 sample_sub_hello w') = Inl e"
    using never [OF reg_steps.refl, where h = sample_sub_hello and k = 10] sid by (simp add: sample_sub_hello_def)
  ultimately show ?thesis using k pub cnt sid by auto
qed

text \<open>
  A kill that does not name exactly one session changes nothing: not the registry, not a
  session, not a connection.
\<close>

theorem kill_refusal_harmless:
  assumes "Kill tag w = (Inl e, w')"
  shows "w' = w \<and> length (filter (\<lambda>s. LogTag (fst s) = tag) (wSessions w)) \<noteq> 1"
proof -
  obtain q w1 where q: "kill_pick tag w = (q, w1)" by (metis prod.exhaust)
  then obtain x where "q = Inl x" using assms by (cases q) (auto simp: Kill_def split: prod.split_asm)
  with q assms kill_pick_Inl [of tag w x w1] show ?thesis by (auto simp: Kill_def tagged_def)
qed

lemma kill_refusal_harmless_witness:
  "Kill ''nosuch'' sample_relay = (Inl (Wrap [] (Sentinel RelayNoSuchSession) '': nosuch''), sample_relay) \<and>
   length (filter (\<lambda>s. LogTag (fst s) = ''nosuch'') (wSessions sample_relay)) \<noteq> 1"
proof -
  have "length (LogTag sample_sid) = 12" by (simp add: LogTag_def sample_sid_def go_consts)
  then have "LogTag sample_sid \<noteq> ''nosuch''" by auto
  then have "tagged ''nosuch'' sample_relay = []" by (simp add: tagged_def sample_relay_def)
  then have k: "Kill ''nosuch'' sample_relay =
      (Inl (Wrap [] (Sentinel RelayNoSuchSession) '': nosuch''), sample_relay)"
    by (simp add: Kill_def kill_pick_cases)
  show ?thesis using k kill_refusal_harmless [OF k] by simp
qed

section \<open>Subscribers\<close>

lemma on_sess_at:
  "on_sess ref f w = (r, w') \<Longrightarrow>
   f (wSess w ref) = (r, wSess w' ref) \<and> (\<forall>i. i \<noteq> ref \<longrightarrow> wSess w' i = wSess w i) \<and> wNet w' = wNet w"
  by (auto simp: on_sess_def split: prod.splits)

lemma Subscribe_Inr:
  assumes "Subscribe k h w = (Inr (sub, ref), w')"
  obtains u w1 where "sessionFor (hSessionID h) w = Some ref" "sMode (wSess w ref) = hMode h"
    "sPorts (wSess w ref) = hPorts h"
    "on_sess ref (addSubscriber k (wNet w k) (wNow w)) w = (Some sub, w1)"
    "on_net k (WriteAck AckOK) w1 = (Inr u, w')"
proof -
  obtain ref' where r: "sessionFor (hSessionID h) w = Some ref'"
    using assms by (cases "sessionFor (hSessionID h) w") (auto simp: Subscribe_def)
  then have m: "sMode (wSess w ref') = hMode h" "sPorts (wSess w ref') = hPorts h"
    using assms by (auto simp: Subscribe_def split: if_split_asm)
  obtain q w1 where q: "on_sess ref' (addSubscriber k (wNet w k) (wNow w)) w = (q, w1)"
    by (metis prod.exhaust)
  obtain sub' where q': "q = Some sub'" using assms r m q by (cases q) (auto simp: Subscribe_def)
  obtain a w2 where a: "on_net k (WriteAck AckOK) w1 = (a, w2)" by (metis prod.exhaust)
  from assms r m q q' a obtain u where "a = Inr u" "w2 = w'" "sub' = sub" "ref' = ref"
    by (cases a) (auto simp: Subscribe_def)
  with that r m q q' a show ?thesis by blast
qed

text \<open>
  A subscriber is attached to the session it named, and only if the session agrees. After
  a successful \<open>Subscribe\<close> the session is the registered one of that identifier, has the
  subscriber's mode and port count and is open; the subscriber is on its list under the
  returned number with its control connection and its certificate, and has been sent a
  positive ack and nothing else.
\<close>

theorem subscribe_attaches:
  assumes "Subscribe k h w = (Inr (sub, ref), w')"
  shows "sessionFor (hSessionID h) w = Some ref \<and> sMode (wSess w ref) = hMode h \<and>
    sPorts (wSess w ref) = hPorts h \<and> \<not> sClosed (wSess w ref) \<and>
    gm_len (sSubscribers (wSess w ref)) < maxSessionPeers \<and>
    outb (wNet w' k) = outb (wNet w k) @ [AckOK] \<and>
    (\<exists>sc ct. peerLeafCert (wNet w k) = Inr ct \<and>
       gm_get (sSubscribers (wSess w' ref)) sub = Some sc \<and> scControl sc = k \<and> scCertKey sc = cRaw ct)"
  using assms
proof (rule Subscribe_Inr)
  fix u w1
  assume s: "sessionFor (hSessionID h) w = Some ref" "sMode (wSess w ref) = hMode h"
      "sPorts (wSess w ref) = hPorts h"
    and q: "on_sess ref (addSubscriber k (wNet w k) (wNow w)) w = (Some sub, w1)"
    and a: "on_net k (WriteAck AckOK) w1 = (Inr u, w')"
  have add: "addSubscriber k (wNet w k) (wNow w) (wSess w ref) = (Some sub, wSess w1 ref)"
    and net: "wNet w1 = wNet w" using on_sess_at [OF q] by simp_all
  have "outb (wNet w' k) = outb (wNet w k) @ [AckOK]"
    using on_net_at [OF a] WriteAck_Inr net by auto
  moreover have "wSess w' = wSess w1" using on_net_registry [OF a] by simp
  ultimately show ?thesis
    using addSubscriber_Some [OF add] s by (auto simp: gomap_simps)
qed

lemma subscribe_attaches_witness:
  "\<exists>sub w'. Subscribe 30 sample_sub_hello sample_relay = (Inr (sub, 0), w') \<and>
     outb (wNet w' 30) = [AckOK]"
proof -
  have "\<exists>sub w'. Subscribe 30 sample_sub_hello sample_relay = (Inr (sub, 0), w')"
    by (simp add: Subscribe_def sessionFor_def gm_get_def on_sess_def on_net_def addSubscriber_def
        peerLeafCert_def WriteAck_def write_msg_ok gm_len_def maxSessionPeers_def Let_def sample_defs)
  then obtain sub w' where s: "Subscribe 30 sample_sub_hello sample_relay = (Inr (sub, 0), w')" by blast
  have "outb (wNet sample_relay 30) = []" by (simp add: sample_relay_def sample_net_def sample_tls_def)
  with subscribe_attaches [OF s] s show ?thesis by auto
qed

text \<open>A refused or failed subscription leaves the session's lists as they were.\<close>

lemma certs_exact_unique:
  "certs_exact subs certs \<Longrightarrow> certs_exact subs certs' \<Longrightarrow> gm_get certs k = gm_get certs' k"
  by (simp add: certs_exact_def)

lemma add_remove_subscriber:
  assumes "addSubscriber k c now s = (Some sub, s1)" and "sess_inv s" and "sNextSubID s \<noteq> - 1"
  shows "sSubscribers (removeSubscriber sub s1) = sSubscribers s \<and>
    (\<forall>key. gm_get (sSubscriberCerts (removeSubscriber sub s1)) key = gm_get (sSubscriberCerts s) key) \<and>
    sPending (removeSubscriber sub s1) = sPending s"
proof -
  have "gm_get (sSubscribers s) sub = None"
    using addSubscriber_Some [OF assms(1)] assms(2) ids_below_fresh by (auto simp: sess_inv_def)
  then have subs: "sSubscribers (removeSubscriber sub s1) = sSubscribers s \<and> sPending (removeSubscriber sub s1) = sPending s"
    using addSubscriber_Some [OF assms(1)] assms(2)
    by (auto simp: removeSubscriber_def sess_inv_def Let_def gomap_simps)
  have "sess_inv (removeSubscriber sub s1)"
    using addSubscriber_inv [OF assms] removeSubscriber_inv by blast
  then show ?thesis
    using subs assms(2) certs_exact_unique by (auto simp: sess_inv_def)
qed

text \<open>
  A subscriber that is turned away leaves nothing behind: whatever the reason, a wrong
  mode, a wrong port count, a full or closed session or a failed ack, every session keeps its
  subscribers, its per-certificate counts and its waiting connections.
\<close>

theorem subscribe_refusal_harmless:
  assumes "Subscribe k h w = (Inl e, w')"
    and "\<And>ref. sessionFor (hSessionID h) w = Some ref \<Longrightarrow>
      sess_inv (wSess w ref) \<and> sNextSubID (wSess w ref) \<noteq> - 1"
  shows "sSubscribers (wSess w' i) = sSubscribers (wSess w i) \<and>
    gm_get (sSubscriberCerts (wSess w' i)) key = gm_get (sSubscriberCerts (wSess w i)) key \<and>
    sPending (wSess w' i) = sPending (wSess w i)"
proof (cases "sessionFor (hSessionID h) w")
  case None
  with assms(1) show ?thesis by (auto simp: Subscribe_def)
next
  case (Some ref)
  obtain q w1 where q: "on_sess ref (addSubscriber k (wNet w k) (wNow w)) w = (q, w1)"
    by (metis prod.exhaust)
  have add: "addSubscriber k (wNet w k) (wNow w) (wSess w ref) = (q, wSess w1 ref)"
    and other: "i \<noteq> ref \<Longrightarrow> wSess w1 i = wSess w i" for i
    using on_sess_at [OF q] by simp_all
  show ?thesis
  proof (cases q)
    case None
    then have "wSess w1 ref = wSess w ref" using add addSubscriber_None by blast
    then have "wSess w1 i = wSess w i" using other [of i] by (cases "i = ref") simp_all
    with assms(1) Some q None show ?thesis by (auto simp: Subscribe_def split: if_split_asm)
  next
    case q': (Some sub)
    obtain a w2 where a: "on_net k (WriteAck AckOK) w1 = (a, w2)" by (metis prod.exhaust)
    have s2: "wSess w2 = wSess w1" using on_net_registry [OF a] by simp
    have "wSess w' = wSess w \<or> wSess w' = (wSess w1)(ref := removeSubscriber sub (wSess w1 ref))"
      using assms(1) Some q q' a s2
      by (auto simp: Subscribe_def release_def do_sess_def split: if_split_asm sum.split_asm)
    then show ?thesis
      using add_remove_subscriber [OF add [unfolded q']] assms(2) [OF Some] other [of i]
      by (cases "i = ref") auto
  qed
qed

lemma subscribe_refusal_harmless_witness:
  "\<exists>e w'. Subscribe 30 (sample_sub_hello\<lparr>hPorts := 9\<rparr>) sample_relay = (Inl e, w') \<and>
     sSubscribers (wSess w' 0) = sSubscribers (wSess sample_relay 0)"
proof -
  have "\<exists>e w'. Subscribe 30 (sample_sub_hello\<lparr>hPorts := 9\<rparr>) sample_relay = (Inl e, w')"
    by (simp add: Subscribe_def sessionFor_def gm_get_def sample_defs)
  then obtain e w' where s: "Subscribe 30 (sample_sub_hello\<lparr>hPorts := 9\<rparr>) sample_relay = (Inl e, w')" by blast
  have "wSess sample_relay ref = sample_waiting" for ref by (simp add: sample_relay_def)
  with subscribe_refusal_harmless [OF s, of 0] sample_waiting_inv s show ?thesis by auto
qed

section \<open>Data connections\<close>

lemma AttachSubscriberData_None:
  assumes "AttachSubscriberData k sid port w = (None, w')"
  obtains ref rid u u' w1 w2 where "sessionFor sid w = Some ref" "sMode (wSess w ref) = ModeTCP"
    "port < sPorts (wSess w ref)"
    "on_sess ref (addPending k (Some (wNet w k)) port (wNow w)) w = (Some rid, w1)"
    "on_net k (WriteAck AckOK) w1 = (Inr u, w2)"
    "on_net (sPublisher (wSess w2 ref)) (WriteRequestData rid port) w2 = (Inr u', w')"
proof -
  obtain ref where r: "sessionFor sid w = Some ref"
    using assms by (cases "sessionFor sid w") (auto simp: AttachSubscriberData_def)
  then have m: "sMode (wSess w ref) = ModeTCP" "\<not> port \<ge> sPorts (wSess w ref)"
    using assms by (auto simp: AttachSubscriberData_def split: if_split_asm)
  obtain q w1 where q: "on_sess ref (addPending k (Some (wNet w k)) port (wNow w)) w = (q, w1)"
    by (metis prod.exhaust)
  obtain rid where q': "q = Some rid" using assms r m q by (cases q) (auto simp: AttachSubscriberData_def)
  obtain a w2 where a: "on_net k (WriteAck AckOK) w1 = (a, w2)" by (metis prod.exhaust)
  obtain u where a': "a = Inr u" using assms r m q q' a by (cases a) (auto simp: AttachSubscriberData_def)
  obtain b w3 where b: "on_net (sPublisher (wSess w2 ref)) (WriteRequestData rid port) w2 = (b, w3)"
    by (metis prod.exhaust)
  from assms r m q q' a a' b obtain u' where "b = Inr u'" "w3 = w'"
    by (cases b) (auto simp: AttachSubscriberData_def)
  with that r m q q' a a' b show ?thesis by (metis not_le)
qed

text \<open>
  A waiting data connection is one the publisher has been asked about. When
  \<open>AttachSubscriberData\<close> succeeds, the peer's certificate is that of a registered subscriber of
  an open TCP session, the port is one of the session's, the connection waits under a request
  number with that port, the peer has a positive ack, and the publisher's control connection
  has been sent the request with exactly that number and port.
\<close>

theorem subscriber_data_requested:
  assumes "AttachSubscriberData k sid port w = (None, w')"
  shows "\<exists>ref rid ct. sessionFor sid w = Some ref \<and> sMode (wSess w ref) = ModeTCP \<and>
    port < sPorts (wSess w ref) \<and> \<not> sClosed (wSess w ref) \<and>
    peerLeafCert (wNet w k) = Inr ct \<and> cert_count (sSubscriberCerts (wSess w ref)) (cRaw ct) \<noteq> 0 \<and>
    gm_get (sPending (wSess w' ref)) rid = Some \<lparr>prConn = k, prPort = port, prSince = wNow w\<rparr> \<and>
    (k \<noteq> sPublisher (wSess w ref) \<longrightarrow>
       outb (wNet w' k) = outb (wNet w k) @ [AckOK] \<and>
       outb (wNet w' (sPublisher (wSess w ref))) = outb (wNet w (sPublisher (wSess w ref))) @
         encodeControl ControlRequestData (encodeRequestData (rid, port)))"
  using assms
proof (rule AttachSubscriberData_None)
  fix ref rid u u' w1 w2
  assume s: "sessionFor sid w = Some ref" "sMode (wSess w ref) = ModeTCP" "port < sPorts (wSess w ref)"
    and q: "on_sess ref (addPending k (Some (wNet w k)) port (wNow w)) w = (Some rid, w1)"
    and a: "on_net k (WriteAck AckOK) w1 = (Inr u, w2)"
    and b: "on_net (sPublisher (wSess w2 ref)) (WriteRequestData rid port) w2 = (Inr u', w')"
  have add: "addPending k (Some (wNet w k)) port (wNow w) (wSess w ref) = (Some rid, wSess w1 ref)"
    and net: "wNet w1 = wNet w" using on_sess_at [OF q] by simp_all
  obtain ct where ok: "peerLeafCert (wNet w k) = Inr ct" "\<not> sClosed (wSess w ref)"
    "cert_count (sSubscriberCerts (wSess w ref)) (cRaw ct) \<noteq> 0"
    "wSess w1 ref = (wSess w ref)\<lparr>sNextReqID := rid + 1,
      sPending := gm_set rid \<lparr>prConn = k, prPort = port, prSince = wNow w\<rparr> (sPending (wSess w ref))\<rparr>"
    using addPending_Some [OF add] by auto
  have sess: "wSess w2 = wSess w1" "wSess w' = wSess w1"
    using on_net_registry [OF a] on_net_registry [OF b] by simp_all
  let ?p = "sPublisher (wSess w ref)"
  have p: "sPublisher (wSess w2 ref) = ?p" using sess ok(4) by simp
  have ack: "outb (wNet w2 k) = outb (wNet w k) @ [AckOK]" "i \<noteq> k \<Longrightarrow> wNet w2 i = wNet w i" for i
    using on_net_at [OF a] WriteAck_Inr net by auto
  have wr: "WriteControlFrame ControlRequestData (encodeRequestData (rid, port)) (wNet w2 ?p) = (Inr u', wNet w' ?p)"
    and rest: "i \<noteq> ?p \<Longrightarrow> wNet w' i = wNet w2 i" for i
    using on_net_at [OF b] p by (simp_all add: WriteRequestData_def)
  have "outb (wNet w' ?p) = outb (wNet w2 ?p) @ encodeControl ControlRequestData (encodeRequestData (rid, port))"
    using WriteControlFrame_Inr [OF wr] by simp
  with rest have "k \<noteq> ?p \<longrightarrow> outb (wNet w' k) = outb (wNet w k) @ [AckOK] \<and>
      outb (wNet w' ?p) = outb (wNet w ?p) @ encodeControl ControlRequestData (encodeRequestData (rid, port))"
    using ack by auto
  with s ok sess show ?thesis
    by (intro exI [of _ ref] exI [of _ rid] exI [of _ ct]) (simp add: gomap_simps)
qed

lemma subscriber_data_requested_witness:
  "\<exists>w' ref rid. AttachSubscriberData 22 sample_sid 1 sample_relay = (None, w') \<and>
     sessionFor sample_sid sample_relay = Some ref \<and>
     gm_get (sPending (wSess w' ref)) rid = Some \<lparr>prConn = 22, prPort = 1, prSince = 7\<rparr>"
proof -
  have "\<exists>w'. AttachSubscriberData 22 sample_sid 1 sample_relay = (None, w')"
    by (simp add: AttachSubscriberData_def sessionFor_def gm_get_def on_sess_def on_net_def addPending_def
        cert_count_def peerLeafCert_def WriteAck_def WriteRequestData_def WriteControlFrame_def write_msg_ok
        gm_len_def maxSessionPeers_def Let_def sample_defs go_consts sample_sub_def word_le_nat_alt)
  then obtain w' where s: "AttachSubscriberData 22 sample_sid 1 sample_relay = (None, w')" by blast
  have "wNow sample_relay = 7" by (simp add: sample_relay_def)
  with subscriber_data_requested [OF s] s show ?thesis by auto
qed

text \<open>A pairing that runs: the request was waiting, and what the splice starts from.\<close>

lemma AttachPublisherData_done:
  assumes "AttachPublisherData sched sid rid k w = (None, w')" and "sessionFor sid w = Some ref"
  obtains req w2 where "gm_get (sPending (wSess w ref)) rid = Some req" and "wNet w2 = wNet w"
    and "sPending (wSess w2 ref) = gm_del rid (sPending (wSess w ref))"
    and "w' = do_sess ref (removeStream rid) (splice_conns sched (prConn req) k w2)"
proof -
  obtain ct where ct: "peerLeafCert (wNet w k) = Inr ct" "cert_equal ct (sPublisherCert (wSess w ref))"
    using assms by (auto simp: AttachPublisherData_def split: sum.split_asm if_split_asm)
  obtain q w1 where q: "on_sess ref (claimPending rid) w = (q, w1)" by (metis prod.exhaust)
  obtain c port where q': "q = Some (c, port)"
    using assms ct q by (cases q) (auto simp: AttachPublisherData_def)
  obtain req where req: "gm_get (sPending (wSess w ref)) rid = Some req" "c = prConn req"
    "wSess w1 ref = (wSess w ref)\<lparr>sPending := gm_del rid (sPending (wSess w ref))\<rparr>"
    using claimPending_Some on_sess_at [OF q] q' by blast
  let ?str = "\<lparr>stPort = port, stStarted = wNow w1, stIntoSub = 0, stIntoPub = 0\<rparr>"
  obtain a w2 where a: "on_sess ref (addStream rid ?str) w1 = (a, w2)" by (metis prod.exhaust)
  have a': "a" using assms ct q q' a by (cases a) (auto simp: AttachPublisherData_def)
  have w': "w' = do_sess ref (removeStream rid) (splice_conns sched c k w2)"
    using assms ct q q' a a' by (simp add: AttachPublisherData_def)
  have net: "wNet w2 = wNet w" using on_sess_at [OF q] on_sess_at [OF a] by simp
  have add: "addStream rid ?str (wSess w1 ref) = (True, wSess w2 ref)"
    using on_sess_at [OF a] a' by simp
  have "sPending (snd (addStream rid ?str (wSess w1 ref))) = gm_del rid (sPending (wSess w ref))"
    by (simp add: addStream_def req(3))
  then have pend: "sPending (wSess w2 ref) = gm_del rid (sPending (wSess w ref))"
    by (simp add: add)
  show thesis using that [OF req(1) net pend] w' req(2) by simp
qed

text \<open>
  C6: Only the session's publisher completes a stream, and what it carries is passed on
  unchanged. A data connection whose certificate is not the registered publisher's is refused
  with nothing touched, so knowing the identifier and guessing request numbers gains nothing.
  When a pairing runs, the request was waiting and waits no more, both connections end closed,
  and each has been written a prefix of what the other delivered.
\<close>

theorem publisher_data_paired:
  assumes "AttachPublisherData sched sid rid k w = (r, w')" and "sessionFor sid w = Some ref"
    and "\<And>req. gm_get (sPending (wSess w ref)) rid = Some req \<Longrightarrow> prConn req \<noteq> k"
  shows "((\<nexists>ct. peerLeafCert (wNet w k) = Inr ct \<and> cert_equal ct (sPublisherCert (wSess w ref))) \<longrightarrow>
      w' = w \<and> r \<noteq> None) \<and>
    (r = None \<longrightarrow>
      (\<exists>req n m. gm_get (sPending (wSess w ref)) rid = Some req \<and>
         gm_get (sPending (wSess w' ref)) rid = None \<and>
         gm_get (sStreams (wSess w' ref)) rid = None \<and>
         shut (wNet w' k) \<and> shut (wNet w' (prConn req)) \<and>
         outb (wNet w' (prConn req)) = outb (wNet w (prConn req)) @ take n (inb (wNet w k)) \<and>
         outb (wNet w' k) = outb (wNet w k) @ take m (inb (wNet w (prConn req)))))"
proof (intro conjI impI)
  assume no: "\<nexists>ct. peerLeafCert (wNet w k) = Inr ct \<and> cert_equal ct (sPublisherCert (wSess w ref))"
  then show "w' = w" "r \<noteq> None"
    using assms(1,2) by (auto simp: AttachPublisherData_def split: sum.split_asm if_split_asm)
next
  assume "r = None"
  then obtain req w2 where req: "gm_get (sPending (wSess w ref)) rid = Some req" and net: "wNet w2 = wNet w"
    and pend: "sPending (wSess w2 ref) = gm_del rid (sPending (wSess w ref))"
    and w': "w' = do_sess ref (removeStream rid) (splice_conns sched (prConn req) k w2)"
    using AttachPublisherData_done assms(1,2) by blast
  let ?c = "prConn req"
  obtain nA nB ctr sa sb where sp: "SpliceCounted sched (wNet w2 ?c) (wNet w2 k) (0, 0) = ((nA, nB), ctr, sa, sb)"
    by (metis prod.exhaust)
  let ?w3 = "splice_conns sched ?c k w2"
  have ck: "?c \<noteq> k" using assms(3) [OF req] by simp
  have w3: "wNet ?w3 k = conn_close sb" "wNet ?w3 ?c = conn_close sa" "wSess ?w3 = wSess w2"
    using sp ck by (simp_all add: splice_conns_def tls_close_net)
  have fwd: "outb sa = outb (wNet w ?c) @ take nA (inb (wNet w k))"
    "outb sb = outb (wNet w k) @ take nB (inb (wNet w ?c))"
    using splice_final_inv [of "wNet w2 ?c" "wNet w2 k" sched "Some (0, 0)"] sp net
    by (auto simp: SpliceCounted_def Let_def splice_inv_def)
  have sess': "wSess w' ref = removeStream rid (wSess w2 ref)" "wNet w' = wNet ?w3"
    using w' w3(3) by (simp_all add: do_sess_def)
  show "\<exists>req n m. gm_get (sPending (wSess w ref)) rid = Some req \<and>
         gm_get (sPending (wSess w' ref)) rid = None \<and>
         gm_get (sStreams (wSess w' ref)) rid = None \<and>
         shut (wNet w' k) \<and> shut (wNet w' (prConn req)) \<and>
         outb (wNet w' (prConn req)) = outb (wNet w (prConn req)) @ take n (inb (wNet w k)) \<and>
         outb (wNet w' k) = outb (wNet w k) @ take m (inb (wNet w (prConn req)))"
    using req sess' pend w3 fwd
    by (intro exI [of _ req] exI [of _ nA] exI [of _ nB])
      (simp add: removeStream_def gomap_simps conn_close_def)
qed

lemma publisher_data_paired_witness:
  "\<exists>w' n m. AttachPublisherData [] sample_sid 0 11 sample_relay = (None, w') \<and>
     outb (wNet w' 21) = take n [104, 105] \<and> outb (wNet w' 11) = take m [7]"
proof -
  have for0: "sessionFor sample_sid sample_relay = Some 0"
    by (simp add: sessionFor_def gm_get_def sample_relay_def)
  have "\<exists>w'. AttachPublisherData [] sample_sid 0 11 sample_relay = (None, w')"
    by (simp add: AttachPublisherData_def for0)
      (simp add: gm_get_def on_sess_def claimPending_def addStream_def
        peerLeafCert_def cert_equal_def sample_defs)
  then obtain w' where s: "AttachPublisherData [] sample_sid 0 11 sample_relay = (None, w')" by blast
  have p: "gm_get (sPending (wSess sample_relay 0)) 0 = Some \<lparr>prConn = 21, prPort = 1, prSince = 6\<rparr>"
    by (simp add: sample_relay_def sample_waiting_def gm_get_def)
  have n: "outb (wNet sample_relay 21) = []" "outb (wNet sample_relay 11) = []"
    "inb (wNet sample_relay 11) = [104, 105]" "inb (wNet sample_relay 21) = [7]"
    by (simp_all add: sample_relay_def sample_net_def sample_tls_def)
  have "prConn req \<noteq> 11" if "gm_get (sPending (wSess sample_relay 0)) 0 = Some req" for req
    using p that by auto
  with publisher_data_paired [OF s for0] s p n show ?thesis by auto
qed

end
