(* ===== verification/CRL.thy ===== *)
theory CRL
  imports Revocation
begin

text \<open>
  The serial list an operator copies from the CA to the relay: \<open>writeRevokedSerials\<close>
  (\<^verbatim>\<open>cmd/ggrok/ca.go\<close>) writes it, \<open>ParseRevokedSerials\<close> (\<^verbatim>\<open>internal/ca/ca.go\<close>)
  reads it. The reader under \<open>bufio.Scanner\<close> is its content and the error, if any, that
  follows it; texts are lists of bytes, a character per byte.
\<close>

section \<open>bufio.Scanner\<close>

text \<open>
  The scanner's lines with a trailing carriage return dropped; a line that does not fit its
  64 KiB buffer stops it, which the flag says.
\<close>

definition maxTokenSize :: nat where "maxTokenSize = 64 * 1024"

definition dropCR :: "string \<Rightarrow> string" where
  "dropCR l = (if l \<noteq> [] \<and> last l = CHR 0x0D then butlast l else l)"

function scan_lines :: "string \<Rightarrow> string list \<times> bool" where
  "scan_lines s =
     (if s = [] then ([], False)
      else let l = takeWhile (\<lambda>c. c \<noteq> CHR 0x0A) s; rest = dropWhile (\<lambda>c. c \<noteq> CHR 0x0A) s
           in if length l \<ge> maxTokenSize then ([], True)
              else case scan_lines (drop 1 rest) of (ls, long) \<Rightarrow> (dropCR l # ls, long))"
  by pat_completeness auto
termination
proof (relation "measure length", goal_cases)
  case (2 s l rest)
  then show ?case using length_dropWhile_le [of "\<lambda>c. c \<noteq> CHR 0x0A" s] by (cases s) auto
qed simp

declare scan_lines.simps [simp del]

definition err_too_long :: error where "err_too_long = Msg ''bufio.Scanner: token too long''"

section \<open>strings.TrimSpace\<close>

text \<open>The UTF-8 encodings of Unicode's white space.\<close>

definition space_seqs :: "string list" where
  "space_seqs =
     [[CHR 0x09], [CHR 0x0A], [CHR 0x0B], [CHR 0x0C], [CHR 0x0D], [CHR 0x20],
      [CHR 0xC2, CHR 0x85], [CHR 0xC2, CHR 0xA0], [CHR 0xE1, CHR 0x9A, CHR 0x80]] @
     map (\<lambda>k. [CHR 0xE2, CHR 0x80, char_of (k :: nat)])
       [128, 129, 130, 131, 132, 133, 134, 135, 136, 137, 138, 168, 169, 175] @
     [[CHR 0xE2, CHR 0x81, CHR 0x9F], [CHR 0xE3, CHR 0x80, CHR 0x80]]"

fun drop_seq :: "string list \<Rightarrow> string \<Rightarrow> string option" where
  "drop_seq [] s = None"
| "drop_seq (q # qs) s =
     (if q \<noteq> [] \<and> take (length q) s = q then Some (drop (length q) s) else drop_seq qs s)"

lemma drop_seq_shorter: "drop_seq qs s = Some s' \<Longrightarrow> length s' < length s"
proof (induction qs)
  case (Cons q qs)
  show ?case
  proof (cases "q \<noteq> [] \<and> take (length q) s = q")
    case True
    then have "s \<noteq> []" by auto
    with True Cons.prems show ?thesis by (cases q; cases s) auto
  qed (use Cons in auto)
qed simp

function trim_left :: "string list \<Rightarrow> string \<Rightarrow> string" where
  "trim_left qs s = (case drop_seq qs s of None \<Rightarrow> s | Some s' \<Rightarrow> trim_left qs s')"
  by pat_completeness auto
termination
  by (relation "measure (\<lambda>(qs, s). length s)") (simp_all add: drop_seq_shorter)

declare trim_left.simps [simp del]

definition TrimSpace :: "string \<Rightarrow> string" where
  "TrimSpace s = rev (trim_left (map rev space_seqs) (rev (trim_left space_seqs s)))"

section \<open>ParseRevokedSerials\<close>

definition hex_char_value :: "char \<Rightarrow> nat option" where
  "hex_char_value c =
     (let n = of_char c :: nat
      in if 48 \<le> n \<and> n \<le> 57 then Some (n - 48)
         else if 97 \<le> n \<and> n \<le> 102 then Some (n - 87)
         else if 65 \<le> n \<and> n \<le> 70 then Some (n - 55) else None)"

text \<open>\<open>big.Int.SetString\<close> in base 16 on hexadecimal digits.\<close>

definition hex_value :: "string \<Rightarrow> nat" where
  "hex_value s = foldl (\<lambda>acc c. acc * 16 + the (hex_char_value c)) 0 s"

definition all_hex :: "string \<Rightarrow> bool" where
  "all_hex s \<longleftrightarrow> list_all (\<lambda>c. hex_char_value c \<noteq> None) s"

definition invalid_serial :: "string \<Rightarrow> error" where
  "invalid_serial line = Msg (''invalid revoked serial '' @ go_quote line)"

fun parse_serial_lines :: "string list \<Rightarrow> serials \<Rightarrow> serials result" where
  "parse_serial_lines [] m = Inr m"
| "parse_serial_lines (text # rest) m =
     (let line = TrimSpace text
      in if line = [] then parse_serial_lines rest m
         else if \<not> all_hex line then Inl (invalid_serial line)
         else if hex_value line = 0 then Inl (invalid_serial line)
         else parse_serial_lines rest (gm_set (show_hex (hex_value line)) () m))"

definition ParseRevokedSerials :: "string \<times> error option \<Rightarrow> serials result" where
  "ParseRevokedSerials r =
     (case scan_lines (fst r) of
        (ls, long) \<Rightarrow>
          (case parse_serial_lines ls [] of
             Inl e \<Rightarrow> Inl e
           | Inr m \<Rightarrow>
               if long then Inl (wrap ''scan revoked serials'' err_too_long)
               else (case snd r of
                       None \<Rightarrow> Inr m
                     | Some e \<Rightarrow> Inl (wrap ''scan revoked serials'' e))))"

section \<open>writeRevokedSerials\<close>

text \<open>
  The text written: the keys in byte order, a line each. The temporary file and the rename
  that publishes it are outcomes of the system, the first failure is returned.
\<close>

fun char_lexle :: "string \<Rightarrow> string \<Rightarrow> bool" where
  "char_lexle [] t = True"
| "char_lexle (c # s) [] = False"
| "char_lexle (c # s) (d # t) =
     (if (of_char c :: nat) < of_char d then True
      else if c = d then char_lexle s t else False)"

fun insert_string :: "string \<Rightarrow> string list \<Rightarrow> string list" where
  "insert_string x [] = [x]"
| "insert_string x (y # ys) = (if char_lexle x y then x # y # ys else y # insert_string x ys)"

definition sorted_keys :: "(string, 'v) gomap \<Rightarrow> string list" where
  "sorted_keys m = foldr insert_string (gm_keys m) []"

definition serials_text :: "serials \<Rightarrow> string" where
  "serials_text m = concat (map (\<lambda>s. s @ [CHR 0x0A]) (sorted_keys m))"

record crl_outcomes =
  createTempErr :: "error option"
  writeStringErr :: "error option"
  syncErr :: "error option"
  closeErr :: "error option"
  renameErr :: "error option"

text \<open>The destination's content before and after.\<close>

definition writeRevokedSerials ::
  "crl_outcomes \<Rightarrow> serials \<Rightarrow> string option \<Rightarrow> error option \<times> string option" where
  "writeRevokedSerials os m dest =
     (case createTempErr os of Some e \<Rightarrow> (Some e, dest) | None \<Rightarrow>
      (case writeStringErr os of Some e \<Rightarrow> (Some e, dest) | None \<Rightarrow>
       (case syncErr os of Some e \<Rightarrow> (Some e, dest) | None \<Rightarrow>
        (case closeErr os of Some e \<Rightarrow> (Some e, dest) | None \<Rightarrow>
         (case renameErr os of Some e \<Rightarrow> (Some e, dest)
          | None \<Rightarrow> (None, Some (serials_text m)))))))"

section \<open>Texts of serials\<close>

lemma hex_char_value_digit [simp]: "n < 16 \<Longrightarrow> hex_char_value (hex_digit n) = Some n"
  by (simp add: hex_char_value_def Let_def of_char_hex_digit)

lemma hex_value_snoc [simp]: "hex_value (s @ [c]) = hex_value s * 16 + the (hex_char_value c)"
  by (simp add: hex_value_def)

lemma hex_value_show_hex [simp]: "hex_value (show_hex n) = n"
proof (induction n rule: show_hex.induct)
  case (1 n)
  then show ?case by (subst show_hex.simps) (auto simp: hex_value_def)
qed

lemma all_hex_show_hex [simp]: "all_hex (show_hex n)"
proof (induction n rule: show_hex.induct)
  case (1 n)
  then show ?case by (subst show_hex.simps) (auto simp: all_hex_def)
qed

text \<open>Characters that no white space begins or ends with: ASCII's graphic ones.\<close>

definition graphic :: "char \<Rightarrow> bool" where
  "graphic c \<longleftrightarrow> 33 \<le> (of_char c :: nat) \<and> (of_char c :: nat) < 128"

lemma graphic_no_space:
  assumes "graphic c" and "q \<in> set space_seqs \<union> set (map rev space_seqs)"
  shows "q \<noteq> [] \<and> hd q \<noteq> c"
proof -
  have "\<forall>q \<in> set space_seqs \<union> set (map rev space_seqs). q \<noteq> [] \<and> \<not> graphic (hd q)"
    by (simp add: space_seqs_def graphic_def)
  with assms show ?thesis by metis
qed

lemma graphic_hex: "hex_char_value c \<noteq> None \<Longrightarrow> graphic c"
  by (auto simp: hex_char_value_def graphic_def Let_def split: if_splits)

lemma drop_seq_None: "\<forall>q \<in> set qs. q \<noteq> [] \<and> hd q \<noteq> c \<Longrightarrow> drop_seq qs (c # s) = None"
proof (induction qs)
  case (Cons q qs)
  then show ?case by (cases q) auto
qed simp

lemma trim_left_graphic:
  assumes "s = [] \<or> graphic (hd s)" and "set qs \<subseteq> set space_seqs \<union> set (map rev space_seqs)"
  shows "trim_left qs s = s"
proof (cases s)
  case Nil
  have "drop_seq qs [] = None" by (induction qs) auto
  then show ?thesis by (simp add: Nil trim_left.simps)
next
  case (Cons c s')
  then have "graphic c" using assms(1) by simp
  then have "drop_seq qs (c # s') = None" using assms(2) graphic_no_space by (intro drop_seq_None) blast
  then show ?thesis by (simp add: Cons trim_left.simps [of _ "c # s'"])
qed

lemma TrimSpace_graphic: "s = [] \<or> graphic (hd s) \<and> graphic (last s) \<Longrightarrow> TrimSpace s = s"
  using trim_left_graphic [of s space_seqs] trim_left_graphic [of "rev s" "map rev space_seqs"]
  by (auto simp: TrimSpace_def hd_rev)

lemma TrimSpace_newline:
  assumes "s \<noteq> []" and "graphic (hd s)" and "graphic (last s)"
  shows "TrimSpace (s @ [CHR 0x0A]) = s"
proof -
  have "trim_left space_seqs (s @ [CHR 0x0A]) = s @ [CHR 0x0A]"
    using assms(1,2) by (intro trim_left_graphic) auto
  moreover have "drop_seq (map rev space_seqs) (CHR 0x0A # rev s) = Some (rev s)"
    by (simp add: space_seqs_def)
  ultimately show ?thesis
    using trim_left_graphic [of "rev s" "map rev space_seqs"] assms(1,3)
    by (simp add: TrimSpace_def hd_rev trim_left.simps [of _ "CHR 0x0A # rev s"])
qed

lemma TrimSpace_hex: "all_hex s \<Longrightarrow> TrimSpace s = s"
  by (rule TrimSpace_graphic) (cases "s = []", auto simp: all_hex_def list_all_iff intro!: graphic_hex)

section \<open>What the parser accepts\<close>

definition lists_serial :: "string list \<Rightarrow> nat \<Rightarrow> bool" where
  "lists_serial ls n \<longleftrightarrow> (\<exists>t \<in> set ls. TrimSpace t \<noteq> [] \<and> all_hex (TrimSpace t) \<and> hex_value (TrimSpace t) = n)"

lemma parse_serial_lines_Inr:
  "parse_serial_lines ls m = Inr m' \<Longrightarrow>
   (gm_wf m \<longrightarrow> gm_wf m') \<and> \<not> lists_serial ls 0 \<and>
   (\<forall>k. gm_has m' k \<longleftrightarrow> gm_has m k \<or> (\<exists>n. k = show_hex n \<and> lists_serial ls n))"
proof (induction ls m rule: parse_serial_lines.induct)
  case (1 m)
  then show ?case by (simp add: lists_serial_def)
next
  case (2 t rest m)
  let ?line = "TrimSpace t"
  have step: "lists_serial (t # rest) n \<longleftrightarrow>
      ?line \<noteq> [] \<and> all_hex ?line \<and> hex_value ?line = n \<or> lists_serial rest n" for n
    by (auto simp: lists_serial_def)
  show ?case
  proof (cases "?line = []")
    case True
    with 2 step show ?thesis by (simp add: Let_def)
  next
    case False
    then have ok: "all_hex ?line" "hex_value ?line \<noteq> 0"
      and p: "parse_serial_lines rest (gm_set (show_hex (hex_value ?line)) () m) = Inr m'"
      using "2.prems" by (auto simp: Let_def split: if_splits)
    have "(gm_wf (gm_set (show_hex (hex_value ?line)) () m) \<longrightarrow> gm_wf m') \<and> \<not> lists_serial rest 0 \<and>
       (\<forall>k. gm_has m' k \<longleftrightarrow> gm_has (gm_set (show_hex (hex_value ?line)) () m) k \<or>
         (\<exists>n. k = show_hex n \<and> lists_serial rest n))"
      using "2.IH"(2) [of ?line] False ok p by simp
    with False ok step show ?thesis by (auto simp: gomap_simps)
  qed
qed

section \<open>What the writer writes\<close>

lemma set_insert_string [simp]: "set (insert_string x xs) = insert x (set xs)"
  by (induction xs) auto

lemma set_sorted_keys [simp]: "set (sorted_keys m) = set (gm_keys m)"
proof -
  have "set (foldr insert_string xs []) = set xs" for xs by (induction xs) auto
  then show ?thesis by (simp add: sorted_keys_def)
qed

lemma scan_lines_Nil [simp]: "scan_lines [] = ([], False)"
  by (simp add: scan_lines.simps)

lemma scan_lines_Cons:
  assumes "CHR 0x0A \<notin> set l" and "length l < maxTokenSize"
  shows "scan_lines (l @ CHR 0x0A # rest) =
    (case scan_lines rest of (ls, long) \<Rightarrow> (dropCR l # ls, long))"
proof -
  have ne: "\<forall>c \<in> set l. c \<noteq> CHR 0x0A" using assms(1) by metis
  have "takeWhile (\<lambda>c. c \<noteq> CHR 0x0A) (l @ CHR 0x0A # rest) = l"
    and "dropWhile (\<lambda>c. c \<noteq> CHR 0x0A) (l @ CHR 0x0A # rest) = CHR 0x0A # rest"
    using ne by (simp_all add: takeWhile_append2 dropWhile_append2)
  with assms(2) show ?thesis by (simp add: scan_lines.simps [of "l @ CHR 0x0A # rest"])
qed

lemma all_hex_no_newline: "all_hex l \<Longrightarrow> CHR 0x0A \<notin> set l \<and> dropCR l = l"
proof -
  have no: "hex_char_value (CHR 0x0A) = None" "hex_char_value (CHR 0x0D) = None"
    by (simp_all add: hex_char_value_def)
  assume "all_hex l"
  then have a: "\<forall>c \<in> set l. hex_char_value c \<noteq> None" by (simp add: all_hex_def list_all_iff)
  then have "l \<noteq> [] \<longrightarrow> last l \<noteq> CHR 0x0D" using no(2) last_in_set by metis
  with a no(1) show ?thesis by (auto simp: dropCR_def)
qed

lemma scan_lines_concat:
  "\<forall>l \<in> set ls. all_hex l \<and> length l < maxTokenSize \<Longrightarrow>
   scan_lines (concat (map (\<lambda>s. s @ [CHR 0x0A]) ls)) = (ls, False)"
  by (induction ls) (simp_all add: scan_lines_Cons all_hex_no_newline)

lemma parse_serial_lines_ok:
  "\<forall>l \<in> set ls. all_hex l \<and> l \<noteq> [] \<and> hex_value l \<noteq> 0 \<Longrightarrow> \<exists>m'. parse_serial_lines ls m = Inr m'"
  by (induction ls arbitrary: m) (simp_all add: TrimSpace_hex Let_def)

text \<open>The text of a set of positive serials that fit a line parses to the set.\<close>

lemma serials_text_parses:
  assumes "\<And>k. gm_has m k \<Longrightarrow> \<exists>n > 0. k = show_hex n \<and> length k < maxTokenSize"
  shows "\<exists>m'. ParseRevokedSerials (serials_text m, None) = Inr m' \<and> (\<forall>k. gm_has m' k \<longleftrightarrow> gm_has m k)"
proof -
  have keys: "\<exists>n > 0. k = show_hex n \<and> length k < maxTokenSize" if "k \<in> set (sorted_keys m)" for k
    using assms [of k] that by (simp add: gm_has_def gm_keys_get)
  have ok: "\<forall>l \<in> set (sorted_keys m). all_hex l \<and> length l < maxTokenSize \<and> l \<noteq> [] \<and> hex_value l \<noteq> 0"
  proof
    fix l assume "l \<in> set (sorted_keys m)"
    then obtain n where "n > 0" "l = show_hex n" "length l < maxTokenSize" using keys by blast
    then show "all_hex l \<and> length l < maxTokenSize \<and> l \<noteq> [] \<and> hex_value l \<noteq> 0" by simp
  qed
  then have s: "scan_lines (serials_text m) = (sorted_keys m, False)"
    unfolding serials_text_def by (intro scan_lines_concat) blast
  obtain m' where p: "parse_serial_lines (sorted_keys m) [] = Inr m'"
    using parse_serial_lines_ok ok by blast
  have l: "lists_serial (sorted_keys m) n \<longleftrightarrow> show_hex n \<in> set (sorted_keys m)" for n
  proof
    assume "lists_serial (sorted_keys m) n"
    then obtain t where t: "t \<in> set (sorted_keys m)" "hex_value (TrimSpace t) = n"
      by (auto simp: lists_serial_def)
    with keys obtain i where i: "t = show_hex i" by blast
    with t have "i = n" by (simp add: TrimSpace_hex)
    with t i show "show_hex n \<in> set (sorted_keys m)" by simp
  next
    assume "show_hex n \<in> set (sorted_keys m)"
    then show "lists_serial (sorted_keys m) n"
      unfolding lists_serial_def by (intro bexI [of _ "show_hex n"]) (simp_all add: TrimSpace_hex)
  qed
  have "gm_has m' k \<longleftrightarrow> gm_has m k" for k
  proof -
    have "gm_has m' k \<longleftrightarrow> (\<exists>n. k = show_hex n \<and> k \<in> set (sorted_keys m))"
      using parse_serial_lines_Inr [OF p] l by auto
    also have "\<dots> \<longleftrightarrow> k \<in> set (sorted_keys m)" using keys by blast
    finally show ?thesis by (simp add: gm_has_def gm_keys_get)
  qed
  then show ?thesis using s p by (simp add: ParseRevokedSerials_def)
qed

lemma writeRevokedSerials_result:
  "writeRevokedSerials os m dest = (err, dest') \<Longrightarrow>
   (err \<noteq> None \<and> dest' = dest) \<or> (err = None \<and> dest' = Some (serials_text m))"
  by (auto simp: writeRevokedSerials_def split: option.splits)

section \<open>Properties\<close>

text \<open>
  The list a relay loads revokes exactly what it says. If \<open>ParseRevokedSerials\<close> accepts a
  file, then whatever the case of its digits, leading zeros, blank lines and surrounding white
  space, a revocation set made of the result holds the serial of a certificate if and only if
  some line of the file is that serial number; no accepted file names serial zero.
\<close>

theorem serial_file_revokes_exactly:
  assumes "ParseRevokedSerials r = Inr m"
  shows "gm_wf m \<and> \<not> lists_serial (fst (scan_lines (fst r))) 0 \<and>
    (\<forall>c. rev_Contains (rev_Replace m old) (serial_text c) \<longleftrightarrow>
       lists_serial (fst (scan_lines (fst r))) (cSerial c))"
proof -
  obtain ls long where s: "scan_lines (fst r) = (ls, long)" by (metis prod.exhaust)
  then have p: "parse_serial_lines ls [] = Inr m"
    using assms by (auto simp: ParseRevokedSerials_def split: sum.splits if_splits option.splits)
  have "rev_Contains (rev_Replace m old) x \<longleftrightarrow> gm_has m x" for x
    by (simp add: rev_Contains_Replace gm_keys_get gm_has_def)
  with parse_serial_lines_Inr [OF p] s show ?thesis
    using show_hex_inj by (auto simp: serial_text_def)
qed

lemma serial_file_revokes_exactly_witness:
  "\<exists>m. ParseRevokedSerials (''00aB'' @ [CHR 0x0D, CHR 0x0A, CHR 0x0A] @ ''  ff '', None) = Inr m \<and>
     (\<forall>c. rev_Contains (rev_Replace m rev_zero) (serial_text c) \<longleftrightarrow>
       lists_serial (fst (scan_lines (''00aB'' @ [CHR 0x0D, CHR 0x0A, CHR 0x0A] @ ''  ff ''))) (cSerial c))"
proof -
  have "\<exists>m. ParseRevokedSerials (''00aB'' @ [CHR 0x0D, CHR 0x0A, CHR 0x0A] @ ''  ff '', None) = Inr m"
    by (simp add: ParseRevokedSerials_def scan_lines.simps dropCR_def maxTokenSize_def Let_def
        TrimSpace_def trim_left.simps space_seqs_def all_hex_def hex_char_value_def hex_value_def)
  then show ?thesis using serial_file_revokes_exactly [of _ _ rev_zero] by fastforce
qed

text \<open>
  What the CA exports is what the relay loads. The file \<open>writeRevokedSerials\<close> leaves, for
  any set of serial texts of certificates with positive serials that fit a line, parses to
  the same set; and if any step of writing fails, the destination still holds what it held.
\<close>

theorem exported_list_loads:
  assumes "writeRevokedSerials os m dest = (err, dest')"
    and "\<And>k. gm_has m k \<Longrightarrow> \<exists>n > 0. k = show_hex n \<and> length k < maxTokenSize"
  shows "(err \<noteq> None \<longrightarrow> dest' = dest) \<and>
    (err = None \<longrightarrow> (\<exists>content m'. dest' = Some content \<and>
       ParseRevokedSerials (content, None) = Inr m' \<and> (\<forall>k. gm_has m' k \<longleftrightarrow> gm_has m k)))"
  using writeRevokedSerials_result [OF assms(1)] serials_text_parses [OF assms(2)] by auto

lemma exported_list_loads_witness:
  "\<exists>content m'. snd (writeRevokedSerials \<lparr>createTempErr = None, writeStringErr = None, syncErr = None,
       closeErr = None, renameErr = None\<rparr> [(''ff'', ()), (''1a'', ())] None) = Some content \<and>
     ParseRevokedSerials (content, None) = Inr m' \<and> gm_has m' ''1a''"
proof -
  have "show_hex 255 = ''ff''" "show_hex 26 = ''1a''" by code_simp+
  then have k: "gm_has [(''ff'', ()), (''1a'', ())] k \<Longrightarrow> \<exists>n > 0. k = show_hex n \<and> length k < maxTokenSize" for k
    by (auto simp: gm_has_def gm_get_def maxTokenSize_def split: if_splits intro: exI [of _ 255] exI [of _ 26])
  let ?os = "\<lparr>createTempErr = None, writeStringErr = None, syncErr = None, closeErr = None, renameErr = None\<rparr>"
  have "writeRevokedSerials ?os [(''ff'', ()), (''1a'', ())] None = (None, Some (serials_text [(''ff'', ()), (''1a'', ())]))"
    by (simp add: writeRevokedSerials_def)
  from exported_list_loads [OF this k] show ?thesis
    by (auto simp: writeRevokedSerials_def gm_has_def gm_get_def)
qed

end
