(* ===== verification/Wire_Admin.thy ===== *)
theory Wire_Admin
  imports Wire_Attach Wire_Control
begin

text \<open>
  The frames of an admin connection (\<^verbatim>\<open>internal/proto/admin.go\<close>). The header is that of a
  control frame, the bound on the payload is larger and the payload is JSON: \<open>json.Marshal\<close> and
  \<open>json.Unmarshal\<close> are the parameter \<open>json\<close>, the payload types are datatypes here. Points in
  time are clock readings.
\<close>

section \<open>Frame types\<close>

type_synonym admin_type = byte

definition AdminHello :: admin_type where [go_consts]: "AdminHello = 1"
definition AdminAck :: admin_type where [go_consts]: "AdminAck = 2"
definition AdminList :: admin_type where [go_consts]: "AdminList = 3"
definition AdminSnapshot :: admin_type where [go_consts]: "AdminSnapshot = 4"
definition AdminKick :: admin_type where [go_consts]: "AdminKick = 5"
definition AdminReloadCRL :: admin_type where [go_consts]: "AdminReloadCRL = 6"
definition AdminResult :: admin_type where [go_consts]: "AdminResult = 7"
definition AdminKill :: admin_type where [go_consts]: "AdminKill = 8"

definition adminType_String :: "admin_type \<Rightarrow> string" where
  "adminType_String t =
     (if t = AdminHello then ''hello''
      else if t = AdminAck then ''ack''
      else if t = AdminList then ''list''
      else if t = AdminSnapshot then ''snapshot''
      else if t = AdminKick then ''kick''
      else if t = AdminReloadCRL then ''reload-crl''
      else if t = AdminResult then ''result''
      else if t = AdminKill then ''kill''
      else ''AdminType('' @ show_nat (unat t) @ '')'')"

definition AdminVersion :: int where "AdminVersion = 1"
definition adminHeaderSize :: nat where [go_consts]: "adminHeaderSize = 1 + 4"
definition maxAdminPayload :: nat where [go_consts]: "maxAdminPayload = 2 ^ 20"

section \<open>Payloads\<close>

record admin_hello_payload =
  ahVersion :: int

record admin_ack_payload =
  aaOK :: bool
  aaErr :: string
  aaVersion :: int

record admin_kill_payload =
  akTag :: string

record admin_result_payload =
  arOK :: bool
  arDetail :: string
  arAffected :: nat

record peer_summary =
  psCN :: string
  psSerial :: string
  psAddr :: string
  psSince :: nat

record stream_summary =
  ssReqID :: u64
  ssPort :: u16
  ssStarted :: nat
  ssBytesToSub :: int
  ssBytesToPub :: int

record pending_summary =
  pdReqID :: u64
  pdPort :: u16
  pdSince :: nat
  pdAddress :: string

record session_summary =
  smTag :: string
  smMode :: string
  smPorts :: u16
  smSince :: nat
  smPublisher :: peer_summary
  smSubscribers :: "peer_summary list"
  smStreams :: "stream_summary list"
  smPending :: "pending_summary list"

record snapshot =
  snNow :: nat
  snSessions :: "session_summary list"

text \<open>The values handed to \<open>WriteAdminFrame\<close>; a \<open>nil\<close> payload is \<open>None\<close>.\<close>

datatype admin_payload =
    HelloPayload admin_hello_payload
  | AckPayload admin_ack_payload
  | KillPayload admin_kill_payload
  | ResultPayload admin_result_payload
  | SnapshotPayload snapshot

record json =
  jsonMarshal :: "admin_payload \<Rightarrow> byte list result"
  jsonUnmarshalHello :: "byte list \<Rightarrow> admin_hello_payload \<Rightarrow> admin_hello_payload result"
  jsonUnmarshalKill :: "byte list \<Rightarrow> admin_kill_payload \<Rightarrow> admin_kill_payload result"

section \<open>Frames\<close>

definition encodeAdmin :: "admin_type \<Rightarrow> byte list \<Rightarrow> byte list" where
  "encodeAdmin typ body = [typ] @ put_u32 (of_nat (length body)) @ body"

definition admin_body :: "json \<Rightarrow> admin_payload option \<Rightarrow> byte list result" where
  "admin_body js payload = (case payload of None \<Rightarrow> Inr [] | Some p \<Rightarrow> jsonMarshal js p)"

definition writeAdminFrame ::
  "json \<Rightarrow> admin_type \<Rightarrow> admin_payload option \<Rightarrow> bool \<Rightarrow> 'a conn_scheme \<Rightarrow> unit result \<times> 'a conn_scheme" where
  "writeAdminFrame js typ payload withKind c =
     (case admin_body js payload of
        Inl e \<Rightarrow> (Inl (wrap (''write admin frame: marshal '' @ adminType_String typ) e), c)
      | Inr body \<Rightarrow>
          if length body > maxAdminPayload
          then (Inl (Msg (''write admin frame: '' @ adminType_String typ @ '' payload too large ('' @
                          show_nat (length body) @ '' bytes)'')), c)
          else write_msg ''write admin frame''
                 (if withKind then ConnAdmin # encodeAdmin typ body else encodeAdmin typ body) c)"

definition WriteAdminFrame ::
  "json \<Rightarrow> admin_type \<Rightarrow> admin_payload option \<Rightarrow> 'a conn_scheme \<Rightarrow> unit result \<times> 'a conn_scheme" where
  "WriteAdminFrame js typ payload c = writeAdminFrame js typ payload False c"

definition WriteAdminHello ::
  "json \<Rightarrow> admin_hello_payload \<Rightarrow> 'a conn_scheme \<Rightarrow> unit result \<times> 'a conn_scheme" where
  "WriteAdminHello js payload c = writeAdminFrame js AdminHello (Some (HelloPayload payload)) True c"

definition ReadAdminFrame :: "'a conn_scheme \<Rightarrow> (admin_type \<times> byte list) result \<times> 'a conn_scheme" where
  "ReadAdminFrame c =
     (case read_full adminHeaderSize c of
        (Inl e, c1) \<Rightarrow> (Inl (wrap ''read admin frame'' e), c1)
      | (Inr header, c1) \<Rightarrow>
          (let typ = header ! 0; len = get_u32 (drop 1 header)
           in if unat len > maxAdminPayload
              then (Inl (Msg (''read admin frame: '' @ adminType_String typ @ '' payload too large ('' @
                              show_nat (unat len) @ '' bytes)'')), c1)
              else case read_full (unat len) c1 of
                     (Inl e, c2) \<Rightarrow> (Inl (wrap ''read admin frame'' e), c2)
                   | (Inr body, c2) \<Rightarrow> (Inr (typ, body), c2)))"

definition DecodeAdminPayload :: "(byte list \<Rightarrow> 'p \<Rightarrow> 'p result) \<Rightarrow> byte list \<Rightarrow> 'p \<Rightarrow> 'p result" where
  "DecodeAdminPayload unmarshal body v =
     (if body = [] then Inr v else on_error (wrap ''decode admin payload'') (unmarshal body v))"

section \<open>What a reader of frames can rely on\<close>

text \<open>
  The contract both framings share: a reader gets back exactly what was encoded, and accepts
  nothing that is not an encoding within the limit. Frames on one stream are then told apart
  in one way only, and a reader that keeps reading always advances.
\<close>

locale framing =
  fixes enc :: "byte \<Rightarrow> byte list \<Rightarrow> byte list"
    and rd :: "'a conn_scheme \<Rightarrow> (byte \<times> byte list) result \<times> 'a conn_scheme"
    and limit :: nat
  assumes rd_enc: "length p \<le> limit \<Longrightarrow> \<not> shut c \<Longrightarrow> inb c = enc t p @ rest \<Longrightarrow>
      rd c = (Inr (t, p), c\<lparr>inb := rest\<rparr>)"
    and rd_sound: "rd c = (Inr (t, p), c') \<Longrightarrow> length p \<le> limit \<and> inb c = enc t p @ inb c'"
    and enc_ne: "enc t p \<noteq> []"
begin

lemma rd_iff:
  "\<not> shut c \<Longrightarrow> (\<exists>c'. rd c = (Inr (t, p), c') \<and> inb c' = rest) \<longleftrightarrow>
     length p \<le> limit \<and> inb c = enc t p @ rest"
proof (intro iffI)
  assume "\<exists>c'. rd c = (Inr (t, p), c') \<and> inb c' = rest"
  then show "length p \<le> limit \<and> inb c = enc t p @ rest" using rd_sound by blast
next
  assume "\<not> shut c" and "length p \<le> limit \<and> inb c = enc t p @ rest"
  then have "rd c = (Inr (t, p), c\<lparr>inb := rest\<rparr>)" by (intro rd_enc) simp_all
  then show "\<exists>c'. rd c = (Inr (t, p), c') \<and> inb c' = rest" by simp
qed

lemma rd_advances: "rd c = (Inr (t, p), c') \<Longrightarrow> length (inb c') < length (inb c)"
  using rd_sound [of c t p c'] enc_ne [of t p] by simp

lemma one_parse:
  fixes c :: "'a conn_scheme"
  assumes "enc t p @ xs = enc t' p' @ ys" and "length p \<le> limit" and "length p' \<le> limit"
    and "\<not> shut c"
  shows "t = t' \<and> p = p' \<and> xs = ys"
proof -
  let ?c = "c\<lparr>inb := enc t p @ xs\<rparr>"
  have l: "rd ?c = (Inr (t, p), ?c\<lparr>inb := xs\<rparr>)"
    by (rule rd_enc) (simp_all add: assms(2,4))
  have r: "rd ?c = (Inr (t', p'), ?c\<lparr>inb := ys\<rparr>)"
    by (rule rd_enc) (simp_all add: assms(1,3,4))
  note e = trans [OF l [symmetric] r]
  have "t = t' \<and> p = p'" using arg_cong [OF e, where f = fst] by simp
  moreover have "xs = ys" using arg_cong [OF e, where f = "\<lambda>x. inb (snd x)"] by simp
  ultimately show ?thesis by simp
qed

end

lemma length_encodeAdmin [simp]: "length (encodeAdmin typ body) = adminHeaderSize + length body"
  by (simp add: encodeAdmin_def go_consts)

lemma admin_length_fits:
  "length body \<le> maxAdminPayload \<Longrightarrow> unat (of_nat (length body) :: u32) = length body"
  by (simp add: go_consts unat_of_nat)

lemma ReadAdminFrame_encode:
  assumes "length body \<le> maxAdminPayload" and "\<not> shut c" and "inb c = encodeAdmin typ body @ rest"
  shows "ReadAdminFrame c = (Inr (typ, body), c\<lparr>inb := rest\<rparr>)"
proof -
  have "read_full adminHeaderSize c =
        (Inr (typ # put_u32 (of_nat (length body))), c\<lparr>inb := body @ rest\<rparr>)"
    using assms by (intro read_full_ok) (simp_all add: encodeAdmin_def go_consts)
  moreover have "read_full (length body) (c\<lparr>inb := body @ rest\<rparr>) = (Inr body, c\<lparr>inb := rest\<rparr>)"
    using assms by (subst read_full_ok [where bs = body and rest = rest]) simp_all
  ultimately show ?thesis using assms(1) by (simp add: ReadAdminFrame_def Let_def admin_length_fits)
qed

lemma ReadAdminFrame_sound:
  assumes "ReadAdminFrame c = (Inr (typ, body), c')"
  shows "length body \<le> maxAdminPayload \<and> inb c = encodeAdmin typ body @ inb c'"
proof -
  obtain header c1 where h: "read_full adminHeaderSize c = (Inr header, c1)"
    and ty: "typ = header ! 0" and len: "unat (get_u32 (drop 1 header)) \<le> maxAdminPayload"
    and p: "read_full (unat (get_u32 (drop 1 header))) c1 = (Inr body, c')"
    using assms by (auto simp: ReadAdminFrame_def Let_def split: prod.splits sum.splits if_splits)
  have hl: "length header = 5" and c: "inb c = header @ inb c1"
    using read_full_Inr [OF h] by (simp_all add: go_consts)
  have pl: "length body = unat (get_u32 (drop 1 header))" and c1: "inb c1 = body @ inb c'"
    using read_full_Inr [OF p] by simp_all
  have "put_u32 (of_nat (length body)) = drop 1 header"
    using hl by (simp add: pl put_get_u32)
  then have "encodeAdmin typ body = header @ body"
    using nth_0_drop [of header] hl by (simp add: encodeAdmin_def ty)
  with len pl c c1 show ?thesis by simp
qed

lemma ReadAdminFrame_frame:
  "ReadAdminFrame c = (r, c') \<Longrightarrow>
   outb c' = outb c \<and> wscript c' = wscript c \<and> shut c' = shut c \<and> inerr c' = inerr c \<and>
   conn.more c' = conn.more c"
  unfolding ReadAdminFrame_def Let_def
  by (auto split: prod.splits sum.splits if_splits dest!: read_full_frame)

interpretation control_frames: framing encodeControl ReadControlFrame maxControlPayload
proof
  fix t p
  show "encodeControl t p \<noteq> []" by (simp add: encodeControl_def)
qed (use ReadControlFrame_encode ReadControlFrame_sound in blast)+

interpretation admin_frames: framing encodeAdmin ReadAdminFrame maxAdminPayload
proof
  fix t p
  show "encodeAdmin t p \<noteq> []" by (simp add: encodeAdmin_def)
qed (use ReadAdminFrame_encode ReadAdminFrame_sound in blast)+

lemma writeAdminFrame_Inr:
  "writeAdminFrame js typ payload k c = (Inr u, c') \<Longrightarrow>
   \<exists>body. admin_body js payload = Inr body \<and> length body \<le> maxAdminPayload \<and>
     outb c' = outb c @ (if k then [ConnAdmin] else []) @ encodeAdmin typ body \<and> inb c' = inb c"
  by (auto simp: writeAdminFrame_def split: sum.splits if_splits dest!: write_msg_Inr)

lemma writeAdminFrame_frame:
  "writeAdminFrame js typ payload k c = (r, c') \<Longrightarrow>
   inb c' = inb c \<and> shut c' = shut c \<and> inerr c' = inerr c \<and> conn.more c' = conn.more c"
  by (auto simp: writeAdminFrame_def split: sum.splits if_splits dest!: write_msg_frame)

lemma writeAdminFrame_ok:
  "admin_body js payload = Inr body \<Longrightarrow> length body \<le> maxAdminPayload \<Longrightarrow> \<not> shut c \<Longrightarrow> wscript c = [] \<Longrightarrow>
   writeAdminFrame js typ payload k c =
     (Inr (), c\<lparr>outb := outb c @ (if k then [ConnAdmin] else []) @ encodeAdmin typ body\<rparr>)"
  by (simp add: writeAdminFrame_def write_msg_ok)

section \<open>Properties\<close>

text \<open>
  An admin client's opening is understood. What \<open>WriteAdminHello\<close> sends is what
  \<open>WriteConnKind\<close> followed by \<open>WriteAdminFrame\<close> would send; a relay that reads it gets the
  admin kind, the frame type and the very body, and the rest of the stream is untouched. A
  stream that \<open>ReadAdminFrame\<close> accepts starts with the encoding of what it returns, so no
  other frame could have been meant.
\<close>

theorem admin_hello_understood:
  assumes "WriteAdminHello js p c = (Inr u, c')" and "\<not> shut c" and "wscript c = []"
    and "\<not> shut d" and "inb d = drop (length (outb c)) (outb c') @ rest"
  shows "WriteAdminFrame js AdminHello (Some (HelloPayload p)) (snd (WriteConnKind ConnAdmin c)) = (Inr (), c') \<and>
    (\<exists>body. jsonMarshal js (HelloPayload p) = Inr body \<and>
       ReadConnKind d = (Inr ConnAdmin, d\<lparr>inb := encodeAdmin AdminHello body @ rest\<rparr>) \<and>
       ReadAdminFrame (snd (ReadConnKind d)) = (Inr (AdminHello, body), d\<lparr>inb := rest\<rparr>)) \<and>
    (\<forall>t b e e'. ReadAdminFrame (e :: conn) = (Inr (t, b), e') \<longrightarrow>
       (\<forall>t' b' rest'. length b' \<le> maxAdminPayload \<and> inb e = encodeAdmin t' b' @ rest' \<longrightarrow>
          t' = t \<and> b' = b \<and> rest' = inb e'))"
proof -
  obtain body where b: "jsonMarshal js (HelloPayload p) = Inr body" "length body \<le> maxAdminPayload"
    using writeAdminFrame_Inr [OF assms(1) [unfolded WriteAdminHello_def]] by (auto simp: admin_body_def)
  then have c': "c' = c\<lparr>outb := outb c @ [ConnAdmin] @ encodeAdmin AdminHello body\<rparr>"
    using assms(1-3) writeAdminFrame_ok [of js "Some (HelloPayload p)" body c]
    by (simp add: WriteAdminHello_def admin_body_def)
  have k: "WriteConnKind ConnAdmin c = (Inr (), c\<lparr>outb := outb c @ [ConnAdmin]\<rparr>)"
    using assms(2,3) by (simp add: WriteConnKind_def validConnKind_def write_msg_ok)
  have "WriteAdminFrame js AdminHello (Some (HelloPayload p)) (snd (WriteConnKind ConnAdmin c)) = (Inr (), c')"
    using b assms(2,3) by (simp add: k WriteAdminFrame_def writeAdminFrame_ok admin_body_def c')
  moreover have r: "ReadConnKind d = (Inr ConnAdmin, d\<lparr>inb := encodeAdmin AdminHello body @ rest\<rparr>)"
    using assms(4,5) by (simp add: c' ReadConnKind_def read_msg_ok [of d "[ConnAdmin]"] decodeConnKind_def validConnKind_def)
  moreover have "ReadAdminFrame (snd (ReadConnKind d)) = (Inr (AdminHello, body), d\<lparr>inb := rest\<rparr>)"
    using r b(2) assms(4) ReadAdminFrame_encode [of body "snd (ReadConnKind d)" AdminHello rest] by simp
  moreover have "t' = t \<and> b' = b \<and> rest' = inb e'"
    if "ReadAdminFrame (e :: conn) = (Inr (t, b), e')" "length b' \<le> maxAdminPayload" "inb e = encodeAdmin t' b' @ rest'"
    for t b e e' t' b' rest'
    using admin_frames.rd_sound [OF that(1)] that(2,3)
      admin_frames.one_parse [of t' b' rest' t b "inb e'" "new_conn []"] by (auto simp: new_conn_def)
  ultimately show ?thesis using b(1) by blast
qed

definition sample_json :: json where
  "sample_json =
     \<lparr>jsonMarshal = \<lambda>p. (case p of HelloPayload h \<Rightarrow> Inr [of_int (ahVersion h)] | _ \<Rightarrow> Inr [0]),
      jsonUnmarshalHello = \<lambda>b v. Inr \<lparr>ahVersion = int (unat (hd b))\<rparr>,
      jsonUnmarshalKill = \<lambda>b v. Inr \<lparr>akTag = map (\<lambda>x. char_of (unat x)) b\<rparr>\<rparr>"

lemma admin_hello_understood_witness:
  "\<exists>c'. WriteAdminHello sample_json \<lparr>ahVersion = 1\<rparr> (new_conn []) = (Inr (), c') \<and>
     ReadConnKind (new_conn (outb c' @ [9])) = (Inr ConnAdmin, (new_conn (encodeAdmin AdminHello [1] @ [9])))"
proof -
  obtain c' where w: "WriteAdminHello sample_json \<lparr>ahVersion = 1\<rparr> (new_conn []) = (Inr (), c')"
    by (simp add: WriteAdminHello_def writeAdminFrame_def admin_body_def sample_json_def new_conn_def write_msg_ok go_consts)
  have "inb (new_conn (outb c' @ [9])) = drop (length (outb (new_conn []))) (outb c') @ [9]"
    by (simp add: new_conn_def)
  from admin_hello_understood [OF w _ _ _ this] w show ?thesis
    by (simp add: new_conn_def sample_json_def)
qed

end
