(* ===== verification/Relay_Admin.thy ===== *)
theory Relay_Admin
  imports Registry_Props CRL Wire_Admin
begin

text \<open>
  relay's admin plane (\<^verbatim>\<open>internal/relay/admin.go\<close>, with \<open>loadRevokedSerials\<close> of
  \<^verbatim>\<open>internal/relay/relay.go\<close>): the snapshot, the requests and the connection's handler.
  \<open>server\<close> is what a handler needs beyond the shared state. What \<open>os.Open\<close> gives for a path
  is the parameter \<open>files\<close>: an error, or the file's content and the error its reader ends with.
  A context that is canceled closes the connection, which the handler sees as a failing read.
\<close>

section \<open>Snapshots\<close>

definition identity_summary :: "peer_identity \<Rightarrow> nat \<Rightarrow> peer_summary" where
  "identity_summary p since =
     \<lparr>psCN = pCN p, psSerial = pSerial p, psAddr = pAddr p, psSince = since\<rparr>"

definition stream_entry :: "u64 \<times> stream \<Rightarrow> stream_summary" where
  "stream_entry e =
     \<lparr>ssReqID = fst e, ssPort = stPort (snd e), ssStarted = stStarted (snd e),
      ssBytesToSub = int (stIntoSub (snd e)), ssBytesToPub = int (stIntoPub (snd e))\<rparr>"

definition pending_entry :: "(nat \<Rightarrow> tls_conn) \<Rightarrow> u64 \<times> pendingRequest \<Rightarrow> pending_summary" where
  "pending_entry net e =
     \<lparr>pdReqID = fst e, pdPort = prPort (snd e), pdSince = prSince (snd e),
      pdAddress = (case remoteAddr (net (prConn (snd e))) of None \<Rightarrow> [] | Some a \<Rightarrow> a)\<rparr>"

definition summarize :: "(nat \<Rightarrow> tls_conn) \<Rightarrow> session_id \<Rightarrow> session \<Rightarrow> session_summary" where
  "summarize net sid s =
     \<lparr>smTag = LogTag sid, smMode = mode_String (sMode s), smPorts = sPorts s, smSince = sSince s,
      smPublisher = identity_summary (sPublisherPeer s) (sSince s),
      smSubscribers = map (\<lambda>sub. identity_summary (scPeer sub) (scSince sub)) (gm_vals (sSubscribers s)),
      smStreams = map stream_entry (sStreams s),
      smPending = map (pending_entry net) (sPending s)\<rparr>"

definition Snapshot :: "world \<Rightarrow> snapshot" where
  "Snapshot w =
     \<lparr>snNow = wNow w,
      snSessions = map (\<lambda>(sid, ref). summarize (wNet w) sid (wSess w ref)) (wSessions w)\<rparr>"

section \<open>Requests\<close>

type_synonym files = "string \<Rightarrow> (string \<times> error option) result"

record server =
  svAdmin :: bool
  svRevokedFile :: string

definition loadRevokedSerials :: "files \<Rightarrow> string \<Rightarrow> serials result" where
  "loadRevokedSerials files path =
     (if path = [] then Inr []
      else case files path of
             Inl e \<Rightarrow> Inl (wrap ''open revoked file'' e)
           | Inr r \<Rightarrow> on_error (wrap (''parse revoked file '' @ path)) (ParseRevokedSerials r))"

definition refusal :: "string \<Rightarrow> admin_payload option" where
  "refusal detail = Some (ResultPayload \<lparr>arOK = False, arDetail = detail, arAffected = 0\<rparr>)"

definition success :: "string \<Rightarrow> nat \<Rightarrow> admin_payload option" where
  "success detail n = Some (ResultPayload \<lparr>arOK = True, arDetail = detail, arAffected = n\<rparr>)"

definition reply :: "json \<Rightarrow> nat \<Rightarrow> admin_payload option \<Rightarrow> world \<Rightarrow> unit result \<times> world" where
  "reply js k payload w = on_net k (WriteAdminFrame js AdminResult payload) w"

definition refuseAdminRequest :: "json \<Rightarrow> nat \<Rightarrow> admin_type \<Rightarrow> world \<Rightarrow> unit result \<times> world" where
  "refuseAdminRequest js k typ w =
     reply js k (refusal (''unsupported request '' @ adminType_String typ)) w"

definition kick_retired :: string where
  "kick_retired =
     ''kick is retired: it only closed connections, which a peer reopens at once. '' @
     ''Use kill to end one session, or revoke the serial and reload-crl to end an identity''"

definition refuseRetiredKick :: "json \<Rightarrow> nat \<Rightarrow> world \<Rightarrow> unit result \<times> world" where
  "refuseRetiredKick js k w = reply js k (refusal kick_retired) w"

definition serveKill :: "json \<Rightarrow> nat \<Rightarrow> byte list \<Rightarrow> world \<Rightarrow> unit result \<times> world" where
  "serveKill js k body w =
     (case DecodeAdminPayload (jsonUnmarshalKill js) body \<lparr>akTag = []\<rparr> of
        Inl e \<Rightarrow> reply js k (refusal (''malformed kill request: '' @ error_text e)) w
      | Inr req \<Rightarrow>
          if akTag req = [] then reply js k (refusal ''kill requires a session tag'') w
          else case Kill (akTag req) w of
                 (Inl e, w1) \<Rightarrow> reply js k (refusal (error_text e)) w1
               | (Inr notified, w1) \<Rightarrow>
                   reply js k
                     (success (''ended session '' @ akTag req @ '' and notified '' @ show_nat notified @
                        '' subscriber(s); it cannot re-register until this relay restarts'') notified) w1)"

text \<open>Raw transports are closed by number; what the map does with them is said apart.\<close>

definition close_raw :: "nat \<Rightarrow> world \<Rightarrow> world" where
  "close_raw raw w = w\<lparr>wNet := (wNet w)(raw := conn_close (wNet w raw))\<rparr>"

definition count_added :: "serials \<Rightarrow> revocation_set \<Rightarrow> nat" where
  "count_added serials old = length (filter (\<lambda>s. \<not> rev_Contains old s) (gm_keys serials))"

definition reload_evict ::
  "nat \<Rightarrow> serials \<Rightarrow> world \<Rightarrow> (nat \<times> nat option) \<times> world" where
  "reload_evict k serials w =
     (let w1 = w\<lparr>wRevoked := rev_Replace serials (wRevoked w)\<rparr>
      in case closeMatchingAfterReply (rev_Contains (wRevoked w1))
                (Some (TrackedConn k (csSelf (wConns w1)))) (wConns w1) of
           ((closed, conns, deferred), cs) \<Rightarrow>
             ((closed, deferred), fold close_raw conns (w1\<lparr>wConns := cs\<rparr>)))"

definition reload_finish :: "nat option \<Rightarrow> world \<Rightarrow> world" where
  "reload_finish deferred w =
     (case finish_reply deferred (wConns w) of
        (late, cs) \<Rightarrow> (fold close_raw late w)\<lparr>wConns := cs\<rparr>)"

definition serveReloadCRL ::
  "server \<Rightarrow> files \<Rightarrow> json \<Rightarrow> nat \<Rightarrow> world \<Rightarrow> unit result \<times> world" where
  "serveReloadCRL srv files js k w =
     (if svRevokedFile srv = []
      then reply js k (refusal ''relay was started without -revoked-file, so there is nothing to reload'') w
      else case loadRevokedSerials files (svRevokedFile srv) of
             Inl e \<Rightarrow>
               reply js k (refusal (''reload '' @ svRevokedFile srv @ '': '' @ error_text e)) w
           | Inr serials \<Rightarrow>
               (let added = count_added serials (wRevoked w)
                in case reload_evict k serials w of
                     ((closed, deferred), w2) \<Rightarrow>
                       (case reply js k
                               (success (show_nat (gm_len serials) @ '' serial(s) revoked, '' @
                                  show_nat added @ '' newly so; closed '' @ show_nat closed @
                                  '' connection(s)'') closed) w2 of
                          (r, w3) \<Rightarrow> (r, reload_finish deferred w3))))"

definition serveAdminRequest ::
  "server \<Rightarrow> files \<Rightarrow> json \<Rightarrow> nat \<Rightarrow> admin_type \<Rightarrow> byte list \<Rightarrow> world \<Rightarrow> unit result \<times> world" where
  "serveAdminRequest srv files js k typ body w =
     (if typ = AdminList
      then on_net k (WriteAdminFrame js AdminSnapshot (Some (SnapshotPayload (Snapshot w)))) w
      else if typ = AdminKick then refuseRetiredKick js k w
      else if typ = AdminKill then serveKill js k body w
      else if typ = AdminReloadCRL then serveReloadCRL srv files js k w
      else refuseAdminRequest js k typ w)"

section \<open>What a request leaves of the incoming streams\<close>

definition keeps_inb :: "world \<Rightarrow> world \<Rightarrow> bool" where
  "keeps_inb w w' \<longleftrightarrow> (\<forall>i. inb (wNet w' i) = inb (wNet w i))"

lemma keeps_inb_refl [simp]: "keeps_inb w w"
  by (simp add: keeps_inb_def)

lemma keeps_inb_trans: "keeps_inb w w' \<Longrightarrow> keeps_inb w' w'' \<Longrightarrow> keeps_inb w w''"
  by (simp add: keeps_inb_def)

lemma keeps_inb_fold: "(\<And>x w. keeps_inb w (f x w)) \<Longrightarrow> keeps_inb w (fold f xs w)"
proof (induction xs arbitrary: w)
  case (Cons x xs)
  then show ?case using keeps_inb_trans [of w "f x w" "fold f xs (f x w)"] by simp
qed simp

lemma on_net_keeps_inb:
  "on_net k f w = (r, w') \<Longrightarrow> (\<And>c r c'. f c = (r, c') \<Longrightarrow> inb c' = inb c) \<Longrightarrow> keeps_inb w w'"
  by (auto simp: on_net_def keeps_inb_def split: prod.splits)

lemma tls_close_keeps_inb [simp]: "keeps_inb w (tls_close k w)"
  by (simp add: keeps_inb_def tls_close_net conn_close_def)

lemma close_raw_keeps_inb [simp]: "keeps_inb w (close_raw k w)"
  by (simp add: keeps_inb_def close_raw_def conn_close_def)

lemma notify_one_keeps_inb [simp]: "keeps_inb w (notify_one k w)"
proof -
  have "keeps_inb w (do_net k (WriteSessionClosed ReasonPublisherGone) w)"
    by (auto simp: do_net_def WriteSessionClosed_def dest!: WriteControlFrame_frame
        intro!: on_net_keeps_inb [of k "WriteSessionClosed ReasonPublisherGone" w] prod.collapse [symmetric])
  then show ?thesis by (auto simp: notify_one_def intro: keeps_inb_trans)
qed

lemma session_shutdown_keeps_inb: "session_shutdown ref w = (n, w') \<Longrightarrow> keeps_inb w w'"
proof -
  assume s: "session_shutdown ref w = (n, w')"
  obtain pending controls w1 where b: "on_sess ref beginShutdown w = ((pending, controls), w1)"
    by (metis prod.exhaust)
  have "keeps_inb w w1" using on_sess_registry [OF b] by (simp add: keeps_inb_def)
  moreover have "keeps_inb w1 (close_pending pending w1)"
    unfolding close_pending_def by (rule keeps_inb_fold) simp
  moreover have "keeps_inb (close_pending pending w1) (notifySessionClosed controls (close_pending pending w1))"
    unfolding notifySessionClosed_def by (rule keeps_inb_fold) simp
  ultimately show ?thesis using s b by (auto simp: session_shutdown_def intro: keeps_inb_trans)
qed

lemma Kill_keeps_inb: "Kill tag w = (r, w') \<Longrightarrow> keeps_inb w w'"
proof -
  assume k: "Kill tag w = (r, w')"
  obtain p w1 where p: "kill_pick tag w = (p, w1)" by (metis prod.exhaust)
  have net: "wNet w1 = wNet w" using p
    by (auto simp: kill_pick_def split: prod.splits option.splits if_splits)
  show ?thesis
  proof (cases p)
    case (Inl e)
    with k p net show ?thesis by (auto simp: Kill_def keeps_inb_def)
  next
    case (Inr sr)
    obtain sid ref where sr: "sr = (sid, ref)" by (cases sr)
    let ?w2 = "tls_close (sPublisher (wSess w1 ref)) w1"
    obtain n w3 where s: "session_shutdown ref ?w2 = (n, w3)" by (metis prod.exhaust)
    have "w' = w3" using k p Inr sr s by (simp add: Kill_def)
    then have "keeps_inb ?w2 w'" using session_shutdown_keeps_inb [OF s] by simp
    moreover have "keeps_inb w1 ?w2" by simp
    ultimately show ?thesis using net by (simp add: keeps_inb_def)
  qed
qed

lemma WriteAdminFrame_keeps: "WriteAdminFrame js t p c = (r, c') \<Longrightarrow> inb c' = inb c"
  by (auto simp: WriteAdminFrame_def dest: writeAdminFrame_frame)

lemma reply_keeps_inb: "reply js k p w = (r, w') \<Longrightarrow> keeps_inb w w'"
  unfolding reply_def by (erule on_net_keeps_inb) (erule WriteAdminFrame_keeps)

lemma close_raws_inb [simp]: "inb (wNet (fold close_raw xs w) i) = inb (wNet w i)"
  using keeps_inb_fold [of close_raw w xs] by (simp add: keeps_inb_def close_raw_def conn_close_def)

lemma reload_evict_keeps_inb: "reload_evict k serials w = (r, w') \<Longrightarrow> keeps_inb w w'"
  by (auto simp: reload_evict_def Let_def keeps_inb_def split: prod.splits)

lemma reload_finish_keeps_inb: "keeps_inb w (reload_finish d w)"
  by (auto simp: reload_finish_def keeps_inb_def split: prod.splits)

lemma serveAdminRequest_keeps_inb:
  assumes "serveAdminRequest srv files js k typ body w = (r, w')"
  shows "keeps_inb w w'"
proof -
  have kill: "keeps_inb w w'" if k: "serveKill js k body w = (r, w')"
  proof (cases "DecodeAdminPayload (jsonUnmarshalKill js) body \<lparr>akTag = []\<rparr>")
    case (Inl e)
    with k show ?thesis by (auto simp: serveKill_def dest: reply_keeps_inb)
  next
    case (Inr req)
    show ?thesis
    proof (cases "akTag req = []")
      case True
      with k Inr show ?thesis by (auto simp: serveKill_def dest: reply_keeps_inb)
    next
      case False
      obtain x w1 where x: "Kill (akTag req) w = (x, w1)" by (metis prod.exhaust)
      have "keeps_inb w1 w'"
        using k Inr False x by (cases x) (auto simp: serveKill_def dest: reply_keeps_inb)
      with Kill_keeps_inb [OF x] show ?thesis by (rule keeps_inb_trans)
    qed
  qed
  have crl: "keeps_inb w w'" if k: "serveReloadCRL srv files js k w = (r, w')"
  proof (cases "svRevokedFile srv = [] \<or> (\<exists>e. loadRevokedSerials files (svRevokedFile srv) = Inl e)")
    case True
    with k show ?thesis by (auto simp: serveReloadCRL_def dest: reply_keeps_inb split: if_splits)
  next
    case False
    then obtain serials where s: "loadRevokedSerials files (svRevokedFile srv) = Inr serials"
      by (cases "loadRevokedSerials files (svRevokedFile srv)") auto
    obtain closed deferred w2 where e: "reload_evict k serials w = ((closed, deferred), w2)"
      by (metis prod.exhaust)
    obtain w3 p where "reply js k p w2 = (r, w3)" "w' = reload_finish deferred w3"
      using k False s e by (auto simp: serveReloadCRL_def Let_def split: prod.splits)
    then show ?thesis
      using keeps_inb_trans [OF reload_evict_keeps_inb [OF e] keeps_inb_trans [OF reply_keeps_inb reload_finish_keeps_inb]]
      by blast
  qed
  have list: "keeps_inb w w'"
    if "on_net k (WriteAdminFrame js AdminSnapshot p) w = (r, w')" for p
    using that by (rule on_net_keeps_inb) (erule WriteAdminFrame_keeps)
  consider "typ = AdminList" | "typ = AdminKill" | "typ = AdminReloadCRL"
    | "typ \<notin> {AdminList, AdminKill, AdminReloadCRL}" by blast
  then show ?thesis
  proof cases
    case 1
    with assms show ?thesis by (intro list) (simp add: serveAdminRequest_def)
  next
    case 2
    with assms show ?thesis by (intro kill) (simp add: serveAdminRequest_def go_consts)
  next
    case 3
    with assms show ?thesis by (intro crl) (simp add: serveAdminRequest_def go_consts)
  next
    case 4
    with assms have "\<exists>p. reply js k p w = (r, w')"
      by (cases "typ = AdminKick") (auto simp: serveAdminRequest_def refuseRetiredKick_def refuseAdminRequest_def)
    then show ?thesis using reply_keeps_inb by blast
  qed
qed

section \<open>The handler\<close>

text \<open>The request loop reads until a read or an answer fails; every turn takes a frame.\<close>

lemma ReadAdminFrame_shrinks:
  "on_net k ReadAdminFrame w = (Inr tb, w1) \<Longrightarrow> length (inb (wNet w1 k)) < length (inb (wNet w k))"
proof -
  assume a: "on_net k ReadAdminFrame w = (Inr tb, w1)"
  then have "ReadAdminFrame (wNet w k) = (Inr (fst tb, snd tb), wNet w1 k)"
    by (auto simp: on_net_def split: prod.splits)
  then show ?thesis by (rule admin_frames.rd_advances)
qed

function serveAdmin :: "server \<Rightarrow> files \<Rightarrow> json \<Rightarrow> nat \<Rightarrow> world \<Rightarrow> world" where
  "serveAdmin srv files js k w =
     (case on_net k ReadAdminFrame w of
        (Inl e, w1) \<Rightarrow> w1
      | (Inr tb, w1) \<Rightarrow>
          (case serveAdminRequest srv files js k (fst tb) (snd tb) w1 of
             (Inl e, w2) \<Rightarrow> w2
           | (Inr _, w2) \<Rightarrow> serveAdmin srv files js k w2))"
  by pat_completeness auto
termination
proof (relation "measure (\<lambda>(srv, files, js, k, w). length (inb (wNet w k)))", goal_cases)
  case (2 srv files js k w r w1 tb r2 w2 u)
  then have "on_net k ReadAdminFrame w = (Inr tb, w1)"
    and "serveAdminRequest srv files js k (fst tb) (snd tb) w1 = (Inr u, w2)" by simp_all
  then show ?case
    using ReadAdminFrame_shrinks [of k w tb w1] serveAdminRequest_keeps_inb [of srv files js k "fst tb" "snd tb" w1 "Inr u" w2]
    by (simp add: keeps_inb_def)
qed simp

declare serveAdmin.simps [simp del]

definition ack :: "bool \<Rightarrow> string \<Rightarrow> admin_payload option" where
  "ack ok err = Some (AckPayload \<lparr>aaOK = ok, aaErr = err, aaVersion = AdminVersion\<rparr>)"

definition handleAdminConn :: "server \<Rightarrow> files \<Rightarrow> json \<Rightarrow> nat \<Rightarrow> world \<Rightarrow> world" where
  "handleAdminConn srv files js k w =
     tls_close k
       (case on_net k ReadAdminFrame w of
          (Inl e, w1) \<Rightarrow> w1
        | (Inr (typ, body), w1) \<Rightarrow>
            if typ \<noteq> AdminHello
            then do_net k (WriteAdminFrame js AdminAck
                   (ack False (''expected hello, got '' @ adminType_String typ))) w1
            else (case DecodeAdminPayload (jsonUnmarshalHello js) body \<lparr>ahVersion = 0\<rparr> of
                    Inl e \<Rightarrow> w1
                  | Inr hello \<Rightarrow>
                      if \<not> HasAdminEKU (case peerLeafCert (wNet w1 k) of Inl e \<Rightarrow> None | Inr ct \<Rightarrow> Some ct)
                      then do_net k (WriteAdminFrame js AdminAck
                             (ack False ''certificate does not carry the admin role'')) w1
                      else (case on_net k (WriteAdminFrame js AdminAck (ack True [])) w1 of
                              (Inl e, w2) \<Rightarrow> w2
                            | (Inr _, w2) \<Rightarrow> serveAdmin srv files js k w2)))"

section \<open>Effects of the parts\<close>

lemma on_net_frame:
  "on_net k f w = (r, w') \<Longrightarrow>
   same_registry w w' \<and> wSess w' = wSess w \<and> wConns w' = wConns w \<and> wRevoked w' = wRevoked w \<and>
   wNow w' = wNow w \<and> (\<forall>i. i \<noteq> k \<longrightarrow> wNet w' i = wNet w i)"
  by (auto simp: on_net_def same_registry_def split: prod.splits)

lemma do_net_frame:
  "same_registry w (do_net k f w)" "wSess (do_net k f w) = wSess w" "wConns (do_net k f w) = wConns w"
  "wRevoked (do_net k f w) = wRevoked w" "i \<noteq> k \<Longrightarrow> wNet (do_net k f w) i = wNet w i"
  "wNet (do_net k f w) k = snd (f (wNet w k))"
  using on_net_frame [of k f w "fst (on_net k f w)" "do_net k f w"]
  by (auto simp: do_net_def on_net_def split: prod.splits)

lemma do_net_net: "wNet (do_net k f w) i = (if i = k then snd (f (wNet w k)) else wNet w i)"
  by (simp add: do_net_frame)

lemma close_raws_frame:
  "same_registry w (fold close_raw xs w) \<and> wSess (fold close_raw xs w) = wSess w \<and>
   wConns (fold close_raw xs w) = wConns w \<and> wRevoked (fold close_raw xs w) = wRevoked w"
  by (induction xs arbitrary: w) (auto simp: close_raw_def same_registry_def)

lemma close_raws_net:
  "wNet (fold close_raw xs w) i = (if i \<in> set xs then conn_close (wNet w i) else wNet w i)"
  by (induction xs arbitrary: w) (auto simp: close_raw_def conn_close_def)

lemma WriteAdminFrame_prefix:
  "WriteAdminFrame js t p c = (r, c') \<Longrightarrow>
   outb c' = outb c \<or>
   (\<exists>body n. admin_body js p = Inr body \<and> outb c' = outb c @ take n (encodeAdmin t body))"
  by (auto simp: WriteAdminFrame_def writeAdminFrame_def write_msg_def split: sum.splits if_splits prod.splits option.splits
      dest!: writeFull_prefix)

lemma load_empty_path [simp]: "loadRevokedSerials files [] = Inr []"
  by (simp add: loadRevokedSerials_def)

section \<open>Properties\<close>

text \<open>Without the role the handler closes the connection, after one refusing ack at most.\<close>

lemma handleAdminConn_refused:
  assumes "\<not> HasAdminEKU (case peerLeafCert (wNet w k) of Inl e \<Rightarrow> None | Inr ct \<Rightarrow> Some ct)"
    and "handleAdminConn srv files js k w = w'" and rd: "on_net k ReadAdminFrame w = (r, w1)"
    and c1: "peerLeafCert (wNet w1 k) = peerLeafCert (wNet w k)"
  shows "w' = tls_close k w1 \<or> (\<exists>err. w' = tls_close k (do_net k (WriteAdminFrame js AdminAck (ack False err)) w1))"
proof (cases r)
  case (Inl e)
  then show ?thesis using assms(2) rd by (simp add: handleAdminConn_def)
next
  case (Inr tb)
  obtain ty body where tb: "tb = (ty, body)" by (cases tb)
  show ?thesis
  proof (cases "ty = AdminHello")
    case False
    then show ?thesis using assms(2) rd Inr tb
      by (intro disjI2 exI [of _ "''expected hello, got '' @ adminType_String ty"]) (simp add: handleAdminConn_def)
  next
    case True
    show ?thesis
    proof (cases "DecodeAdminPayload (jsonUnmarshalHello js) body \<lparr>ahVersion = 0\<rparr>")
      case (Inl e)
      then show ?thesis using assms(2) rd Inr tb True by (simp add: handleAdminConn_def)
    next
      case (Inr h)
      then show ?thesis using assms rd \<open>r = Inr tb\<close> tb True c1
        by (intro disjI2 exI [of _ "''certificate does not carry the admin role''"]) (simp add: handleAdminConn_def)
    qed
  qed
qed

text \<open>
  C22: The admin plane needs the role. A connection whose certificate does not carry the admin
  usage gets, whatever frames it sends, at most one refusing ack: nothing of the registry, the
  sessions, the revocation set or another connection changes, no snapshot is sent, and the
  connection is closed.
\<close>

theorem admin_needs_role:
  assumes "\<not> HasAdminEKU (case peerLeafCert (wNet w k) of Inl e \<Rightarrow> None | Inr ct \<Rightarrow> Some ct)"
    and "handleAdminConn srv files js k w = w'"
  shows "same_registry w w' \<and> wSess w' = wSess w \<and> wRevoked w' = wRevoked w \<and>
    (\<forall>i. i \<noteq> k \<longrightarrow> wNet w' i = wNet w i) \<and> shut (wNet w' k) \<and>
    (outb (wNet w' k) = outb (wNet w k) \<or>
     (\<exists>err body n. admin_body js (ack False err) = Inr body \<and>
        outb (wNet w' k) = outb (wNet w k) @ take n (encodeAdmin AdminAck body)))"
proof -
  obtain r w1 where rd: "on_net k ReadAdminFrame w = (r, w1)" by (metis prod.exhaust)
  have rd': "ReadAdminFrame (wNet w k) = (r, wNet w1 k)"
    using rd by (auto simp: on_net_def split: prod.splits)
  have c1: "outb (wNet w1 k) = outb (wNet w k)" "peerLeafCert (wNet w1 k) = peerLeafCert (wNet w k)"
    using ReadAdminFrame_frame [OF rd'] more_peer [of "wNet w1 k" "wNet w k"] by simp_all
  note refused = handleAdminConn_refused [OF assms rd c1(2)]
  have "?thesis" if "w' = tls_close k w1"
    using on_net_frame [OF rd] that c1 same_registry_trans [OF _ tls_close_registry(1)]
    by (auto simp: tls_close_net conn_close_def tls_close_def same_registry_def)
  moreover have "?thesis" if w': "w' = tls_close k (do_net k (WriteAdminFrame js AdminAck (ack False err)) w1)" for err
  proof -
    let ?p = "ack False err"
    let ?c = "snd (WriteAdminFrame js AdminAck ?p (wNet w1 k))"
    have out: "outb ?c = outb (wNet w k) \<or>
      (\<exists>err body n. admin_body js (ack False err) = Inr body \<and> outb ?c = outb (wNet w k) @ take n (encodeAdmin AdminAck body))"
      using WriteAdminFrame_prefix [of js AdminAck ?p "wNet w1 k" "fst (WriteAdminFrame js AdminAck ?p (wNet w1 k))" ?c] c1(1)
      by auto
    have net: "wNet w' k = conn_close ?c" "\<forall>i. i \<noteq> k \<longrightarrow> wNet w' i = wNet w i"
      using on_net_frame [OF rd] by (auto simp: w' tls_close_net do_net_net)
    have "same_registry w w'" "wSess w' = wSess w" "wRevoked w' = wRevoked w"
      using on_net_frame [OF rd] do_net_frame [where w = w1 and k = k and f = "WriteAdminFrame js AdminAck ?p"]
      by (simp_all add: w' tls_close_def same_registry_def)
    with out net show ?thesis by (simp add: conn_close_def)
  qed
  ultimately show ?thesis using refused by blast
qed

lemma admin_needs_role_witness:
  "let w' = handleAdminConn \<lparr>svAdmin = True, svRevokedFile = []\<rparr> (\<lambda>_. Inl (Fault 0)) sample_json 30 sample_relay
   in shut (wNet w' 30) \<and> wSessions w' = wSessions sample_relay \<and> wNet w' 10 = wNet sample_relay 10"
proof -
  have "\<not> HasAdminEKU (case peerLeafCert (wNet sample_relay 30) of Inl e \<Rightarrow> None | Inr ct \<Rightarrow> Some ct)"
    by (simp add: peerLeafCert_def sample_relay_def sample_net_def sample_tls_def sample_cert_def HasAdminEKU_def)
  from admin_needs_role [OF this HOL.refl] show ?thesis by (simp add: same_registry_def Let_def)
qed

text \<open>A reload of a file that loads.\<close>

lemma serveReloadCRL_loaded:
  assumes "serveReloadCRL srv files js k w = (r, w')" and "svRevokedFile srv \<noteq> []"
    and "gm_wf (csConns (wConns w))" and Inr: "loadRevokedSerials files (svRevokedFile srv) = Inr serials"
  defines "hit \<equiv> covered (gm_has serials) (csConns (wConns w))"
  shows "(\<forall>s. rev_Contains (wRevoked w') s \<longleftrightarrow> gm_has serials s) \<and>
    (\<forall>c. gm_get (csConns (wConns w')) c = (if hit c then None else gm_get (csConns (wConns w)) c)) \<and>
    (\<forall>c. hit c \<longrightarrow> shut (wNet w' c)) \<and>
    (\<forall>c. c \<noteq> k \<and> \<not> hit c \<longrightarrow> wNet w' c = wNet w c) \<and>
    same_registry w w' \<and> wSess w' = wSess w \<and>
    (\<forall>u. r = Inr u \<longrightarrow> (\<exists>detail body.
       admin_body js (success detail (card {c. hit c})) = Inr body \<and>
       outb (wNet w' k) = outb (wNet w k) @ encodeAdmin AdminResult body))"
proof -
  let ?K = "rev_Contains (rev_Replace serials (wRevoked w))"
  have K: "?K = gm_has serials" by (auto simp: fun_eq_iff rev_Contains_Replace gm_keys_get gm_has_def)
  let ?w1 = "w\<lparr>wRevoked := rev_Replace serials (wRevoked w)\<rparr>"
  obtain closed conns deferred cs where cm: "closeMatchingAfterReply ?K (Some (TrackedConn k (csSelf (wConns w)))) (wConns w) =
      ((closed, conns, deferred), cs)" by (metis prod_cases3 prod.collapse)
  define w2 where "w2 = fold close_raw conns (?w1\<lparr>wConns := cs\<rparr>)"
  obtain detail w3 where rp: "reply js k (success detail closed) w2 = (r, w3)" "w' = reload_finish deferred w3"
    using assms(1,2) Inr cm
    by (auto simp: serveReloadCRL_def reload_evict_def Let_def w2_def split: prod.splits)
  note spec = closeMatchingAfterReply_spec [OF cm assms(3), unfolded K, folded hit_def]
  have hit: "covered (gm_has serials) (csConns (wConns w)) c = hit c" for c by (simp add: hit_def)
  have conns: "set conns = {c. hit c \<and> c \<noteq> k}" and dfr: "deferred = (if hit k then Some k else None)"
    and get: "gm_get (csConns cs) c = (if hit c \<and> c \<noteq> k then None else gm_get (csConns (wConns w)) c)"
    and n: "closed = card {c. hit c}" for c
    using spec by (auto simp: raw_of_def hit)
  have w2: "same_registry w w2" "wSess w2 = wSess w" "wConns w2 = cs" "wRevoked w2 = rev_Replace serials (wRevoked w)"
    "wNet w2 i = (if i \<in> set conns then conn_close (wNet w i) else wNet w i)" for i
    using close_raws_frame [of "?w1\<lparr>wConns := cs\<rparr>" conns]
    by (simp_all add: w2_def close_raws_net same_registry_def)
  note w3 = on_net_frame [OF rp(1) [unfolded reply_def]]
  define late where "late = (case deferred of None \<Rightarrow> [] | Some c \<Rightarrow> [c])"
  have w': "w' = (fold close_raw late w3)\<lparr>wConns := snd (finish_reply deferred (wConns w3))\<rparr>"
    using rp(2) by (auto simp: reload_finish_def finish_reply_def late_def split: option.splits)
  have fin: "gm_get (csConns (wConns w')) c = (if hit c then None else gm_get (csConns (wConns w)) c)" for c
    using w3 w2(3) get [of c] by (auto simp: w' finish_reply_def dfr gomap_simps)
  have lateset: "set late = (if hit k then {k} else {})" by (auto simp: late_def dfr)
  have net: "wNet w' i = (if i \<in> set late then conn_close (wNet w3 i) else wNet w3 i)" for i
    by (simp add: w' close_raws_net)
  have frame: "same_registry w w'" "wSess w' = wSess w" "wRevoked w' = rev_Replace serials (wRevoked w)"
    using close_raws_frame [of w3 late] w3 w2 by (simp_all add: w' same_registry_def)
  have other: "wNet w3 i = (if hit i then conn_close (wNet w i) else wNet w i)" if "i \<noteq> k" for i
    using w3 that w2(5) [of i] by (simp add: conns)
  have shut: "shut (wNet w' c)" if "hit c" for c
    using that other [of c] by (cases "c = k") (simp_all add: net lateset conn_close_def)
  have same: "wNet w' c = wNet w c" if "c \<noteq> k" "\<not> hit c" for c
    using that other [of c] by (simp add: net lateset)
  have out: "\<exists>detail body. admin_body js (success detail (card {c. hit c})) = Inr body \<and>
           outb (wNet w' k) = outb (wNet w k) @ encodeAdmin AdminResult body" if "r = Inr u" for u
  proof -
    have "writeAdminFrame js AdminResult (success detail closed) False (wNet w k) = (Inr u, wNet w3 k)"
      using on_net_at [OF rp(1) [unfolded reply_def]] that w2(5) [of k] by (simp add: conns WriteAdminFrame_def)
    from writeAdminFrame_Inr [OF this] show ?thesis
      by (intro exI [of _ detail]) (auto simp: n net conn_close_def)
  qed
  have rev: "rev_Contains (wRevoked w') s \<longleftrightarrow> gm_has serials s" for s
    using frame(3) K by (simp add: fun_eq_iff)
  show ?thesis using rev fin shut same frame(1,2) out Inr by simp
qed

text \<open>
  A reload enforces the new list. When the file loads, the revocation set afterwards holds
  exactly its serials, every authenticated transport with one of them is closed and no longer
  tracked - the requester's own too, after its reply was written - and every other
  connection, the registry and the sessions are untouched. When it does not load, neither the
  set nor any transport changes.
\<close>

theorem reload_enforces_list:
  assumes "serveReloadCRL srv files js k w = (r, w')" and "svRevokedFile srv \<noteq> []"
    and "gm_wf (csConns (wConns w))"
  defines "hit \<equiv> \<lambda>serials c. covered (gm_has serials) (csConns (wConns w)) c"
  shows "(case loadRevokedSerials files (svRevokedFile srv) of
      Inl e \<Rightarrow> wRevoked w' = wRevoked w \<and> wConns w' = wConns w \<and> (\<forall>i. shut (wNet w' i) = shut (wNet w i))
    | Inr serials \<Rightarrow>
        (\<forall>s. rev_Contains (wRevoked w') s \<longleftrightarrow> gm_has serials s) \<and>
        (\<forall>c. gm_get (csConns (wConns w')) c = (if hit serials c then None else gm_get (csConns (wConns w)) c)) \<and>
        (\<forall>c. hit serials c \<longrightarrow> shut (wNet w' c)) \<and>
        (\<forall>c. c \<noteq> k \<and> \<not> hit serials c \<longrightarrow> wNet w' c = wNet w c) \<and>
        same_registry w w' \<and> wSess w' = wSess w \<and>
        (\<forall>u. r = Inr u \<longrightarrow> (\<exists>detail body.
           admin_body js (success detail (card {c. hit serials c})) = Inr body \<and>
           outb (wNet w' k) = outb (wNet w k) @ encodeAdmin AdminResult body)))"
proof (cases "loadRevokedSerials files (svRevokedFile srv)")
  case (Inl e)
  then obtain p where "on_net k (WriteAdminFrame js AdminResult p) w = (r, w')"
    using assms(1,2) by (auto simp: serveReloadCRL_def reply_def)
  moreover from this have "shut (wNet w' k) = shut (wNet w k)"
    by (auto simp: on_net_def WriteAdminFrame_def split: prod.splits dest: writeAdminFrame_frame)
  ultimately show ?thesis using on_net_frame Inl by fastforce
next
  case (Inr serials)
  then show ?thesis using serveReloadCRL_loaded [OF assms(1,2,3) Inr] by (simp add: hit_def)
qed

text \<open>A relay that tracks three transports, two of them under the serial to be revoked.\<close>

definition sample_tracked :: world where
  "sample_tracked = sample_relay\<lparr>wConns := \<lparr>csSelf = 0, csConns = [(10, ''1''), (20, ''2''), (30, ''2'')]\<rparr>\<rparr>"

lemma reload_enforces_list_witness:
  "\<exists>r w'. serveReloadCRL \<lparr>svAdmin = True, svRevokedFile = ''crl''\<rparr> (\<lambda>_. Inr (''02'', None)) sample_json 30 sample_tracked = (r, w') \<and>
     shut (wNet w' 20) \<and> shut (wNet w' 30) \<and> \<not> shut (wNet w' 10) \<and> gm_get (csConns (wConns w')) 10 = Some ''1''"
proof -
  let ?srv = "\<lparr>svAdmin = True, svRevokedFile = ''crl''\<rparr>"
  let ?files = "\<lambda>_ :: string. Inr (''02'', None) :: (string \<times> error option) result"
  obtain r w' where r: "serveReloadCRL ?srv ?files sample_json 30 sample_tracked = (r, w')"
    by (metis prod.exhaust)
  have x: "show_hex 2 = ''2''" by code_simp
  have l: "loadRevokedSerials ?files (svRevokedFile ?srv) = Inr [(''2'', ())]"
    by (simp add: loadRevokedSerials_def ParseRevokedSerials_def scan_lines.simps dropCR_def maxTokenSize_def
        TrimSpace_def trim_left.simps space_seqs_def all_hex_def hex_char_value_def hex_value_def x gm_set_def)
  have c: "covered (gm_has [(''2'', ())]) (csConns (wConns sample_tracked)) i \<longleftrightarrow> i = 20 \<or> i = 30" for i
    by (simp add: covered_def sample_tracked_def gm_get_def gm_has_def)
  have "gm_wf (csConns (wConns sample_tracked))" by (simp add: sample_tracked_def gm_wf_def)
  from reload_enforces_list [OF r _ this] l c
  have "shut (wNet w' 20)" "shut (wNet w' 30)" "wNet w' 10 = wNet sample_tracked 10"
    "gm_get (csConns (wConns w')) 10 = Some ''1''"
    by (simp_all) (simp add: sample_tracked_def gm_get_def)
  moreover have "\<not> shut (wNet sample_tracked 10)" by (simp add: sample_tracked_def sample_relay_def sample_net_def sample_tls_def)
  ultimately show ?thesis using r by auto
qed

text \<open>
  A snapshot shows every session and no session identifier. There is a summary per
  registered session with one entry per attached subscriber, running stream and waiting
  request; and it depends on the identifiers only through their log tags: exchange
  them for any others with the same tags and the snapshot is the same.
\<close>

theorem snapshot_complete_and_tagged:
  shows "(\<forall>sid ref. (sid, ref) \<in> set (wSessions w) \<longrightarrow>
      (\<exists>sm \<in> set (snSessions (Snapshot w)). smTag sm = LogTag sid \<and>
         length (smSubscribers sm) = gm_len (sSubscribers (wSess w ref)) \<and>
         map ssReqID (smStreams sm) = gm_keys (sStreams (wSess w ref)) \<and>
         map pdReqID (smPending sm) = gm_keys (sPending (wSess w ref)))) \<and>
    length (snSessions (Snapshot w)) = gm_len (wSessions w) \<and>
    ((\<forall>sid. LogTag (f sid) = LogTag sid) \<longrightarrow>
       Snapshot (w\<lparr>wSessions := map (\<lambda>(sid, ref). (f sid, ref)) (wSessions w)\<rparr>) = Snapshot w)"
proof (intro conjI allI impI)
  fix sid ref assume m: "(sid, ref) \<in> set (wSessions w)"
  let ?sm = "summarize (wNet w) sid (wSess w ref)"
  have "?sm \<in> set (snSessions (Snapshot w))" using m by (force simp: Snapshot_def)
  then show "\<exists>sm \<in> set (snSessions (Snapshot w)). smTag sm = LogTag sid \<and>
         length (smSubscribers sm) = gm_len (sSubscribers (wSess w ref)) \<and>
         map ssReqID (smStreams sm) = gm_keys (sStreams (wSess w ref)) \<and>
         map pdReqID (smPending sm) = gm_keys (sPending (wSess w ref))"
    by (rule bexI [rotated])
      (simp add: summarize_def gm_vals_def gm_len_def gm_keys_def stream_entry_def pending_entry_def comp_def)
next
  assume "\<forall>sid. LogTag (f sid) = LogTag sid"
  then show "Snapshot (w\<lparr>wSessions := map (\<lambda>(sid, ref). (f sid, ref)) (wSessions w)\<rparr>) = Snapshot w"
    by (auto simp: Snapshot_def summarize_def)
qed (simp add: Snapshot_def gm_len_def)

lemma snapshot_complete_and_tagged_witness:
  "length (snSessions (Snapshot sample_relay)) = 1 \<and>
   Snapshot (sample_relay\<lparr>wSessions := map (\<lambda>(sid, ref). (id sid, ref)) (wSessions sample_relay)\<rparr>) = Snapshot sample_relay"
  using snapshot_complete_and_tagged [of sample_relay id] by (simp add: sample_relay_def gm_len_def)

end
