(* ===== verification/Relay.thy ===== *)
theory Relay
  imports Relay_Admin
begin

text \<open>
  relay's connection handlers (\<^verbatim>\<open>internal/relay/relay.go\<close>): the accept loop's admission, the
  dispatch on the connection kind and the handlers of control and data connections, each run
  from its first read to its return. Deadlines are the failing reads and writes of the
  connection; a canceled context closes the connections, which is a failing read too. What the
  handlers of other connections do meanwhile is the subject of \<open>Relay_Steps\<close>.
\<close>

section \<open>Control connections\<close>

text \<open>One turn of the heartbeat loop; the flag says whether the loop goes on.\<close>

definition heartbeat_turn :: "nat \<Rightarrow> world \<Rightarrow> bool \<times> world" where
  "heartbeat_turn k w =
     (case on_net k ReadControlFrame w of
        (Inl e, w1) \<Rightarrow> (False, w1)
      | (Inr (typ, _), w1) \<Rightarrow>
          if typ = ControlPing
          then (case on_net k (WriteControlFrame ControlPong []) w1 of
                  (Inl e, w2) \<Rightarrow> (False, w2)
                | (Inr _, w2) \<Rightarrow> (True, w2))
          else (True, w1))"

lemma ReadControlFrame_shrinks_net:
  "on_net k ReadControlFrame w = (Inr tp, w1) \<Longrightarrow> length (inb (wNet w1 k)) < length (inb (wNet w k))"
proof -
  assume "on_net k ReadControlFrame w = (Inr tp, w1)"
  then have "ReadControlFrame (wNet w k) = (Inr (fst tp, snd tp), wNet w1 k)" by (simp add: on_net_at)
  then show ?thesis by (rule ReadControlFrame_shrinks)
qed

lemma heartbeat_turn_shrinks:
  assumes "heartbeat_turn k w = (True, w')"
  shows "length (inb (wNet w' k)) < length (inb (wNet w k))"
proof -
  obtain tp w1 where r: "on_net k ReadControlFrame w = (Inr tp, w1)"
    using assms by (auto simp: heartbeat_turn_def split: prod.splits sum.splits)
  have "inb (wNet w' k) = inb (wNet w1 k)"
  proof (cases "fst tp = ControlPing")
    case True
    then obtain u where "on_net k (WriteControlFrame ControlPong []) w1 = (Inr u, w')"
      using assms r by (auto simp: heartbeat_turn_def split: prod.splits sum.splits)
    then show ?thesis using on_net_at WriteControlFrame_frame by metis
  next
    case False
    then show ?thesis using assms r by (auto simp: heartbeat_turn_def split: prod.splits)
  qed
  with ReadControlFrame_shrinks_net [OF r] show ?thesis by simp
qed

function runHeartbeatLoop :: "nat \<Rightarrow> world \<Rightarrow> world" where
  "runHeartbeatLoop k w =
     (case heartbeat_turn k w of (go, w1) \<Rightarrow> if go then runHeartbeatLoop k w1 else w1)"
  by pat_completeness auto
termination
  by (relation "measure (\<lambda>(k, w). length (inb (wNet w k)))") (auto dest!: heartbeat_turn_shrinks [OF sym])

declare runHeartbeatLoop.simps [simp del]

definition handleControlConn ::
  "('sk, 'pk) crypto \<Rightarrow> byte list result \<Rightarrow> nat \<Rightarrow> world \<Rightarrow> world" where
  "handleControlConn cr drawn k w =
     tls_close k
       (case on_net k ReadHello w of
          (Inl e, w1) \<Rightarrow> w1
        | (Inr h, w1) \<Rightarrow>
            if hRole h = RolePublish
            then (case Register cr drawn k h w1 of
                    (Inl e, w2) \<Rightarrow> w2
                  | (Inr ref, w2) \<Rightarrow> snd (unregister (hSessionID h) ref (runHeartbeatLoop k w2)))
            else if hRole h = RoleSubscribe
            then (case Subscribe k h w1 of
                    (Inl e, w2) \<Rightarrow> w2
                  | (Inr (sub, ref), w2) \<Rightarrow> release ref sub (runHeartbeatLoop k w2))
            else w1)"

section \<open>Data connections\<close>

definition handleDataConn :: "(bool \<times> nat) list \<Rightarrow> nat \<Rightarrow> world \<Rightarrow> world" where
  "handleDataConn sched k w =
     (case on_net k ReadAttach w of
        (Inl e, w1) \<Rightarrow> tls_close k w1
      | (Inr a, w1) \<Rightarrow>
          if aKind a = AttachSubscriber
          then (case AttachSubscriberData k (aSessionID a) (aPort a) w1 of
                  (Some e, w2) \<Rightarrow> tls_close k w2
                | (None, w2) \<Rightarrow> w2)
          else if aKind a = AttachPublisher
          then (case AttachPublisherData sched (aSessionID a) (aRequestID a) k w1 of
                  (Some e, w2) \<Rightarrow> tls_close k w2
                | (None, w2) \<Rightarrow> w2)
          else tls_close k w1)"

section \<open>Dispatch\<close>

text \<open>
  What a handler gets from outside: the server's policy, the revoked file, the JSON codec, the
  primitives, the challenge drawn for it and the schedule of its splice.
\<close>

record ('sk, 'pk) handler_env =
  heServer :: server
  heFiles :: files
  heJson :: json
  heCrypto :: "('sk, 'pk) crypto"
  heDrawn :: "byte list result"
  heSched :: "(bool \<times> nat) list"

definition handle_kind :: "('sk, 'pk) handler_env \<Rightarrow> conn_kind \<Rightarrow> nat \<Rightarrow> world \<Rightarrow> world" where
  "handle_kind env kind k w =
     (if kind = ConnControl then handleControlConn (heCrypto env) (heDrawn env) k w
      else if kind = ConnData then handleDataConn (heSched env) k w
      else if kind = ConnAdmin
      then (if \<not> svAdmin (heServer env) then tls_close k w
            else handleAdminConn (heServer env) (heFiles env) (heJson env) k w)
      else tls_close k w)"

definition admit :: "nat \<Rightarrow> world \<Rightarrow> bool \<times> world" where
  "admit k w =
     (case peerLeafCert (wNet w k) of
        Inl e \<Rightarrow> (False, w)
      | Inr ct \<Rightarrow>
          (case authenticate (TrackedConn k (csSelf (wConns w))) (serial_text ct) (Some (wRevoked w)) (wConns w) of
             (ok, cs) \<Rightarrow> (ok, w\<lparr>wConns := cs\<rparr>)))"

definition handleConn :: "('sk, 'pk) handler_env \<Rightarrow> nat \<Rightarrow> world \<Rightarrow> world" where
  "handleConn env k w =
     (case on_net k ReadConnKind w of
        (Inl e, w1) \<Rightarrow> tls_close k w1
      | (Inr kind, w1) \<Rightarrow>
          if negotiated (wNet w1 k) \<noteq> ALPN then tls_close k w1
          else case admit k w1 of
                 (False, w2) \<Rightarrow> tls_close k w2
               | (True, w2) \<Rightarrow> handle_kind env kind k w2)"

section \<open>The accept loop\<close>

datatype accept_event = Accepted nat tls_conn | AcceptFailed error

text \<open>A transport over the limit is closed at once; the others get a handler.\<close>

definition accept_one :: "nat \<Rightarrow> tls_conn \<Rightarrow> world \<Rightarrow> bool \<times> world" where
  "accept_one raw c w =
     (let w1 = w\<lparr>wNet := (wNet w)(raw := c)\<rparr>
      in case track raw (wConns w1) of
           (None, cs) \<Rightarrow> (False, close_raw raw (w1\<lparr>wConns := cs\<rparr>))
         | (Some _, cs) \<Rightarrow> (True, w1\<lparr>wConns := cs\<rparr>))"

text \<open>
  \<open>handle\<close> is what the handlers have done by the next \<open>Accept\<close>; \<open>ctxErr\<close> is the context's
  error when \<open>Accept\<close> fails. On the way out every transport is closed.
\<close>

definition close_all :: "world \<Rightarrow> world" where
  "close_all w = (case closeAll (wConns w) of (raws, cs) \<Rightarrow> fold close_raw raws (w\<lparr>wConns := cs\<rparr>))"

fun accept_loop ::
  "(nat \<Rightarrow> world \<Rightarrow> world) \<Rightarrow> error option \<Rightarrow> accept_event list \<Rightarrow> world \<Rightarrow> error option \<times> world" where
  "accept_loop handle ctxErr [] w = (None, w)"
| "accept_loop handle ctxErr (AcceptFailed e # _) w =
     (Some (case ctxErr of Some ce \<Rightarrow> ce | None \<Rightarrow> wrap ''relay: accept'' e), close_all w)"
| "accept_loop handle ctxErr (Accepted raw c # evs) w =
     (case accept_one raw c w of
        (False, w1) \<Rightarrow> accept_loop handle ctxErr evs w1
      | (True, w1) \<Rightarrow> accept_loop handle ctxErr evs (handle raw w1))"

text \<open>
  \<open>Run\<close> up to the accept loop: the first failure ends it; otherwise the relay starts with no
  session, no transport, and the file's serials revoked.
\<close>

record relay_config =
  cfListen :: string
  cfCert :: string
  cfKey :: string
  cfCA :: string
  cfRevoked :: string
  cfAdmin :: bool

definition empty_world :: "revocation_set \<Rightarrow> world" where
  "empty_world revoked =
     \<lparr>wNet = (\<lambda>_. \<lparr>inb = [], inerr = Sentinel EOF, outb = [], wscript = [], shut = True,
                 peerCerts = [], remoteAddr = None, negotiated = []\<rparr>),
      wConns = new_connections 0, wRevoked = revoked,
      wSess = (\<lambda>_. newSession 0 0 0 None \<lparr>cRaw = [], cCN = [], cSerial = 0, cUnknownEKU = []\<rparr> 0),
      wNextSess = 0, wSessions = [], wKilled = [], wNow = 0\<rparr>"

definition Run_start ::
  "files \<Rightarrow> ('kp, 'pool) tls_env \<Rightarrow> (string \<Rightarrow> unit result) \<Rightarrow> relay_config \<Rightarrow>
   (('kp, 'pool) tls_config \<times> server \<times> world) result" where
  "Run_start files env listen cfg =
     (case loadRevokedSerials files (cfRevoked cfg) of
        Inl e \<Rightarrow> Inl (wrap ''relay'' e)
      | Inr serials \<Rightarrow>
          (let revoked = NewRevocationSet serials
           in case LoadConfig env (cfCert cfg) (cfKey cfg) (cfCA cfg) True True of
                Inl e \<Rightarrow> Inl (wrap ''relay'' e)
              | Inr tls \<Rightarrow>
                  (case listen (cfListen cfg) of
                     Inl e \<Rightarrow> Inl (wrap (''relay: listen on '' @ cfListen cfg) e)
                   | Inr _ \<Rightarrow>
                       Inr (tls, \<lparr>svAdmin = cfAdmin cfg, svRevokedFile = cfRevoked cfg\<rparr>, empty_world revoked))))"

definition Run ::
  "files \<Rightarrow> ('kp, 'pool) tls_env \<Rightarrow> (string \<Rightarrow> unit result) \<Rightarrow>
   (server \<Rightarrow> nat \<Rightarrow> world \<Rightarrow> world) \<Rightarrow> error option \<Rightarrow> accept_event list \<Rightarrow> relay_config \<Rightarrow>
   error option \<times> world option" where
  "Run files env listen handle ctxErr evs cfg =
     (case Run_start files env listen cfg of
        Inl e \<Rightarrow> (Some e, None)
      | Inr (tls, srv, w) \<Rightarrow>
          (case accept_loop (handle srv) ctxErr evs w of (err, w') \<Rightarrow> (err, Some w')))"

section \<open>Admission\<close>

lemma admit_True:
  assumes "admit k w = (True, w')"
  shows "\<exists>ct. peerLeafCert (wNet w k) = Inr ct \<and> gm_get (csConns (wConns w)) k \<noteq> None \<and>
    \<not> rev_Contains (wRevoked w) (serial_text ct) \<and>
    w' = w\<lparr>wConns := authenticate_record k (serial_text ct) (wConns w)\<rparr>"
  using assms
  by (auto simp: admit_def authenticate_def authenticate_check_def split: sum.splits prod.splits option.splits if_splits)

lemma admit_False: "admit k w = (False, w') \<Longrightarrow> w' = w"
  by (auto simp: admit_def authenticate_def split: sum.splits prod.splits option.splits)

lemma admit_iff:
  "fst (admit k w) \<longleftrightarrow> (\<exists>ct. peerLeafCert (wNet w k) = Inr ct \<and>
     gm_get (csConns (wConns w)) k \<noteq> None \<and> \<not> rev_Contains (wRevoked w) (serial_text ct))"
  by (auto simp: admit_def authenticate_def authenticate_check_def split: sum.splits prod.splits option.splits if_splits)

text \<open>A peer that relay serves: the protocol agreed on, a tracked transport, no revoked serial.\<close>

definition served :: "nat \<Rightarrow> world \<Rightarrow> bool" where
  "served k w \<longleftrightarrow> negotiated (wNet w k) = ALPN \<and>
     (\<exists>ct. peerLeafCert (wNet w k) = Inr ct \<and> gm_get (csConns (wConns w)) k \<noteq> None \<and>
        \<not> rev_Contains (wRevoked w) (serial_text ct))"

lemma ReadConnKind_net:
  assumes "on_net k ReadConnKind w = (r, w1)"
  shows "outb (wNet w1 k) = outb (wNet w k) \<and> served k w1 = served k w"
proof -
  have "ReadConnKind (wNet w k) = (r, wNet w1 k)" using on_net_at [OF assms] by simp
  from read_msg_frame [OF this [unfolded ReadConnKind_def]] on_net_frame [OF assms]
  show ?thesis using more_peer [of "wNet w1 k" "wNet w k"] by (simp add: served_def)
qed

section \<open>Heartbeats\<close>

lemma heartbeat_loop_frames:
  assumes "inb (wNet w k) = concat (map (\<lambda>(t, p). encodeControl t p) fs)"
    and "\<forall>(t, p) \<in> set fs. length p \<le> maxControlPayload"
    and "\<not> shut (wNet w k)" and "wscript (wNet w k) = []"
  shows "outb (wNet (runHeartbeatLoop k w) k) =
      outb (wNet w k) @ concat (map (\<lambda>(t, p). if t = ControlPing then encodeControl ControlPong [] else []) fs) \<and>
    inb (wNet (runHeartbeatLoop k w) k) = [] \<and> same_registry w (runHeartbeatLoop k w) \<and>
    wSess (runHeartbeatLoop k w) = wSess w \<and> (\<forall>i. i \<noteq> k \<longrightarrow> wNet (runHeartbeatLoop k w) i = wNet w i)"
  using assms
proof (induction fs arbitrary: w)
  case Nil
  have "ReadControlFrame (wNet w k) = (Inl (wrap ''read control frame'' (inerr (wNet w k))), wNet w k)"
    using Nil.prems by (cases "wNet w k") (simp add: ReadControlFrame_def read_full_def go_consts)
  then have "heartbeat_turn k w = (False, w\<lparr>wNet := (wNet w)(k := wNet w k)\<rparr>)"
    by (simp add: heartbeat_turn_def on_net_def)
  then show ?case using Nil.prems by (simp add: runHeartbeatLoop.simps [of k w])
next
  case (Cons f fs)
  obtain t p where f: "f = (t, p)" by (cases f)
  let ?rest = "concat (map (\<lambda>(t, p). encodeControl t p) fs)"
  let ?c = "(wNet w k)\<lparr>inb := ?rest\<rparr>"
  let ?c' = "if t = ControlPing then ?c\<lparr>outb := outb ?c @ encodeControl ControlPong []\<rparr> else ?c"
  have r: "ReadControlFrame (wNet w k) = (Inr (t, p), ?c)"
    using Cons.prems f by (intro ReadControlFrame_encode) simp_all
  have pong: "WriteControlFrame ControlPong [] ?c = (Inr (), ?c\<lparr>outb := outb ?c @ encodeControl ControlPong []\<rparr>)"
    using Cons.prems by (simp add: WriteControlFrame_def write_msg_ok)
  have turn: "heartbeat_turn k w = (True, w\<lparr>wNet := (wNet w)(k := ?c')\<rparr>)"
    using r pong by (simp add: heartbeat_turn_def on_net_def)
  let ?w1 = "w\<lparr>wNet := (wNet w)(k := ?c')\<rparr>"
  have "runHeartbeatLoop k w = runHeartbeatLoop k ?w1"
    by (simp add: runHeartbeatLoop.simps [of k w] turn)
  moreover have "inb (wNet ?w1 k) = ?rest" "\<not> shut (wNet ?w1 k)" "wscript (wNet ?w1 k) = []"
    using Cons.prems by simp_all
  ultimately show ?case
    using Cons.IH [of ?w1] Cons.prems(2) f by (auto simp: same_registry_def)
qed

section \<open>Properties\<close>

text \<open>Closing a connection of which only the kind was read.\<close>

lemma gate_closed:
  assumes "on_net k ReadConnKind w = (r, w1)" and "w2 = w1\<lparr>wConns := cs\<rparr>"
  shows "same_registry w (tls_close k w2) \<and> wSess (tls_close k w2) = wSess w \<and>
      wRevoked (tls_close k w2) = wRevoked w \<and> (\<forall>i. i \<noteq> k \<longrightarrow> wNet (tls_close k w2) i = wNet w i) \<and>
      outb (wNet (tls_close k w2) k) = outb (wNet w k) \<and> shut (wNet (tls_close k w2) k) \<and>
      gm_get (csConns (wConns (tls_close k w2))) k = None"
  using assms(2) ReadConnKind_net [OF assms(1)] on_net_frame [OF assms(1)]
  by (simp add: tls_close_def conn_close_def same_registry_def trackedConn_Close_def gomap_simps)

text \<open>
  C20: Only served peers reach a handler. A connection that sends no valid kind, negotiated another
  protocol, shows no certificate, is not tracked or carries a revoked serial - or that asks
  for the admin plane of a relay that has none - is closed and untracked without a byte
  written, and neither the registry, a session, the revocation set nor another connection
  changes; every other connection is recorded under its serial and handed to the handler of
  its kind.
\<close>

theorem connection_gate:
  fixes env :: "('sk, 'pk) handler_env"
  assumes "on_net k ReadConnKind w = (r, w1)"
  defines "passes \<equiv> \<lambda>kind. served k w \<and> kind \<in> {ConnControl, ConnData, ConnAdmin} \<and> (kind = ConnAdmin \<longrightarrow> svAdmin (heServer env))"
  shows "(case r of
      Inl e \<Rightarrow> handleConn env k w = tls_close k w1
    | Inr kind \<Rightarrow>
        if passes kind
        then (\<exists>ct w2. peerLeafCert (wNet w k) = Inr ct \<and>
                w2 = w1\<lparr>wConns := authenticate_record k (serial_text ct) (wConns w1)\<rparr> \<and>
                handleConn env k w = handle_kind env kind k w2)
        else same_registry w (handleConn env k w) \<and> wSess (handleConn env k w) = wSess w \<and>
          wRevoked (handleConn env k w) = wRevoked w \<and>
          (\<forall>i. i \<noteq> k \<longrightarrow> wNet (handleConn env k w) i = wNet w i) \<and>
          outb (wNet (handleConn env k w) k) = outb (wNet w k) \<and> shut (wNet (handleConn env k w) k) \<and>
          gm_get (csConns (wConns (handleConn env k w))) k = None)"
proof (cases r)
  case (Inl e)
  with assms(1) show ?thesis by (simp add: handleConn_def)
next
  case (Inr kind)
  note net = ReadConnKind_net [OF assms(1)]
  have refused: "?thesis" if "\<not> passes kind" and "handleConn env k w = tls_close k (w1\<lparr>wConns := cs\<rparr>)" for cs
    using that gate_closed [OF assms(1), of "w1\<lparr>wConns := cs\<rparr>" cs] Inr by simp
  show ?thesis
  proof (cases "served k w")
    case False
    then have h: "handleConn env k w = tls_close k w1"
      using Inr assms(1) net admit_iff [of k w1] admit_False [of k w1]
      by (cases "admit k w1") (auto simp: handleConn_def served_def)
    show ?thesis by (rule refused [of "wConns w1"]) (use False h in \<open>simp_all add: passes_def\<close>)
  next
    case True
    then have s1: "served k w1" using net by simp
    then obtain w2 where a: "admit k w1 = (True, w2)"
      using admit_iff [of k w1] by (cases "admit k w1") (auto simp: served_def)
    then obtain ct where ct: "peerLeafCert (wNet w1 k) = Inr ct"
      "w2 = w1\<lparr>wConns := authenticate_record k (serial_text ct) (wConns w1)\<rparr>"
      using admit_True [OF a] by blast
    have h: "handleConn env k w = handle_kind env kind k w2"
      using Inr assms(1) s1 a by (simp add: handleConn_def served_def)
    have "peerLeafCert (wNet w k) = Inr ct"
      using ct(1) more_peer [of "wNet w1 k" "wNet w k"] on_net_at [OF assms(1)]
        read_msg_frame [of "''read conn kind''" 1 decodeConnKind "wNet w k" r "wNet w1 k"]
      by (simp add: ReadConnKind_def)
    moreover have "?thesis" if "\<not> passes kind"
    proof (rule refused [OF that])
      show "handleConn env k w = tls_close k (w1\<lparr>wConns := wConns w2\<rparr>)"
        using that True h ct(2) by (auto simp: passes_def handle_kind_def go_consts)
    qed
    ultimately show ?thesis using Inr h ct(2) by auto
  qed
qed

definition sample_env :: "(byte, byte) handler_env" where
  "sample_env = \<lparr>heServer = \<lparr>svAdmin = False, svRevokedFile = []\<rparr>, heFiles = (\<lambda>_. Inl (Fault 0)),
     heJson = sample_json, heCrypto = sample_crypto, heDrawn = Inr (replicate 32 1), heSched = []\<rparr>"

lemma connection_gate_witness:
  "let w = sample_tracked\<lparr>wNet := sample_net(10 := sample_tls 1 [ConnAdmin, 1])\<rparr>; w' = handleConn sample_env 10 w
   in served 10 w \<and> shut (wNet w' 10) \<and> outb (wNet w' 10) = [] \<and> wNet w' 20 = wNet w 20"
proof -
  let ?w = "sample_tracked\<lparr>wNet := sample_net(10 := sample_tls 1 [ConnAdmin, 1])\<rparr>"
  obtain w1 where r: "on_net 10 ReadConnKind ?w = (Inr ConnAdmin, w1)"
    by (simp add: on_net_def ReadConnKind_def read_msg_ok [of _ "[ConnAdmin]" "[1]"] decodeConnKind_def
        validConnKind_def sample_tls_def)
  have "served 10 ?w"
    by (simp add: served_def sample_tls_def peerLeafCert_def sample_tracked_def gm_get_def sample_relay_def rev_Contains_def)
  moreover have "shut (wNet (handleConn sample_env 10 ?w) 10) \<and> outb (wNet (handleConn sample_env 10 ?w) 10) = [] \<and>
      wNet (handleConn sample_env 10 ?w) 20 = wNet ?w 20"
    using connection_gate [OF r, of sample_env] by (simp add: sample_env_def sample_tls_def)
  ultimately show ?thesis by (simp add: Let_def)
qed

text \<open>
  C21: The heartbeat loop ends and answers every ping. On any sequence of control frames
  followed by the end of the stream, with a writer that does not fail, the loop returns after
  reading all of them and has written one pong per ping, in order, and nothing else; it
  touches no other connection, no session and not the registry.
\<close>

theorem heartbeats_answered:
  assumes "inb (wNet w k) = concat (map (\<lambda>(t, p). encodeControl t p) fs)"
    and "\<forall>(t, p) \<in> set fs. length p \<le> maxControlPayload"
    and "\<not> shut (wNet w k)" and "wscript (wNet w k) = []"
  shows "outb (wNet (runHeartbeatLoop k w) k) =
      outb (wNet w k) @ concat (replicate (length (filter (\<lambda>f. fst f = ControlPing) fs)) (encodeControl ControlPong [])) \<and>
    inb (wNet (runHeartbeatLoop k w) k) = [] \<and> same_registry w (runHeartbeatLoop k w) \<and>
    wSess (runHeartbeatLoop k w) = wSess w \<and> (\<forall>i. i \<noteq> k \<longrightarrow> wNet (runHeartbeatLoop k w) i = wNet w i)"
proof -
  have "concat (map (\<lambda>(t, p). if t = ControlPing then encodeControl ControlPong [] else []) fs) =
      concat (replicate (length (filter (\<lambda>f. fst f = ControlPing) fs)) (encodeControl ControlPong []))"
    by (induction fs) auto
  then show ?thesis using heartbeat_loop_frames [OF assms] by simp
qed

lemma heartbeats_answered_witness:
  "outb (wNet (runHeartbeatLoop 10 (sample_relay\<lparr>wNet := sample_net(10 := sample_tls 1
     (encodeControl ControlPing [] @ encodeControl 9 [1] @ encodeControl ControlPing []))\<rparr>)) 10) =
   encodeControl ControlPong [] @ encodeControl ControlPong []"
  using heartbeats_answered [of "sample_relay\<lparr>wNet := sample_net(10 := sample_tls 1
     (encodeControl ControlPing [] @ encodeControl 9 [1] @ encodeControl ControlPing []))\<rparr>" 10
     "[(ControlPing, []), (9, [1]), (ControlPing, [])]"]
  by (simp add: sample_tls_def go_consts)

end
