(* ===== verification/Relay_Steps.thy ===== *)
theory Relay_Steps
  imports Relay
begin

text \<open>
  All handlers of a relay together. A state is the relay's world and, per connection, what its
  handler still has to give back: a slot of the registry, a session to shut down, a subscriber
  or a stream to take out of its session. The steps are the critical sections of the registry
  and of the sessions, and network I/O; handlers interleave between any two of them. The
  handlers of \<open>Relay\<close> are shown to be sequences of these steps that give everything back.
\<close>

section \<open>Steps\<close>

datatype phase =
    Idle
  | Owning session_id nat
  | Shutting nat
  | Attached nat subscriber_id
  | Streaming nat u64

record relay_state =
  rlWorld :: world
  rlPhase :: "nat \<Rightarrow> phase"

definition set_sess :: "nat \<Rightarrow> session \<Rightarrow> world \<Rightarrow> world" where
  "set_sess ref s w = w\<lparr>wSess := (wSess w)(ref := s)\<rparr>"

text \<open>Events of a session that leave its subscribers, its streams and its being open alone.\<close>

fun quiet :: "sess_event \<Rightarrow> bool" where
  "quiet (Requested rid k) = True"
| "quiet (Claimed rid k) = True"
| "quiet (Expired rid r) = True"
| "quiet Refused = True"
| "quiet _ = False"

inductive relay_step :: "relay_state \<Rightarrow> relay_state \<Rightarrow> bool" where
  claim: "ph k = Idle \<Longrightarrow> ReadHello (c :: tls_conn) = (Inr h, c') \<Longrightarrow> reg_claim_slot k h ct w = (Inr ref, w') \<Longrightarrow>
    relay_step \<lparr>rlWorld = w, rlPhase = ph\<rparr> \<lparr>rlWorld = w', rlPhase = ph(k := Owning (hSessionID h) ref)\<rparr>"
| drop: "ph k = Owning sid ref \<Longrightarrow>
    relay_step \<lparr>rlWorld = w, rlPhase = ph\<rparr> \<lparr>rlWorld = reg_delete sid w, rlPhase = ph(k := Shutting ref)\<rparr>"
| kill: "ph k = Idle \<Longrightarrow> kill_pick tag w = (Inr (sid, ref), w') \<Longrightarrow>
    relay_step \<lparr>rlWorld = w, rlPhase = ph\<rparr> \<lparr>rlWorld = w', rlPhase = ph(k := Shutting ref)\<rparr>"
| shut: "ph k = Shutting ref \<Longrightarrow>
    relay_step \<lparr>rlWorld = w, rlPhase = ph\<rparr>
      \<lparr>rlWorld = set_sess ref (snd (beginShutdown (wSess w ref))) w, rlPhase = ph(k := Idle)\<rparr>"
| join: "ph k = Idle \<Longrightarrow> ref < wNextSess w \<Longrightarrow> sess_step (wSess w ref) (Joined sub k) s' \<Longrightarrow>
    relay_step \<lparr>rlWorld = w, rlPhase = ph\<rparr> \<lparr>rlWorld = set_sess ref s' w, rlPhase = ph(k := Attached ref sub)\<rparr>"
| leave: "ph k = Attached ref sub \<Longrightarrow>
    relay_step \<lparr>rlWorld = w, rlPhase = ph\<rparr> \<lparr>rlWorld = release ref sub w, rlPhase = ph(k := Idle)\<rparr>"
| stream: "ph k = Idle \<Longrightarrow> ref < wNextSess w \<Longrightarrow> sess_step (wSess w ref) (StreamOn rid) s' \<Longrightarrow>
    relay_step \<lparr>rlWorld = w, rlPhase = ph\<rparr> \<lparr>rlWorld = set_sess ref s' w, rlPhase = ph(k := Streaming ref rid)\<rparr>"
| unstream: "ph k = Streaming ref rid \<Longrightarrow>
    relay_step \<lparr>rlWorld = w, rlPhase = ph\<rparr> \<lparr>rlWorld = do_sess ref (removeStream rid) w, rlPhase = ph(k := Idle)\<rparr>"
| request: "ref < wNextSess w \<Longrightarrow> sMode (wSess w ref) = ModeTCP \<Longrightarrow> port < sPorts (wSess w ref) \<Longrightarrow>
    sNextReqID (wSess w ref) \<noteq> - 1 \<Longrightarrow> addPending conn (tc :: tls_conn option) port now (wSess w ref) = (Some rid, s') \<Longrightarrow>
    relay_step \<lparr>rlWorld = w, rlPhase = ph\<rparr> \<lparr>rlWorld = set_sess ref s' w, rlPhase = ph\<rparr>"
| touch: "ref < wNextSess w \<Longrightarrow> sess_step (wSess w ref) e s' \<Longrightarrow> quiet e \<Longrightarrow> requested e = [] \<Longrightarrow>
    relay_step \<lparr>rlWorld = w, rlPhase = ph\<rparr> \<lparr>rlWorld = set_sess ref s' w, rlPhase = ph\<rparr>"
| io: "same_registry w w' \<Longrightarrow> wSess w' = wSess w \<Longrightarrow>
    relay_step \<lparr>rlWorld = w, rlPhase = ph\<rparr> \<lparr>rlWorld = w', rlPhase = ph\<rparr>"

inductive relay_steps :: "relay_state \<Rightarrow> relay_state \<Rightarrow> bool" where
  none: "relay_steps s s"
| more: "relay_steps s t \<Longrightarrow> relay_step t u \<Longrightarrow> relay_steps s u"

definition relay_init :: "world \<Rightarrow> relay_state" where
  "relay_init w = \<lparr>rlWorld = (NewRegistry w)\<lparr>wNextSess := 0\<rparr>, rlPhase = (\<lambda>_. Idle)\<rparr>"

inductive_cases relay_stepE: "relay_step s t"

section \<open>The invariant\<close>

text \<open>
  What is registered has its publisher's handler; what is open has a handler that will close
  it; what is listed in a session has the handler that will take it out.
\<close>

definition slots_owned :: "relay_state \<Rightarrow> bool" where
  "slots_owned s \<longleftrightarrow> gm_wf (wSessions (rlWorld s)) \<and>
     (\<forall>sid ref. gm_get (wSessions (rlWorld s)) sid = Some ref \<longrightarrow>
        ref < wNextSess (rlWorld s) \<and> (\<exists>k. rlPhase s k = Owning sid ref))"

definition sessions_sound :: "relay_state \<Rightarrow> bool" where
  "sessions_sound s \<longleftrightarrow> (\<forall>ref < wNextSess (rlWorld s). sess_inv (wSess (rlWorld s) ref))"

definition open_attended :: "relay_state \<Rightarrow> bool" where
  "open_attended s \<longleftrightarrow>
     (\<forall>ref < wNextSess (rlWorld s). \<not> sClosed (wSess (rlWorld s) ref) \<longrightarrow>
        (\<exists>k. rlPhase s k = Shutting ref \<or> (\<exists>sid. rlPhase s k = Owning sid ref)))"

definition members_attended :: "relay_state \<Rightarrow> bool" where
  "members_attended s \<longleftrightarrow>
     (\<forall>ref < wNextSess (rlWorld s).
        (\<forall>sub sc. gm_get (sSubscribers (wSess (rlWorld s) ref)) sub = Some sc \<longrightarrow>
           rlPhase s (scControl sc) = Attached ref sub) \<and>
        (\<forall>rid. gm_has (sStreams (wSess (rlWorld s) ref)) rid \<longrightarrow> (\<exists>k. rlPhase s k = Streaming ref rid)))"

fun phase_ref :: "phase \<Rightarrow> nat option" where
  "phase_ref Idle = None"
| "phase_ref (Owning sid ref) = Some ref"
| "phase_ref (Shutting ref) = Some ref"
| "phase_ref (Attached ref sub) = Some ref"
| "phase_ref (Streaming ref rid) = Some ref"

definition phases_bound :: "relay_state \<Rightarrow> bool" where
  "phases_bound s \<longleftrightarrow> (\<forall>k ref. phase_ref (rlPhase s k) = Some ref \<longrightarrow> ref < wNextSess (rlWorld s))"

definition relay_inv :: "relay_state \<Rightarrow> bool" where
  "relay_inv s \<longleftrightarrow> phases_bound s \<and> slots_owned s \<and> sessions_sound s \<and> open_attended s \<and> members_attended s"

lemmas relay_inv_defs = relay_inv_def phases_bound_def slots_owned_def sessions_sound_def open_attended_def members_attended_def

lemma relay_inv_ref: "relay_inv s \<Longrightarrow> phase_ref (rlPhase s k) = Some ref \<Longrightarrow> ref < wNextSess (rlWorld s)"
  by (simp add: relay_inv_def phases_bound_def)

lemma set_sess_simps [simp]:
  "wSessions (set_sess ref s w) = wSessions w" "wNextSess (set_sess ref s w) = wNextSess w"
  "wKilled (set_sess ref s w) = wKilled w" "wNet (set_sess ref s w) = wNet w"
  "wSess (set_sess ref s w) i = (if i = ref then s else wSess w i)"
  by (simp_all add: set_sess_def)

lemma do_sess_set: "do_sess ref f w = set_sess ref (f (wSess w ref)) w"
  by (simp add: do_sess_def set_sess_def)

lemma set_sess_same [simp]: "set_sess ref (wSess w ref) w = w"
  by (simp add: set_sess_def)

section \<open>Effects of session events\<close>

lemma quiet_fields:
  assumes "sess_step s e s'" and "quiet e"
  shows "sSubscribers s' = sSubscribers s \<and> sStreams s' = sStreams s \<and> sClosed s' = sClosed s"
  using assms
  by (cases rule: sess_step.cases)
    (auto dest!: addPending_Some addSubscriber_None addPending_None claimPending_None
      simp: claimPending_def removePending_def addStream_def removeSubscriber_def
      split: option.split_asm if_split_asm option.split)

lemma joined_fields:
  assumes "sess_step s (Joined sub k) s'"
  shows "\<exists>sc. scControl sc = k \<and> sSubscribers s' = gm_set sub sc (sSubscribers s) \<and>
    sStreams s' = sStreams s \<and> sClosed s' = sClosed s \<and> \<not> sClosed s"
proof -
  obtain c now where a: "addSubscriber k (c :: tls_conn) now s = (Some sub, s')"
    using assms unfolding sess_step_joined by auto
  then obtain ct where ct: "peerLeafCert c = Inr ct" by (cases "peerLeafCert c") (auto simp: addSubscriber_def)
  let ?sc = "\<lparr>scControl = k, scCertKey = cRaw ct, scPeer = identityOf (Some ct) (remoteAddr c), scSince = now\<rparr>"
  show ?thesis using a ct by (intro exI [of _ ?sc]) (auto simp: addSubscriber_def Let_def split: if_split_asm)
qed

lemma stream_fields:
  assumes "sess_step s (StreamOn rid) s'"
  shows "\<exists>str. sStreams s' = gm_set rid str (sStreams s) \<and> sSubscribers s' = sSubscribers s \<and>
    sClosed s' = sClosed s"
  using assms by (cases rule: sess_step.cases) (auto simp: addStream_def split: if_split_asm)

lemma shutdown_fields:
  "sSubscribers (snd (beginShutdown s)) = sSubscribers s \<and> sStreams (snd (beginShutdown s)) = sStreams s \<and>
   sClosed (snd (beginShutdown s))"
  by (simp add: beginShutdown_def)

lemma remove_fields:
  "gm_get (sSubscribers (removeSubscriber sub s)) x = (if x = sub then None else gm_get (sSubscribers s) x) \<and>
   sStreams (removeSubscriber sub s) = sStreams s \<and> sClosed (removeSubscriber sub s) = sClosed s"
  by (auto simp: removeSubscriber_def Let_def gomap_simps split: option.split)

section \<open>Preservation\<close>

text \<open>
  A step on one session whose subscribers and streams do not change and which opens nothing, by a
  handler whose phase does not matter to what is listed.
\<close>

lemma relay_inv_session:
  assumes "relay_inv \<lparr>rlWorld = w, rlPhase = ph\<rparr>" and "ref < wNextSess w" and "sess_inv s'"
    and "sClosed (wSess w ref) \<longrightarrow> sClosed s'"
    and "\<And>i. i \<noteq> k \<Longrightarrow> ph' i = ph i" and "\<And>sid r. ph k \<noteq> Owning sid r" and "\<And>sid r. ph' k \<noteq> Owning sid r"
    and "ph k = Shutting ref \<longrightarrow> sClosed s'" and "\<And>r. ph k = Shutting r \<Longrightarrow> r = ref"
    and "\<And>r x sc. r \<noteq> ref \<Longrightarrow> ph k \<noteq> Attached r x" and "\<And>r x. r \<noteq> ref \<Longrightarrow> ph k \<noteq> Streaming r x"
    and "\<And>x sc. gm_get (sSubscribers s') x = Some sc \<Longrightarrow>
      scControl sc = k \<and> ph' k = Attached ref x \<or>
      scControl sc \<noteq> k \<and> gm_get (sSubscribers (wSess w ref)) x = Some sc"
    and "\<And>r. phase_ref (ph' k) = Some r \<Longrightarrow> r = ref"
    and "\<And>x. gm_has (sStreams s') x \<Longrightarrow>
      ph' k = Streaming ref x \<or> ph k \<noteq> Streaming ref x \<and> gm_has (sStreams (wSess w ref)) x"
  shows "relay_inv \<lparr>rlWorld = set_sess ref s' w, rlPhase = ph'\<rparr>"
proof -
  have i: "slots_owned \<lparr>rlWorld = w, rlPhase = ph\<rparr>" "sessions_sound \<lparr>rlWorld = w, rlPhase = ph\<rparr>"
    "open_attended \<lparr>rlWorld = w, rlPhase = ph\<rparr>" "members_attended \<lparr>rlWorld = w, rlPhase = ph\<rparr>"
    "phases_bound \<lparr>rlWorld = w, rlPhase = ph\<rparr>"
    using assms(1) by (simp_all add: relay_inv_def)
  have own: "ph j = Owning sid r \<longleftrightarrow> ph' j = Owning sid r" for j sid r
    using assms(5-7) by (cases "j = k") auto
  have "phases_bound \<lparr>rlWorld = set_sess ref s' w, rlPhase = ph'\<rparr>"
    unfolding phases_bound_def
  proof (intro allI impI)
    fix j r assume "phase_ref (rlPhase \<lparr>rlWorld = set_sess ref s' w, rlPhase = ph'\<rparr> j) = Some r"
    then show "r < wNextSess (rlWorld \<lparr>rlWorld = set_sess ref s' w, rlPhase = ph'\<rparr>)"
      using i(5) assms(2,5,13) by (cases "j = k") (auto simp: phases_bound_def)
  qed
  moreover have "slots_owned \<lparr>rlWorld = set_sess ref s' w, rlPhase = ph'\<rparr>"
    using i(1) own by (auto simp: slots_owned_def)
  moreover have "sessions_sound \<lparr>rlWorld = set_sess ref s' w, rlPhase = ph'\<rparr>"
    using i(2) assms(3) by (auto simp: sessions_sound_def)
  moreover have "open_attended \<lparr>rlWorld = set_sess ref s' w, rlPhase = ph'\<rparr>"
    unfolding open_attended_def
  proof (intro allI impI)
    fix r assume r: "r < wNextSess (rlWorld \<lparr>rlWorld = set_sess ref s' w, rlPhase = ph'\<rparr>)"
      "\<not> sClosed (wSess (rlWorld \<lparr>rlWorld = set_sess ref s' w, rlPhase = ph'\<rparr>) r)"
    then have "\<not> sClosed (wSess w r)" using assms(4) by (auto split: if_splits)
    then obtain j where j: "ph j = Shutting r \<or> (\<exists>sid. ph j = Owning sid r)"
      using i(3) r(1) unfolding open_attended_def by simp blast
    moreover have "ph' j = Shutting r" if "ph j = Shutting r"
    proof (cases "j = k")
      case True
      with that assms(8,9) r(2) show ?thesis by auto
    qed (use that assms(5) in simp)
    ultimately show "\<exists>k. rlPhase \<lparr>rlWorld = set_sess ref s' w, rlPhase = ph'\<rparr> k = Shutting r \<or>
        (\<exists>sid. rlPhase \<lparr>rlWorld = set_sess ref s' w, rlPhase = ph'\<rparr> k = Owning sid r)"
      using own by auto
  qed
  moreover have "members_attended \<lparr>rlWorld = set_sess ref s' w, rlPhase = ph'\<rparr>"
    unfolding members_attended_def
  proof (intro allI impI conjI)
    fix r x sc assume r: "r < wNextSess (rlWorld \<lparr>rlWorld = set_sess ref s' w, rlPhase = ph'\<rparr>)"
      and g: "gm_get (sSubscribers (wSess (rlWorld \<lparr>rlWorld = set_sess ref s' w, rlPhase = ph'\<rparr>) r)) x = Some sc"
    have at: "gm_get (sSubscribers (wSess w r)) x = Some sc \<Longrightarrow> ph (scControl sc) = Attached r x"
      using i(4) r by (auto simp: members_attended_def)
    show "rlPhase \<lparr>rlWorld = set_sess ref s' w, rlPhase = ph'\<rparr> (scControl sc) = Attached r x"
    proof (cases "r = ref")
      case True
      with g assms(12) [of x sc] at assms(5) show ?thesis by auto
    next
      case False
      with g at assms(10) [of r x] assms(5) show ?thesis by (cases "scControl sc = k") auto
    qed
  next
    fix r x assume r: "r < wNextSess (rlWorld \<lparr>rlWorld = set_sess ref s' w, rlPhase = ph'\<rparr>)"
      and g: "gm_has (sStreams (wSess (rlWorld \<lparr>rlWorld = set_sess ref s' w, rlPhase = ph'\<rparr>) r)) x"
    have at: "gm_has (sStreams (wSess w r)) x \<Longrightarrow> \<exists>j. ph j = Streaming r x"
      using i(4) r by (auto simp: members_attended_def)
    show "\<exists>j. rlPhase \<lparr>rlWorld = set_sess ref s' w, rlPhase = ph'\<rparr> j = Streaming r x"
    proof (cases "r = ref \<and> ph' k = Streaming ref x")
      case False
      then have "gm_has (sStreams (wSess w r)) x \<and> ph k \<noteq> Streaming r x"
        using g assms(11,14) by (cases "r = ref") auto
      then obtain j where "ph j = Streaming r x" "j \<noteq> k" using at by auto
      then show ?thesis using assms(5) by (intro exI [of _ j]) simp
    qed auto
  qed
  ultimately show ?thesis by (simp add: relay_inv_def)
qed

text \<open>A step on the registry alone, after which handler \<open>k\<close> has to shut a session down.\<close>

lemma relay_inv_registry:
  assumes "relay_inv \<lparr>rlWorld = w, rlPhase = ph\<rparr>" and "wSess w' = wSess w" and "wNextSess w' = wNextSess w"
    and "gm_wf (wSessions w')"
    and "\<And>sid r. gm_get (wSessions w') sid = Some r \<Longrightarrow> gm_get (wSessions w) sid = Some r \<and> ph k \<noteq> Owning sid r"
    and "ph k = Idle \<or> (\<exists>sid. ph k = Owning sid ref)" and "ref < wNextSess w"
  shows "relay_inv \<lparr>rlWorld = w', rlPhase = ph(k := Shutting ref)\<rparr>"
proof -
  let ?t = "\<lparr>rlWorld = w', rlPhase = ph(k := Shutting ref)\<rparr>"
  have i: "slots_owned \<lparr>rlWorld = w, rlPhase = ph\<rparr>" "sessions_sound \<lparr>rlWorld = w, rlPhase = ph\<rparr>"
    "open_attended \<lparr>rlWorld = w, rlPhase = ph\<rparr>" "members_attended \<lparr>rlWorld = w, rlPhase = ph\<rparr>"
    "phases_bound \<lparr>rlWorld = w, rlPhase = ph\<rparr>"
    using assms(1) by (simp_all add: relay_inv_def)
  have "r < wNextSess w' \<and> (\<exists>j. (ph(k := Shutting ref)) j = Owning sid r)"
    if "gm_get (wSessions w') sid = Some r" for sid r
  proof -
    from assms(5) [OF that] i(1) obtain j where "ph j = Owning sid r" "r < wNextSess w" "j \<noteq> k"
      unfolding slots_owned_def by force
    then show ?thesis using assms(3) by (intro conjI exI [of _ j]) simp_all
  qed
  then have "slots_owned ?t" using assms(4) by (simp add: slots_owned_def)
  moreover have "phases_bound ?t" using i(5) assms(3,7) by (simp add: phases_bound_def)
  moreover have "sessions_sound ?t" using i(2) assms(2,3) by (simp add: sessions_sound_def)
  moreover have "\<exists>j. (ph(k := Shutting ref)) j = Shutting r \<or> (\<exists>sid. (ph(k := Shutting ref)) j = Owning sid r)"
    if r: "r < wNextSess w" "\<not> sClosed (wSess w r)" for r
  proof -
    obtain j where j: "ph j = Shutting r \<or> (\<exists>sid. ph j = Owning sid r)"
      using i(3) r unfolding open_attended_def by simp blast
    show ?thesis
    proof (cases "j = k")
      case True
      with j assms(6) have "r = ref" by auto
      then show ?thesis by (intro exI [of _ k]) simp
    next
      case False
      with j show ?thesis by (intro exI [of _ j]) simp
    qed
  qed
  then have "open_attended ?t" using assms(2,3) by (simp add: open_attended_def)
  moreover have "members_attended ?t"
    unfolding members_attended_def
  proof (intro allI impI conjI)
    fix r x sc assume r: "r < wNextSess (rlWorld ?t)" and g: "gm_get (sSubscribers (wSess (rlWorld ?t) r)) x = Some sc"
    then have "ph (scControl sc) = Attached r x" using i(4) assms(2,3) by (simp add: members_attended_def)
    with assms(6) show "rlPhase ?t (scControl sc) = Attached r x" by (cases "scControl sc = k") auto
  next
    fix r x assume r: "r < wNextSess (rlWorld ?t)" and g: "gm_has (sStreams (wSess (rlWorld ?t) r)) x"
    then have "r < wNextSess w" "gm_has (sStreams (wSess w r)) x" using assms(2,3) by simp_all
    then obtain j where j: "ph j = Streaming r x" using i(4) unfolding members_attended_def by simp blast
    with assms(6) have "j \<noteq> k" by auto
    with j show "\<exists>j. rlPhase ?t j = Streaming r x" by (intro exI [of _ j]) simp
  qed
  ultimately show ?thesis by (simp add: relay_inv_def)
qed

text \<open>A new session, owned by the handler that registered it.\<close>

lemma relay_inv_claim:
  assumes "relay_inv \<lparr>rlWorld = w, rlPhase = ph\<rparr>" and "ph k = Idle"
    and "reg_claim_slot k h ct w = (Inr ref, w')"
  shows "relay_inv \<lparr>rlWorld = w', rlPhase = ph(k := Owning (hSessionID h) ref)\<rparr>"
proof -
  let ?ph = "ph(k := Owning (hSessionID h) ref)"
  let ?t = "\<lparr>rlWorld = w', rlPhase = ?ph\<rparr>"
  let ?new = "newSession (hMode h) (hPorts h) k (remoteAddr (wNet w k)) ct (wNow w)"
  have i: "slots_owned \<lparr>rlWorld = w, rlPhase = ph\<rparr>" "sessions_sound \<lparr>rlWorld = w, rlPhase = ph\<rparr>"
    "open_attended \<lparr>rlWorld = w, rlPhase = ph\<rparr>" "members_attended \<lparr>rlWorld = w, rlPhase = ph\<rparr>"
    "phases_bound \<lparr>rlWorld = w, rlPhase = ph\<rparr>"
    using assms(1) by (simp_all add: relay_inv_def)
  have c: "ref = wNextSess w" "wNextSess w' = Suc (wNextSess w)" "wSess w' = (wSess w)(ref := ?new)"
    "wSessions w' = gm_set (hSessionID h) ref (wSessions w)"
    using reg_claim_slot_Inr [OF assms(3)] by auto
  have keep: "\<exists>j. ?ph j = p" if "ph j = p" "p \<noteq> Idle" for j p
    using that assms(2) by (intro exI [of _ j]) auto
  have "r < Suc (wNextSess w) \<and> (\<exists>j. ?ph j = Owning sid r)" if "gm_get (wSessions w') sid = Some r" for sid r
  proof (cases "sid = hSessionID h")
    case True
    with that c have "r = ref" by (simp add: gomap_simps)
    with True c(1) show ?thesis by (intro conjI exI [of _ k]) simp_all
  next
    case False
    with that c have "gm_get (wSessions w) sid = Some r" by (simp add: gomap_simps)
    then obtain j where "ph j = Owning sid r" "r < wNextSess w" using i(1) unfolding slots_owned_def by force
    then show ?thesis using keep [of j] by simp
  qed
  then have "slots_owned ?t" using i(1) c by (simp add: slots_owned_def)
  moreover have "phases_bound ?t" using i(5) c(1,2) by (auto simp: phases_bound_def less_Suc_eq)
  moreover have "sessions_sound ?t" using i(2) c newSession_inv by (simp add: sessions_sound_def less_Suc_eq)
  moreover have "\<exists>j. ?ph j = Shutting r \<or> (\<exists>sid. ?ph j = Owning sid r)"
    if o: "r < Suc (wNextSess w)" "\<not> sClosed (wSess w' r)" for r
  proof (cases "r = ref")
    case True
    then show ?thesis by (intro exI [of _ k]) simp
  next
    case False
    with o c have "r < wNextSess w" "\<not> sClosed (wSess w r)" by simp_all
    then obtain j where "ph j = Shutting r \<or> (\<exists>sid. ph j = Owning sid r)"
      using i(3) unfolding open_attended_def by simp blast
    moreover from this have "j \<noteq> k" using assms(2) by auto
    ultimately show ?thesis by (intro exI [of _ j]) simp
  qed
  then have "open_attended ?t" using c(2) by (simp add: open_attended_def)
  moreover have "members_attended ?t"
    unfolding members_attended_def
  proof (intro allI impI conjI)
    fix r x sc assume r: "r < wNextSess (rlWorld ?t)" and g: "gm_get (sSubscribers (wSess (rlWorld ?t) r)) x = Some sc"
    then have "r \<noteq> ref" using c(3) by (auto simp: newSession_def)
    with r g c have "ph (scControl sc) = Attached r x" using i(4) by (simp add: members_attended_def)
    with assms(2) show "rlPhase ?t (scControl sc) = Attached r x" by (cases "scControl sc = k") auto
  next
    fix r x assume r: "r < wNextSess (rlWorld ?t)" and g: "gm_has (sStreams (wSess (rlWorld ?t) r)) x"
    then have "r \<noteq> ref" using c(3) by (auto simp: newSession_def)
    with r g c have "r < wNextSess w" "gm_has (sStreams (wSess w r)) x" by simp_all
    then obtain j where "ph j = Streaming r x" using i(4) unfolding members_attended_def by simp blast
    then show "\<exists>j. rlPhase ?t j = Streaming r x" using keep [of j] by simp
  qed
  ultimately show ?thesis by (simp add: relay_inv_def)
qed

text \<open>An event that leaves subscribers and streams alone.\<close>

lemma relay_inv_quiet:
  assumes "relay_inv \<lparr>rlWorld = w, rlPhase = ph\<rparr>" and "ref < wNextSess w" and "sess_step (wSess w ref) e s'" and "quiet e"
  shows "relay_inv \<lparr>rlWorld = set_sess ref s' w, rlPhase = ph\<rparr>"
proof -
  have "sess_inv s'" using assms(1-3) sess_step_inv by (auto simp: relay_inv_defs)
  then show ?thesis using assms(1,2) quiet_fields [OF assms(3,4)] by (auto simp: relay_inv_defs)
qed

lemma relay_inv_step:
  assumes "relay_step s t" and "relay_inv s"
  shows "relay_inv t"
  using assms
proof (cases rule: relay_step.cases)
  case (claim ph k c h c' ct w ref w')
  then show ?thesis using relay_inv_claim assms(2) by simp
next
  case (drop ph k sid ref w)
  have "ref < wNextSess w" using relay_inv_ref [of s k ref] assms(2) drop(3) by (simp add: drop(1))
  then show ?thesis unfolding drop(2)
    by (intro relay_inv_registry [of w])
      (use assms(2) drop in \<open>auto simp: reg_delete_def gomap_simps relay_inv_def slots_owned_def split: if_splits\<close>)
next
  case (kill ph k tag w sid ref w')
  have p: "gm_get (wSessions w) sid = Some ref"
    "w' = w\<lparr>wKilled := gm_set sid () (wKilled w), wSessions := gm_del sid (wSessions w)\<rparr>"
    using kill_pick_Inr [OF kill(4)] assms(2) kill(1) by (auto simp: relay_inv_def slots_owned_def gm_in_set)
  then have "ref < wNextSess w" using assms(2) by (auto simp: kill(1) relay_inv_def slots_owned_def)
  then show ?thesis unfolding kill(2)
    by (intro relay_inv_registry [of w])
      (use assms(2) kill p in \<open>auto simp: gomap_simps relay_inv_def slots_owned_def split: if_splits\<close>)
next
  case (shut ph k ref w)
  have i: "relay_inv \<lparr>rlWorld = w, rlPhase = ph\<rparr>" using assms(2) shut by simp
  then have ref: "ref < wNextSess w" "sess_inv (wSess w ref)"
    using relay_inv_ref [OF i, of k ref] shut(3) by (auto simp: relay_inv_def sessions_sound_def)
  have a: "\<And>x sc. gm_get (sSubscribers (wSess w ref)) x = Some sc \<Longrightarrow> ph (scControl sc) = Attached ref x"
    using i ref(1) by (simp add: relay_inv_defs)
  have "sess_inv (snd (beginShutdown (wSess w ref)))"
    using beginShutdown_inv [OF prod.collapse [symmetric] ref(2)] .
  with ref shut(3) a show ?thesis unfolding shut(2)
    by (intro relay_inv_session [OF i, where k = k]) (auto simp: shutdown_fields)
next
  case (join ph k ref w sub s')
  have i: "relay_inv \<lparr>rlWorld = w, rlPhase = ph\<rparr>" using assms(2) join by simp
  then have inv: "sess_inv (wSess w ref)" using join(4) by (auto simp: relay_inv_defs)
  have a: "\<And>x sc. gm_get (sSubscribers (wSess w ref)) x = Some sc \<Longrightarrow> ph (scControl sc) = Attached ref x"
    using i join(4) by (simp add: relay_inv_defs)
  obtain sc where sc: "scControl sc = k" "sSubscribers s' = gm_set sub sc (sSubscribers (wSess w ref))"
    "sStreams s' = sStreams (wSess w ref)" "sClosed s' = sClosed (wSess w ref)" using joined_fields [OF join(5)] by blast
  show ?thesis unfolding join(2)
    by (intro relay_inv_session [OF i join(4) sess_step_inv [OF join(5) inv], where k = k])
      (use join(3) sc a in \<open>force simp: gomap_simps split: if_splits\<close>)+
next
  case (leave ph k ref sub w)
  have i: "relay_inv \<lparr>rlWorld = w, rlPhase = ph\<rparr>" using assms(2) leave by simp
  then have ref: "ref < wNextSess w" "sess_inv (wSess w ref)"
    using relay_inv_ref [OF i, of k ref] leave(3) by (auto simp: relay_inv_def sessions_sound_def)
  have a: "\<And>x sc. gm_get (sSubscribers (wSess w ref)) x = Some sc \<Longrightarrow> ph (scControl sc) = Attached ref x"
    using i ref(1) by (simp add: relay_inv_defs)
  show ?thesis unfolding leave(2) release_def do_sess_set
    by (intro relay_inv_session [OF i ref(1) removeSubscriber_inv [OF ref(2)], where k = k])
      (use leave(3) a in \<open>force simp: remove_fields split: if_splits\<close>)+
next
  case (stream ph k ref w rid s')
  have i: "relay_inv \<lparr>rlWorld = w, rlPhase = ph\<rparr>" using assms(2) stream by simp
  then have inv: "sess_inv (wSess w ref)" using stream(4) by (auto simp: relay_inv_defs)
  have a: "\<And>x sc. gm_get (sSubscribers (wSess w ref)) x = Some sc \<Longrightarrow> ph (scControl sc) = Attached ref x"
    using i stream(4) by (simp add: relay_inv_defs)
  obtain str where str: "sStreams s' = gm_set rid str (sStreams (wSess w ref))"
    "sSubscribers s' = sSubscribers (wSess w ref)" "sClosed s' = sClosed (wSess w ref)"
    using stream_fields [OF stream(5)] by blast
  show ?thesis unfolding stream(2)
    by (intro relay_inv_session [OF i stream(4) sess_step_inv [OF stream(5) inv], where k = k])
      (use stream(3) str a in \<open>force simp: gomap_simps split: if_splits\<close>)+
next
  case (unstream ph k ref rid w)
  have i: "relay_inv \<lparr>rlWorld = w, rlPhase = ph\<rparr>" using assms(2) unstream by simp
  then have ref: "ref < wNextSess w" "sess_inv (wSess w ref)"
    using relay_inv_ref [OF i, of k ref] unstream(3) by (auto simp: relay_inv_def sessions_sound_def)
  have a: "\<And>x sc. gm_get (sSubscribers (wSess w ref)) x = Some sc \<Longrightarrow> ph (scControl sc) = Attached ref x"
    using i ref(1) by (simp add: relay_inv_defs)
  show ?thesis unfolding unstream(2) do_sess_set
    by (intro relay_inv_session [OF i ref(1) removeStream_inv [OF ref(2)], where k = k])
      (use unstream(3) a in \<open>force simp: removeStream_def gomap_simps split: if_splits\<close>)+
next
  case (request ref w port conn tc now rid s' ph)
  have "sess_step (wSess w ref) (Requested rid conn) s'" using request(6,7) by (rule sess_step.request)
  then show ?thesis using relay_inv_quiet assms(2) request(1,2,3) by simp
next
  case (touch ref w e s' ph)
  then show ?thesis using relay_inv_quiet assms(2) by simp
next
  case (io w w' ph)
  then show ?thesis using assms(2) by (simp add: relay_inv_defs same_registry_def)
qed

lemma relay_inv_init: "relay_inv (relay_init w)"
  by (simp add: relay_inv_defs relay_init_def)

interpretation relay_sys: step_system relay_step relay_steps
proof
  fix s t
  show "relay_steps s t \<longleftrightarrow> rtranclp relay_step s t"
  proof
    assume "relay_steps s t"
    then show "rtranclp relay_step s t"
      by (induction rule: relay_steps.induct) (auto intro: rtranclp.rtrancl_into_rtrancl)
  next
    assume "rtranclp relay_step s t"
    then show "relay_steps s t" by (induction rule: rtranclp_induct) (auto intro: relay_steps.intros)
  qed
qed

lemma relay_steps_inv: "relay_steps s t \<Longrightarrow> relay_inv s \<Longrightarrow> relay_inv t"
  by (rule relay_sys.keeps [where P = relay_inv, OF relay_inv_step])

section \<open>The handlers are sequences of steps\<close>

abbreviation at_phase :: "world \<Rightarrow> (nat \<Rightarrow> phase) \<Rightarrow> relay_state" where
  "at_phase w ph \<equiv> \<lparr>rlWorld = w, rlPhase = ph\<rparr>"

lemma relay_steps_trans: "relay_steps t u \<Longrightarrow> relay_steps s t \<Longrightarrow> relay_steps s u"
  by (induction rule: relay_steps.induct) (auto intro: relay_steps.more)

lemma relay_steps_one: "relay_step s t \<Longrightarrow> relay_steps s t"
  by (rule relay_steps.more [OF relay_steps.none])

definition io_only :: "world \<Rightarrow> world \<Rightarrow> bool" where
  "io_only w w' \<longleftrightarrow> same_registry w w' \<and> wSess w' = wSess w"

lemma io_only_refl [simp]: "io_only w w"
  by (simp add: io_only_def)

lemma io_only_trans: "io_only w w' \<Longrightarrow> io_only w' w'' \<Longrightarrow> io_only w w''"
  by (auto simp: io_only_def intro: same_registry_trans)

lemma io_steps: "io_only w w' \<Longrightarrow> relay_steps (at_phase w ph) (at_phase w' ph)"
  by (simp add: io_only_def relay_steps_one relay_step.io)

lemma steps_io: "relay_steps s (at_phase w ph) \<Longrightarrow> io_only w w' \<Longrightarrow> relay_steps s (at_phase w' ph)"
  using io_steps relay_steps_trans by blast

lemma on_net_io: "on_net k f w = (r, w') \<Longrightarrow> io_only w w'"
  using on_net_frame [of k f w r w'] by (simp add: io_only_def)

lemma do_net_io [simp]: "io_only w (do_net k f w)"
  by (simp add: io_only_def)

lemma tls_close_io [simp]: "io_only w (tls_close k w)"
  by (simp add: io_only_def)

lemma io_steps_simps [simp]:
  "relay_steps (at_phase w ph) (at_phase (do_net k f w) ph)"
  "relay_steps (at_phase w ph) (at_phase (tls_close k w) ph)"
  "relay_steps (at_phase w ph) (at_phase w ph)"
  by (rule io_steps; simp)+

lemma fold_io: "(\<And>x w. io_only w (f x w)) \<Longrightarrow> io_only w (fold f xs w)"
proof (induction xs arbitrary: w)
  case (Cons x xs)
  then show ?case using io_only_trans [of w "f x w" "fold f xs (f x w)"] by simp
qed simp

lemma session_shutdown_steps:
  assumes "session_shutdown ref w = (n, w')" and "ph k = Shutting ref"
  shows "relay_steps (at_phase w ph) (at_phase w' (ph(k := Idle)))"
proof -
  obtain pending controls w1 where b: "on_sess ref beginShutdown w = ((pending, controls), w1)"
    by (metis prod.exhaust)
  then have w1: "w1 = set_sess ref (snd (beginShutdown (wSess w ref))) w"
    by (auto simp: on_sess_def set_sess_def split: prod.splits)
  have "io_only w1 (close_pending pending w1)" unfolding close_pending_def by (rule fold_io) simp
  moreover have "io_only (close_pending pending w1) (notifySessionClosed controls (close_pending pending w1))"
    unfolding notifySessionClosed_def by (rule fold_io) (simp add: io_only_def)
  ultimately have "io_only w1 w'" using assms(1) b by (auto simp: session_shutdown_def intro: io_only_trans)
  moreover have "relay_steps (at_phase w ph) (at_phase w1 (ph(k := Idle)))"
    unfolding w1 by (rule relay_steps_one [OF relay_step.shut [where k = k]]) (use assms(2) in simp)
  ultimately show ?thesis by (rule steps_io [rotated])
qed

lemma unregister_relay:
  assumes "unregister sid ref w = (n, w')" and "ph k = Owning sid ref"
  shows "relay_steps (at_phase w ph) (at_phase w' (ph(k := Idle)))"
proof -
  have "relay_steps (at_phase w ph) (at_phase (reg_delete sid w) (ph(k := Shutting ref)))"
    by (rule relay_steps_one [OF relay_step.drop [where k = k]]) (use assms(2) in simp)
  moreover have "relay_steps (at_phase (reg_delete sid w) (ph(k := Shutting ref))) (at_phase w' ((ph(k := Shutting ref))(k := Idle)))"
    by (rule session_shutdown_steps) (use assms(1) in \<open>simp_all add: unregister_def\<close>)
  ultimately show ?thesis using relay_steps_trans by simp
qed

lemma Register_relay:
  assumes "Register cr drawn k h w = (r, w')" and "ph k = Idle" and "ReadHello (c0 :: tls_conn) = (Inr h, c0')"
  shows "relay_steps (at_phase w ph)
    (at_phase w' (case r of Inl e \<Rightarrow> ph | Inr ref \<Rightarrow> ph(k := Owning (hSessionID h) ref)))"
proof (cases "peerLeafCert (wNet w k)")
  case (Inl e)
  with assms show ?thesis by (auto simp: Register_def intro: io_steps)
next
  case (Inr ct)
  obtain v w1 where v: "on_net k (VerifyPublishClaim cr drawn h) w = (v, w1)" by (metis prod.exhaust)
  have s1: "io_only w w1" by (rule on_net_io [OF v])
  show ?thesis
  proof (cases v)
    case (Inl e)
    with assms Inr v have "r = Inl (wrap ''register publisher'' e)" "w' = do_net k (WriteAck AckDenied) w1"
      by (auto simp: Register_def)
    with s1 show ?thesis by (auto intro!: io_steps io_only_trans [OF s1])
  next
    case v': (Inr u)
    obtain q w2 where c: "reg_claim_slot k h ct w1 = (q, w2)" by (metis prod.exhaust)
    show ?thesis
    proof (cases q)
      case (Inl refusal)
      then have "w2 = w1" using c reg_claim_slot_Inl by blast
      with assms Inr v v' c Inl have "\<exists>e. r = Inl e" "io_only w1 w'"
        by (auto simp: Register_def split: if_split_asm)
      then show ?thesis using io_steps [OF io_only_trans [OF s1]] by auto
    next
      case q': (Inr ref)
      let ?ph = "ph(k := Owning (hSessionID h) ref)"
      have "relay_step (at_phase w1 ph) (at_phase w2 ?ph)"
        using relay_step.claim [of ph k c0 h c0' ct w1 ref w2] assms(2,3) c q' by simp
      then have st2: "relay_steps (at_phase w ph) (at_phase w2 ?ph)"
        using relay_steps.more [OF io_steps [OF s1]] by simp
      obtain a w3 where a: "on_net k (WriteAck AckOK) w2 = (a, w3)" by (metis prod.exhaust)
      have st3: "relay_steps (at_phase w ph) (at_phase w3 ?ph)" by (rule steps_io [OF st2 on_net_io [OF a]])
      show ?thesis
      proof (cases a)
        case a': (Inr u')
        with assms Inr v v' c q' a have "r = Inr ref" "w' = w3" by (auto simp: Register_def)
        with st3 show ?thesis by simp
      next
        case (Inl e)
        obtain n w4 where d: "unregister (hSessionID h) ref w3 = (n, w4)" by (metis prod.exhaust)
        then have r: "r = Inl (wrap ''ack publisher'' e)" "w' = w4"
          using Inl assms Inr v v' c q' a by (auto simp: Register_def unregister_def)
        have "?ph(k := Idle) = ph" using assms(2) by auto
        then show ?thesis using relay_steps_trans [OF unregister_relay [OF d, of ?ph k] st3] r by simp
      qed
    qed
  qed
qed

lemma on_sess_set: "on_sess ref f w = (r, w') \<Longrightarrow> f (wSess w ref) = (r, wSess w' ref) \<and> w' = set_sess ref (wSess w' ref) w"
  by (auto simp: on_sess_def set_sess_def split: prod.splits)

lemma touch_steps:
  "ref < wNextSess w \<Longrightarrow> sess_step (wSess w ref) e s' \<Longrightarrow> quiet e \<Longrightarrow> requested e = [] \<Longrightarrow>
   relay_steps (at_phase w ph) (at_phase (set_sess ref s' w) ph)"
  by (rule relay_steps_one [OF relay_step.touch])

text \<open>No counter of a session is at its last value; a session hands out fewer identifiers.\<close>

definition counters_ok :: "world \<Rightarrow> bool" where
  "counters_ok w \<longleftrightarrow> (\<forall>ref. sNextSubID (wSess w ref) \<noteq> - 1 \<and> sNextReqID (wSess w ref) \<noteq> - 1)"

definition sessions_bound :: "world \<Rightarrow> bool" where
  "sessions_bound w \<longleftrightarrow> (\<forall>sid ref. gm_get (wSessions w) sid = Some ref \<longrightarrow> ref < wNextSess w)"

lemma sessionFor_bound: "sessions_bound w \<Longrightarrow> sessionFor sid w = Some ref \<Longrightarrow> ref < wNextSess w"
  by (simp add: sessions_bound_def sessionFor_def)

lemma io_only_bounds: "io_only w w' \<Longrightarrow> (counters_ok w' \<longleftrightarrow> counters_ok w) \<and> (sessions_bound w' \<longleftrightarrow> sessions_bound w)"
  by (simp add: io_only_def counters_ok_def sessions_bound_def same_registry_def)

lemma Subscribe_relay:
  assumes "Subscribe k h w = (r, w')" and "ph k = Idle" and "sessions_bound w" and "counters_ok w"
  shows "relay_steps (at_phase w ph)
    (at_phase w' (case r of Inl e \<Rightarrow> ph | Inr (sub, ref) \<Rightarrow> ph(k := Attached ref sub)))"
proof (cases "sessionFor (hSessionID h) w")
  case None
  with assms(1) show ?thesis by (auto simp: Subscribe_def intro: io_steps)
next
  case (Some ref)
  note ref = sessionFor_bound [OF assms(3) Some]
  show ?thesis
  proof (cases "sMode (wSess w ref) \<noteq> hMode h \<or> sPorts (wSess w ref) \<noteq> hPorts h")
    case True
    with assms(1) Some show ?thesis by (auto simp: Subscribe_def intro: io_steps split: if_split_asm)
  next
    case False
    obtain q w1 where q: "on_sess ref (addSubscriber k (wNet w k) (wNow w)) w = (q, w1)" by (metis prod.exhaust)
    note q' = on_sess_set [OF q]
    show ?thesis
    proof (cases q)
      case None
      then have "w1 = w" using q' addSubscriber_None [of k "wNet w k" "wNow w" "wSess w ref"] by (auto simp: set_sess_def)
      with assms(1) Some False q None show ?thesis by (auto simp: Subscribe_def intro: io_steps)
    next
      case s: (Some sub)
      let ?ph = "ph(k := Attached ref sub)"
      have "sess_step (wSess w ref) (Joined sub k) (wSess w1 ref)"
        using q' s assms(4) by (intro sess_step.join [where c = "wNet w k" and now = "wNow w"]) (simp_all add: counters_ok_def)
      then have "relay_step (at_phase w ph) (at_phase (set_sess ref (wSess w1 ref) w) ?ph)"
        using relay_step.join [of ph k ref w sub "wSess w1 ref"] assms(2) ref by simp
      then have st1: "relay_steps (at_phase w ph) (at_phase w1 ?ph)" using q' relay_steps_one by metis
      obtain a w2 where a: "on_net k (WriteAck AckOK) w1 = (a, w2)" by (metis prod.exhaust)
      have st2: "relay_steps (at_phase w ph) (at_phase w2 ?ph)" by (rule steps_io [OF st1 on_net_io [OF a]])
      show ?thesis
      proof (cases a)
        case (Inr u)
        with assms(1) Some False q s a have "r = Inr (sub, ref)" "w' = w2" by (auto simp: Subscribe_def)
        with st2 show ?thesis by simp
      next
        case (Inl e)
        with assms(1) Some False q s a have r: "r = Inl (wrap ''ack subscriber'' e)" "w' = release ref sub w2"
          by (auto simp: Subscribe_def)
        have "relay_step (at_phase w2 ?ph) (at_phase w' (?ph(k := Idle)))"
          unfolding r by (rule relay_step.leave) simp
        moreover have "?ph(k := Idle) = ph" using assms(2) by auto
        ultimately show ?thesis using relay_steps.more [OF st2] r by simp
      qed
    qed
  qed
qed

lemma drop_pending_relay:
  assumes "ref < wNextSess w"
  shows "relay_steps (at_phase w ph) (at_phase (drop_pending ref rid w) ph)"
proof -
  obtain r w1 where r: "on_sess ref (removePending rid) w = (r, w1)" by (metis prod.exhaust)
  note s = on_sess_set [OF r]
  have "sess_step (wSess w ref) (Expired rid r) (wSess w1 ref)" using s by (intro sess_step.expire) simp
  then have "relay_steps (at_phase w ph) (at_phase (set_sess ref (wSess w1 ref) w) ph)"
    by (rule touch_steps [OF assms]) simp_all
  then have "relay_steps (at_phase w ph) (at_phase w1 ph)" using s by metis
  then show ?thesis using r by (cases r) (auto simp: drop_pending_def intro: steps_io)
qed

lemma AttachSubscriberData_relay:
  assumes "AttachSubscriberData k sid port w = (r, w')" and "sessions_bound w" and "counters_ok w"
  shows "relay_steps (at_phase w ph) (at_phase w' ph)"
proof (cases "sessionFor sid w")
  case None
  with assms(1) show ?thesis by (auto simp: AttachSubscriberData_def)
next
  case (Some ref)
  note ref = sessionFor_bound [OF assms(2) Some]
  show ?thesis
  proof (cases "sMode (wSess w ref) \<noteq> ModeTCP \<or> port \<ge> sPorts (wSess w ref)")
    case True
    with assms(1) Some show ?thesis by (auto simp: AttachSubscriberData_def split: if_split_asm)
  next
    case False
    obtain q w1 where q: "on_sess ref (addPending k (Some (wNet w k)) port (wNow w)) w = (q, w1)" by (metis prod.exhaust)
    note q' = on_sess_set [OF q]
    show ?thesis
    proof (cases q)
      case None
      then have "w1 = w"
        using q' addPending_None [of k "Some (wNet w k)" port "wNow w" "wSess w ref"] by (auto simp: set_sess_def)
      with assms(1) Some False q None show ?thesis by (auto simp: AttachSubscriberData_def)
    next
      case s: (Some rid)
      have "relay_step (at_phase w ph) (at_phase (set_sess ref (wSess w1 ref) w) ph)"
        using ref False q' s assms(3)
        by (intro relay_step.request [where tc = "Some (wNet w k)" and port = port and now = "wNow w" and conn = k])
          (simp_all add: counters_ok_def not_le)
      then have "relay_steps (at_phase w ph) (at_phase (set_sess ref (wSess w1 ref) w) ph)"
        by (rule relay_steps_one)
      then have st1: "relay_steps (at_phase w ph) (at_phase w1 ph)" using q' by metis
      obtain a w2 where a: "on_net k (WriteAck AckOK) w1 = (a, w2)" by (metis prod.exhaust)
      have st2: "relay_steps (at_phase w ph) (at_phase w2 ph)" by (rule steps_io [OF st1 on_net_io [OF a]])
      obtain b w3 where b: "on_net (sPublisher (wSess w2 ref)) (WriteRequestData rid port) w2 = (b, w3)"
        by (metis prod.exhaust)
      have st3: "relay_steps (at_phase w ph) (at_phase w3 ph)" by (rule steps_io [OF st2 on_net_io [OF b]])
      have n: "ref < wNextSess w2" "ref < wNextSess w3"
        using ref on_sess_registry [OF q] on_net_frame [OF a] on_net_frame [OF b] by (simp_all add: same_registry_def)
      have "w' = w3 \<or> w' = drop_pending ref rid w2 \<or> w' = drop_pending ref rid w3"
        using assms(1) Some False q s a b by (auto simp: AttachSubscriberData_def split: sum.split_asm)
      then show ?thesis
        using st3 relay_steps_trans [OF drop_pending_relay [OF n(1)] st2] relay_steps_trans [OF drop_pending_relay [OF n(2)] st3]
        by auto
    qed
  qed
qed

lemma splice_conns_io [simp]: "io_only w (splice_conns sched a b w)"
  by (auto simp: io_only_def splice_conns_def tls_close_def same_registry_def split: prod.split)

lemma AttachPublisherData_relay:
  assumes "AttachPublisherData sched sid rid k w = (r, w')" and "sessions_bound w" and "ph k = Idle"
  shows "relay_steps (at_phase w ph) (at_phase w' ph)"
proof (cases "sessionFor sid w")
  case None
  with assms(1) show ?thesis by (auto simp: AttachPublisherData_def)
next
  case (Some ref)
  note ref = sessionFor_bound [OF assms(2) Some]
  show ?thesis
  proof (cases "\<exists>ct. peerLeafCert (wNet w k) = Inr ct \<and> cert_equal ct (sPublisherCert (wSess w ref))")
    case False
    with assms(1) Some show ?thesis
      by (cases "peerLeafCert (wNet w k)") (auto simp: AttachPublisherData_def)
  next
    case True
    then obtain ct where ct: "peerLeafCert (wNet w k) = Inr ct" "cert_equal ct (sPublisherCert (wSess w ref))" by blast
    obtain q w1 where q: "on_sess ref (claimPending rid) w = (q, w1)" by (metis prod.exhaust)
    note q' = on_sess_set [OF q]
    have n1: "ref < wNextSess w1" using ref on_sess_registry [OF q] by (simp add: same_registry_def)
    show ?thesis
    proof (cases q)
      case None
      then have "w1 = w" using q' claimPending_None [of rid "wSess w ref"] by (auto simp: set_sess_def)
      with assms(1) Some ct q None show ?thesis by (auto simp: AttachPublisherData_def)
    next
      case s: (Some p)
      obtain c port where p: "p = (c, port)" by (cases p)
      have "sess_step (wSess w ref) (Claimed rid c) (wSess w1 ref)"
        using q' s p by (intro sess_step.claim [where port = port]) simp
      then have "relay_steps (at_phase w ph) (at_phase (set_sess ref (wSess w1 ref) w) ph)"
        by (rule touch_steps [OF ref]) simp_all
      then have st1: "relay_steps (at_phase w ph) (at_phase w1 ph)" using q' by metis
      let ?str = "\<lparr>stPort = port, stStarted = wNow w1, stIntoSub = 0, stIntoPub = 0\<rparr>"
      obtain a w2 where a: "on_sess ref (addStream rid ?str) w1 = (a, w2)" by (metis prod.exhaust)
      note a' = on_sess_set [OF a]
      show ?thesis
      proof (cases a)
        case False
        then have "wSess w2 ref = wSess w1 ref" using a' by (auto simp: addStream_def split: if_split_asm)
        then have "w2 = w1" using a' set_sess_same [of ref w1] by simp
        moreover have "w' = tls_close k (tls_close c w2)"
          using assms(1) Some ct q s p a False by (simp add: AttachPublisherData_def)
        ultimately show ?thesis using steps_io [OF steps_io [OF st1 tls_close_io] tls_close_io] by simp
      next
        case True
        let ?ph = "ph(k := Streaming ref rid)"
        have "sess_step (wSess w1 ref) (StreamOn rid) (wSess w2 ref)"
          using a' True by (intro sess_step.stream_on [where str = ?str]) simp
        then have "relay_step (at_phase w1 ph) (at_phase (set_sess ref (wSess w2 ref) w1) ?ph)"
          using relay_step.stream [of ph k ref w1 rid "wSess w2 ref"] assms(3) n1 by simp
        then have "relay_steps (at_phase w ph) (at_phase w2 ?ph)" using a' st1 relay_steps.more by metis
        then have st3: "relay_steps (at_phase w ph) (at_phase (splice_conns sched c k w2) ?ph)"
          by (rule steps_io) simp
        have w': "w' = do_sess ref (removeStream rid) (splice_conns sched c k w2)"
          using assms(1) Some ct q s p a True by (simp add: AttachPublisherData_def)
        have "relay_step (at_phase (splice_conns sched c k w2) ?ph) (at_phase w' (?ph(k := Idle)))"
          unfolding w' by (rule relay_step.unstream) simp
        moreover have "?ph(k := Idle) = ph" using assms(3) by auto
        ultimately show ?thesis using relay_steps.more [OF st3] by simp
      qed
    qed
  qed
qed

lemma Kill_relay:
  assumes "Kill tag w = (r, w')" and "ph k = Idle"
  shows "relay_steps (at_phase w ph) (at_phase w' ph)"
proof -
  obtain q w1 where q: "kill_pick tag w = (q, w1)" by (metis prod.exhaust)
  show ?thesis
  proof (cases q)
    case (Inl e)
    with q have "w1 = w" using kill_pick_Inl by blast
    with assms q Inl show ?thesis by (auto simp: Kill_def)
  next
    case (Inr p)
    obtain sid ref where p: "p = (sid, ref)" by (cases p)
    let ?w2 = "tls_close (sPublisher (wSess w1 ref)) w1"
    obtain n w3 where d: "session_shutdown ref ?w2 = (n, w3)" by (metis prod.exhaust)
    let ?ph = "ph(k := Shutting ref)"
    have "relay_step (at_phase w ph) (at_phase w1 ?ph)"
      using relay_step.kill [of ph k tag w sid ref w1] assms(2) q Inr p by simp
    then have "relay_steps (at_phase w ph) (at_phase ?w2 ?ph)" by (rule steps_io [OF relay_steps_one]) simp
    moreover have "relay_steps (at_phase ?w2 ?ph) (at_phase w3 (?ph(k := Idle)))"
      by (rule session_shutdown_steps [OF d]) simp
    moreover have "?ph(k := Idle) = ph" using assms(2) by auto
    moreover have "w' = w3" using assms q Inr p d by (simp add: Kill_def)
    ultimately show ?thesis using relay_steps_trans by simp
  qed
qed

lemma heartbeat_turn_io: "heartbeat_turn k w = (b, w') \<Longrightarrow> io_only w w'"
proof -
  assume h: "heartbeat_turn k w = (b, w')"
  obtain r w1 where r: "on_net k ReadControlFrame w = (r, w1)" by (metis prod.exhaust)
  obtain x w2 where x: "on_net k (WriteControlFrame ControlPong []) w1 = (x, w2)" by (metis prod.exhaust)
  have "w' = w1 \<or> w' = w2" using h r x by (auto simp: heartbeat_turn_def split: sum.splits prod.splits if_splits)
  then show ?thesis using on_net_io [OF r] io_only_trans [OF on_net_io [OF r] on_net_io [OF x]] by auto
qed

lemma runHeartbeatLoop_io: "io_only w (runHeartbeatLoop k w)"
proof (induction k w rule: runHeartbeatLoop.induct)
  case (1 k w)
  obtain b w1 where t: "heartbeat_turn k w = (b, w1)" by (metis prod.exhaust)
  show ?case
    using 1 [OF t [symmetric]] io_only_trans [OF heartbeat_turn_io [OF t]] heartbeat_turn_io [OF t]
    by (cases b) (simp_all add: runHeartbeatLoop.simps [of k w] t)
qed

lemma handleControlConn_relay:
  assumes "ph k = Idle" and "sessions_bound w" and "counters_ok w"
  shows "relay_steps (at_phase w ph) (at_phase (handleControlConn cr drawn k w) ph)"
proof -
  obtain r w1 where r: "on_net k ReadHello w = (r, w1)" by (metis prod.exhaust)
  note io1 = on_net_io [OF r]
  have b1: "sessions_bound w1" "counters_ok w1" using io_only_bounds [OF io1] assms(2,3) by simp_all
  have st1: "relay_steps (at_phase w ph) (at_phase w1 ph)" by (rule io_steps [OF io1])
  have fin: ?thesis if "relay_steps (at_phase w ph) (at_phase w2 ph)" "handleControlConn cr drawn k w = tls_close k w2" for w2
    using steps_io [OF that(1) tls_close_io] that(2) by simp
  show ?thesis
  proof (cases r)
    case (Inl e)
    with r show ?thesis by (intro fin [OF st1]) (simp add: handleControlConn_def)
  next
    case (Inr h)
    obtain c1 where "ReadHello (wNet w k) = (Inr h, c1)"
      using r Inr by (auto simp: on_net_def split: prod.splits)
    note hv = this
    consider "hRole h = RolePublish" | "hRole h \<noteq> RolePublish" "hRole h = RoleSubscribe"
      | "hRole h \<noteq> RolePublish" "hRole h \<noteq> RoleSubscribe" by blast
    then show ?thesis
    proof cases
      case 1
      obtain q w2 where q: "Register cr drawn k h w1 = (q, w2)" by (metis prod.exhaust)
      note st2 = relay_steps_trans [OF Register_relay [OF q, where ph = ph, OF assms(1) hv] st1]
      show ?thesis
      proof (cases q)
        case Inl
        with st2 r Inr 1 q show ?thesis by (intro fin [of w2]) (simp_all add: handleControlConn_def)
      next
        case q': (Inr ref)
        let ?ph = "ph(k := Owning (hSessionID h) ref)"
        let ?w3 = "runHeartbeatLoop k w2"
        have st3: "relay_steps (at_phase w ph) (at_phase ?w3 ?ph)"
          using steps_io [OF st2 runHeartbeatLoop_io] q' by simp
        obtain n w4 where u: "unregister (hSessionID h) ref ?w3 = (n, w4)" by (metis prod.exhaust)
        have "?ph(k := Idle) = ph" using assms(1) by auto
        with relay_steps_trans [OF unregister_relay [OF u, of ?ph k] st3]
        show ?thesis using r Inr 1 q q' u by (intro fin [of w4]) (simp_all add: handleControlConn_def)
      qed
    next
      case 2
      obtain q w2 where q: "Subscribe k h w1 = (q, w2)" by (metis prod.exhaust)
      note st2 = relay_steps_trans [OF Subscribe_relay [OF q, where ph = ph, OF assms(1) b1] st1]
      show ?thesis
      proof (cases q)
        case Inl
        with st2 r Inr 2 q show ?thesis by (intro fin [of w2]) (simp_all add: handleControlConn_def)
      next
        case q': (Inr sr)
        obtain sub ref where sr: "sr = (sub, ref)" by (cases sr)
        let ?ph = "ph(k := Attached ref sub)"
        let ?w3 = "runHeartbeatLoop k w2"
        have st3: "relay_steps (at_phase w ph) (at_phase ?w3 ?ph)"
          using steps_io [OF st2 runHeartbeatLoop_io] q' sr by simp
        have "relay_step (at_phase ?w3 ?ph) (at_phase (release ref sub ?w3) (?ph(k := Idle)))"
          by (rule relay_step.leave) simp
        moreover have "?ph(k := Idle) = ph" using assms(1) by auto
        ultimately have "relay_steps (at_phase w ph) (at_phase (release ref sub ?w3) ph)"
          using relay_steps.more [OF st3] by simp
        then show ?thesis using r Inr 2 q q' sr by (intro fin) (simp_all add: handleControlConn_def)
      qed
    next
      case 3
      with r Inr show ?thesis by (intro fin [OF st1]) (simp add: handleControlConn_def)
    qed
  qed
qed

lemma handleDataConn_relay:
  assumes "ph k = Idle" and "sessions_bound w" and "counters_ok w"
  shows "relay_steps (at_phase w ph) (at_phase (handleDataConn sched k w) ph)"
proof -
  obtain r w1 where r: "on_net k ReadAttach w = (r, w1)" by (metis prod.exhaust)
  note io1 = on_net_io [OF r]
  have b1: "sessions_bound w1" "counters_ok w1" using io_only_bounds [OF io1] assms(2,3) by simp_all
  have st1: "relay_steps (at_phase w ph) (at_phase w1 ph)" by (rule io_steps [OF io1])
  have fin: ?thesis if "relay_steps (at_phase w1 ph) (at_phase w2 ph)"
    "handleDataConn sched k w = w2 \<or> handleDataConn sched k w = tls_close k w2" for w2
    using relay_steps_trans [OF that(1) st1] steps_io [OF relay_steps_trans [OF that(1) st1] tls_close_io] that(2) by auto
  show ?thesis
  proof (cases r)
    case (Inl e)
    with r show ?thesis by (intro fin [of w1]) (simp_all add: handleDataConn_def)
  next
    case (Inr a)
    obtain e w2 where s: "AttachSubscriberData k (aSessionID a) (aPort a) w1 = (e, w2)" by (metis prod.exhaust)
    obtain e' w3 where p: "AttachPublisherData sched (aSessionID a) (aRequestID a) k w1 = (e', w3)" by (metis prod.exhaust)
    have sub: "relay_steps (at_phase w1 ph) (at_phase w2 ph)" by (rule AttachSubscriberData_relay [OF s b1])
    have pub: "relay_steps (at_phase w1 ph) (at_phase w3 ph)" by (rule AttachPublisherData_relay [where ph = ph, OF p b1(1) assms(1)])
    have "handleDataConn sched k w = tls_close k w1 \<or> handleDataConn sched k w = w2 \<or> handleDataConn sched k w = tls_close k w2 \<or>
        handleDataConn sched k w = w3 \<or> handleDataConn sched k w = tls_close k w3"
      using r Inr s p by (cases e; cases e') (auto simp: handleDataConn_def)
    then show ?thesis using fin [OF sub] fin [OF pub] fin [of w1] by auto
  qed
qed

lemma reply_io: "reply js k p w = (r, w') \<Longrightarrow> io_only w w'"
  unfolding reply_def by (rule on_net_io)

lemma reload_io:
  "reload_evict k serials w = (r, w') \<Longrightarrow> io_only w w'"
  "io_only w (reload_finish d w)"
proof -
  show "io_only w w'" if "reload_evict k serials w = (r, w')"
    using that close_raws_frame by (auto simp: reload_evict_def Let_def io_only_def same_registry_def split: prod.splits)
  show "io_only w (reload_finish d w)"
    using close_raws_frame by (auto simp: reload_finish_def io_only_def same_registry_def split: prod.splits)
qed

lemma serveAdminRequest_relay:
  assumes "serveAdminRequest srv files js k t body w = (r, w')" and "ph k = Idle"
  shows "relay_steps (at_phase w ph) (at_phase w' ph)"
proof -
  have kill: "relay_steps (at_phase w ph) (at_phase w' ph)" if s: "serveKill js k body w = (r, w')"
  proof (cases "DecodeAdminPayload (jsonUnmarshalKill js) body \<lparr>akTag = []\<rparr>")
    case (Inl e)
    with s show ?thesis by (auto simp: serveKill_def dest: reply_io intro: io_steps)
  next
    case (Inr req)
    obtain x w1 where x: "Kill (akTag req) w = (x, w1)" by (metis prod.exhaust)
    have "(akTag req = [] \<and> io_only w w') \<or> io_only w1 w'"
      using s Inr x by (cases x) (auto simp: serveKill_def dest: reply_io split: if_splits)
    then show ?thesis using io_steps steps_io [OF Kill_relay [where ph = ph, OF x assms(2)]] by blast
  qed
  have crl: "io_only w w'" if s: "serveReloadCRL srv files js k w = (r, w')"
  proof (cases "svRevokedFile srv = [] \<or> (\<exists>e. loadRevokedSerials files (svRevokedFile srv) = Inl e)")
    case True
    with s show ?thesis by (auto simp: serveReloadCRL_def dest: reply_io split: if_splits)
  next
    case False
    then obtain serials where l: "loadRevokedSerials files (svRevokedFile srv) = Inr serials"
      by (cases "loadRevokedSerials files (svRevokedFile srv)") auto
    obtain closed deferred w2 where e: "reload_evict k serials w = ((closed, deferred), w2)"
      by (metis prod.exhaust)
    obtain w3 p where "reply js k p w2 = (r, w3)" "w' = reload_finish deferred w3"
      using s False l e by (auto simp: serveReloadCRL_def Let_def split: prod.splits)
    then show ?thesis
      using io_only_trans [OF reload_io(1) [OF e] io_only_trans [OF reply_io reload_io(2)]] by blast
  qed
  consider "t = AdminList" | "t = AdminKill" | "t = AdminReloadCRL"
    | "t \<notin> {AdminList, AdminKill, AdminReloadCRL}" by blast
  then show ?thesis
  proof cases
    case 1
    with assms(1) have "on_net k (WriteAdminFrame js AdminSnapshot (Some (SnapshotPayload (Snapshot w)))) w = (r, w')"
      by (simp add: serveAdminRequest_def)
    then show ?thesis by (rule io_steps [OF on_net_io])
  next
    case 2
    with assms(1) show ?thesis by (intro kill) (simp add: serveAdminRequest_def go_consts)
  next
    case 3
    with assms(1) show ?thesis by (intro io_steps crl) (simp add: serveAdminRequest_def go_consts)
  next
    case 4
    with assms(1) have "\<exists>p. reply js k p w = (r, w')"
      by (cases "t = AdminKick") (auto simp: serveAdminRequest_def refuseRetiredKick_def refuseAdminRequest_def)
    then show ?thesis using reply_io io_steps by blast
  qed
qed

lemma serveAdmin_relay:
  "ph k = Idle \<Longrightarrow> relay_steps (at_phase w ph) (at_phase (serveAdmin srv files js k w) ph)"
proof (induction srv files js k w rule: serveAdmin.induct)
  case (1 srv files js k w)
  obtain r w1 where r: "on_net k ReadAdminFrame w = (r, w1)" by (metis prod.exhaust)
  have st1: "relay_steps (at_phase w ph) (at_phase w1 ph)" by (rule io_steps [OF on_net_io [OF r]])
  show ?case
  proof (cases r)
    case (Inl e)
    with st1 r show ?thesis by (simp add: serveAdmin.simps [of srv files js k w])
  next
    case (Inr tb)
    obtain q w2 where q: "serveAdminRequest srv files js k (fst tb) (snd tb) w1 = (q, w2)" by (metis prod.exhaust)
    have st2: "relay_steps (at_phase w ph) (at_phase w2 ph)"
      by (rule relay_steps_trans [OF serveAdminRequest_relay [where ph = ph, OF q "1.prems"] st1])
    show ?thesis
    proof (cases q)
      case Inl
      with st2 r Inr q show ?thesis by (simp add: serveAdmin.simps [of srv files js k w])
    next
      case q': (Inr u)
      have "serveAdmin srv files js k w = serveAdmin srv files js k w2"
        using r Inr q q' by (simp add: serveAdmin.simps [of srv files js k w])
      with relay_steps_trans [OF "1.IH" [OF r [symmetric] Inr q [symmetric] q' "1.prems"] st2] show ?thesis by simp
    qed
  qed
qed

lemma handleAdminConn_relay:
  assumes "ph k = Idle"
  shows "relay_steps (at_phase w ph) (at_phase (handleAdminConn srv files js k w) ph)"
proof -
  obtain r w1 where r: "on_net k ReadAdminFrame w = (r, w1)" by (metis prod.exhaust)
  have st1: "relay_steps (at_phase w ph) (at_phase w1 ph)" by (rule io_steps [OF on_net_io [OF r]])
  obtain a w2 where a: "on_net k (WriteAdminFrame js AdminAck (ack True [])) w1 = (a, w2)" by (metis prod.exhaust)
  have st2: "relay_steps (at_phase w ph) (at_phase w2 ph)" by (rule steps_io [OF st1 on_net_io [OF a]])
  have st3: "relay_steps (at_phase w ph) (at_phase (serveAdmin srv files js k w2) ph)"
    by (rule relay_steps_trans [OF serveAdmin_relay [where ph = ph, OF assms] st2])
  have refusal: "relay_steps (at_phase w ph) (at_phase (do_net k (WriteAdminFrame js AdminAck p) w1) ph)" for p
    by (rule steps_io [OF st1 do_net_io])
  have fin: ?thesis if "relay_steps (at_phase w ph) (at_phase w4 ph)" "handleAdminConn srv files js k w = tls_close k w4" for w4
    using steps_io [OF that(1) tls_close_io] that(2) by simp
  show ?thesis
  proof (cases r)
    case (Inl e)
    with r show ?thesis by (intro fin [OF st1]) (simp add: handleAdminConn_def)
  next
    case (Inr tb)
    obtain ty body where tb: "tb = (ty, body)" by (cases tb)
    show ?thesis
    proof (cases "ty = AdminHello")
      case False
      with r Inr tb show ?thesis by (intro fin [OF refusal]) (simp add: handleAdminConn_def)
    next
      case True
      show ?thesis
      proof (cases "DecodeAdminPayload (jsonUnmarshalHello js) body \<lparr>ahVersion = 0\<rparr>")
        case (Inl e)
        with r Inr tb True \<open>r = Inr tb\<close> show ?thesis by (intro fin [OF st1]) (simp add: handleAdminConn_def)
      next
        case dec: (Inr h)
        show ?thesis
        proof (cases "HasAdminEKU (case peerLeafCert (wNet w1 k) of Inl e \<Rightarrow> None | Inr ct \<Rightarrow> Some ct)")
          case False
          with r Inr tb True dec show ?thesis by (intro fin [OF refusal]) (simp add: handleAdminConn_def)
        next
          case role: True
          show ?thesis
          proof (cases a)
            case (Inl e)
            with r Inr tb True dec role a \<open>r = Inr tb\<close> show ?thesis by (intro fin [OF st2]) (simp add: handleAdminConn_def)
          next
            case (Inr u)
            with r tb True dec role a \<open>r = Inr tb\<close> show ?thesis by (intro fin [OF st3]) (simp add: handleAdminConn_def)
          qed
        qed
      qed
    qed
  qed
qed

lemma admit_io: "admit k w = (b, w') \<Longrightarrow> io_only w w'"
  using admit_True [of k w w'] admit_False [of k w w'] by (cases b) (auto simp: io_only_def same_registry_def)

lemma steps_if:
  "relay_steps s (at_phase a ph) \<Longrightarrow> relay_steps s (at_phase b ph) \<Longrightarrow>
   relay_steps s (at_phase (if c then a else b) ph)"
  by simp

lemma handleConn_relay:
  assumes "ph k = Idle" and "sessions_bound w" and "counters_ok w"
  shows "relay_steps (at_phase w ph) (at_phase (handleConn env k w) ph)"
proof -
  obtain r w1 where r: "on_net k ReadConnKind w = (r, w1)" by (metis prod.exhaust)
  obtain b w2 where a: "admit k w1 = (b, w2)" by (metis prod.exhaust)
  have io: "io_only w w1" "io_only w w2"
    using on_net_io [OF r] io_only_trans [OF on_net_io [OF r] admit_io [OF a]] by simp_all
  have b2: "sessions_bound w2" "counters_ok w2" using io_only_bounds [OF io(2)] assms(2,3) by simp_all
  have kind: "relay_steps (at_phase w2 ph) (at_phase (handle_kind env kind k w2) ph)" for kind
    unfolding handle_kind_def
    by (rule steps_if handleControlConn_relay [where ph = ph, OF assms(1) b2]
        handleDataConn_relay [where ph = ph, OF assms(1) b2] handleAdminConn_relay [where ph = ph, OF assms(1)]
        io_steps_simps(2))+
  have "handleConn env k w = tls_close k w1 \<or> handleConn env k w = tls_close k w2 \<or>
      (\<exists>kind. handleConn env k w = handle_kind env kind k w2)"
    using r a by (cases r; cases b) (auto simp: handleConn_def)
  then show ?thesis
    using steps_io [OF io_steps [OF io(1)] tls_close_io] steps_io [OF io_steps [OF io(2)] tls_close_io]
      relay_steps_trans [OF kind io_steps [OF io(2)]] by auto
qed

section \<open>Properties\<close>

lemma gm_empty: "(\<And>k. gm_get m k = None) \<Longrightarrow> m = []"
proof (cases m)
  case (Cons e es)
  assume "\<And>k. gm_get m k = None"
  from this [of "fst e"] Cons show ?thesis by (simp add: gm_get_def)
qed simp

section \<open>Types\<close>

text \<open>What Go's types, \<open>ReadHello\<close>'s checks and those of the handlers promise of the registry.\<close>

definition session_typed :: "session \<Rightarrow> bool" where
  "session_typed s \<longleftrightarrow> sMode s = ModeTCP \<and> sPorts s \<noteq> 0 \<and>
     (\<forall>rid req. gm_get (sPending s) rid = Some req \<longrightarrow> prPort req < sPorts s)"

definition registry_typed :: "world \<Rightarrow> bool" where
  "registry_typed w \<longleftrightarrow>
     (\<forall>sid ref. gm_get (wSessions w) sid = Some ref \<longrightarrow>
        length sid = SessionIDSize \<and> ref < wNextSess w \<and> \<not> gm_has (wKilled w) sid) \<and>
     (\<forall>sid. gm_has (wKilled w) sid \<longrightarrow> length sid = SessionIDSize) \<and>
     (\<forall>sid sid' ref. gm_get (wSessions w) sid = Some ref \<and> gm_get (wSessions w) sid' = Some ref \<longrightarrow> sid = sid') \<and>
     (\<forall>ref < wNextSess w. session_typed (wSess w ref))"

lemma claimPending_typed: "claimPending rid s = (r, s') \<Longrightarrow> session_typed s \<Longrightarrow> session_typed s'"
  by (auto simp: claimPending_def session_typed_def gomap_simps split: option.split_asm if_split_asm)

lemma addPending_typed:
  "addPending conn tc port now s = (Some rid, s') \<Longrightarrow> port < sPorts s \<Longrightarrow> session_typed s \<Longrightarrow> session_typed s'"
  by (drule addPending_Some) (auto simp: session_typed_def gomap_simps split: if_split_asm)

lemma sess_step_typed: "sess_step s e s' \<Longrightarrow> requested e = [] \<Longrightarrow> session_typed s \<Longrightarrow> session_typed s'"
proof (induction rule: sess_step.induct)
  case (expire rid s r s')
  then show ?case by (auto simp: removePending_def split: prod.split_asm intro: claimPending_typed)
next
  case (refuse_request k tc port now s s')
  then show ?case using addPending_None by blast
next
  case (claim rid s k port s')
  then show ?case using claimPending_typed by blast
next
  case (refuse_claim rid s s')
  then show ?case using claimPending_typed by blast
qed (auto simp: session_typed_def addSubscriber_def removeSubscriber_def addStream_def
    removeStream_def beginShutdown_def Let_def gm_get_def split: if_split_asm option.split_asm option.split sum.split_asm)

lemma removes_typed:
  "session_typed (removeSubscriber sub s) = session_typed s" "session_typed (removeStream rid s) = session_typed s"
  "session_typed s \<Longrightarrow> session_typed (snd (beginShutdown s))"
  by (auto simp: session_typed_def removeSubscriber_def removeStream_def beginShutdown_def Let_def gm_get_def split: option.split)

lemma newSession_typed: "mode = ModeTCP \<Longrightarrow> ports \<noteq> 0 \<Longrightarrow> session_typed (newSession mode ports pub addr ct now)"
  by (simp add: session_typed_def newSession_def gm_get_def)

lemma registry_typed_session:
  "registry_typed w \<Longrightarrow> (ref < wNextSess w \<Longrightarrow> session_typed s') \<Longrightarrow> registry_typed (set_sess ref s' w)"
  by (simp add: registry_typed_def)

lemma registry_typed_at: "registry_typed w \<Longrightarrow> ref < wNextSess w \<Longrightarrow> session_typed (wSess w ref)"
  by (simp add: registry_typed_def)

lemma claim_slot_typed:
  assumes "registry_typed w" and "ReadHello (c :: tls_conn) = (Inr h, c')" and "reg_claim_slot k h ct w = (Inr ref, w')"
  shows "registry_typed w'"
proof -
  have h: "hMode h = ModeTCP" "hPorts h \<noteq> 0" "length (hSessionID h) = SessionIDSize"
    using ReadHello_sound [OF assms(2)] by (auto simp: hello_valid_def)
  note c = reg_claim_slot_Inr [OF assms(3)]
  have old: "ref' < wNextSess w" if "gm_get (wSessions w) sid = Some ref'" for sid ref'
    using that assms(1) unfolding registry_typed_def by blast
  have "gm_get (wSessions w) sid \<noteq> Some (wNextSess w)" for sid using old by blast
  with assms(1) c h newSession_typed show ?thesis
    by (auto simp: registry_typed_def gm_has_def gomap_simps less_Suc_eq split: if_split_asm)
qed

lemma kill_pick_typed:
  assumes "registry_typed w" and "gm_wf (wSessions w)" and "kill_pick tag w = (Inr (sid, ref), w')"
  shows "registry_typed w'"
proof -
  note k = kill_pick_Inr [OF assms(3)]
  have "gm_get (wSessions w) sid = Some ref" using k assms(2) by (simp add: gm_in_set)
  then have "length sid = SessionIDSize" using assms(1) unfolding registry_typed_def by blast
  with k assms(1) show ?thesis by (auto simp: registry_typed_def gm_has_def gomap_simps split: if_split_asm)
qed

lemma relay_step_typed:
  assumes "relay_step s t" and "registry_typed (rlWorld s)" and "gm_wf (wSessions (rlWorld s))"
  shows "registry_typed (rlWorld t)"
  using assms
proof (induction rule: relay_step.induct)
  case (claim ph k c h c' ct w ref w')
  then show ?case using claim_slot_typed by simp
next
  case (kill ph k tag w sid ref w')
  then show ?case using kill_pick_typed by simp
next
  case (request ref w port conn tc now rid s' ph)
  have "session_typed s'" by (rule addPending_typed [OF request(5,3) registry_typed_at]) (use request in simp_all)
  with request show ?case using registry_typed_session by simp
next
  case (touch ref w e s' ph)
  then show ?case using registry_typed_session sess_step_typed registry_typed_at by simp
next
  case (join ph k ref w sub s')
  then show ?case using registry_typed_session sess_step_typed [OF join(3)] registry_typed_at by simp
next
  case (stream ph k ref w rid s')
  then show ?case using registry_typed_session sess_step_typed [OF stream(3)] registry_typed_at by simp
next
  case (shut ph k ref w)
  then show ?case using registry_typed_session removes_typed(3) registry_typed_at by simp
qed (auto simp: registry_typed_def removes_typed same_registry_def reg_delete_def gm_has_def gomap_simps release_def do_sess_set
    split: if_split_asm)

lemma registry_typed_init: "registry_typed (rlWorld (relay_init w))"
  by (simp add: registry_typed_def relay_init_def gm_get_def gm_has_def)

lemma relay_steps_typed:
  assumes "relay_steps s t" and "registry_typed (rlWorld s)" and "relay_inv s"
  shows "registry_typed (rlWorld t)"
proof -
  have "registry_typed (rlWorld v) \<and> relay_inv v" if "relay_step u v" "registry_typed (rlWorld u) \<and> relay_inv u" for u v
    using that relay_step_typed relay_inv_step by (simp add: relay_inv_def slots_owned_def)
  from relay_sys.keeps [where P = "\<lambda>s. registry_typed (rlWorld s) \<and> relay_inv s", OF this assms(1)] assms(2,3)
  show ?thesis by simp
qed

text \<open>
  C18: Nothing is left behind. Under every interleaving of all handlers, from an empty relay on: a
  registered session has the handler that registered it still running; every subscriber and
  every stream a session lists has the handler that will take it out; and when no handler has
  anything left to give back, no session is registered and every session there ever was is
  closed and lists no subscriber, no certificate, no waiting request and no stream.
\<close>

theorem nothing_left_behind:
  assumes "relay_steps (relay_init w0) s"
  defines "w \<equiv> rlWorld s"
  shows "(\<forall>sid ref. gm_get (wSessions w) sid = Some ref \<longrightarrow> (\<exists>k. rlPhase s k = Owning sid ref)) \<and>
    (\<forall>ref < wNextSess w.
       (\<forall>sub sc. gm_get (sSubscribers (wSess w ref)) sub = Some sc \<longrightarrow> rlPhase s (scControl sc) = Attached ref sub) \<and>
       (\<forall>rid. gm_has (sStreams (wSess w ref)) rid \<longrightarrow> (\<exists>k. rlPhase s k = Streaming ref rid))) \<and>
    ((\<forall>k. rlPhase s k = Idle) \<longrightarrow> wSessions w = [] \<and>
       (\<forall>ref < wNextSess w. sClosed (wSess w ref) \<and> sSubscribers (wSess w ref) = [] \<and>
          sSubscriberCerts (wSess w ref) = [] \<and> sPending (wSess w ref) = [] \<and> sStreams (wSess w ref) = []))"
proof -
  have i: "slots_owned s" "sessions_sound s" "open_attended s" "members_attended s"
    using relay_steps_inv [OF assms(1) relay_inv_init] by (simp_all add: relay_inv_def)
  have quiescent: "sClosed (wSess w ref) \<and> sSubscribers (wSess w ref) = [] \<and>
          sSubscriberCerts (wSess w ref) = [] \<and> sPending (wSess w ref) = [] \<and> sStreams (wSess w ref) = []"
    if "\<forall>k. rlPhase s k = Idle" "ref < wNextSess w" for ref
  proof -
    have c: "sClosed (wSess w ref)" using i(3) that by (auto simp: open_attended_def w_def)
    have m: "sSubscribers (wSess w ref) = []" "sStreams (wSess w ref) = []"
      using i(4) that by (auto simp: members_attended_def w_def gm_has_def intro!: gm_empty)
    have inv: "sess_inv (wSess w ref)" using i(2) that by (simp add: sessions_sound_def w_def)
    then have "gm_get (sSubscriberCerts (wSess w ref)) k = None" for k
      using m by (simp add: sess_inv_def certs_exact_def subs_with_def)
    then show ?thesis using c m inv gm_empty by (auto simp: sess_inv_def)
  qed
  have "wSessions w = []" if "\<forall>k. rlPhase s k = Idle"
    using i(1) that by (auto simp: slots_owned_def w_def intro!: gm_empty)
  with quiescent i(1,4) show ?thesis by (auto simp: slots_owned_def members_attended_def w_def)
qed

text \<open>
  A relay at work: connection 10 publishes, connection 21 subscribes, connection 11 splices. Then all
  of them return.
\<close>

definition sample_sid16 :: session_id where "sample_sid16 = replicate 16 3"

definition sample_publish :: hello where
  "sample_publish = \<lparr>hRole = RolePublish, hMode = ModeTCP, hSessionID = sample_sid16, hPorts = 2\<rparr>"

lemma sample_publish_read: "\<exists>c c' :: tls_conn. ReadHello c = (Inr sample_publish, c')"
proof -
  have v: "hello_valid sample_publish" by (simp add: hello_valid_def sample_publish_def sample_sid16_def go_consts)
  show ?thesis
    using hello_codec.read_enc [OF v, of "sample_tls 1 (encodeHello sample_publish)" "[]"]
    by (auto simp: ReadHello_def sample_tls_def)
qed

text \<open>What connection 10 and connection 21 register, and the stream of connection 11.\<close>

definition sample_session :: session where
  "sample_session = newSession ModeTCP 2 10 (remoteAddr (sample_net 10)) (sample_cert 1) (wNow sample_relay)"

definition sample_stream :: stream where
  "sample_stream = \<lparr>stPort = 0, stStarted = 0, stIntoSub = 0, stIntoPub = 0\<rparr>"

definition publishing :: "nat \<Rightarrow> phase" where
  "publishing = (\<lambda>_. Idle)(10 := Owning sample_sid16 0)"

definition all_busy :: "nat \<Rightarrow> phase" where
  "all_busy = publishing(21 := Attached 0 0, 11 := Streaming 0 0)"

lemma phases_at [simp]:
  "publishing 10 = Owning sample_sid16 0" "k \<noteq> 10 \<Longrightarrow> publishing k = Idle" "all_busy 10 = Owning sample_sid16 0"
  "all_busy 21 = Attached 0 0" "all_busy 11 = Streaming 0 0"
  by (simp_all add: publishing_def all_busy_def)

lemma sample_claimed:
  "\<exists>w. relay_steps (relay_init sample_relay) (at_phase w publishing) \<and> counters_ok w \<and>
     gm_get (wSessions w) sample_sid16 = Some 0 \<and> wNextSess w = 1 \<and> wSess w 0 = sample_session"
proof -
  let ?w = "rlWorld (relay_init sample_relay)"
  obtain r w where c: "reg_claim_slot 10 sample_publish (sample_cert 1) ?w = (r, w)" by (metis prod.exhaust)
  then have r: "r = Inr 0" by (auto simp: reg_claim_slot_def relay_init_def gm_has_def gm_get_def Let_def)
  obtain d d' :: tls_conn where d: "ReadHello d = (Inr sample_publish, d')" using sample_publish_read by blast
  have "relay_step (relay_init sample_relay) (at_phase w publishing)"
    using relay_step.claim [of "\<lambda>_. Idle" 10 d sample_publish d' "sample_cert 1" ?w 0 w] c r d
    by (simp add: relay_init_def sample_publish_def publishing_def)
  note steps = relay_steps_one [OF this]
  have w: "wSess w = (wSess sample_relay)(0 := sample_session)" "wNextSess w = 1" "gm_get (wSessions w) sample_sid16 = Some 0"
    using reg_claim_slot_Inr [of 10 sample_publish "sample_cert 1" ?w 0 w] c r
    by (simp_all add: gomap_simps relay_init_def sample_publish_def sample_session_def sample_relay_def)
  have "counters_ok w" by (simp add: counters_ok_def w(1) sample_session_def newSession_def sample_defs)
  with w steps show ?thesis by (intro exI [of _ w]) simp
qed

lemma sample_joined:
  "\<exists>s1. addSubscriber 21 (sample_tls 2 []) 0 sample_session = (Some 0, s1) \<and> gm_has (sSubscribers s1) 0 \<and> \<not> sClosed s1"
  by (simp add: sample_session_def newSession_def addSubscriber_def sample_tls_def peerLeafCert_def maxSessionPeers_def
      gm_len_def gm_has_def gomap_simps Let_def)

lemma sample_busy:
  "\<exists>w. relay_steps (relay_init sample_relay) (at_phase w all_busy) \<and>
     gm_get (wSessions w) sample_sid16 = Some 0 \<and> wNextSess w = 1 \<and>
     gm_has (sSubscribers (wSess w 0)) 0 \<and> gm_has (sStreams (wSess w 0)) 0"
proof -
  obtain w where w: "relay_steps (relay_init sample_relay) (at_phase w publishing)" "gm_get (wSessions w) sample_sid16 = Some 0"
    "wNextSess w = 1" and s0: "wSess w 0 = sample_session" using sample_claimed by blast
  obtain s1 where s1: "addSubscriber 21 (sample_tls 2 []) 0 (wSess w 0) = (Some 0, s1)"
    "gm_has (sSubscribers s1) 0" "\<not> sClosed s1" using sample_joined s0 by auto
  have "sess_step (wSess w 0) (Joined 0 21) s1"
    by (rule sess_step.join [OF _ s1(1)]) (simp add: s0 sample_session_def newSession_def)
  then have "relay_step (at_phase w publishing) (at_phase (set_sess 0 s1 w) (publishing(21 := Attached 0 0)))"
    using w(3) by (intro relay_step.join) simp_all
  note st1 = relay_steps.more [OF w(1) this]
  obtain s2 where s2: "addStream 0 sample_stream s1 = (True, s2)" "gm_has (sStreams s2) 0" "sSubscribers s2 = sSubscribers s1"
    using s1(3) by (simp add: addStream_def gm_has_def gomap_simps)
  have "sess_step (wSess (set_sess 0 s1 w) 0) (StreamOn 0) s2" using sess_step.stream_on [OF s2(1)] by simp
  then have "relay_step (at_phase (set_sess 0 s1 w) (publishing(21 := Attached 0 0)))
      (at_phase (set_sess 0 s2 (set_sess 0 s1 w)) ((publishing(21 := Attached 0 0))(11 := Streaming 0 0)))"
    using w(3) by (intro relay_step.stream) simp_all
  note st2 = relay_steps.more [OF st1 this]
  show ?thesis using w(2,3) s1(2) s2(2,3) st2 unfolding all_busy_def
    by (intro exI [of _ "set_sess 0 s2 (set_sess 0 s1 w)"]) simp
qed

lemma busy_returns:
  assumes "wNextSess w = 1"
  shows "\<exists>w'. wNextSess w' = 1 \<and> relay_steps (at_phase w all_busy) (at_phase w' (\<lambda>_. Idle))"
proof -
  let ?p1 = "all_busy(11 := Idle)" and ?w1 = "do_sess 0 (removeStream 0) w"
  let ?p2 = "?p1(21 := Idle)" and ?w2 = "release 0 0 ?w1"
  let ?p3 = "?p2(10 := Shutting 0)" and ?w3 = "reg_delete sample_sid16 ?w2"
  let ?p4 = "?p3(10 := Idle)" and ?w4 = "set_sess 0 (snd (beginShutdown (wSess ?w3 0))) ?w3"
  have "relay_step (at_phase w all_busy) (at_phase ?w1 ?p1)" by (rule relay_step.unstream) simp
  note s1 = relay_steps_one [OF this]
  have "relay_step (at_phase ?w1 ?p1) (at_phase ?w2 ?p2)" by (rule relay_step.leave) simp
  note s2 = relay_steps.more [OF s1 this]
  have "relay_step (at_phase ?w2 ?p2) (at_phase ?w3 ?p3)" by (rule relay_step.drop) simp
  note s3 = relay_steps.more [OF s2 this]
  have "relay_step (at_phase ?w3 ?p3) (at_phase ?w4 ?p4)" by (rule relay_step.shut) simp
  note s4 = relay_steps.more [OF s3 this]
  have "?p4 = (\<lambda>_. Idle)" by (rule ext) (simp add: all_busy_def publishing_def)
  with s4 have "relay_steps (at_phase w all_busy) (at_phase ?w4 (\<lambda>_. Idle))" by metis
  then show ?thesis using assms
    by (intro exI [of _ ?w4]) (simp add: release_def do_sess_set reg_delete_def)
qed

lemma nothing_left_behind_witness:
  "\<exists>s t. relay_steps (relay_init sample_relay) s \<and> gm_get (wSessions (rlWorld s)) sample_sid16 = Some 0 \<and>
     gm_has (sSubscribers (wSess (rlWorld s) 0)) 0 \<and> gm_has (sStreams (wSess (rlWorld s) 0)) 0 \<and>
     (\<exists>k. rlPhase s k = Owning sample_sid16 0) \<and> (\<exists>k. rlPhase s k = Attached 0 0) \<and> (\<exists>k. rlPhase s k = Streaming 0 0) \<and>
     relay_steps s t \<and> wSessions (rlWorld t) = [] \<and> wNextSess (rlWorld t) = 1 \<and> sClosed (wSess (rlWorld t) 0) \<and>
     sSubscribers (wSess (rlWorld t) 0) = [] \<and> sStreams (wSess (rlWorld t) 0) = []"
proof -
  obtain w where w: "relay_steps (relay_init sample_relay) (at_phase w all_busy)" "gm_get (wSessions w) sample_sid16 = Some 0"
    "wNextSess w = 1" "gm_has (sSubscribers (wSess w 0)) 0" "gm_has (sStreams (wSess w 0)) 0" using sample_busy by blast
  obtain w' where w': "wNextSess w' = 1" "relay_steps (at_phase w all_busy) (at_phase w' (\<lambda>_. Idle))" using busy_returns [OF w(3)] by blast
  obtain sc where sc: "gm_get (sSubscribers (wSess w 0)) 0 = Some sc" using w(4) by (auto simp: gm_has_def)
  have busy: "\<exists>k. all_busy k = Owning sample_sid16 0" "all_busy (scControl sc) = Attached 0 0" "\<exists>k. all_busy k = Streaming 0 0"
    using nothing_left_behind [OF w(1)] w(2,3,5) sc by simp_all
  have gone: "wSessions w' = [] \<and> sClosed (wSess w' 0) \<and> sSubscribers (wSess w' 0) = [] \<and> sStreams (wSess w' 0) = []"
    using nothing_left_behind [OF relay_steps_trans [OF w'(2) w(1)]] w'(1) by simp
  show ?thesis
    by (rule exI [of _ "at_phase w all_busy"], rule exI [of _ "at_phase w' (\<lambda>_. Idle)"]) (use w w' busy gone in auto)
qed

text \<open>
  C19: The handlers refine the steps. Whatever a peer sends, handling its connection from accept to
  return is a sequence of the atomic steps above that starts and ends with the handler owing
  nothing, as long as no session has used up its 2^64 identifiers; so what holds of every
  interleaving of the steps holds of every interleaving of the handlers' own steps.
\<close>

theorem handlers_refine_steps:
  fixes env :: "('sk, 'pk) handler_env"
  assumes "rlPhase s k = Idle" and "relay_steps (relay_init w0) s" and "counters_ok (rlWorld s)"
  shows "relay_steps s \<lparr>rlWorld = handleConn env k (rlWorld s), rlPhase = rlPhase s\<rparr>"
proof -
  have "sessions_bound (rlWorld s)"
    using relay_steps_inv [OF assms(2) relay_inv_init] by (auto simp: relay_inv_def slots_owned_def sessions_bound_def)
  from handleConn_relay [where ph = "rlPhase s", OF assms(1) this assms(3)] show ?thesis by (cases s) simp
qed

lemma handlers_refine_steps_witness:
  "let s = relay_init sample_relay
   in relay_steps s \<lparr>rlWorld = handleConn sample_env 10 (rlWorld s), rlPhase = rlPhase s\<rparr>"
proof -
  have "counters_ok (rlWorld (relay_init sample_relay))"
    by (simp add: counters_ok_def relay_init_def sample_defs)
  then show ?thesis
    using handlers_refine_steps [of "relay_init sample_relay" 10 sample_relay sample_env] relay_steps.none
    by (simp add: relay_init_def)
qed

text \<open>
  C40: What the relay keeps is well typed, beyond what the model's lists and words impose. Under every
  interleaving of all handlers, and after any of them has then run to its end: an identifier that is
  registered or killed has 16 bytes, one that is registered was not killed and names a session
  there is, which no other identifier names; and every session there ever was forwards TCP, has at least one port, and keeps
  waiting only connections for one of its ports. The mode and the port count are what \<open>ReadHello\<close>
  let through.
\<close>

theorem registry_well_typed:
  fixes env :: "('sk, 'pk) handler_env"
  assumes "relay_steps (relay_init w0) s" and "rlPhase s k = Idle" and "counters_ok (rlWorld s)"
    and "w = rlWorld s \<or> w = handleConn env k (rlWorld s)"
  shows "(\<forall>sid ref. gm_get (wSessions w) sid = Some ref \<longrightarrow>
       length sid = 16 \<and> ref < wNextSess w \<and> \<not> gm_has (wKilled w) sid) \<and>
    (\<forall>sid. gm_has (wKilled w) sid \<longrightarrow> length sid = 16) \<and>
    (\<forall>sid sid' ref. gm_get (wSessions w) sid = Some ref \<and> gm_get (wSessions w) sid' = Some ref \<longrightarrow> sid = sid') \<and>
    (\<forall>ref < wNextSess w. sMode (wSess w ref) = ModeTCP \<and> sPorts (wSess w ref) \<noteq> 0 \<and>
       (\<forall>rid req. gm_get (sPending (wSess w ref)) rid = Some req \<longrightarrow> prPort req < sPorts (wSess w ref)))"
proof -
  have "sessions_bound (rlWorld s)"
    using relay_steps_inv [OF assms(1) relay_inv_init] by (auto simp: relay_inv_def slots_owned_def sessions_bound_def)
  from handleConn_relay [where ph = "rlPhase s" and env = env, OF assms(2) this assms(3)]
  have "relay_steps s (at_phase (handleConn env k (rlWorld s)) (rlPhase s))" by (cases s) simp
  from relay_steps_trans [OF this assms(1)] assms(1,4) have "registry_typed w"
    using relay_steps_typed [OF _ registry_typed_init relay_inv_init] by fastforce
  then show ?thesis by (simp add: registry_typed_def session_typed_def SessionIDSize_def)
qed

lemma registry_well_typed_witness:
  "\<exists>s. relay_steps (relay_init sample_relay) s \<and> gm_get (wSessions (rlWorld s)) sample_sid16 = Some 0 \<and>
     sMode (wSess (rlWorld s) 0) = ModeTCP \<and> sPorts (wSess (rlWorld s) 0) \<noteq> 0"
proof -
  obtain w where w: "relay_steps (relay_init sample_relay) (at_phase w publishing)" "counters_ok w"
    "gm_get (wSessions w) sample_sid16 = Some 0" "wNextSess w = 1" using sample_claimed by blast
  have "sMode (wSess w 0) = ModeTCP \<and> sPorts (wSess w 0) \<noteq> 0"
    using registry_well_typed [OF w(1), of 30 w sample_env] w(2,4) by simp
  with w show ?thesis by (intro exI [of _ "at_phase w publishing"]) simp
qed

end
