(* ===== verification/HostPort.thy ===== *)
theory HostPort
  imports Go_Errors
begin

text \<open>
  Addresses and port ranges (\<^verbatim>\<open>internal/hostport.go\<close>). The parts of the standard library that
  take texts apart are written out: \<open>net.SplitHostPort\<close>, \<open>net.JoinHostPort\<close>,
  \<open>strings.Cut\<close> and \<open>strconv.ParseUint\<close>. How an IP address is read and written
  (\<open>net/netip\<close>) is the parameter \<open>netip\<close>, with the two laws \<open>netip_ok\<close> the code
  relies on.
\<close>

section \<open>The standard library's part\<close>

fun IndexByte :: "string \<Rightarrow> char \<Rightarrow> nat option" where
  "IndexByte [] c = None"
| "IndexByte (x # xs) c = (if x = c then Some 0 else map_option Suc (IndexByte xs c))"

definition LastIndexByte :: "string \<Rightarrow> char \<Rightarrow> nat option" where
  "LastIndexByte s c = map_option (\<lambda>i. length s - 1 - i) (IndexByte (rev s) c)"

definition addr_error :: "string \<Rightarrow> string \<Rightarrow> error" where
  "addr_error addr why = Msg (if addr = [] then why else ''address '' @ addr @ '': '' @ why)"

definition split_rest :: "string \<Rightarrow> string \<Rightarrow> nat \<Rightarrow> nat \<Rightarrow> nat \<Rightarrow> (string \<times> string) result" where
  "split_rest hp host j k i =
     (if IndexByte (drop j hp) CHR ''['' \<noteq> None then Inl (addr_error hp ''unexpected '[' in address'')
      else if IndexByte (drop k hp) CHR '']'' \<noteq> None then Inl (addr_error hp ''unexpected ']' in address'')
      else Inr (host, drop (i + 1) hp))"

definition SplitHostPort :: "string \<Rightarrow> (string \<times> string) result" where
  "SplitHostPort hp =
     (case LastIndexByte hp CHR '':'' of
        None \<Rightarrow> Inl (addr_error hp ''missing port in address'')
      | Some i \<Rightarrow>
          if hd hp = CHR ''['' then
            (case IndexByte hp CHR '']'' of
               None \<Rightarrow> Inl (addr_error hp ''missing ']' in address'')
             | Some e \<Rightarrow>
                 if e + 1 = length hp then Inl (addr_error hp ''missing port in address'')
                 else if e + 1 = i then split_rest hp (drop 1 (take e hp)) 1 (e + 1) i
                 else if hp ! (e + 1) = CHR '':'' then Inl (addr_error hp ''too many colons in address'')
                 else Inl (addr_error hp ''missing port in address''))
          else if IndexByte (take i hp) CHR '':'' \<noteq> None
          then Inl (addr_error hp ''too many colons in address'')
          else split_rest hp (take i hp) 0 0 i)"

definition JoinHostPort :: "string \<Rightarrow> string \<Rightarrow> string" where
  "JoinHostPort host port =
     (if IndexByte host CHR '':'' \<noteq> None then ''['' @ host @ '']:'' @ port else host @ '':'' @ port)"

definition Cut :: "string \<Rightarrow> char \<Rightarrow> string \<times> string \<times> bool" where
  "Cut s sep = (case IndexByte s sep of
     None \<Rightarrow> (s, [], False) | Some i \<Rightarrow> (take i s, drop (i + 1) s, True))"

definition dec_digit :: "char \<Rightarrow> nat option" where
  "dec_digit c = (let n = of_char c :: nat in if 48 \<le> n \<and> n \<le> 57 then Some (n - 48) else None)"

definition num_error :: "string \<Rightarrow> string \<Rightarrow> error" where
  "num_error s why = Msg (''strconv.ParseUint: parsing '' @ go_quote s @ '': '' @ why)"

fun parse_digits :: "nat \<Rightarrow> string \<Rightarrow> string \<Rightarrow> nat \<Rightarrow> nat result" where
  "parse_digits maxVal s [] n = Inr n"
| "parse_digits maxVal s (c # cs) n =
     (case dec_digit c of
        None \<Rightarrow> Inl (num_error s ''invalid syntax'')
      | Some d \<Rightarrow>
          if n * 10 + d > maxVal then Inl (num_error s ''value out of range'')
          else parse_digits maxVal s cs (n * 10 + d))"

definition ParseUint :: "string \<Rightarrow> nat \<Rightarrow> nat result" where
  "ParseUint s bitSize =
     (if s = [] then Inl (num_error s ''invalid syntax'') else parse_digits (2 ^ bitSize - 1) s s 0)"

section \<open>HostPort\<close>

datatype hp_kind = KindIP | KindName

record 'ip hostPort =
  hpKind :: hp_kind
  hpIP :: "'ip option"
  hpName :: string
  hpPort :: u16

record 'ip netip =
  netParseAddr :: "string \<Rightarrow> 'ip option"
  netAddrString :: "'ip \<Rightarrow> string"

definition parsePort :: "string \<Rightarrow> u16 result" where
  "parsePort s =
     (case ParseUint s 16 of
        Inl e \<Rightarrow> Inl (Wrap2 (Sentinel ErrInvalidHostPort) '': bad port: '' e)
      | Inr port \<Rightarrow> Inr (of_nat port))"

definition newHostPort :: "'ip netip \<Rightarrow> string \<Rightarrow> u16 \<Rightarrow> 'ip hostPort result" where
  "newHostPort np host port =
     (case netParseAddr np host of
        Some ip \<Rightarrow> Inr \<lparr>hpKind = KindIP, hpIP = Some ip, hpName = [], hpPort = port\<rparr>
      | None \<Rightarrow>
          if host = [] \<or> IndexByte host CHR '' '' \<noteq> None \<or> IndexByte host CHR 0x09 \<noteq> None
          then Inl (Wrap [] (Sentinel ErrInvalidHostPort) ('': bad host '' @ go_quote host))
          else Inr \<lparr>hpKind = KindName, hpIP = None, hpName = host, hpPort = port\<rparr>)"

definition hp_Parse :: "'ip netip \<Rightarrow> string \<Rightarrow> 'ip hostPort result" where
  "hp_Parse np s =
     (case SplitHostPort s of
        Inl e \<Rightarrow> Inl (Wrap2 (Sentinel ErrInvalidHostPort) '': '' e)
      | Inr (host, portStr) \<Rightarrow>
          (case parsePort portStr of
             Inl e \<Rightarrow> Inl e
           | Inr port \<Rightarrow> newHostPort np host port))"

text \<open>The zero address prints as Go's zero \<open>netip.Addr\<close> does.\<close>

definition ip_text :: "'ip netip \<Rightarrow> 'ip option \<Rightarrow> string" where
  "ip_text np ip = (case ip of None \<Rightarrow> ''invalid IP'' | Some a \<Rightarrow> netAddrString np a)"

definition hostPort_String :: "'ip netip \<Rightarrow> 'ip hostPort \<Rightarrow> string" where
  "hostPort_String np h =
     (if hpKind h = KindIP then JoinHostPort (ip_text np (hpIP h)) (show_nat (unat (hpPort h)))
      else JoinHostPort (hpName h) (show_nat (unat (hpPort h))))"

definition hp_UnmarshalText :: "'ip netip \<Rightarrow> string \<Rightarrow> 'ip hostPort \<Rightarrow> error option \<times> 'ip hostPort" where
  "hp_UnmarshalText np b h = (case hp_Parse np b of Inl e \<Rightarrow> (Some e, h) | Inr parsed \<Rightarrow> (None, parsed))"

definition hp_MarshalText :: "'ip netip \<Rightarrow> 'ip hostPort \<Rightarrow> string" where
  "hp_MarshalText np h = hostPort_String np h"

section \<open>Range\<close>

definition MaxPorts :: nat where [go_consts]: "MaxPorts = 1024"

record 'ip port_range =
  rgBase :: "'ip hostPort"
  rgCount :: int

definition range_error :: "string \<Rightarrow> error" where
  "range_error why = Wrap [] (Sentinel ErrInvalidRange) ('': '' @ why)"

definition parsePortSpan :: "string \<Rightarrow> (u16 \<times> u16) result" where
  "parsePortSpan s =
     (case Cut s CHR ''-'' of
        (firstStr, lastStr, isSpan) \<Rightarrow>
          (case parsePort firstStr of
             Inl e \<Rightarrow> Inl e
           | Inr first \<Rightarrow>
               if \<not> isSpan then Inr (first, first)
               else (case parsePort lastStr of
                       Inl e \<Rightarrow> Inl e
                     | Inr final \<Rightarrow>
                         if first = 0 then Inl (range_error ''a range cannot start at port 0'')
                         else if final < first
                         then Inl (range_error (show_nat (unat first) @ ''-'' @ show_nat (unat final) @
                                '' ends before it starts''))
                         else if int (unat final) - int (unat first) + 1 > int MaxPorts
                         then Inl (range_error (show_nat (unat first) @ ''-'' @ show_nat (unat final) @
                                '' spans more than '' @ show_nat MaxPorts @ '' ports''))
                         else Inr (first, final))))"

definition ParseRange :: "'ip netip \<Rightarrow> string \<Rightarrow> 'ip port_range result" where
  "ParseRange np s =
     (case SplitHostPort s of
        Inl e \<Rightarrow> Inl (Wrap2 (Sentinel ErrInvalidHostPort) '': '' e)
      | Inr (host, portsStr) \<Rightarrow>
          (case parsePortSpan portsStr of
             Inl e \<Rightarrow> Inl e
           | Inr (first, final) \<Rightarrow>
               (case newHostPort np host first of
                  Inl e \<Rightarrow> Inl e
                | Inr base \<Rightarrow> Inr \<lparr>rgBase = base, rgCount = int (unat final) - int (unat first) + 1\<rparr>)))"

definition range_Len :: "'ip port_range \<Rightarrow> int" where
  "range_Len r = rgCount r"

text \<open>\<open>At\<close>: the pair of an address and \<open>true\<close> is \<open>Some\<close>. The sum is 16 bits wide.\<close>

definition range_At :: "'ip port_range \<Rightarrow> int \<Rightarrow> 'ip hostPort option" where
  "range_At r i =
     (if i < 0 \<or> i \<ge> rgCount r then None
      else Some ((rgBase r)\<lparr>hpPort := hpPort (rgBase r) + of_int i\<rparr>))"

definition range_String :: "'ip netip \<Rightarrow> 'ip port_range \<Rightarrow> string" where
  "range_String np r =
     (if rgCount r \<le> 1 then hostPort_String np (rgBase r)
      else hostPort_String np (rgBase r) @ ''-'' @
        show_nat (case range_At r (rgCount r - 1) of None \<Rightarrow> 0 | Some h \<Rightarrow> unat (hpPort h)))"

definition range_UnmarshalText :: "'ip netip \<Rightarrow> string \<Rightarrow> 'ip port_range \<Rightarrow> error option \<times> 'ip port_range" where
  "range_UnmarshalText np b r = (case ParseRange np b of Inl e \<Rightarrow> (Some e, r) | Inr parsed \<Rightarrow> (None, parsed))"

definition range_MarshalText :: "'ip netip \<Rightarrow> 'ip port_range \<Rightarrow> string" where
  "range_MarshalText np r = range_String np r"

section \<open>Splitting and joining\<close>

lemma IndexByte_None [simp]: "IndexByte s c = None \<longleftrightarrow> c \<notin> set s"
  by (induction s) auto

lemma IndexByte_Some_iff [simp]: "(\<exists>i. IndexByte s c = Some i) \<longleftrightarrow> c \<in> set s"
  using IndexByte_None [of s c] by (metis not_None_eq)

lemma IndexByte_append:
  "IndexByte (xs @ ys) c = (if c \<in> set xs then IndexByte xs c else map_option (\<lambda>i. i + length xs) (IndexByte ys c))"
  by (induction xs) (auto simp: option.map_comp comp_def option.map_ident)

lemma IndexByte_first [simp]: "c \<notin> set xs \<Longrightarrow> IndexByte (xs @ c # ys) c = Some (length xs)"
  by (simp add: IndexByte_append)

lemma IndexByte_splits: "IndexByte s c = Some i \<Longrightarrow> \<exists>xs ys. s = xs @ c # ys \<and> c \<notin> set xs \<and> length xs = i"
proof (induction s arbitrary: i)
  case (Cons x s)
  then show ?case
    by (auto split: if_splits) (metis append_Cons length_Cons set_ConsD)
qed simp

lemma LastIndexByte_last [simp]: "c \<notin> set ys \<Longrightarrow> LastIndexByte (xs @ c # ys) c = Some (length xs)"
  using IndexByte_first [of c "rev ys" "rev xs"] by (simp add: LastIndexByte_def)

lemma LastIndexByte_splits:
  assumes "LastIndexByte s c = Some i"
  shows "\<exists>xs ys. s = xs @ c # ys \<and> c \<notin> set ys \<and> length xs = i"
proof -
  obtain j where j: "IndexByte (rev s) c = Some j" "i = length s - 1 - j"
    using assms by (auto simp: LastIndexByte_def)
  from IndexByte_splits [OF j(1)] obtain xs ys where
    xs: "rev s = xs @ c # ys" "c \<notin> set xs" "length xs = j" by blast
  then have "s = rev ys @ c # rev xs" by (metis append.assoc append_Cons append_Nil rev.simps(2) rev_append rev_rev_ident)
  with xs j(2) show ?thesis by (intro exI [of _ "rev ys"] exI [of _ "rev xs"]) simp
qed

text \<open>No brackets: what both halves of a split satisfy.\<close>

definition plain :: "string \<Rightarrow> bool" where
  "plain s \<longleftrightarrow> CHR ''['' \<notin> set s \<and> CHR '']'' \<notin> set s"

lemma SplitHostPort_Inr:
  assumes "SplitHostPort s = Inr (host, port)"
  shows "plain host \<and> plain port \<and> CHR '':'' \<notin> set port"
proof -
  obtain i where i: "LastIndexByte s CHR '':'' = Some i"
    using assms by (auto simp: SplitHostPort_def split: option.splits)
  obtain xs ys where s: "s = xs @ CHR '':'' # ys" "CHR '':'' \<notin> set ys" "length xs = i"
    using LastIndexByte_splits [OF i] by blast
  show ?thesis
  proof (cases "hd s = CHR ''[''")
    case True
    then obtain e where e: "IndexByte s CHR '']'' = Some e" and r: "split_rest s (drop 1 (take e s)) 1 (e + 1) i = Inr (host, port)"
      and ei: "e + 1 = i"
      using assms i by (auto simp: SplitHostPort_def split: option.splits if_splits)
    from IndexByte_splits [OF e] obtain us vs where u: "s = us @ CHR '']'' # vs" "CHR '']'' \<notin> set us" "length us = e" by blast
    have at: "take e s = us" using u by simp
    have "drop (i + 1) s = ys" using s by simp
    note at = at this
    have r': "host = drop 1 us" "port = ys" "CHR ''['' \<notin> set (drop 1 s)" "CHR '']'' \<notin> set (drop (e + 1) s)"
      using r at by (simp_all add: split_rest_def split: if_splits)
    have "host = take (e - 1) (drop 1 s)" unfolding r'(1) at(1) [symmetric] by (simp only: drop_take)
    then have "set host \<subseteq> set (drop 1 s)" by (metis set_take_subset)
    moreover have "set port \<subseteq> set (drop 1 s)" "set port \<subseteq> set (drop (e + 1) s)"
      using set_drop_subset_set_drop [of 1 "i + 1" s] set_drop_subset_set_drop [of "e + 1" "i + 1" s] at(2) r'(2) ei by auto
    moreover have "set host \<subseteq> set us" using r'(1) by (simp add: set_drop_subset)
    ultimately show ?thesis using r' s(2) u(2) by (auto simp: plain_def)
  next
    case False
    then have "split_rest s xs 0 0 i = Inr (host, port)"
      using assms i s by (auto simp: SplitHostPort_def split: if_splits)
    then show ?thesis using s by (auto simp: split_rest_def plain_def split: if_splits)
  qed
qed

lemma SplitHostPort_Join:
  assumes "plain host" and "plain port" and "CHR '':'' \<notin> set port"
  shows "SplitHostPort (JoinHostPort host port) = Inr (host, port)"
proof (cases "CHR '':'' \<in> set host")
  case True
  let ?s = "''['' @ host @ '']:'' @ port"
  have i: "LastIndexByte ?s CHR '':'' = Some (length host + 2)"
    using LastIndexByte_last [OF assms(3), of "''['' @ host @ '']''"] by simp
  have e: "IndexByte ?s CHR '']'' = Some (length host + 1)"
    using IndexByte_first [of "CHR '']''" "''['' @ host" "'':'' @ port"] assms(1) by (simp add: plain_def)
  show ?thesis
    using True assms i e by (simp add: SplitHostPort_def JoinHostPort_def split_rest_def plain_def)
next
  case False
  have h: "hd (host @ CHR '':'' # port) \<noteq> CHR ''[''" using assms(1) by (cases host) (auto simp: plain_def)
  show ?thesis
    using False assms h by (simp add: SplitHostPort_def JoinHostPort_def split_rest_def plain_def)
qed

lemma Cut_at [simp]: "sep \<notin> set a \<Longrightarrow> Cut (a @ sep # b) sep = (a, b, True)"
  by (simp add: Cut_def)

lemma Cut_none [simp]: "sep \<notin> set a \<Longrightarrow> Cut a sep = (a, [], False)"
  by (simp add: Cut_def split: option.split)

section \<open>Numbers\<close>

lemma dec_digit_char [simp]: "d < 10 \<Longrightarrow> dec_digit (char_of (48 + d)) = Some d"
  by (simp add: dec_digit_def)

lemma parse_digits_snoc:
  "parse_digits m s (xs @ [c]) n =
     (case parse_digits m s xs n of Inl e \<Rightarrow> Inl e | Inr k \<Rightarrow> parse_digits m s [c] k)"
  by (induction xs arbitrary: n) (auto split: option.splits)

lemma parse_digits_show: "n \<le> m \<Longrightarrow> parse_digits m s (show_nat n) 0 = Inr n"
proof (induction n rule: show_nat.induct)
  case (1 n)
  show ?case
  proof (cases "n < 10")
    case True
    then show ?thesis using "1.prems" by (subst show_nat.simps) simp
  next
    case False
    then have "parse_digits m s (show_nat (n div 10)) 0 = Inr (n div 10)" using 1 by simp
    then show ?thesis using False "1.prems" by (subst show_nat.simps) (simp add: parse_digits_snoc)
  qed
qed

lemma show_nat_digits: "c \<in> set (show_nat n) \<Longrightarrow> dec_digit c \<noteq> None"
proof (induction n rule: show_nat.induct)
  case (1 n)
  then show ?case by (subst (asm) (2) show_nat.simps) (auto split: if_splits)
qed

lemma show_nat_plain [simp]: "plain (show_nat n)" "CHR '':'' \<notin> set (show_nat n)" "CHR ''-'' \<notin> set (show_nat n)"
proof -
  have "dec_digit CHR ''['' = None" "dec_digit CHR '']'' = None" "dec_digit CHR '':'' = None" "dec_digit CHR ''-'' = None"
    by (simp_all add: dec_digit_def)
  then show "plain (show_nat n)" "CHR '':'' \<notin> set (show_nat n)" "CHR ''-'' \<notin> set (show_nat n)"
    unfolding plain_def using show_nat_digits [of _ n] by metis+
qed

lemma show_nat_nonempty [simp]: "show_nat n \<noteq> []"
  by (subst show_nat.simps) simp

lemma parsePort_show [simp]: "parsePort (show_nat (unat p)) = Inr p"
proof -
  have "unat p \<le> 2 ^ 16 - 1" using unsigned_less [where ?'a = nat and w = p] by simp
  from parse_digits_show [OF this] show ?thesis by (simp add: parsePort_def ParseUint_def)
qed

section \<open>Properties\<close>

lemma parsePortSpan_Inr:
  assumes "parsePortSpan s = Inr (first, final)"
  shows "first = final \<or> first \<noteq> 0 \<and> first \<le> final \<and> unat final - unat first + 1 \<le> MaxPorts"
  using assms by (auto simp: parsePortSpan_def not_less word_le_nat_alt simp del: of_nat_unat
      split: sum.splits prod.splits if_splits)

lemma parsePortSpan_show:
  assumes "first = final \<or> first \<noteq> 0 \<and> first \<le> final \<and> unat final - unat first + 1 \<le> MaxPorts"
  shows "parsePortSpan (show_nat (unat first) @ (if first = final then [] else ''-'' @ show_nat (unat final))) = Inr (first, final)"
proof (cases "first = final")
  case True
  then show ?thesis by (simp add: parsePortSpan_def)
next
  case False
  then have "first \<noteq> 0" "\<not> final < first" "\<not> int (unat final) - int (unat first) + 1 > int MaxPorts"
    using assms by (auto simp: word_le_nat_alt not_less simp del: of_nat_unat)
  then show ?thesis using False by (simp add: parsePortSpan_def del: of_nat_unat)
qed

lemma newHostPort_Inr:
  assumes "newHostPort np host port = Inr h"
  shows "hpPort h = port \<and>
    (netParseAddr np host \<noteq> None \<and> hpKind h = KindIP \<and> hpIP h = netParseAddr np host \<and> hpName h = [] \<or>
     netParseAddr np host = None \<and> hpKind h = KindName \<and> hpIP h = None \<and> hpName h = host)"
  using assms by (auto simp: newHostPort_def split: option.splits if_splits)

lemma ParseRange_Inr:
  assumes "ParseRange np s = Inr r"
  obtains host ports final where "SplitHostPort s = Inr (host, ports)"
    and "newHostPort np host (hpPort (rgBase r)) = Inr (rgBase r)"
    and "rgCount r = int (unat final) - int (unat (hpPort (rgBase r))) + 1"
    and "parsePortSpan ports = Inr (hpPort (rgBase r), final)"
proof -
  obtain host ports first final base where p: "SplitHostPort s = Inr (host, ports)"
    "parsePortSpan ports = Inr (first, final)" "newHostPort np host first = Inr base"
    "r = \<lparr>rgBase = base, rgCount = int (unat final) - int (unat first) + 1\<rparr>"
    using assms by (auto simp: ParseRange_def split: sum.splits prod.splits)
  moreover from newHostPort_Inr [OF p(3)] have "hpPort base = first" by blast
  ultimately show thesis using that by simp
qed

text \<open>What a range that parses looks like, and what \<open>At\<close> gives.\<close>

lemma ParseRange_len:
  assumes "ParseRange np s = Inr r"
  shows "1 \<le> range_Len r \<and> range_Len r \<le> int MaxPorts \<and> int (unat (hpPort (rgBase r))) + range_Len r \<le> 65536"
proof -
  obtain host ports final where p: "rgCount r = int (unat final) - int (unat (hpPort (rgBase r))) + 1"
    "parsePortSpan ports = Inr (hpPort (rgBase r), final)"
    using ParseRange_Inr [OF assms] by metis
  have f: "unat final < 65536" using unsigned_less [where ?'a = nat and w = final] by simp
  show ?thesis
    using parsePortSpan_Inr [OF p(2)] f by (auto simp: range_Len_def p(1) word_le_nat_alt MaxPorts_def simp del: of_nat_unat)
qed

lemma small_u16: "0 \<le> i \<Longrightarrow> i < 65536 \<Longrightarrow> int (unat (of_int i :: u16)) = i"
  by (simp add: unsigned_of_int take_bit_int_eq_self)

lemma ParseRange_At:
  assumes "ParseRange np s = Inr r"
  shows "if i < 0 \<or> i \<ge> range_Len r then range_At r i = None
    else \<exists>h. range_At r i = Some h \<and> hpKind h = hpKind (rgBase r) \<and> hpIP h = hpIP (rgBase r) \<and>
      hpName h = hpName (rgBase r) \<and> int (unat (hpPort h)) = int (unat (hpPort (rgBase r))) + i"
proof (cases "i < 0 \<or> i \<ge> range_Len r")
  case False
  then have i: "0 \<le> i" "i < range_Len r" by simp_all
  note len = ParseRange_len [OF assms]
  have "int (unat (hpPort (rgBase r))) + i < 65536" using i len by linarith
  then have "unat (hpPort (rgBase r)) + nat i < 2 ^ 16" using i(1) by (simp del: of_nat_unat)
  moreover have "i < 65536" using i(2) len by (simp add: MaxPorts_def)
  then have "unat (of_int i :: u16) = nat i" using small_u16 [OF i(1)] by (metis nat_int)
  ultimately have "int (unat (hpPort (rgBase r) + of_int i)) = int (unat (hpPort (rgBase r))) + i"
    using i(1) by (simp add: unat_word_ariths(1))
  then show ?thesis using i by (simp add: range_At_def range_Len_def)
qed (simp add: range_At_def range_Len_def)

text \<open>
  C29: No port of a range wraps round. A range that parses spans at least one and at most 1024
  ports, ends at 65535 at the latest, and its length survives the 16 bits it is announced in;
  \<open>At\<close> answers exactly the indices inside it, with the range's host and, for index \<open>i\<close>, the
  port \<open>i\<close> after the first.
\<close>

theorem range_ports_in_bounds:
  assumes "ParseRange np s = Inr r"
  shows "1 \<le> range_Len r \<and> range_Len r \<le> int MaxPorts \<and>
    int (unat (hpPort (rgBase r))) + range_Len r \<le> 65536 \<and>
    int (unat (of_int (range_Len r) :: u16)) = range_Len r \<and>
    (\<forall>i. (range_At r i = None \<longleftrightarrow> i < 0 \<or> i \<ge> range_Len r) \<and>
      (\<forall>h. range_At r i = Some h \<longrightarrow> hpKind h = hpKind (rgBase r) \<and> hpIP h = hpIP (rgBase r) \<and>
         hpName h = hpName (rgBase r) \<and> int (unat (hpPort h)) = int (unat (hpPort (rgBase r))) + i))"
proof -
  have "int (unat (of_int (range_Len r) :: u16)) = range_Len r"
    using ParseRange_len [OF assms] small_u16 [of "range_Len r"] by (simp add: MaxPorts_def)
  moreover have "(range_At r i = None \<longleftrightarrow> i < 0 \<or> i \<ge> range_Len r) \<and>
      (\<forall>h. range_At r i = Some h \<longrightarrow> hpKind h = hpKind (rgBase r) \<and> hpIP h = hpIP (rgBase r) \<and>
         hpName h = hpName (rgBase r) \<and> int (unat (hpPort h)) = int (unat (hpPort (rgBase r))) + i)" for i
    using ParseRange_At [OF assms, of i] by (auto split: if_splits)
  ultimately show ?thesis using ParseRange_len [OF assms] by blast
qed

definition sample_netip :: "string netip" where
  "sample_netip = \<lparr>netParseAddr = (\<lambda>s. if s = ''::1'' \<or> s = ''127.0.0.1'' then Some s else None), netAddrString = id\<rparr>"

lemma sample_range: "ParseRange sample_netip ''[::1]:8000-8010'' =
    Inr \<lparr>rgBase = \<lparr>hpKind = KindIP, hpIP = Some ''::1'', hpName = [], hpPort = 8000\<rparr>, rgCount = 11\<rparr>"
  by (simp add: ParseRange_def SplitHostPort_def LastIndexByte_def split_rest_def parsePortSpan_def Cut_def parsePort_def
      ParseUint_def dec_digit_def newHostPort_def sample_netip_def MaxPorts_def word_less_nat_alt)

lemma range_ports_in_bounds_witness:
  "\<exists>r. ParseRange sample_netip ''[::1]:8000-8010'' = Inr r \<and> range_Len r = 11 \<and>
     int (unat (hpPort (rgBase r))) + range_Len r \<le> 65536"
  using range_ports_in_bounds [OF sample_range] by (auto simp: sample_range range_Len_def)

text \<open>The laws of \<open>net/netip\<close>: an address is read back from its text, which has no bracket.\<close>

definition netip_ok :: "'ip netip \<Rightarrow> bool" where
  "netip_ok np \<longleftrightarrow> (\<forall>host ip. plain host \<and> netParseAddr np host = Some ip \<longrightarrow>
     plain (netAddrString np ip) \<and> netParseAddr np (netAddrString np ip) = Some ip)"

lemma hostPort_text:
  assumes "newHostPort np host port = Inr h" and "plain host" and "netip_ok np"
  shows "\<exists>host'. plain host' \<and> hostPort_String np h = JoinHostPort host' (show_nat (unat port)) \<and>
    newHostPort np host' port = Inr h"
proof (cases "netParseAddr np host")
  case None
  then show ?thesis using newHostPort_Inr [OF assms(1)] assms by (auto simp: hostPort_String_def)
next
  case (Some ip)
  then have h: "h = \<lparr>hpKind = KindIP, hpIP = Some ip, hpName = [], hpPort = port\<rparr>"
    using assms(1) by (simp add: newHostPort_def)
  have "plain (netAddrString np ip) \<and> netParseAddr np (netAddrString np ip) = Some ip"
    using assms(2,3) Some by (auto simp: netip_ok_def)
  then show ?thesis
    by (intro exI [of _ "netAddrString np ip"]) (simp add: h hostPort_String_def ip_text_def newHostPort_def)
qed

lemma JoinHostPort_append: "JoinHostPort host p @ q = JoinHostPort host (p @ q)"
  by (simp add: JoinHostPort_def)

text \<open>How a range prints: its host's text, and the ports in a form that parses back.\<close>

lemma range_text:
  assumes "ParseRange np s = Inr r" and "netip_ok np"
  obtains host ports final where "plain host" and "plain ports" and "CHR '':'' \<notin> set ports"
    and "range_String np r = JoinHostPort host ports" and "newHostPort np host (hpPort (rgBase r)) = Inr (rgBase r)"
    and "parsePortSpan ports = Inr (hpPort (rgBase r), final)"
    and "rgCount r = int (unat final) - int (unat (hpPort (rgBase r))) + 1"
proof -
  obtain host ports final where p: "SplitHostPort s = Inr (host, ports)"
    "newHostPort np host (hpPort (rgBase r)) = Inr (rgBase r)"
    "rgCount r = int (unat final) - int (unat (hpPort (rgBase r))) + 1"
    "parsePortSpan ports = Inr (hpPort (rgBase r), final)"
    using ParseRange_Inr [OF assms(1)] by metis
  let ?first = "hpPort (rgBase r)"
  let ?ports = "show_nat (unat ?first) @ (if ?first = final then [] else ''-'' @ show_nat (unat final))"
  note span = parsePortSpan_Inr [OF p(4)]
  have "plain host" using SplitHostPort_Inr [OF p(1)] by blast
  from hostPort_text [OF p(2) this assms(2)] obtain host' where
    h: "plain host'" "hostPort_String np (rgBase r) = JoinHostPort host' (show_nat (unat ?first))"
      "newHostPort np host' ?first = Inr (rgBase r)" by blast
  have more1: "rgCount r \<le> 1 \<longleftrightarrow> ?first = final"
    using span by (auto simp: p(3) word_le_nat_alt word_unat_eq_iff simp del: of_nat_unat)
  have "range_At r (rgCount r - 1) = Some ((rgBase r)\<lparr>hpPort := final\<rparr>)" if "?first \<noteq> final"
    using that more1 by (simp add: range_At_def) (simp add: p(3))
  then have str: "range_String np r = JoinHostPort host' ?ports"
    using more1 h(2) by (simp add: range_String_def JoinHostPort_append)
  have "plain ?ports" "CHR '':'' \<notin> set ?ports" using show_nat_plain by (auto simp: plain_def)
  from that [OF h(1) this str h(3) parsePortSpan_show [OF span] p(3)] show thesis .
qed

lemma ParseRange_Join:
  assumes "plain host" and "plain ports" and "CHR '':'' \<notin> set ports" and "parsePortSpan ports = Inr (first, final)"
    and "newHostPort np host first = Inr base"
  shows "ParseRange np (JoinHostPort host ports) =
    Inr \<lparr>rgBase = base, rgCount = int (unat final) - int (unat first) + 1\<rparr>"
  using SplitHostPort_Join [OF assms(1-3)] assms(4,5) by (simp add: ParseRange_def)

text \<open>
  A range prints as it parses. Every range that \<open>ParseRange\<close> accepts, of one port or many,
  with an IPv4 or IPv6 address or a name, prints to a text that parses to the same range; so
  what a flag's value or a configuration file says survives being written back.
\<close>

theorem range_text_roundtrip:
  assumes "ParseRange np s = Inr r" and "netip_ok np"
  shows "ParseRange np (range_String np r) = Inr r"
  using assms by (rule range_text) (simp add: ParseRange_Join)

lemma range_text_roundtrip_witness:
  "ParseRange sample_netip (range_String sample_netip
     \<lparr>rgBase = \<lparr>hpKind = KindIP, hpIP = Some ''::1'', hpName = [], hpPort = 8000\<rparr>, rgCount = 11\<rparr>) =
     ParseRange sample_netip ''[::1]:8000-8010''"
proof -
  have "netip_ok sample_netip" by (auto simp: netip_ok_def sample_netip_def plain_def)
  from range_text_roundtrip [OF sample_range this] show ?thesis by (simp add: sample_range)
qed

end
