(* ===== verification/Cli_Text.thy ===== *)
theory Cli_Text
  imports CRL
begin

text \<open>
  What the commands print (\<^verbatim>\<open>cmd/ggrok/output.go\<close>, \<^verbatim>\<open>color.go\<close>, \<^verbatim>\<open>status.go\<close>): text that
  came from a peer, colours, and the limit on repeated errors. Bytes are numbers below 256
  here; UTF-8 and \<open>strconv.Quote\<close> are written out, except that which characters
  \<open>strconv.IsPrint\<close> has in its tables is an argument.
\<close>

section \<open>UTF-8\<close>

definition cont :: "nat \<Rightarrow> bool" where
  "cont b \<longleftrightarrow> 128 \<le> b \<and> b \<le> 191"

text \<open>\<open>utf8.DecodeRuneInString\<close>: the character and its width; an invalid byte has width 1.\<close>

fun decode_rune :: "nat list \<Rightarrow> nat option \<times> nat" where
  "decode_rune [] = (None, 0)"
| "decode_rune (a # bs) =
     (if a < 128 then (Some a, 1)
      else if 194 \<le> a \<and> a \<le> 223 then
        (case bs of
           b # r \<Rightarrow> if cont b then (Some ((a - 192) * 64 + (b - 128)), 2) else (None, 1)
         | _ \<Rightarrow> (None, 1))
      else if 224 \<le> a \<and> a \<le> 239 then
        (case bs of
           b # c # r \<Rightarrow>
             if (if a = 224 then 160 else 128) \<le> b \<and> b \<le> (if a = 237 then 159 else 191) \<and> cont c
             then (Some ((a - 224) * 4096 + (b - 128) * 64 + (c - 128)), 3) else (None, 1)
         | _ \<Rightarrow> (None, 1))
      else if 240 \<le> a \<and> a \<le> 244 then
        (case bs of
           b # c # d # r \<Rightarrow>
             if (if a = 240 then 144 else 128) \<le> b \<and> b \<le> (if a = 244 then 143 else 191) \<and> cont c \<and> cont d
             then (Some ((a - 240) * 262144 + (b - 128) * 4096 + (c - 128) * 64 + (d - 128)), 4) else (None, 1)
         | _ \<Rightarrow> (None, 1))
      else (None, 1))"

definition ValidRune :: "nat \<Rightarrow> bool" where
  "ValidRune r \<longleftrightarrow> r < 55296 \<or> 57343 < r \<and> r \<le> 1114111"

text \<open>\<open>utf8.AppendRune\<close>.\<close>

definition encode_rune :: "nat \<Rightarrow> nat list" where
  "encode_rune r =
     (if r < 128 then [r]
      else if r < 2048 then [192 + r div 64, 128 + r mod 64]
      else if \<not> ValidRune r then [239, 191, 189]
      else if r < 65536 then [224 + r div 4096, 128 + r div 64 mod 64, 128 + r mod 64]
      else [240 + r div 262144, 128 + r div 4096 mod 64, 128 + r div 64 mod 64, 128 + r mod 64])"

lemma decode_rune_width: "s \<noteq> [] \<Longrightarrow> decode_rune s = (r, w) \<Longrightarrow> 0 < w"
  by (cases s) (auto split: if_split_asm list.splits)

lemma decode_rune_shorter: "s \<noteq> [] \<Longrightarrow> (r, w) = decode_rune s \<Longrightarrow> length (drop w s) < length s"
  using decode_rune_width [of s r w] by (cases s) auto

section \<open>strconv.Quote\<close>

definition hex_digits :: "nat \<Rightarrow> nat \<Rightarrow> nat list" where
  "hex_digits k n = map (\<lambda>i. of_char (hex_digit (n div 16 ^ i mod 16))) (rev [0..<k])"

definition escape_rune :: "(nat \<Rightarrow> bool) \<Rightarrow> nat \<Rightarrow> nat list" where
  "escape_rune isPrint r =
     (if r = 34 \<or> r = 92 then [92, r]
      else if isPrint r then encode_rune r
      else if r = 7 then [92, 97]
      else if r = 8 then [92, 98]
      else if r = 12 then [92, 102]
      else if r = 10 then [92, 110]
      else if r = 13 then [92, 114]
      else if r = 9 then [92, 116]
      else if r = 11 then [92, 118]
      else if r < 32 \<or> r = 127 then [92, 120] @ hex_digits 2 r
      else let r1 = (if ValidRune r then r else 65533)
           in if r1 < 65536 then [92, 117] @ hex_digits 4 r1 else [92, 85] @ hex_digits 8 r1)"

function quote_runes :: "(nat \<Rightarrow> bool) \<Rightarrow> nat list \<Rightarrow> nat list" where
  "quote_runes isPrint s =
     (if s = [] then []
      else case decode_rune s of
             (None, w) \<Rightarrow> [92, 120] @ hex_digits 2 (hd s) @ quote_runes isPrint (drop w s)
           | (Some r, w) \<Rightarrow> escape_rune isPrint r @ quote_runes isPrint (drop w s))"
  by pat_completeness auto
termination
  by (relation "measure (\<lambda>(p, s). length s)") (auto simp del: length_drop intro: decode_rune_shorter)

declare quote_runes.simps [simp del]

definition Quote :: "(nat \<Rightarrow> bool) \<Rightarrow> nat list \<Rightarrow> nat list" where
  "Quote isPrint s = [34] @ quote_runes isPrint s @ [34]"

definition terminalText :: "(nat \<Rightarrow> bool) \<Rightarrow> string \<Rightarrow> string" where
  "terminalText isPrint s =
     (let quoted = Quote isPrint (map of_char s)
      in map char_of (take (length quoted - 2) (drop 1 quoted)))"

section \<open>What a terminal gets to see\<close>

text \<open>The characters of a text, \<open>None\<close> for a byte that is not UTF-8.\<close>

function runes :: "nat list \<Rightarrow> nat option list" where
  "runes s = (if s = [] then [] else case decode_rune s of (r, w) \<Rightarrow> r # runes (drop w s))"
  by pat_completeness auto
termination
  by (relation "measure length") (auto simp del: length_drop intro: decode_rune_shorter)

declare runes.simps [simp del]

lemma runes_Nil [simp]: "runes [] = []"
  by (simp add: runes.simps)

lemma decode_ascii: "a < 128 \<Longrightarrow> decode_rune (a # s) = (Some a, 1)"
  by simp

lemma runes_ascii: "\<forall>a \<in> set as. a < 128 \<Longrightarrow> runes (as @ s) = map Some as @ runes s"
  by (induction as) (simp_all add: runes.simps [of "a # t" for a t])

text \<open>A text that is UTF-8; what is put together from such texts is one.\<close>

definition utf8_text :: "string \<Rightarrow> bool" where
  "utf8_text s \<longleftrightarrow> None \<notin> set (runes (map of_char s))"

lemma decode_rune_append: "decode_rune a = (Some r, w) \<Longrightarrow> decode_rune (a @ b) = (Some r, w) \<and> w \<le> length a"
  by (cases a) (auto split: if_split_asm list.split_asm)

lemma runes_append: "None \<notin> set (runes a) \<Longrightarrow> runes (a @ b) = runes a @ runes b"
proof (induction a rule: runes.induct)
  case (1 a)
  show ?case
  proof (cases "a = []")
    case False
    obtain x w where d: "decode_rune a = (x, w)" by (cases "decode_rune a")
    have a: "runes a = x # runes (drop w a)" using False d by (subst runes.simps) simp
    then obtain r where r: "x = Some r" "None \<notin> set (runes (drop w a))" using "1.prems" by (cases x) auto
    note ap = decode_rune_append [of a r w b]
    have "runes (a @ b) = x # runes (drop w a @ b)" using False d r(1) ap by (subst runes.simps) simp
    with "1.IH" [OF False d [symmetric] r(2)] a show ?thesis by simp
  qed simp
qed

lemma utf8_text_append: "utf8_text a \<Longrightarrow> utf8_text b \<Longrightarrow> utf8_text (a @ b)"
  by (auto simp: utf8_text_def runes_append)

lemma utf8_text_ascii: "list_all (\<lambda>c. of_char c < (128 :: nat)) s \<Longrightarrow> utf8_text s"
  using runes_ascii [of "map of_char s" "[]"] by (auto simp: utf8_text_def list_all_iff)

lemma decode_encode:
  assumes "ValidRune r"
  shows "decode_rune (encode_rune r @ s) = (Some r, length (encode_rune r)) \<and> (\<forall>b \<in> set (encode_rune r). b < 256)"
proof -
  have m: "n mod 64 < 64" "128 + n mod 64 \<le> 191" for n :: nat by (simp_all add: less_Suc_eq_le [symmetric])
  consider "r < 128" | "128 \<le> r" "r < 2048" | "2048 \<le> r" "r < 65536" | "65536 \<le> r" "r \<le> 1114111"
    using assms by (fastforce simp: ValidRune_def)
  then show ?thesis
  proof cases
    case 1
    then show ?thesis by (simp add: encode_rune_def)
  next
    case 2
    then have "2 \<le> r div 64" "r div 64 \<le> 31" by (simp_all add: less_Suc_eq_le [symmetric] div_less_iff_less_mult less_eq_div_iff_mult_less_eq)
    then show ?thesis using 2 m [of r] by (simp add: encode_rune_def cont_def)
  next
    case 3
    let ?a = "r div 4096" and ?b = "r div 64 mod 64"
    have "r div 64 = ?a * 64 + ?b" using div_mult_mod_eq [of "r div 64" 64] by (simp add: div_mult2_eq [symmetric])
    then have r: "r = ?a * 4096 + ?b * 64 + r mod 64" using div_mult_mod_eq [of r 64] by linarith
    have "?a \<le> 15" using 3 by (simp add: less_Suc_eq_le [symmetric] div_less_iff_less_mult)
    moreover have "?a = 0 \<Longrightarrow> 32 \<le> ?b" using r 3 m(1) [of r] by linarith
    moreover have "?a = 13 \<Longrightarrow> ?b \<le> 31" using r 3 m(1) [of r] m(1) [of "r div 64"] assms unfolding ValidRune_def by linarith
    ultimately show ?thesis using 3 assms m [of r] m [of "r div 64"] r
      by (auto simp add: encode_rune_def cont_def)
  next
    case 4
    let ?a = "r div 262144" and ?b = "r div 4096 mod 64" and ?c = "r div 64 mod 64"
    have "r div 4096 = ?a * 64 + ?b" using div_mult_mod_eq [of "r div 4096" 64] by (simp add: div_mult2_eq [symmetric])
    moreover have "r div 64 = r div 4096 * 64 + ?c" using div_mult_mod_eq [of "r div 64" 64] by (simp add: div_mult2_eq [symmetric])
    ultimately have r: "r = ?a * 262144 + ?b * 4096 + ?c * 64 + r mod 64" using div_mult_mod_eq [of r 64] by linarith
    have "?a \<le> 4" using 4 by (simp add: less_Suc_eq_le [symmetric] div_less_iff_less_mult)
    moreover have "?a = 0 \<Longrightarrow> 16 \<le> ?b" using r 4 m(1) [of r] m(1) [of "r div 64"] by linarith
    moreover have "?a = 4 \<Longrightarrow> ?b \<le> 15" using r 4 m(1) [of r] m(1) [of "r div 64"] by linarith
    ultimately show ?thesis using 4 assms m [of r] m [of "r div 64"] m [of "r div 4096"] r
      by (auto simp add: encode_rune_def cont_def)
  qed
qed

lemma digit_64: "z < 64 \<Longrightarrow> (a * 64 + z) div 64 = a \<and> (a * 64 + z) mod 64 = (z :: nat)"
  by simp

lemma digits_64:
  assumes "y < 64" and "z < (64 :: nat)"
  shows "(x * 64 + y) div 64 = x" "(x * 64 + y) mod 64 = y"
    "(x * 4096 + y * 64 + z) div 64 = x * 64 + y" "(x * 4096 + y * 64 + z) div 4096 = x" "(x * 4096 + y * 64 + z) mod 64 = z"
proof -
  show 1: "(x * 64 + y) div 64 = x" "(x * 64 + y) mod 64 = y" using assms by simp_all
  have "(x * 64 + y) * 64 + z = x * 4096 + y * 64 + z" by simp
  with digit_64 [OF assms(2), of "x * 64 + y"]
  show 2: "(x * 4096 + y * 64 + z) div 64 = x * 64 + y" "(x * 4096 + y * 64 + z) mod 64 = z" by (simp_all only:)
  have "(x * 4096 + y * 64 + z) div 4096 = (x * 4096 + y * 64 + z) div 64 div 64" by (simp add: div_mult2_eq [symmetric])
  then show "(x * 4096 + y * 64 + z) div 4096 = x" by (simp only: 1 2)
qed

lemma cont_split: "cont b \<longleftrightarrow> (\<exists>y < 64. b = 128 + y)"
  unfolding cont_def by (auto intro!: exI [of _ "b - 128"])

lemma ge_split: "m \<le> (a :: nat) \<Longrightarrow> \<exists>x. a = m + x"
  by (rule exI [of _ "a - m"]) simp

lemma decode_valid:
  assumes "decode_rune s = (Some r, w)"
  shows "ValidRune r \<and> encode_rune r = take w s \<and> w \<le> length s"
proof (cases s)
  case (Cons a bs)
  consider "a < 128" "r = a" "w = 1"
    | b rest where "194 \<le> a" "a \<le> 223" "bs = b # rest" "cont b" "r = (a - 192) * 64 + (b - 128)" "w = 2"
    | b c rest where "224 \<le> a" "a \<le> 239" "bs = b # c # rest" "(if a = 224 then 160 else 128) \<le> b"
        "b \<le> (if a = 237 then 159 else 191)" "cont c" "r = (a - 224) * 4096 + (b - 128) * 64 + (c - 128)" "w = 3"
    | b c d rest where "240 \<le> a" "a \<le> 244" "bs = b # c # d # rest" "(if a = 240 then 144 else 128) \<le> b"
        "b \<le> (if a = 244 then 143 else 191)" "cont c" "cont d"
        "r = (a - 240) * 262144 + (b - 128) * 4096 + (c - 128) * 64 + (d - 128)" "w = 4"
    using assms unfolding Cons by (auto split: if_split_asm list.splits)
  then show ?thesis
  proof cases
    case 1
    then show ?thesis by (simp add: Cons ValidRune_def encode_rune_def)
  next
    case 2
    obtain x y where x: "a = 194 + x" "b = 128 + y" "y < 64" using 2 cont_split [of b] ge_split [of 194 a] by auto
    have r: "r = (x + 2) * 64 + y" using 2 x by simp
    have "r div 64 = x + 2" "r mod 64 = y" using digits_64 [of y y "x + 2"] x(3) r by simp_all
    then show ?thesis using 2 x by (simp add: Cons ValidRune_def encode_rune_def)
  next
    case 3
    then have "cont b" by (auto simp: cont_def split: if_split_asm)
    then obtain x y z where x: "a = 224 + x" "b = 128 + y" "c = 128 + z" "y < 64" "z < 64"
      using 3 cont_split [of b] cont_split [of c] ge_split [of 224 a] by auto
    have r: "r = x * 4096 + y * 64 + z" using 3 x by simp
    have d: "r div 64 = x * 64 + y" "r div 4096 = x" "r mod 64 = z" using digits_64 [of y z x] x(4,5) r by simp_all
    have "x \<le> 15" "x = 0 \<Longrightarrow> 32 \<le> y" "x = 13 \<Longrightarrow> y \<le> 31" using 3 x by (auto split: if_split_asm)
    note bounds = this
    have "2048 \<le> r" "r < 65536" using bounds r x(4,5) by linarith+
    moreover have "ValidRune r"
    proof -
      consider "x < 13" | "x = 13" | "14 \<le> x" by linarith
      then show ?thesis by cases (use bounds(3) r x(4,5) \<open>r < 65536\<close> in \<open>simp_all add: ValidRune_def\<close>)
    qed
    ultimately show ?thesis using 3 x d by (simp add: Cons encode_rune_def)
  next
    case 4
    then have "cont b" by (auto simp: cont_def split: if_split_asm)
    then obtain x y z v where x: "a = 240 + x" "b = 128 + y" "c = 128 + z" "d = 128 + v" "y < 64" "z < 64" "v < 64"
      using 4 cont_split [of b] cont_split [of c] cont_split [of d] ge_split [of 240 a] by auto
    have r: "r = (x * 4096 + y * 64 + z) * 64 + v" using 4 x by simp
    have d64: "r div 64 = x * 4096 + y * 64 + z" "r mod 64 = v" using digit_64 [OF x(7), of "x * 4096 + y * 64 + z"] r by (simp_all only:)
    have d: "r div 4096 = x * 64 + y" using digits_64 [of y z x] x(5,6) d64(1) by (metis div_mult2_eq mult_numeral_1 numeral_times_numeral semiring_norm(12,13))
    have e: "r div 262144 = x"
    proof -
      have "r div 262144 = r div 4096 div 64" by (simp add: div_mult2_eq [symmetric])
      then show ?thesis using d x(5) by simp
    qed
    have "x \<le> 4" "x = 0 \<Longrightarrow> 16 \<le> y" "x = 4 \<Longrightarrow> y \<le> 15" using 4 x by (auto split: if_split_asm)
    note bounds = this
    consider "x = 0" | "1 \<le> x" "x \<le> 3" | "x = 4" using bounds(1) by linarith
    then have "65536 \<le> r \<and> r \<le> 1114111" by cases (use bounds r x(5-7) in simp_all)
    then show ?thesis using 4 x d d64 e digits_64(5) [of y z x] by (simp add: Cons encode_rune_def ValidRune_def)
  qed
qed (use assms in simp)

lemma hex_digits_ascii [simp]: "set (hex_digits k n) \<subseteq> {32..126}"
  by (auto simp: hex_digits_def of_char_hex_digit)

text \<open>What is relied on of \<open>strconv.IsPrint\<close>: of ASCII it takes the graphic characters and the space.\<close>

definition print_ok :: "(nat \<Rightarrow> bool) \<Rightarrow> bool" where
  "print_ok isPrint \<longleftrightarrow> (\<forall>r < 128. isPrint r \<longleftrightarrow> 32 \<le> r \<and> r \<le> 126)"

definition shown :: "(nat \<Rightarrow> bool) \<Rightarrow> nat list \<Rightarrow> bool" where
  "shown isPrint out \<longleftrightarrow> (\<forall>b \<in> set out. b < 256) \<and>
     (\<forall>t. \<exists>rs. runes (out @ t) = map Some rs @ runes t \<and> (\<forall>r \<in> set rs. isPrint r))"

lemma shown_ascii:
  assumes "print_ok isPrint" and "set out \<subseteq> {32..126}"
  shows "shown isPrint out"
  unfolding shown_def
proof (intro conjI allI)
  show "\<forall>b \<in> set out. b < 256" using assms(2) by auto
  fix t
  have "\<forall>a \<in> set out. a < 128" using assms(2) by auto
  then show "\<exists>rs. runes (out @ t) = map Some rs @ runes t \<and> (\<forall>r \<in> set rs. isPrint r)"
    using assms runes_ascii [of out t] by (intro exI [of _ out]) (auto simp: print_ok_def)
qed

lemma shown_append: "shown p a \<Longrightarrow> shown p b \<Longrightarrow> shown p (a @ b)"
  unfolding shown_def
proof (intro conjI allI)
  fix t
  assume a: "(\<forall>b \<in> set a. b < 256) \<and> (\<forall>t. \<exists>rs. runes (a @ t) = map Some rs @ runes t \<and> (\<forall>r \<in> set rs. p r))"
    and b: "(\<forall>b \<in> set b. b < 256) \<and> (\<forall>t. \<exists>rs. runes (b @ t) = map Some rs @ runes t \<and> (\<forall>r \<in> set rs. p r))"
  obtain rs where rs: "runes (a @ b @ t) = map Some rs @ runes (b @ t)" "\<forall>r \<in> set rs. p r" using a by blast
  obtain us where us: "runes (b @ t) = map Some us @ runes t" "\<forall>r \<in> set us. p r" using b by blast
  show "\<exists>rs. runes ((a @ b) @ t) = map Some rs @ runes t \<and> (\<forall>r \<in> set rs. p r)"
    using rs us by (intro exI [of _ "rs @ us"]) auto
qed auto

lemma shown_rune:
  assumes "print_ok p" and "ValidRune r"
  shows "shown p (escape_rune p r)"
proof (cases "p r \<and> r \<noteq> 34 \<and> r \<noteq> 92")
  case True
  note d = decode_encode [OF assms(2)]
  have ne: "encode_rune r \<noteq> []" by (simp add: encode_rune_def)
  have "runes (encode_rune r @ t) = Some r # runes t" for t
    using d ne by (subst runes.simps) simp
  then show ?thesis using True d by (auto simp: escape_rune_def shown_def intro!: exI [of _ "[r]"])
next
  case False
  then have "set (escape_rune p r) \<subseteq> {32..126}"
    by (cases "r = 34"; cases "r = 92"; cases "p r") (simp_all add: escape_rune_def Let_def)
  then show ?thesis by (rule shown_ascii [OF assms(1)])
qed

lemma shown_quote: "print_ok p \<Longrightarrow> shown p (quote_runes p s)"
proof (induction p s rule: quote_runes.induct)
  case (1 p s)
  show ?case
  proof (cases "s = []")
    case True
    then show ?thesis by (simp add: quote_runes.simps shown_def)
  next
    case False
    obtain x w where d: "decode_rune s = (x, w)" by (cases "decode_rune s")
    show ?thesis
    proof (cases x)
      case None
      have "shown p ([92, 120] @ hex_digits 2 (hd s))" by (intro shown_ascii [OF "1.prems"]) simp
      note a = shown_append [OF this "1.IH"(1) [OF False d [symmetric] None "1.prems"]]
      have "quote_runes p s = ([92, 120] @ hex_digits 2 (hd s)) @ quote_runes p (drop w s)"
        using False d None by (subst quote_runes.simps) simp
      with a show ?thesis by (simp only:)
    next
      case (Some r)
      then have v: "ValidRune r" using decode_valid d by blast
      note a = shown_append [OF shown_rune [OF "1.prems" v] "1.IH"(2) [OF False d [symmetric] Some "1.prems"]]
      have "quote_runes p s = escape_rune p r @ quote_runes p (drop w s)"
        using False d Some by (subst quote_runes.simps) simp
      with a show ?thesis by (simp only:)
    qed
  qed
qed

lemma quote_plain:
  "\<forall>x \<in> set (runes s). \<exists>r. x = Some r \<and> p r \<and> r \<noteq> 34 \<and> r \<noteq> 92 \<Longrightarrow> quote_runes p s = s"
proof (induction s rule: runes.induct)
  case (1 s)
  show ?case
  proof (cases "s = []")
    case False
    obtain x w where d: "decode_rune s = (x, w)" by (cases "decode_rune s")
    have rs: "runes s = x # runes (drop w s)" using False d by (subst runes.simps) simp
    then obtain r where r: "x = Some r" "p r" "r \<noteq> 34" "r \<noteq> 92" using "1.prems" by auto
    have "quote_runes p (drop w s) = drop w s" using "1.IH" [OF False d [symmetric]] "1.prems" rs by simp
    moreover have "encode_rune r = take w s" using decode_valid d r(1) by blast
    ultimately show ?thesis using False d r by (subst quote_runes.simps) (simp add: escape_rune_def)
  qed (simp add: quote_runes.simps)
qed

lemma terminalText_quote: "terminalText p s = map char_of (quote_runes p (map of_char s))"
  by (simp add: terminalText_def Quote_def)

text \<open>No byte of it is a control character.\<close>

lemma shown_no_control:
  assumes "print_ok p" and "x \<in> set q" and "\<forall>y \<in> set (runes q). \<exists>r. y = Some r \<and> p r"
  shows "32 \<le> x \<and> x \<noteq> 127"
  using assms(2,3)
proof (induction q rule: runes.induct)
  case (1 q)
  then have ne: "q \<noteq> []" by auto
  obtain y w where d: "decode_rune q = (y, w)" by (cases "decode_rune q")
  have r: "runes q = y # runes (drop w q)" using ne d by (subst runes.simps) simp
  then obtain r where y: "y = Some r" "p r" using "1.prems"(2) by auto
  show ?case
  proof (cases "x \<in> set (drop w q)")
    case True
    then show ?thesis using "1.IH" [OF ne d [symmetric]] "1.prems"(2) r by simp
  next
    case False
    then have "x \<in> set (encode_rune r)"
      using decode_valid [OF d [unfolded y(1)]] "1.prems"(1) by (metis Un_iff append_take_drop_id set_append)
    then show ?thesis using y(2) assms(1) by (auto simp: encode_rune_def print_ok_def split: if_split_asm)
  qed
qed

lemma terminalText_bytes: "print_ok p \<Longrightarrow> map of_char (terminalText p s) = quote_runes p (map of_char s)"
  using shown_quote [of p "map of_char s"] by (simp add: terminalText_quote shown_def o_def map_idI)

lemma terminalText_runes: "print_ok p \<Longrightarrow> \<exists>rs. runes (map of_char (terminalText p s)) = map Some rs \<and> (\<forall>r \<in> set rs. p r)"
  using shown_quote [of p "map of_char s"] unfolding shown_def terminalText_bytes by (metis append_Nil2 runes_Nil)

lemma terminalText_no_control:
  assumes "print_ok p" and "c \<in> set (terminalText p s)"
  shows "32 \<le> (of_char c :: nat) \<and> (of_char c :: nat) \<noteq> 127"
proof (rule shown_no_control [OF assms(1)])
  show "of_char c \<in> set (map of_char (terminalText p s) :: nat list)" using assms(2) by simp
qed (use terminalText_runes [OF assms(1), of s] in auto)

text \<open>
  C37: Text from a peer cannot take over the terminal. Whatever bytes \<open>terminalText\<close> is given,
  what it returns is UTF-8, has printable characters only, so neither a line break, nor the
  escape that starts an ANSI sequence, nor any other control or invisible character, and is the
  text itself if that was printable to begin with and had no quote or backslash.
\<close>

theorem terminal_text_inert:
  assumes "print_ok isPrint"
  shows "(\<forall>x \<in> set (runes (map of_char (terminalText isPrint s))). \<exists>r. x = Some r \<and> isPrint r) \<and>
    (\<forall>c \<in> set (terminalText isPrint s). 32 \<le> (of_char c :: nat) \<and> (of_char c :: nat) \<noteq> 127) \<and>
    ((\<forall>x \<in> set (runes (map of_char s)). \<exists>r. x = Some r \<and> isPrint r \<and> r \<noteq> 34 \<and> r \<noteq> 92) \<longrightarrow> terminalText isPrint s = s)"
proof -
  have "terminalText isPrint s = s" if "\<forall>x \<in> set (runes (map of_char s)). \<exists>r. x = Some r \<and> isPrint r \<and> r \<noteq> 34 \<and> r \<noteq> 92"
    using quote_plain [OF that] by (simp add: terminalText_quote o_def)
  then show ?thesis using terminalText_runes [OF assms, of s] terminalText_no_control [OF assms] by auto
qed

lemma terminal_text_inert_witness:
  "terminalText (\<lambda>r. 32 \<le> r \<and> r \<noteq> 127) ''up'' = ''up'' \<and>
   CHR 0x1B \<notin> set (terminalText (\<lambda>r. 32 \<le> r \<and> r \<noteq> 127) [CHR 0x1B, CHR ''m'', CHR 0xFF])"
proof -
  have ok: "print_ok (\<lambda>r. 32 \<le> r \<and> r \<noteq> 127)" by (auto simp: print_ok_def)
  have "runes (map of_char ''up'') = [Some 117, Some 112]" by (simp add: runes.simps)
  with terminal_text_inert [OF ok, of "''up''"] terminal_text_inert [OF ok, of "[CHR 0x1B, CHR ''m'', CHR 0xFF]"]
  show ?thesis by auto
qed

end
