(* ===== verification/Cli_Output.thy ===== *)
theory Cli_Output
  imports Cli_Text HostPort
begin

text \<open>
  Colours and status lines of the commands (\<^verbatim>\<open>cmd/ggrok/color.go\<close>, \<^verbatim>\<open>status.go\<close>, the end of
  \<^verbatim>\<open>main.go\<close>). The environment, whether a stream is a terminal and how \<open>text/tabwriter\<close> lays
  columns out are arguments; a point in time is nanoseconds. Functions that print return the
  text.
\<close>

section \<open>Colour modes\<close>

datatype color_mode = ColorNever | ColorAuto | ColorAlways

definition colorAutoName :: string where "colorAutoName = ''auto''"
definition colorNeverName :: string where "colorNeverName = ''never''"

text \<open>\<open>strings.ToLower\<close>; no letter outside ASCII has one of the letters used here as its lower case.\<close>

definition to_lower :: "string \<Rightarrow> string" where
  "to_lower s = map (\<lambda>c. let n = of_char c :: nat in if 65 \<le> n \<and> n \<le> 90 then char_of (n + 32) else c) s"

definition parseColorMode :: "string \<Rightarrow> color_mode result" where
  "parseColorMode s =
     (let t = to_lower (TrimSpace s)
      in if t \<in> set ['''', colorAutoName, ''true'', ''1'', ''yes'', ''on''] then Inr ColorAuto
         else if t \<in> set [''always'', ''force''] then Inr ColorAlways
         else if t \<in> set [colorNeverName, ''false'', ''0'', ''no'', ''off''] then Inr ColorNever
         else Inl (Msg (''invalid color mode '' @ go_quote s @ '' (want auto, always, or never)'')))"

definition colorModeFromEnv :: "(string \<Rightarrow> string) \<Rightarrow> color_mode" where
  "colorModeFromEnv getenv =
     (let raw = getenv ''GGROK_COLOR''
      in if raw = [] then ColorNever
         else case parseColorMode raw of Inl e \<Rightarrow> ColorNever | Inr mode \<Rightarrow> mode)"

definition colorMode_String :: "color_mode option \<Rightarrow> string" where
  "colorMode_String m =
     (case m of
        None \<Rightarrow> colorNeverName
      | Some ColorAuto \<Rightarrow> colorAutoName
      | Some ColorAlways \<Rightarrow> ''always''
      | Some ColorNever \<Rightarrow> colorNeverName)"

definition colorMode_Set :: "string \<Rightarrow> color_mode \<Rightarrow> error option \<times> color_mode" where
  "colorMode_Set s m = (case parseColorMode s of Inl e \<Rightarrow> (Some e, m) | Inr mode \<Rightarrow> (None, mode))"

definition color_enabled :: "(string \<Rightarrow> string) \<Rightarrow> bool \<Rightarrow> color_mode \<Rightarrow> bool" where
  "color_enabled getenv isTerminal m =
     (case m of
        ColorAlways \<Rightarrow> True
      | ColorAuto \<Rightarrow> getenv ''NO_COLOR'' = [] \<and> getenv ''TERM'' \<noteq> ''dumb'' \<and> isTerminal
      | ColorNever \<Rightarrow> False)"

section \<open>Palettes\<close>

type_synonym palette = bool

definition sgrReset :: string where "sgrReset = [CHR 0x1B] @ ''[0m''"
definition sgrBold :: string where "sgrBold = ''1''"
definition sgrDim :: string where "sgrDim = ''2''"
definition sgrRed :: string where "sgrRed = ''31''"
definition sgrGreen :: string where "sgrGreen = ''32''"
definition sgrYellow :: string where "sgrYellow = ''33''"
definition sgrCyan :: string where "sgrCyan = ''36''"

fun join_with :: "string \<Rightarrow> string list \<Rightarrow> string" where
  "join_with sep [] = []"
| "join_with sep [w] = w"
| "join_with sep (w # v # ws) = w @ sep @ join_with sep (v # ws)"

definition paint :: "palette \<Rightarrow> string list \<Rightarrow> string \<Rightarrow> string" where
  "paint on codes t =
     (if \<not> on \<or> t = [] then t
      else [CHR 0x1B] @ ''['' @ join_with '';'' codes @ ''m'' @ t @ sgrReset)"

definition bold :: "palette \<Rightarrow> string \<Rightarrow> string" where "bold on t = paint on [sgrBold] t"
definition dim :: "palette \<Rightarrow> string \<Rightarrow> string" where "dim on t = paint on [sgrDim] t"
definition red :: "palette \<Rightarrow> string \<Rightarrow> string" where "red on t = paint on [sgrRed] t"
definition green :: "palette \<Rightarrow> string \<Rightarrow> string" where "green on t = paint on [sgrGreen] t"
definition yellow :: "palette \<Rightarrow> string \<Rightarrow> string" where "yellow on t = paint on [sgrYellow] t"
definition cyan :: "palette \<Rightarrow> string \<Rightarrow> string" where "cyan on t = paint on [sgrCyan] t"
definition highlight :: "palette \<Rightarrow> string \<Rightarrow> string" where "highlight on t = paint on [sgrBold, sgrCyan] t"

section \<open>Tables\<close>

text \<open>The rows as written to the tabwriter, and one style per row.\<close>

record out_table =
  tbText :: string
  tbStyles :: "(string \<Rightarrow> string) option list"

definition newTable :: out_table where
  "newTable = \<lparr>tbText = [], tbStyles = []\<rparr>"

definition rowf :: "(string \<Rightarrow> string) option \<Rightarrow> string \<Rightarrow> out_table \<Rightarrow> out_table" where
  "rowf style row t = t\<lparr>tbText := tbText t @ row, tbStyles := tbStyles t @ [style]\<rparr>"

fun split_lines :: "string \<Rightarrow> string list" where
  "split_lines [] = [[]]"
| "split_lines (c # s) =
     (if c = CHR 0x0A then [] # split_lines s
      else case split_lines s of [] \<Rightarrow> [[c]] | w # ws \<Rightarrow> (c # w) # ws)"

definition trim_newline :: "string \<Rightarrow> string" where
  "trim_newline s = (if s \<noteq> [] \<and> last s = CHR 0x0A then butlast s else s)"

fun style_lines :: "(string \<Rightarrow> string) option list \<Rightarrow> string list \<Rightarrow> string" where
  "style_lines styles [] = []"
| "style_lines [] (l # ls) = l @ [CHR 0x0A] @ style_lines [] ls"
| "style_lines (None # sts) (l # ls) = l @ [CHR 0x0A] @ style_lines sts ls"
| "style_lines (Some f # sts) (l # ls) = f l @ [CHR 0x0A] @ style_lines sts ls"

definition table_flush :: "(string \<Rightarrow> string result) \<Rightarrow> out_table \<Rightarrow> string result" where
  "table_flush layout t =
     (case layout (tbText t) of
        Inl e \<Rightarrow> Inl e
      | Inr buf \<Rightarrow>
          if buf = [] then Inr []
          else Inr (style_lines (tbStyles t) (split_lines (trim_newline buf))))"

section \<open>Status lines\<close>

definition reportConnecting :: "'ip netip \<Rightarrow> palette \<Rightarrow> 'ip hostPort \<Rightarrow> string" where
  "reportConnecting np p server =
     dim p (''connecting to relay '' @ hostPort_String np server @ ''...'') @ [CHR 0x0A]"

text \<open>\<open>retryText\<close> is the rounded duration as it prints.\<close>

definition reportWaiting :: "(nat \<Rightarrow> bool) \<Rightarrow> palette \<Rightarrow> error \<Rightarrow> string \<Rightarrow> string" where
  "reportWaiting isPrint p err retryText =
     (let state = (if errors_is err ErrNoSuchSession
                   then ''waiting for publisher; start share with this token's session key''
                   else ''waiting for relay'')
      in yellow p (state @ '': '' @ terminalText isPrint (error_text err) @ ''; retrying in '' @ retryText @
           '' (Ctrl+C cancels)'') @ [CHR 0x0A])"

definition reportDisconnect :: "(nat \<Rightarrow> bool) \<Rightarrow> palette \<Rightarrow> error \<Rightarrow> string \<Rightarrow> string" where
  "reportDisconnect isPrint p err retryText =
     yellow p (''connection interrupted: '' @ terminalText isPrint (error_text err) @ ''; retrying in '' @ retryText) @
       [CHR 0x0A]"

definition reportReconnect :: "palette \<Rightarrow> string" where
  "reportReconnect p = green p ''ready: reconnected to relay'' @ [CHR 0x0A]"

definition explainSessionError :: "error option \<Rightarrow> error option" where
  "explainSessionError err =
     (case err of
        None \<Rightarrow> None
      | Some e \<Rightarrow>
          Some (if errors_is e ErrNoSuchSession
                then Wrap [] e ''; check the subscriber token and start share, or use listen --wait''
                else if errors_is e ErrPortsMismatch
                then Wrap [] e ''; use TCP ranges with the same number of ports on share and listen''
                else if errors_is e ErrModeMismatch
                then Wrap [] e ''; use the same forwarding mode on share and listen''
                else if errors_is e ErrPublisherExists
                then Wrap [] e ''; stop the other share or wait for its old connection to expire''
                else if errors_is e CertVerification
                then Wrap [] e ''; check the relay hostname, CA file, and certificate validity''
                else e))"

definition exitUsageError :: nat where "exitUsageError = 2"

text \<open>\<open>main\<close>: what is printed on standard error, and the exit status.\<close>

definition main_exit :: "(nat \<Rightarrow> bool) \<Rightarrow> palette \<Rightarrow> error option \<Rightarrow> string \<times> nat" where
  "main_exit isPrint p err =
     (case err of
        None \<Rightarrow> ([], 0)
      | Some e \<Rightarrow>
          if errors_is e ErrCanceled then ([], 0)
          else (red p ''ggrok:'' @ '' '' @ terminalText isPrint (error_text e) @ [CHR 0x0A],
                if errors_is e ErrUsage then exitUsageError else 1))"

section \<open>Repeated errors\<close>

definition forwardErrorInterval :: int where "forwardErrorInterval = 5 * 1000000000"

text \<open>The zero time of \<open>last\<close> is \<open>None\<close>.\<close>

record forward_error_reporter =
  frLast :: "int option"
  frSuppressed :: u64

definition fresh_reporter :: forward_error_reporter where
  "fresh_reporter = \<lparr>frLast = None, frSuppressed = 0\<rparr>"

definition forward_message :: "(nat \<Rightarrow> bool) \<Rightarrow> error \<Rightarrow> u64 \<Rightarrow> string" where
  "forward_message isPrint err suppressed =
     ''forwarding failed: '' @ terminalText isPrint (error_text err) @
       (if suppressed > 0 then '' ('' @ show_nat (unat suppressed) @ '' additional failures suppressed)'' else [])"

definition reporter_report ::
  "(nat \<Rightarrow> bool) \<Rightarrow> palette \<Rightarrow> error \<Rightarrow> int \<Rightarrow> forward_error_reporter \<Rightarrow> string option \<times> forward_error_reporter" where
  "reporter_report isPrint p err now r =
     (if frLast r \<noteq> None \<and> now - the (frLast r) < forwardErrorInterval
      then (None, r\<lparr>frSuppressed := frSuppressed r + 1\<rparr>)
      else (Some (yellow p (forward_message isPrint err (frSuppressed r)) @ [CHR 0x0A]),
            r\<lparr>frLast := Some now, frSuppressed := 0\<rparr>))"

text \<open>A run: each report with its time; the lines that are printed, with their times.\<close>

fun reporter_run ::
  "(nat \<Rightarrow> bool) \<Rightarrow> palette \<Rightarrow> (error \<times> int) list \<Rightarrow> forward_error_reporter \<Rightarrow>
   (int \<times> string) list \<times> forward_error_reporter" where
  "reporter_run isPrint p [] r = ([], r)"
| "reporter_run isPrint p ((e, now) # es) r =
     (case reporter_report isPrint p e now r of
        (out, r1) \<Rightarrow>
          (case reporter_run isPrint p es r1 of
             (outs, r2) \<Rightarrow> ((case out of None \<Rightarrow> outs | Some s \<Rightarrow> (now, s) # outs), r2)))"

section \<open>Properties\<close>

lemma split_lines_ne [simp]: "split_lines s \<noteq> []"
  by (cases s) (auto split: list.split)

lemma unsplit: "style_lines [] (split_lines s) = s @ [CHR 0x0A]"
proof (induction s)
  case (Cons c s)
  then show ?case by (cases "split_lines s") auto
qed simp

lemma style_lines_plain: "set sts \<subseteq> {None, Some id} \<Longrightarrow> style_lines sts ls = style_lines [] ls"
  by (induction sts ls rule: style_lines.induct) auto

text \<open>Without colour a table is exactly what the tabwriter made of it.\<close>

lemma plain_table:
  assumes "table_flush layout t = Inr out" and "layout (tbText t) = Inr buf" and "buf \<noteq> []" and "last buf = CHR 0x0A"
    and "set (tbStyles t) \<subseteq> {None, Some id}"
  shows "out = buf"
proof -
  have "table_flush layout t = Inr (style_lines (tbStyles t) (split_lines (butlast buf)))"
    by (simp add: table_flush_def assms(2-4) trim_newline_def)
  also have "style_lines (tbStyles t) (split_lines (butlast buf)) = butlast buf @ [last buf]"
    by (simp only: style_lines_plain [OF assms(5)] unsplit assms(4))
  also have "\<dots> = buf" using assms(3) by (rule append_butlast_last_id)
  finally show ?thesis using assms(1) by simp
qed

lemma paint_off [simp]: "paint False codes t = t"
  by (simp add: paint_def)

text \<open>Explaining an error does not change what it is, so the exit status is the same.\<close>

lemma explain_keeps_identity: "explainSessionError (Some e) = Some e' \<Longrightarrow> errors_is e' t = errors_is e t"
  by (auto simp: explainSessionError_def split: if_splits)

lemma explain_keeps_status: "snd (main_exit isPrint p (explainSessionError err)) = snd (main_exit isPrint p err)"
proof (cases err)
  case (Some e)
  then obtain e' where "explainSessionError err = Some e'" by (simp add: explainSessionError_def)
  with Some show ?thesis using explain_keeps_identity [of e e'] by (simp add: main_exit_def)
qed (simp add: explainSessionError_def)

lemma color_mode_text_roundtrip: "parseColorMode (colorMode_String (Some m)) = Inr m"
proof -
  have "TrimSpace ''auto'' = ''auto''" "TrimSpace ''always'' = ''always''" "TrimSpace ''never'' = ''never''"
    by (rule TrimSpace_graphic, simp add: graphic_def)+
  then show ?thesis
    by (cases m) (simp_all add: colorMode_String_def parseColorMode_def colorAutoName_def colorNeverName_def to_lower_def)
qed

text \<open>
  What the lines of a run should be: the reports fall into groups, of which the first is printed and
  the others, less than five seconds after it, are held back; \<open>n\<close> is how many were held back before
  the first group.
\<close>

fun group_lines :: "(nat \<Rightarrow> bool) \<Rightarrow> palette \<Rightarrow> nat \<Rightarrow> ((error \<times> int) \<times> (error \<times> int) list) list \<Rightarrow> (int \<times> string) list" where
  "group_lines isPrint p n [] = []"
| "group_lines isPrint p n (((e, t), held) # gs) =
     (t, yellow p (''forwarding failed: '' @ terminalText isPrint (error_text e) @
           (if n = 0 then [] else '' ('' @ show_nat n @ '' additional failures suppressed)'')) @ [CHR 0x0A])
       # group_lines isPrint p (length held) gs"

fun groups_timed :: "((error \<times> int) \<times> (error \<times> int) list) list \<Rightarrow> bool" where
  "groups_timed [] \<longleftrightarrow> True"
| "groups_timed [((e, t), held)] \<longleftrightarrow> (\<forall>(_, t') \<in> set held. t' < t + 5 * 10 ^ 9)"
| "groups_timed (((e, t), held) # ((e', t'), held') # gs) \<longleftrightarrow>
     (\<forall>(_, t') \<in> set held. t' < t + 5 * 10 ^ 9) \<and> t + 5 * 10 ^ 9 \<le> t' \<and> groups_timed (((e', t'), held') # gs)"

definition reports_of :: "((error \<times> int) \<times> (error \<times> int) list) list \<Rightarrow> (error \<times> int) list" where
  "reports_of groups = concat (map (\<lambda>(first, held). first # held) groups)"

lemma forward_message_text:
  "forward_message isPrint e n = ''forwarding failed: '' @ terminalText isPrint (error_text e) @
     (if unat n = 0 then [] else '' ('' @ show_nat (unat n) @ '' additional failures suppressed)'')"
  by (simp add: forward_message_def unat_eq_0 word_neq_0_conv [symmetric])

text \<open>From a reporter that has just printed a line, at \<open>t\<close>, and since then held reports back.\<close>

lemma reporter_run_from:
  assumes "reporter_run isPrint p es r0 = (outs, r)" and "length es + unat (frSuppressed r0) < 2 ^ 64"
    and "frLast r0 = Some t" and "length before = unat (frSuppressed r0)" and "\<forall>(_, t') \<in> set before. t' < t + 5 * 10 ^ 9"
  shows "\<exists>held groups. es = held @ reports_of groups \<and>
    outs = group_lines isPrint p (length (before @ held)) groups \<and> groups_timed (((e0, t), before @ held) # groups) \<and>
    unat (frSuppressed r) = length (snd (last (((e0, t), before @ held) # groups)))"
  using assms
proof (induction es arbitrary: r0 outs t e0 before)
  case Nil
  then show ?case by (intro exI [of _ "[]"]) (simp add: reports_of_def)
next
  case (Cons en es)
  obtain e now where en: "en = (e, now)" by (cases en)
  obtain out r1 where r1: "reporter_report isPrint p e now r0 = (out, r1)" by (cases "reporter_report isPrint p e now r0")
  obtain outs1 where o1: "reporter_run isPrint p es r1 = (outs1, r)"
    "outs = (case out of None \<Rightarrow> outs1 | Some s \<Rightarrow> (now, s) # outs1)"
    using Cons.prems(1) r1 by (auto simp: en split: prod.splits)
  show ?case
  proof (cases "now - t < forwardErrorInterval")
    case True
    then have o: "out = None" "r1 = r0\<lparr>frSuppressed := frSuppressed r0 + 1\<rparr>"
      using r1 Cons.prems(3) by (simp_all add: reporter_report_def)
    have "unat (frSuppressed r0) + 1 < 2 ^ 64" using Cons.prems(2) by simp
    then have n: "unat (frSuppressed r1) = unat (frSuppressed r0) + 1" using o(2) by (simp add: unat_word_ariths(1))
    have "now < t + 5 * 10 ^ 9" using True by (simp add: forwardErrorInterval_def)
    then have "\<exists>held groups. es = held @ reports_of groups \<and>
        outs1 = group_lines isPrint p (length ((before @ [en]) @ held)) groups \<and>
        groups_timed (((e0, t), (before @ [en]) @ held) # groups) \<and>
        unat (frSuppressed r) = length (snd (last (((e0, t), (before @ [en]) @ held) # groups)))"
      by (intro Cons.IH [OF o1(1)]) (use n Cons.prems(2-5) o(2) en in auto)
    then obtain held groups where "es = held @ reports_of groups"
      "outs1 = group_lines isPrint p (length (before @ en # held)) groups"
      "groups_timed (((e0, t), before @ en # held) # groups)"
      "unat (frSuppressed r) = length (snd (last (((e0, t), before @ en # held) # groups)))" by auto
    then show ?thesis using o(1) o1(2) by (intro exI [of _ "en # held"] exI [of _ groups]) simp
  next
    case False
    then have o: "out = Some (yellow p (forward_message isPrint e (frSuppressed r0)) @ [CHR 0x0A])"
      "r1 = r0\<lparr>frLast := Some now, frSuppressed := 0\<rparr>" using r1 Cons.prems(3) by (auto simp: reporter_report_def)
    have "\<exists>held groups. es = held @ reports_of groups \<and> outs1 = group_lines isPrint p (length ([] @ held)) groups \<and>
        groups_timed (((e, now), [] @ held) # groups) \<and>
        unat (frSuppressed r) = length (snd (last (((e, now), [] @ held) # groups)))"
      by (intro Cons.IH [OF o1(1)]) (use Cons.prems(2) o(2) in auto)
    then obtain held groups where g: "es = held @ reports_of groups" "outs1 = group_lines isPrint p (length held) groups"
      "groups_timed (((e, now), held) # groups)"
      "unat (frSuppressed r) = length (snd (last (((e, now), held) # groups)))" by auto
    let ?gs = "((e, now), held) # groups"
    have "en # es = [] @ reports_of ?gs" using g(1) en by (simp add: reports_of_def)
    moreover have "outs = group_lines isPrint p (length (before @ [])) ?gs"
      using o(1) o1(2) g(2) Cons.prems(4) by (simp add: forward_message_text)
    moreover have "groups_timed (((e0, t), before @ []) # ?gs)"
      using g(3) False Cons.prems(5) by (simp add: forwardErrorInterval_def)
    moreover have "unat (frSuppressed r) = length (snd (last (((e0, t), before @ []) # ?gs)))" using g(4) by simp
    ultimately show ?thesis by blast
  qed
qed

text \<open>
  C39: Repeated errors are limited and none is lost. However many forwarding errors are reported and
  whenever, the reports fall into groups: the first of each is printed, the others come less than
  five seconds after it and are held back, and the next group starts five seconds after it or
  later. Each line says how many the group before it held back, and says nothing of it if there
  were none; the last group's are what the reporter still counts. (As long as the number of reports
  fits 64 bits.)
\<close>

theorem forward_errors_accounted:
  assumes "reporter_run isPrint p es fresh_reporter = (outs, r)" and "length es < 2 ^ 64"
  shows "\<exists>groups. es = reports_of groups \<and> groups_timed groups \<and> outs = group_lines isPrint p 0 groups \<and>
    unat (frSuppressed r) = (if groups = [] then 0 else length (snd (last groups)))"
proof (cases es)
  case Nil
  with assms(1) show ?thesis by (intro exI [of _ "[]"]) (auto simp: reports_of_def fresh_reporter_def)
next
  case (Cons en es')
  obtain e now where en: "en = (e, now)" by (cases en)
  let ?r = "\<lparr>frLast = Some now, frSuppressed = 0\<rparr> :: forward_error_reporter"
  have first: "reporter_report isPrint p e now fresh_reporter = (Some (yellow p (forward_message isPrint e 0) @ [CHR 0x0A]), ?r)"
    by (simp add: reporter_report_def fresh_reporter_def)
  then obtain outs1 where o1: "reporter_run isPrint p es' ?r = (outs1, r)"
    "outs = (now, yellow p (forward_message isPrint e 0) @ [CHR 0x0A]) # outs1"
    using assms(1) Cons by (auto simp: en split: prod.splits)
  have "length es' + unat (frSuppressed ?r) < 2 ^ 64" using assms(2) Cons by simp
  from reporter_run_from [OF o1(1) this, of now "[]" e] obtain held groups where
    g: "es' = held @ reports_of groups" "outs1 = group_lines isPrint p (length held) groups"
      "groups_timed (((e, now), held) # groups)" "unat (frSuppressed r) = length (snd (last (((e, now), held) # groups)))" by auto
  then show ?thesis using o1(2) Cons en
    by (intro exI [of _ "((e, now), held) # groups"]) (simp add: reports_of_def forward_message_text)
qed

lemma forward_errors_accounted_witness:
  "\<exists>outs r groups. reporter_run (\<lambda>r. 32 \<le> r) False [(Fault 1, 0), (Fault 2, 10), (Fault 3, 6 * 1000000000)] fresh_reporter = (outs, r) \<and>
     [(Fault 1, 0), (Fault 2, 10), (Fault 3, 6 * 1000000000)] = reports_of groups \<and>
     outs = group_lines (\<lambda>r. 32 \<le> r) False 0 groups"
proof -
  let ?es = "[(Fault 1, 0), (Fault 2, 10), (Fault 3, 6 * 1000000000)] :: (error \<times> int) list"
  obtain outs r where r: "reporter_run (\<lambda>r. 32 \<le> r) False ?es fresh_reporter = (outs, r)" by (metis prod.exhaust)
  from forward_errors_accounted [OF r] r show ?thesis by auto
qed

end
