(* ===== verification/Cli_Flags.thy ===== *)
theory Cli_Flags
  imports HostPort Cli_Output
begin

text \<open>
  The command tree and its flags (\<^verbatim>\<open>cmd/ggrok/main.go\<close> and the \<^verbatim>\<open>new...Command\<close>
  constructors), and the pass over the command line that accepts Go-style \<^verbatim>\<open>-long\<close> flags beside
  \<^verbatim>\<open>--long\<close>. A command is what that pass asks Cobra for: its name, its two flag sets, each flag
  with its \<^verbatim>\<open>NoOptDefVal\<close>, and its children.
\<close>

section \<open>Commands\<close>

record flag =
  flName :: string
  flNoOpt :: string

datatype command = Command (cmdName: string) (cmdFlags: "flag list") (cmdPersistent: "flag list")
  (cmdChildren: "command list")

definition valued :: "string \<Rightarrow> flag" where "valued n = \<lparr>flName = n, flNoOpt = []\<rparr>"
definition toggle :: "string \<Rightarrow> flag" where "toggle n = \<lparr>flName = n, flNoOpt = ''true''\<rparr>"

definition newCommand :: "string \<Rightarrow> flag list \<Rightarrow> command" where
  "newCommand use flags = Command (takeWhile (\<lambda>c. c \<noteq> CHR '' '') use) flags [] []"

definition conn_flag_set :: "flag list" where
  "conn_flag_set = map valued [''server'', ''cert-file'', ''key-file'', ''ca-file'']"

definition newShareCommand :: command where
  "newShareCommand = newCommand ''share''
     (conn_flag_set @ map valued [''tcp'', ''session-key'', ''session-key-file'', ''token-out''])"

definition newListenCommand :: command where
  "newListenCommand = newCommand ''listen [token]''
     (conn_flag_set @ [toggle ''wait''] @ map valued [''tcp'', ''token'', ''token-file''])"

definition newRelayCommand :: command where
  "newRelayCommand = newCommand ''relay''
     (map valued [''listen'', ''cert-file'', ''key-file'', ''ca-file'', ''revoked-file''] @ [toggle ''admin''])"

definition newCAInitCommand :: command where
  "newCAInitCommand = newCommand ''init'' (map valued [''out'', ''common-name'', ''validity''])"

definition newCAIssueCommand :: command where
  "newCAIssueCommand = newCommand ''issue''
     (map valued [''ca-dir'', ''common-name'', ''out'', ''ttl''] @ map toggle [''server'', ''admin''] @
      map valued [''dns-name'', ''ip''])"

definition newCAListCommand :: command where
  "newCAListCommand = newCommand ''list'' [valued ''ca-dir'']"

definition newCARevokeCommand :: command where
  "newCARevokeCommand = newCommand ''revoke'' (map valued [''ca-dir'', ''common-name''])"

definition newCACRLCommand :: command where
  "newCACRLCommand = newCommand ''crl'' (map valued [''ca-dir'', ''out''])"

definition newAdminPeerCommand :: "string \<Rightarrow> flag list \<Rightarrow> command" where
  "newAdminPeerCommand use extra = newCommand use (conn_flag_set @ extra)"

definition newAdminListCommand :: command where "newAdminListCommand = newAdminPeerCommand ''ls'' []"

definition newAdminKillCommand :: command where
  "newAdminKillCommand = newAdminPeerCommand ''kill'' [valued ''session'']"

definition newAdminReloadCRLCommand :: command where
  "newAdminReloadCRLCommand = newAdminPeerCommand ''reload-crl'' []"

definition colorFlagEntry :: flag where
  "colorFlagEntry = \<lparr>flName = ''color'', flNoOpt = colorMode_String (Some ColorAuto)\<rparr>"

definition newRootCommand :: command where
  "newRootCommand = Command ''ggrok'' [] [colorFlagEntry]
     [newShareCommand, newListenCommand, newRelayCommand,
      Command ''ca'' [] []
        [newCAInitCommand, newCAIssueCommand, newCAListCommand, newCARevokeCommand, newCACRLCommand],
      Command ''admin'' [] []
        [newAdminListCommand, newAdminKillCommand, newAdminReloadCRLCommand]]"

section \<open>Legacy flags\<close>

text \<open>A command and its parents, innermost first.\<close>

type_synonym command_path = "command list"

definition flag_in :: "flag list \<Rightarrow> string \<Rightarrow> flag option" where
  "flag_in fs name = find (\<lambda>f. flName f = name) fs"

fun lookupFlag :: "command_path \<Rightarrow> string \<Rightarrow> flag option" where
  "lookupFlag [] name = None"
| "lookupFlag (current # parents) name =
     (case flag_in (cmdFlags current) name of
        Some f \<Rightarrow> Some f
      | None \<Rightarrow>
          (case flag_in (cmdPersistent current) name of Some f \<Rightarrow> Some f | None \<Rightarrow> lookupFlag parents name))"

definition HasPrefix :: "string \<Rightarrow> string \<Rightarrow> bool" where
  "HasPrefix s p \<longleftrightarrow> take (length p) s = p"

definition TrimPrefix :: "string \<Rightarrow> string \<Rightarrow> string" where
  "TrimPrefix s p = (if HasPrefix s p then drop (length p) s else s)"

definition normalizeLegacyFlag :: "command_path \<Rightarrow> string \<Rightarrow> string \<times> bool" where
  "normalizeLegacyFlag cmd arg =
     (let (name, _, attached) = Cut (TrimPrefix (TrimPrefix arg ''-'') ''-'') CHR ''=''
      in if name = ''help'' \<and> HasPrefix arg ''-help'' then (''-'' @ arg, False)
         else case lookupFlag cmd name of
                None \<Rightarrow> (arg, False)
              | Some f \<Rightarrow>
                  (if \<not> HasPrefix arg ''--'' \<and> length name > 1 then ''-'' @ arg else arg,
                   \<not> attached \<and> flNoOpt f = []))"

definition descend :: "command_path \<Rightarrow> string \<Rightarrow> command_path" where
  "descend cmd arg =
     (case cmd of
        [] \<Rightarrow> []
      | c # _ \<Rightarrow> (case find (\<lambda>child. cmdName child = arg) (cmdChildren c) of None \<Rightarrow> cmd | Some child \<Rightarrow> child # cmd))"

fun normalizeLegacyFlags :: "command_path \<Rightarrow> string list \<Rightarrow> string list" where
  "normalizeLegacyFlags cmd [] = []"
| "normalizeLegacyFlags cmd (arg # args) =
     (if arg = ''--'' then arg # args
      else if HasPrefix arg ''-'' \<and> arg \<noteq> ''-''
      then (case normalizeLegacyFlag cmd arg of
              (word, consumesValue) \<Rightarrow>
                word # (case args of
                          [] \<Rightarrow> []
                        | v # rest \<Rightarrow>
                            if consumesValue then v # normalizeLegacyFlags cmd rest
                            else normalizeLegacyFlags cmd args))
      else arg # normalizeLegacyFlags (descend cmd arg) args)"

section \<open>How a command line is written\<close>

text \<open>
  What a command line says, apart from how its flags are spelled: words, flags that stand alone,
  flags with an attached value and flags whose value is the next word, whatever that word is.
\<close>

datatype item = Plain string | Alone string | Attached string string | Followed string string

definition long_name :: "string \<Rightarrow> bool" where
  "long_name n \<longleftrightarrow> length n > 1 \<and> hd n \<noteq> CHR ''-'' \<and> CHR ''='' \<notin> set n"

fun spell :: "bool \<Rightarrow> item \<Rightarrow> string list" where
  "spell gnu (Plain w) = [w]"
| "spell gnu (Alone n) = [(if gnu then ''--'' else ''-'') @ n]"
| "spell gnu (Attached n v) = [(if gnu then ''--'' else ''-'') @ n @ ''='' @ v]"
| "spell gnu (Followed n v) = [(if gnu then ''--'' else ''-'') @ n, v]"

fun items_ok :: "command_path \<Rightarrow> item list \<Rightarrow> bool" where
  "items_ok cmd [] \<longleftrightarrow> True"
| "items_ok cmd (Plain w # rest) \<longleftrightarrow> (w = ''-'' \<or> \<not> HasPrefix w ''-'') \<and> items_ok (descend cmd w) rest"
| "items_ok cmd (Alone n # rest) \<longleftrightarrow>
     (n = ''help'' \<or> (\<exists>f. lookupFlag cmd n = Some f \<and> flNoOpt f \<noteq> [])) \<and> items_ok cmd rest"
| "items_ok cmd (Attached n v # rest) \<longleftrightarrow> lookupFlag cmd n \<noteq> None \<and> items_ok cmd rest"
| "items_ok cmd (Followed n v # rest) \<longleftrightarrow>
     (\<exists>f. lookupFlag cmd n = Some f \<and> flNoOpt f = []) \<and> items_ok cmd rest"

section \<open>Looking a flag up\<close>

fun all_flags :: "command \<Rightarrow> flag list" where
  "all_flags (Command name fs ps children) = fs @ ps @ concat (map all_flags children)"

definition flags_ok :: "command \<Rightarrow> bool" where
  "flags_ok c \<longleftrightarrow> (\<forall>f \<in> set (all_flags c). long_name (flName f) \<and> flName f \<noteq> ''help'')"

definition path_ok :: "command_path \<Rightarrow> bool" where "path_ok cmd \<longleftrightarrow> (\<forall>c \<in> set cmd. flags_ok c)"

lemma flag_in_Some: "flag_in fs name = Some f \<Longrightarrow> f \<in> set fs \<and> flName f = name"
  by (auto simp: flag_in_def find_Some_iff)

lemma lookupFlag_Some: "path_ok cmd \<Longrightarrow> lookupFlag cmd name = Some f \<Longrightarrow> long_name name \<and> name \<noteq> ''help''"
proof (induction cmd)
  case (Cons c cmd)
  obtain nm fs ps cs where c: "c = Command nm fs ps cs" by (cases c)
  then have "\<forall>g \<in> set fs \<union> set ps. long_name (flName g) \<and> flName g \<noteq> ''help''"
    using Cons.prems(1) by (auto simp: path_ok_def flags_ok_def)
  moreover have "path_ok cmd" using Cons.prems(1) by (simp add: path_ok_def)
  ultimately show ?case
    using Cons.prems(2) Cons.IH c by (auto split: option.splits dest!: flag_in_Some)
qed simp

lemma path_ok_descend: "path_ok cmd \<Longrightarrow> path_ok (descend cmd arg)"
proof (cases cmd)
  case (Cons c parents)
  assume ok: "path_ok cmd"
  obtain nm fs ps cs where c: "c = Command nm fs ps cs" by (cases c)
  then have "\<forall>k \<in> set cs. flags_ok k" using ok Cons by (auto simp: path_ok_def flags_ok_def)
  then show ?thesis
    using ok Cons c by (auto simp: descend_def path_ok_def find_Some_iff split: option.split)
qed (simp add: descend_def)

lemma newRootCommand_ok: "path_ok [newRootCommand]"
  by (simp add: path_ok_def flags_ok_def newRootCommand_def newShareCommand_def newListenCommand_def
      newRelayCommand_def newCAInitCommand_def newCAIssueCommand_def newCAListCommand_def newCARevokeCommand_def
      newCACRLCommand_def newAdminListCommand_def newAdminKillCommand_def newAdminReloadCRLCommand_def
      newAdminPeerCommand_def newCommand_def conn_flag_set_def valued_def toggle_def colorFlagEntry_def long_name_def)

text \<open>One flag word in either spelling.\<close>

lemma normalize_one:
  assumes "long_name n" and "n = ''help'' \<and> lookupFlag cmd n = None \<or> n \<noteq> ''help'' \<and> lookupFlag cmd n = Some f"
    and "rest = [] \<or> hd rest = CHR ''=''"
  shows "normalizeLegacyFlag cmd ((if gnu then ''--'' else ''-'') @ n @ rest) =
    (''--'' @ n @ rest, n \<noteq> ''help'' \<and> rest = [] \<and> flNoOpt f = [])"
proof -
  obtain c cs where n: "n = c # cs" "c \<noteq> CHR ''-''" using assms(1) by (cases n) (auto simp: long_name_def)
  let ?arg = "(if gnu then ''--'' else ''-'') @ n @ rest"
  have trim: "TrimPrefix (TrimPrefix ?arg ''-'') ''-'' = n @ rest"
    using n by (simp add: TrimPrefix_def HasPrefix_def)
  have cut: "Cut (n @ rest) CHR ''='' = (n, drop 1 rest, rest \<noteq> [])"
    using assms(1,3) by (cases rest) (auto simp: long_name_def)
  have two: "HasPrefix ?arg ''--'' = gnu" using n by (simp add: HasPrefix_def)
  have hlp: "n = ''help'' \<Longrightarrow> HasPrefix ?arg ''-help'' = (\<not> gnu)" by (simp add: HasPrefix_def)
  show ?thesis
    using assms(1,2) two hlp
    by (auto simp: normalizeLegacyFlag_def trim cut long_name_def)
qed

lemma normalize_flag_word:
  assumes "long_name n" and "n = ''help'' \<and> lookupFlag cmd n = None \<or> n \<noteq> ''help'' \<and> lookupFlag cmd n = Some f"
    and "rest = [] \<or> hd rest = CHR ''=''"
  shows "normalizeLegacyFlags cmd (((if gnu then ''--'' else ''-'') @ n @ rest) # args) =
    (''--'' @ n @ rest) #
      (case args of [] \<Rightarrow> [] | v # vs \<Rightarrow>
        if n \<noteq> ''help'' \<and> rest = [] \<and> flNoOpt f = [] then v # normalizeLegacyFlags cmd vs
        else normalizeLegacyFlags cmd args)"
proof -
  obtain c cs where n: "n = c # cs" "c \<noteq> CHR ''-''" using assms(1) by (cases n) (auto simp: long_name_def)
  let ?arg = "(if gnu then ''--'' else ''-'') @ n @ rest"
  have "?arg \<noteq> ''--''" "HasPrefix ?arg ''-''" "?arg \<noteq> ''-''" using n by (auto simp: HasPrefix_def)
  then show ?thesis using normalize_one [OF assms, of gnu] by (simp split: list.split)
qed

lemma normalize_alone:
  assumes "path_ok cmd" and "long_name n" and "rest = [] \<or> hd rest = CHR ''=''"
    and "n = ''help'' \<or> (\<exists>f. lookupFlag cmd n = Some f \<and> (rest \<noteq> [] \<or> flNoOpt f \<noteq> []))"
  shows "normalizeLegacyFlags cmd (((if gnu then ''--'' else ''-'') @ n @ rest) # args) =
    (''--'' @ n @ rest) # normalizeLegacyFlags cmd args"
proof -
  obtain f where f: "n = ''help'' \<and> lookupFlag cmd n = None \<or> n \<noteq> ''help'' \<and> lookupFlag cmd n = Some f"
    "\<not> (n \<noteq> ''help'' \<and> rest = [] \<and> flNoOpt f = [])"
    using assms(4) lookupFlag_Some [OF assms(1), of n] by (cases "lookupFlag cmd n") auto
  show ?thesis
    unfolding normalize_flag_word [OF assms(2) f(1) assms(3)] using f(2) by (cases args) auto
qed

lemma normalize_followed:
  assumes "long_name n" and "n \<noteq> ''help''" and "lookupFlag cmd n = Some f" and "flNoOpt f = []"
  shows "normalizeLegacyFlags cmd (((if gnu then ''--'' else ''-'') @ n) # v # args) =
    (''--'' @ n) # v # normalizeLegacyFlags cmd args"
  using normalize_flag_word [of n cmd f "[]" gnu "v # args"] assms by simp

section \<open>Properties\<close>

text \<open>
  The Go spelling of a command line means what the GNU spelling means. Take any command
  line of ggrok: words, subcommands, flags alone, with \<open>=value\<close> or followed by a value that may
  itself look like a flag or be \<open>--\<close>. However each flag is spelled, with one dash or two,
  normalizing gives the spelling with two dashes throughout, words, values and everything after
  \<open>--\<close> untouched; so what is in GNU form already passes unchanged.
\<close>

theorem legacy_spelling_normalized:
  assumes "items_ok [newRootCommand] (map snd items)" and "rest = [] \<or> hd rest = ''--''"
  shows "normalizeLegacyFlags [newRootCommand] (concat (map (\<lambda>(gnu, it). spell gnu it) items) @ rest) =
    concat (map (spell True) (map snd items)) @ rest"
proof -
  have "normalizeLegacyFlags cmd (concat (map (\<lambda>(gnu, it). spell gnu it) items) @ rest) =
      concat (map (spell True) (map snd items)) @ rest"
    if "items_ok cmd (map snd items)" "path_ok cmd" for cmd
    using that
  proof (induction items arbitrary: cmd)
    case Nil
    then show ?case using assms(2) by (cases rest) auto
  next
    case (Cons e items)
    obtain gnu it where e: "e = (gnu, it)" by (cases e)
    show ?case
    proof (cases it)
      case (Plain w)
      then show ?thesis using Cons e path_ok_descend by (auto simp: HasPrefix_def)
    next
      case (Alone n)
      then have "long_name n"
        using Cons.prems lookupFlag_Some [OF Cons.prems(2), of n] by (auto simp: e long_name_def)
      then show ?thesis
        using normalize_alone [OF Cons.prems(2), of n "[]" gnu] Cons
        by (auto simp: e Alone simp del: normalizeLegacyFlags.simps)
    next
      case (Attached n v)
      then obtain f where f: "lookupFlag cmd n = Some f" using Cons.prems by (auto simp: e)
      show ?thesis
        using normalize_alone [OF Cons.prems(2), of n "''='' @ v" gnu] lookupFlag_Some [OF Cons.prems(2) f] f Cons
        by (auto simp: e Attached simp del: normalizeLegacyFlags.simps)
    next
      case (Followed n v)
      then obtain f where f: "lookupFlag cmd n = Some f" "flNoOpt f = []" using Cons.prems by (auto simp: e)
      show ?thesis
        using normalize_followed [of n cmd f gnu] lookupFlag_Some [OF Cons.prems(2) f(1)] f Cons
        by (auto simp: e Followed simp del: normalizeLegacyFlags.simps)
    qed
  qed
  then show ?thesis using assms(1) newRootCommand_ok by blast
qed

lemma legacy_spelling_normalized_witness:
  "normalizeLegacyFlags [newRootCommand]
     [''-color=never'', ''share'', ''-tcp'', ''127.0.0.1:80'', ''--token-out'', ''-server'', ''-help'', ''--'', ''-key-file''] =
     [''--color=never'', ''share'', ''--tcp'', ''127.0.0.1:80'', ''--token-out'', ''-server'', ''--help'', ''--'', ''-key-file'']"
proof -
  have "items_ok [newRootCommand] (map snd [(False, Attached ''color'' ''never''), (False, Plain ''share''),
      (False, Followed ''tcp'' ''127.0.0.1:80''), (True, Followed ''token-out'' ''-server''), (False, Alone ''help'')])"
    by (simp add: newRootCommand_def newShareCommand_def newCommand_def conn_flag_set_def valued_def
        colorFlagEntry_def descend_def flag_in_def HasPrefix_def)
  from legacy_spelling_normalized [OF this, of "[''--'', ''-key-file'']"] show ?thesis by simp
qed

end
