(* ===== verification/Cli_Main.thy ===== *)
theory Cli_Main
  imports Cli_Flags
begin

text \<open>
  From \<open>main\<close> to a command and back (\<^verbatim>\<open>cmd/ggrok/main.go\<close>, with the streams of \<^verbatim>\<open>color.go\<close> and
  \<^verbatim>\<open>secrets.go\<close>). Cobra, which parses the words it is given and calls the command they name, is a
  parameter: a function of the command tree, the words, the colour mode that \<open>-color\<close> writes and
  everything else the command works on.
\<close>

unbundle bit_operations_syntax

section \<open>The standard streams\<close>

text \<open>\<open>os.ModeCharDevice\<close>, and what \<open>Stat\<close> says of a stream.\<close>

definition ModeCharDevice :: u32 where "ModeCharDevice = push_bit 21 1"

definition isTerminal :: "u32 result \<Rightarrow> bool" where
  "isTerminal info = (case info of Inl e \<Rightarrow> False | Inr mode \<Rightarrow> mode AND ModeCharDevice \<noteq> 0)"

record main_env =
  meVar :: "string \<Rightarrow> string"
  meStdout :: "u32 result"
  meStderr :: "u32 result"
  meIsPrint :: "nat \<Rightarrow> bool"

definition stdoutIsTerminal :: "main_env \<Rightarrow> bool" where
  "stdoutIsTerminal env = isTerminal (meStdout env)"

definition stdoutColors :: "main_env \<Rightarrow> color_mode \<Rightarrow> palette" where
  "stdoutColors env colorFlag = color_enabled (meVar env) (isTerminal (meStdout env)) colorFlag"

definition stderrColors :: "main_env \<Rightarrow> color_mode \<Rightarrow> palette" where
  "stderrColors env colorFlag = color_enabled (meVar env) (isTerminal (meStderr env)) colorFlag"

section \<open>Running a command\<close>

type_synonym 's cobra = "command \<Rightarrow> string list \<Rightarrow> color_mode \<times> 's \<Rightarrow> error option \<times> color_mode \<times> 's"

text \<open>What \<open>newCommand\<close> makes of an error in a command's flags.\<close>

definition flag_error :: "error \<Rightarrow> error" where
  "flag_error err = Wrap2 (Sentinel ErrUsage) '': '' err"

definition executeCommand :: "'s cobra \<Rightarrow> command \<Rightarrow> string list \<Rightarrow> color_mode \<times> 's \<Rightarrow> error option \<times> color_mode \<times> 's" where
  "executeCommand execute cmd args s = execute cmd (normalizeLegacyFlags [cmd] args) s"

definition run :: "main_env \<Rightarrow> 's cobra \<Rightarrow> string list \<Rightarrow> 's \<Rightarrow> error option \<times> color_mode \<times> 's" where
  "run env execute args s = executeCommand execute newRootCommand args (colorModeFromEnv (meVar env), s)"

text \<open>What the process prints at its end, its exit status, and what the command left.\<close>

definition ggrok_main :: "main_env \<Rightarrow> 's cobra \<Rightarrow> string list \<Rightarrow> 's \<Rightarrow> (string \<times> nat) \<times> 's" where
  "ggrok_main env execute args s =
     (case run env execute args s of
        (err, colorFlag, s1) \<Rightarrow> (main_exit (meIsPrint env) (stderrColors env colorFlag) err, s1))"

section \<open>Properties\<close>

text \<open>
  C38: How a flag is spelled never matters, and a mistake in the flags shows in the exit status.
  Whatever cobra and the commands do, a command line with its long flags in Go's spelling, GNU's
  or a mixture runs as the one in GNU's spelling does: the same words reach cobra, and the output,
  the exit status and the effects are the same. If the command ends with an error of its flags
  the status is 2, unless the error is a cancellation, which exits 0 with nothing printed.
\<close>

theorem spelling_never_matters:
  assumes "items_ok [newRootCommand] (map snd items)" and "rest = [] \<or> hd rest = ''--''"
  defines "line \<equiv> concat (map (\<lambda>(gnu, it). spell gnu it) items) @ rest"
    and "gnuLine \<equiv> concat (map (spell True) (map snd items)) @ rest"
  shows "normalizeLegacyFlags [newRootCommand] line = gnuLine \<and>
    ggrok_main env execute line s = ggrok_main env execute gnuLine s \<and>
    (case run env execute line s of
       (err, _) \<Rightarrow> snd (fst (ggrok_main env execute line s)) =
         (case err of None \<Rightarrow> 0 | Some e \<Rightarrow>
            if errors_is e ErrCanceled then 0 else if errors_is e ErrUsage then 2 else 1) \<and>
         (\<forall>e. err = Some (flag_error e) \<longrightarrow>
            snd (fst (ggrok_main env execute line s)) = (if errors_is e ErrCanceled then 0 else 2)))"
proof -
  have n: "normalizeLegacyFlags [newRootCommand] line = gnuLine"
    unfolding line_def gnuLine_def by (rule legacy_spelling_normalized [OF assms(1,2)])
  have gnu: "normalizeLegacyFlags [newRootCommand] gnuLine = gnuLine"
    using legacy_spelling_normalized [of "map (Pair True) (map snd items)" rest] assms(1,2)
    by (simp add: gnuLine_def comp_def)
  show ?thesis using n gnu
    by (auto simp: ggrok_main_def run_def executeCommand_def main_exit_def flag_error_def exitUsageError_def
        split: prod.splits option.splits)
qed

lemma spelling_never_matters_witness:
  "ggrok_main \<lparr>meVar = (\<lambda>_. []), meStdout = Inl (Fault 0), meStderr = Inr 0, meIsPrint = (\<lambda>_. True)\<rparr>
     (\<lambda>cmd args (mode, n). (if args = [''share'', ''--tcp'', ''-1''] then None else Some (flag_error (Msg ''x'')), mode, length args))
     [''share'', ''-tcp'', ''-1''] 0 = (([], 0), 3)"
proof -
  let ?env = "\<lparr>meVar = (\<lambda>_. []), meStdout = Inl (Fault 0), meStderr = Inr 0, meIsPrint = (\<lambda>_. True)\<rparr>"
  let ?ex = "\<lambda>(cmd :: command) args (mode, n :: nat).
    (if args = [''share'', ''--tcp'', ''-1''] then None else Some (flag_error (Msg ''x'')), mode, length args)"
  have "items_ok [newRootCommand] (map snd [(False, Plain ''share''), (False, Followed ''tcp'' ''-1'')])"
    by (simp add: newRootCommand_def newShareCommand_def newCommand_def conn_flag_set_def valued_def
        descend_def flag_in_def HasPrefix_def)
  from spelling_never_matters [OF this, of "[]" ?env ?ex 0]
  show ?thesis by (simp add: ggrok_main_def run_def executeCommand_def main_exit_def)
qed

end
