(* ===== verification/Cli_Config.thy ===== *)
theory Cli_Config
  imports HostPort CRL
begin

text \<open>
  Where the commands take their settings from (\<^verbatim>\<open>cmd/ggrok/config.go\<close>): paths with a leading
  tilde, and the connection settings a flag, an environment variable, \<open>config.json\<close> or a default
  gives. \<open>path/filepath\<close>'s \<open>Clean\<close> and \<open>Join\<close> are written out for Unix; the home
  directory, the environment, file contents and JSON are arguments.
\<close>

section \<open>path/filepath\<close>

fun split_slash :: "string \<Rightarrow> string list" where
  "split_slash [] = [[]]"
| "split_slash (c # s) =
     (if c = CHR ''/'' then [] # split_slash s
      else case split_slash s of [] \<Rightarrow> [[c]] | w # ws \<Rightarrow> (c # w) # ws)"

fun join_slash :: "string list \<Rightarrow> string" where
  "join_slash [] = []"
| "join_slash [w] = w"
| "join_slash (w # v # ws) = w @ ''/'' @ join_slash (v # ws)"

definition clean_step :: "bool \<Rightarrow> string list \<Rightarrow> string \<Rightarrow> string list" where
  "clean_step rooted out w =
     (if w = [] \<or> w = ''.'' then out
      else if w = ''..''
      then (if out \<noteq> [] \<and> last out \<noteq> ''..'' then butlast out else if rooted then out else out @ [''..''])
      else out @ [w])"

definition path_Clean :: "string \<Rightarrow> string" where
  "path_Clean p =
     (let rooted = (p \<noteq> [] \<and> hd p = CHR ''/'');
          s = (if rooted then ''/'' else []) @ join_slash (foldl (clean_step rooted) [] (split_slash p))
      in if s = [] then ''.'' else s)"

definition path_Join :: "string list \<Rightarrow> string" where
  "path_Join elems =
     (case dropWhile (\<lambda>e. e = []) elems of [] \<Rightarrow> [] | es \<Rightarrow> path_Clean (join_slash es))"

section \<open>The home directory\<close>

record go_env =
  envHome :: "string result"
  envVar :: "string \<Rightarrow> string"

definition expandHome :: "go_env \<Rightarrow> string \<Rightarrow> string result" where
  "expandHome env path =
     (if path \<noteq> ''~'' \<and> take 2 path \<noteq> ''~/'' then Inr path
      else case envHome env of
             Inl e \<Rightarrow> Inl (wrap (''expand '' @ path) e)
           | Inr home \<Rightarrow> if path = ''~'' then Inr home else Inr (path_Join [home, drop 2 path]))"

text \<open>\<open>expandHomeInto\<close> leaves the variable alone if it fails.\<close>

definition expandHomeInto :: "go_env \<Rightarrow> string \<Rightarrow> error option \<times> string" where
  "expandHomeInto env path =
     (case expandHome env path of Inl e \<Rightarrow> (Some e, path) | Inr expanded \<Rightarrow> (None, expanded))"

definition defaultConfigDir :: "go_env \<Rightarrow> string result" where
  "defaultConfigDir env =
     (case envHome env of Inl e \<Rightarrow> Inl e | Inr home \<Rightarrow> Inr (path_Join [home, ''.ggrok'']))"

section \<open>Connection settings\<close>

record 'ip node_conn_config =
  ncServer :: "'ip hostPort"
  ncCertFile :: string
  ncKeyFile :: string
  ncCAFile :: string

record node_file_config =
  nfServer :: string
  nfCertFile :: string
  nfKeyFile :: string
  nfCAFile :: string

definition loadNodeFileConfig ::
  "(string \<Rightarrow> byte list result) \<Rightarrow> (byte list \<Rightarrow> node_file_config result) \<Rightarrow> string \<Rightarrow> node_file_config result" where
  "loadNodeFileConfig readf unmarshal configDir =
     (let path = path_Join [configDir, ''config.json'']
      in case readf path of
           Inl e \<Rightarrow>
             if errors_is e ErrNotExist
             then Inr \<lparr>nfServer = [], nfCertFile = [], nfKeyFile = [], nfCAFile = []\<rparr>
             else Inl (wrap (''reading '' @ path) e)
         | Inr bytes \<Rightarrow> on_error (wrap (''parsing '' @ path)) (unmarshal bytes))"

fun firstNonEmpty :: "string list \<Rightarrow> string" where
  "firstNonEmpty [] = []"
| "firstNonEmpty (v # vals) = (if v \<noteq> [] then v else firstNonEmpty vals)"

text \<open>The values of the four flags that were given on the command line.\<close>

record conn_flags =
  cfServer :: "string option"
  cfCertFile :: "string option"
  cfKeyFile :: "string option"
  cfCAFile :: "string option"

definition conn_setting :: "go_env \<Rightarrow> string option \<Rightarrow> string \<Rightarrow> string \<Rightarrow> string \<Rightarrow> string" where
  "conn_setting env flag var file fallback =
     (case flag of Some v \<Rightarrow> v | None \<Rightarrow> firstNonEmpty [envVar env var, file, fallback])"

text \<open>The function \<open>registerConnFlags\<close> returns, which runs once the flags are parsed.\<close>

definition finishConn ::
  "'ip netip \<Rightarrow> go_env \<Rightarrow> (string \<Rightarrow> byte list result) \<Rightarrow> (byte list \<Rightarrow> node_file_config result) \<Rightarrow>
   conn_flags \<Rightarrow> 'ip node_conn_config result" where
  "finishConn np env readf unmarshal flags =
     (case defaultConfigDir env of
        Inl e \<Rightarrow> Inl e
      | Inr configDir \<Rightarrow>
          (case loadNodeFileConfig readf unmarshal configDir of
             Inl e \<Rightarrow> Inl e
           | Inr fileCfg \<Rightarrow>
               (let server = conn_setting env (cfServer flags) ''GGROK_SERVER'' (nfServer fileCfg) [];
                    cert = conn_setting env (cfCertFile flags) ''GGROK_CERT_FILE'' (nfCertFile fileCfg)
                      (path_Join [configDir, ''cert.pem'']);
                    key = conn_setting env (cfKeyFile flags) ''GGROK_KEY_FILE'' (nfKeyFile fileCfg)
                      (path_Join [configDir, ''key.pem'']);
                    ca = conn_setting env (cfCAFile flags) ''GGROK_CA_FILE'' (nfCAFile fileCfg)
                      (path_Join [configDir, ''ca.pem''])
                in case expandHome env cert of
                     Inl e \<Rightarrow> Inl e
                   | Inr cert1 \<Rightarrow>
                       (case expandHome env key of
                          Inl e \<Rightarrow> Inl e
                        | Inr key1 \<Rightarrow>
                            (case expandHome env ca of
                               Inl e \<Rightarrow> Inl e
                             | Inr ca1 \<Rightarrow>
                                 if server = []
                                 then Inl (Msg (''--server is required (flag, GGROK_SERVER, or '' @
                                        path_Join [configDir, ''config.json''] @ '')''))
                                 else (case hp_Parse np server of
                                         Inl e \<Rightarrow> Inl (wrap ''invalid server'' e)
                                       | Inr pair \<Rightarrow>
                                           Inr \<lparr>ncServer = pair, ncCertFile = cert1, ncKeyFile = key1,
                                                ncCAFile = ca1\<rparr>))))))"

section \<open>What a setting is\<close>

lemma firstNonEmpty_Nil: "firstNonEmpty vals = [] \<longleftrightarrow> (\<forall>v \<in> set vals. v = [])"
  by (induction vals) auto

lemma firstNonEmpty_first: "v \<noteq> [] \<Longrightarrow> \<forall>u \<in> set us. u = [] \<Longrightarrow> firstNonEmpty (us @ v # vs) = v"
  by (induction us) auto

text \<open>
  The order of precedence: a flag that was given, even an empty one; then the environment; then
  \<open>config.json\<close>; then the default.
\<close>

definition takes_precedence :: "go_env \<Rightarrow> string option \<Rightarrow> string \<Rightarrow> string \<Rightarrow> string \<Rightarrow> string \<Rightarrow> bool" where
  "takes_precedence env flag var file fallback v \<longleftrightarrow>
     flag = Some v \<or>
     flag = None \<and> (envVar env var \<noteq> [] \<and> v = envVar env var \<or>
       envVar env var = [] \<and> (file \<noteq> [] \<and> v = file \<or> file = [] \<and> v = fallback))"

lemma conn_setting_precedence: "takes_precedence env flag var file fallback (conn_setting env flag var file fallback)"
  by (auto simp: takes_precedence_def conn_setting_def split: option.split)

lemma finishConn_Inr:
  assumes "finishConn np env readf unmarshal flags = Inr cfg"
  obtains home fileCfg server cert key ca where "envHome env = Inr home"
    and "loadNodeFileConfig readf unmarshal (path_Join [home, ''.ggrok'']) = Inr fileCfg"
    and "takes_precedence env (cfServer flags) ''GGROK_SERVER'' (nfServer fileCfg) [] server"
    and "server \<noteq> []" and "hp_Parse np server = Inr (ncServer cfg)"
    and "takes_precedence env (cfCertFile flags) ''GGROK_CERT_FILE'' (nfCertFile fileCfg)
          (path_Join [path_Join [home, ''.ggrok''], ''cert.pem'']) cert" and "expandHome env cert = Inr (ncCertFile cfg)"
    and "takes_precedence env (cfKeyFile flags) ''GGROK_KEY_FILE'' (nfKeyFile fileCfg)
          (path_Join [path_Join [home, ''.ggrok''], ''key.pem'']) key" and "expandHome env key = Inr (ncKeyFile cfg)"
    and "takes_precedence env (cfCAFile flags) ''GGROK_CA_FILE'' (nfCAFile fileCfg)
          (path_Join [path_Join [home, ''.ggrok''], ''ca.pem'']) ca" and "expandHome env ca = Inr (ncCAFile cfg)"
proof -
  obtain home where h: "envHome env = Inr home"
    using assms by (auto simp: finishConn_def defaultConfigDir_def split: sum.splits)
  then have d: "defaultConfigDir env = Inr (path_Join [home, ''.ggrok''])" by (simp add: defaultConfigDir_def)
  obtain f where f: "loadNodeFileConfig readf unmarshal (path_Join [home, ''.ggrok'']) = Inr f"
    using assms d by (auto simp: finishConn_def split: sum.splits)
  show thesis
    using assms
    by (intro that [OF h f conn_setting_precedence _ _ conn_setting_precedence _ conn_setting_precedence _ conn_setting_precedence])
      (auto simp: finishConn_def d f Let_def split: sum.splits if_split_asm)
qed

end
