(* ===== verification/Cli_Admin.thy ===== *)
theory Cli_Admin
  imports Relay_Admin Revocation Cli_Config Cli_Output "HOL-Library.List_Lexorder" "HOL-Library.Char_ord"
begin

text \<open>
  The operator's client (\<^verbatim>\<open>cmd/ggrok/admin.go\<close>): the handshake, one request and its answer, and how
  a snapshot prints. \<open>json.Unmarshal\<close> for the answers, the dialer's outcome, and what prints a
  duration, a rate or lays out columns are arguments. Deadlines and cancellation show as failing
  reads and writes. Points in time are relay's clock readings in nanoseconds; the zero time is 0.
\<close>

section \<open>One exchange\<close>

record client_json =
  cjWire :: json
  jsonUnmarshalAck :: "byte list \<Rightarrow> admin_ack_payload \<Rightarrow> admin_ack_payload result"
  jsonUnmarshalResult :: "byte list \<Rightarrow> admin_result_payload \<Rightarrow> admin_result_payload result"
  jsonUnmarshalSnapshot :: "byte list \<Rightarrow> snapshot \<Rightarrow> snapshot result"

definition zero_ack :: admin_ack_payload where "zero_ack = \<lparr>aaOK = False, aaErr = [], aaVersion = 0\<rparr>"
definition zero_result :: admin_result_payload where "zero_result = \<lparr>arOK = False, arDetail = [], arAffected = 0\<rparr>"
definition zero_snapshot :: snapshot where "zero_snapshot = \<lparr>snNow = 0, snSessions = []\<rparr>"

definition adminHandshake :: "client_json \<Rightarrow> 'a conn_scheme \<Rightarrow> error option \<times> 'a conn_scheme" where
  "adminHandshake cj c =
     (case WriteAdminHello (cjWire cj) \<lparr>ahVersion = AdminVersion\<rparr> c of
        (Inl e, c1) \<Rightarrow> (Some e, c1)
      | (Inr _, c1) \<Rightarrow>
          (case ReadAdminFrame c1 of
             (Inl e, c2) \<Rightarrow>
               (Some (wrap ''relay did not answer the admin handshake (is it running with -admin?)'' e), c2)
           | (Inr (typ, body), c2) \<Rightarrow>
               if typ \<noteq> AdminAck
               then (Some (Msg (''relay answered the admin handshake with '' @ adminType_String typ)), c2)
               else case DecodeAdminPayload (jsonUnmarshalAck cj) body zero_ack of
                      Inl e \<Rightarrow> (Some e, c2)
                    | Inr ans \<Rightarrow>
                        (if \<not> aaOK ans then Some (Msg (''relay refused this client: '' @ aaErr ans)) else None, c2)))"

text \<open>\<open>dialAdmin\<close>: the connection after a successful handshake; a failed one closes it.\<close>

definition dialAdmin ::
  "'ip netip \<Rightarrow> client_json \<Rightarrow> ('kp, 'pool) tls_env \<Rightarrow> 'ip node_conn_config \<Rightarrow> 'a conn_scheme result \<Rightarrow>
   'a conn_scheme result \<times> 'a conn_scheme option" where
  "dialAdmin np cj env cfg dialed =
     (case LoadConfig env (ncCertFile cfg) (ncKeyFile cfg) (ncCAFile cfg) False False of
        Inl e \<Rightarrow> (Inl e, None)
      | Inr _ \<Rightarrow>
          (case dialed of
             Inl e \<Rightarrow> (Inl (wrap (''connect to relay '' @ hostPort_String np (ncServer cfg)) e), None)
           | Inr c \<Rightarrow>
               (case adminHandshake cj c of
                  (Some e, c1) \<Rightarrow> (Inl e, Some (conn_close c1))
                | (None, c1) \<Rightarrow> (Inr c1, Some c1))))"

definition requestAdmin ::
  "client_json \<Rightarrow> (byte list \<Rightarrow> 'p \<Rightarrow> 'p result) \<Rightarrow> 'p \<Rightarrow> admin_type \<Rightarrow> admin_type \<Rightarrow> admin_payload option \<Rightarrow>
   'a conn_scheme \<Rightarrow> 'p result \<times> 'a conn_scheme" where
  "requestAdmin cj unmarshal zero typ expected payload c =
     (case WriteAdminFrame (cjWire cj) typ payload c of
        (Inl e, c1) \<Rightarrow> (Inl e, c1)
      | (Inr _, c1) \<Rightarrow>
          (case ReadAdminFrame c1 of
             (Inl e, c2) \<Rightarrow> (Inl e, c2)
           | (Inr (got, body), c2) \<Rightarrow>
               if got \<noteq> expected
               then (Inl (Msg (''relay answered a '' @ adminType_String typ @ '' with '' @ adminType_String got)), c2)
               else (DecodeAdminPayload unmarshal body zero, c2)))"

definition requestMutation ::
  "client_json \<Rightarrow> admin_type \<Rightarrow> admin_payload option \<Rightarrow> 'a conn_scheme \<Rightarrow> admin_result_payload result \<times> 'a conn_scheme" where
  "requestMutation cj typ payload c = requestAdmin cj (jsonUnmarshalResult cj) zero_result typ AdminResult payload c"

definition requestSnapshot :: "client_json \<Rightarrow> 'a conn_scheme \<Rightarrow> snapshot result \<times> 'a conn_scheme" where
  "requestSnapshot cj c = requestAdmin cj (jsonUnmarshalSnapshot cj) zero_snapshot AdminList AdminSnapshot None c"

section \<open>Printing a snapshot\<close>

record print_env =
  peIsPrint :: "nat \<Rightarrow> bool"
  peDuration :: "int \<Rightarrow> string"
  peRate :: "int \<Rightarrow> int \<Rightarrow> string"
  peLayout :: "string \<Rightarrow> string result"

definition dash :: "print_env \<Rightarrow> string \<Rightarrow> string" where
  "dash pe s = (if s = [] then ''-'' else terminalText (peIsPrint pe) s)"

definition second :: int where "second = 1000000000"

text \<open>\<open>Duration.Round(time.Second)\<close> of a duration that is not negative: a half rounds up.\<close>

definition round_second :: "int \<Rightarrow> int" where
  "round_second d = (let r = d mod second in if r + r < second then d - r else d + second - r)"

definition roundedSince :: "print_env \<Rightarrow> nat \<Rightarrow> nat \<Rightarrow> string" where
  "roundedSince pe now t =
     (if t = 0 then ''-'' else peDuration pe (round_second (max (int now - int t) 0)))"

definition bitsPerByte :: int where "bitsPerByte = 8"
definition bitsPerMegabit :: int where "bitsPerMegabit = 1000000"

text \<open>\<open>peRate\<close> is the formatting of the floating-point quotient, given bits and nanoseconds.\<close>

definition megabitsPerSecond :: "print_env \<Rightarrow> int \<Rightarrow> nat \<Rightarrow> nat \<Rightarrow> string" where
  "megabitsPerSecond pe byteCount now started =
     (if byteCount \<le> 0 \<or> int now - int started \<le> 0 then ''0.000''
      else peRate pe (byteCount * bitsPerByte) ((int now - int started) * bitsPerMegabit))"

text \<open>\<open>%d\<close> of a signed number.\<close>

definition show_int :: "int \<Rightarrow> string" where
  "show_int i = (if i < 0 then ''-'' @ show_nat (nat (- i)) else show_nat (nat i))"

definition cells :: "string list \<Rightarrow> string" where
  "cells cs = ''  '' @ join_with [CHR 0x09] cs @ [CHR 0x0A]"

definition peer_row :: "print_env \<Rightarrow> nat \<Rightarrow> string \<Rightarrow> peer_summary \<Rightarrow> string" where
  "peer_row pe now role ps =
     cells [role, dash pe (psCN ps), dash pe (psSerial ps), dash pe (psAddr ps), roundedSince pe now (psSince ps)]"

definition stream_row :: "print_env \<Rightarrow> nat \<Rightarrow> stream_summary \<Rightarrow> string" where
  "stream_row pe now st =
     cells [show_nat (unat (ssReqID st)), show_nat (unat (ssPort st)), roundedSince pe now (ssStarted st),
       show_int (ssBytesToSub st), megabitsPerSecond pe (ssBytesToSub st) now (ssStarted st),
       show_int (ssBytesToPub st), megabitsPerSecond pe (ssBytesToPub st) now (ssStarted st)]"

definition pending_row :: "print_env \<Rightarrow> nat \<Rightarrow> pending_summary \<Rightarrow> string" where
  "pending_row pe now pd =
     cells [show_nat (unat (pdReqID pd)), show_nat (unat (pdPort pd)), roundedSince pe now (pdSince pd),
       ''pending'', ''pending'', ''pending'', ''pending'']"

definition add_rows :: "(string \<Rightarrow> string) option \<Rightarrow> ('r \<Rightarrow> string) \<Rightarrow> 'r list \<Rightarrow> out_table \<Rightarrow> out_table" where
  "add_rows style row rs t = fold (\<lambda>r. rowf style (row r)) rs t"

definition peers_table :: "print_env \<Rightarrow> palette \<Rightarrow> nat \<Rightarrow> session_summary \<Rightarrow> out_table" where
  "peers_table pe p now sess =
     add_rows None (peer_row pe now ''subscriber'') (smSubscribers sess)
       (rowf None (peer_row pe now ''publisher'' (smPublisher sess))
         (rowf (Some (bold p)) (cells [''ROLE'', ''COMMON NAME'', ''SERIAL'', ''ADDRESS'', ''UP'']) newTable))"

text \<open>\<open>sort.Slice\<close> may leave entries with equal keys in any order; here they keep theirs.\<close>

definition streams_table :: "print_env \<Rightarrow> palette \<Rightarrow> nat \<Rightarrow> session_summary \<Rightarrow> out_table" where
  "streams_table pe p now sess =
     add_rows (Some (yellow p)) (pending_row pe now) (smPending sess)
       (add_rows None (stream_row pe now) (sort_key ssReqID (smStreams sess))
         (rowf (Some (bold p))
           (cells [''STREAM'', ''PORT'', ''AGE'', ''TO SUBSCRIBER'', ''Mb/s'', ''TO PUBLISHER'', ''Mb/s'']) newTable))"

definition printStreams :: "print_env \<Rightarrow> palette \<Rightarrow> nat \<Rightarrow> session_summary \<Rightarrow> string" where
  "printStreams pe p now sess =
     (if smStreams sess = [] \<and> smPending sess = [] then dim p ''  (no streams)'' @ [CHR 0x0A]
      else case table_flush (peLayout pe) (streams_table pe p now sess) of Inl e \<Rightarrow> [] | Inr out \<Rightarrow> out)"

definition session_head :: "print_env \<Rightarrow> palette \<Rightarrow> nat \<Rightarrow> session_summary \<Rightarrow> string" where
  "session_head pe p now sess =
     dim p ''session'' @ '' '' @ highlight p (terminalText (peIsPrint pe) (smTag sess)) @ ''  '' @
       terminalText (peIsPrint pe) (smMode sess) @ ''  '' @ show_nat (unat (smPorts sess)) @ '' port(s)  up '' @
       roundedSince pe now (smSince sess) @ [CHR 0x0A]"

fun print_sessions :: "print_env \<Rightarrow> palette \<Rightarrow> nat \<Rightarrow> bool \<Rightarrow> session_summary list \<Rightarrow> error option \<times> string" where
  "print_sessions pe p now first [] = (None, [])"
| "print_sessions pe p now first (sess # rest) =
     (let top = (if first then [] else [CHR 0x0A]) @ session_head pe p now sess
      in case table_flush (peLayout pe) (peers_table pe p now sess) of
           Inl e \<Rightarrow> (Some e, top)
         | Inr block \<Rightarrow>
             (case print_sessions pe p now False rest of
                (err, out) \<Rightarrow> (err, top @ block @ printStreams pe p now sess @ out)))"

definition printSnapshot :: "print_env \<Rightarrow> palette \<Rightarrow> snapshot \<Rightarrow> error option \<times> string" where
  "printSnapshot pe p sn =
     (if snSessions sn = [] then (None, dim p ''no active sessions'' @ [CHR 0x0A])
      else print_sessions pe p (snNow sn) True (sort_key smTag (snSessions sn)))"

section \<open>The commands\<close>

text \<open>The error, standard output, and the connection when there was one.\<close>

definition runAdminMutation ::
  "'ip netip \<Rightarrow> client_json \<Rightarrow> ('kp, 'pool) tls_env \<Rightarrow> print_env \<Rightarrow> palette \<Rightarrow> 'ip node_conn_config \<Rightarrow> 'a conn_scheme result \<Rightarrow>
   admin_type \<Rightarrow> admin_payload option \<Rightarrow> error option \<times> string \<times> 'a conn_scheme option" where
  "runAdminMutation np cj env pe p cfg dialed typ payload =
     (case dialAdmin np cj env cfg dialed of
        (Inl e, k) \<Rightarrow> (Some e, [], k)
      | (Inr c, _) \<Rightarrow>
          (case requestMutation cj typ payload c of
             (Inl e, c1) \<Rightarrow> (Some e, [], Some (conn_close c1))
           | (Inr res, c1) \<Rightarrow>
               if \<not> arOK res then (Some (Msg (''relay refused: '' @ arDetail res)), [], Some (conn_close c1))
               else (None, green p (terminalText (peIsPrint pe) (arDetail res)) @ [CHR 0x0A], Some (conn_close c1))))"

definition runAdminList ::
  "'ip netip \<Rightarrow> client_json \<Rightarrow> ('kp, 'pool) tls_env \<Rightarrow> print_env \<Rightarrow> palette \<Rightarrow> 'ip node_conn_config \<Rightarrow> 'a conn_scheme result \<Rightarrow>
   error option \<times> string \<times> 'a conn_scheme option" where
  "runAdminList np cj env pe p cfg dialed =
     (case dialAdmin np cj env cfg dialed of
        (Inl e, k) \<Rightarrow> (Some e, [], k)
      | (Inr c, _) \<Rightarrow>
          (case requestSnapshot cj c of
             (Inl e, c1) \<Rightarrow> (Some e, [], Some (conn_close c1))
           | (Inr sn, c1) \<Rightarrow> (case printSnapshot pe p sn of (err, out) \<Rightarrow> (err, out, Some (conn_close c1)))))"

definition runAdminKill ::
  "'ip netip \<Rightarrow> client_json \<Rightarrow> ('kp, 'pool) tls_env \<Rightarrow> print_env \<Rightarrow> palette \<Rightarrow> 'ip node_conn_config \<Rightarrow> 'a conn_scheme result \<Rightarrow>
   string \<Rightarrow> error option \<times> string \<times> 'a conn_scheme option" where
  "runAdminKill np cj env pe p cfg dialed tag =
     (if tag = [] then (Some (Msg ''--session is required''), [], None)
      else runAdminMutation np cj env pe p cfg dialed AdminKill (Some (KillPayload \<lparr>akTag = tag\<rparr>)))"

definition runAdminReloadCRL ::
  "'ip netip \<Rightarrow> client_json \<Rightarrow> ('kp, 'pool) tls_env \<Rightarrow> print_env \<Rightarrow> palette \<Rightarrow> 'ip node_conn_config \<Rightarrow> 'a conn_scheme result \<Rightarrow>
   error option \<times> string \<times> 'a conn_scheme option" where
  "runAdminReloadCRL np cj env pe p cfg dialed = runAdminMutation np cj env pe p cfg dialed AdminReloadCRL None"

section \<open>Rows and cells\<close>

definition visible :: "char \<Rightarrow> bool" where
  "visible x \<longleftrightarrow> 32 \<le> (of_char x :: nat) \<and> (of_char x :: nat) \<noteq> 127"

definition cell_ok :: "string \<Rightarrow> bool" where
  "cell_ok c \<longleftrightarrow> (\<forall>x \<in> set c. visible x)"

text \<open>What is relied on of the standard library's number formatting: it prints no control characters.\<close>

definition print_env_ok :: "print_env \<Rightarrow> bool" where
  "print_env_ok pe \<longleftrightarrow> print_ok (peIsPrint pe) \<and> (\<forall>d. cell_ok (peDuration pe d)) \<and> (\<forall>b t. cell_ok (peRate pe b t))"

definition row_of :: "nat \<Rightarrow> string \<Rightarrow> bool" where
  "row_of n row \<longleftrightarrow> (\<exists>cs. length cs = n \<and> row = cells cs \<and> (\<forall>c \<in> set cs. cell_ok c))"

definition line_ok :: "nat \<Rightarrow> string \<Rightarrow> bool" where
  "line_ok n l \<longleftrightarrow> length (filter (\<lambda>x. x = CHR 0x09) l) + 1 = n \<and>
     (\<forall>x \<in> set l. x = CHR 0x09 \<or> visible x)"

lemma not_visible [simp]: "\<not> visible CHR 0x09" "\<not> visible CHR 0x0A" "visible CHR '' ''"
  by (simp_all add: visible_def)

lemma cell_ok_literals [simp]:
  "cell_ok ''-''" "cell_ok ''publisher''" "cell_ok ''subscriber''" "cell_ok ''pending''" "cell_ok ''0.000''"
  "cell_ok ''ROLE''" "cell_ok ''COMMON NAME''" "cell_ok ''SERIAL''" "cell_ok ''ADDRESS''" "cell_ok ''UP''"
  "cell_ok ''STREAM''" "cell_ok ''PORT''" "cell_ok ''AGE''" "cell_ok ''TO SUBSCRIBER''" "cell_ok ''Mb/s''" "cell_ok ''TO PUBLISHER''"
  by (simp_all add: cell_ok_def visible_def)

lemma cell_ok_show [simp]: "cell_ok (show_nat n)"
proof -
  have "48 \<le> (of_char c :: nat) \<and> (of_char c :: nat) \<le> 57" if "c \<in> set (show_nat n)" for c
    using show_nat_digits [OF that] by (auto simp: dec_digit_def Let_def split: if_split_asm)
  then show ?thesis by (fastforce simp: cell_ok_def visible_def)
qed

lemma cell_ok_show_int [simp]: "cell_ok (show_int i)"
proof -
  have "cell_ok (''-'' @ show_nat n)" for n using cell_ok_show [of n] by (auto simp: cell_ok_def visible_def)
  then show ?thesis by (simp add: show_int_def)
qed

lemma cell_ok_fields:
  assumes "print_env_ok pe"
  shows "cell_ok (dash pe s)" and "cell_ok (roundedSince pe now t)" and "cell_ok (megabitsPerSecond pe b now t)"
  using assms terminalText_no_control
  by (auto simp: dash_def roundedSince_def megabitsPerSecond_def print_env_ok_def) (auto simp: cell_ok_def visible_def)

lemma rows_ok:
  assumes "print_env_ok pe"
  shows "cell_ok role \<Longrightarrow> row_of 5 (peer_row pe now role ps)"
    and "row_of 7 (stream_row pe now st)" and "row_of 7 (pending_row pe now pd)"
  unfolding row_of_def peer_row_def stream_row_def pending_row_def
  by (rule exI, rule conjI [OF _ conjI [OF HOL.refl]], simp_all add: cell_ok_fields [OF assms])+

lemma cell_no_tab: "cell_ok w \<Longrightarrow> filter (\<lambda>x. x = CHR 0x09) w = []"
  unfolding filter_empty_conv
  by (auto simp: cell_ok_def)

lemma line_cell: "cell_ok w \<Longrightarrow> line_ok 1 w"
  using cell_no_tab [of w] unfolding line_ok_def cell_ok_def by simp

lemma line_more: "cell_ok w \<Longrightarrow> line_ok n l \<Longrightarrow> line_ok (Suc n) (w @ [CHR 0x09] @ l)"
  using cell_no_tab [of w] unfolding line_ok_def cell_ok_def by auto

lemma join_tabs:
  "cs \<noteq> [] \<Longrightarrow> \<forall>c \<in> set cs. cell_ok c \<Longrightarrow> line_ok (length cs) (join_with [CHR 0x09] cs)"
proof (induction "[CHR 0x09]" cs rule: join_with.induct)
  case (2 w)
  then show ?case using line_cell [of w] by simp
next
  case (3 w v ws)
  then show ?case using line_more [of w "length (v # ws)" "join_with [CHR 0x09] (v # ws)"] by simp
qed simp

lemma row_line: "0 < n \<Longrightarrow> row_of n row \<Longrightarrow> \<exists>l. row = l @ [CHR 0x0A] \<and> line_ok n l"
proof -
  assume "0 < n" "row_of n row"
  then obtain cs where cs: "length cs = n" "row = cells cs" "cs \<noteq> []" "\<forall>c \<in> set cs. cell_ok c" by (auto simp: row_of_def)
  have "line_ok n (''  '' @ join_with [CHR 0x09] cs)" using join_tabs [OF cs(3,4)] cs(1) by (simp add: line_ok_def)
  then show ?thesis using cs(2) by (intro exI [of _ "''  '' @ join_with [CHR 0x09] cs"]) (simp add: cells_def)
qed

lemma split_lines_line: "CHR 0x0A \<notin> set l \<Longrightarrow> split_lines (l @ CHR 0x0A # rest) = l # split_lines rest"
  by (induction l) auto

lemma line_no_break: "line_ok n l \<Longrightarrow> CHR 0x0A \<notin> set l"
proof
  assume "line_ok n l" and "CHR 0x0A \<in> set l"
  then have "CHR 0x0A = CHR 0x09 \<or> visible CHR 0x0A" unfolding line_ok_def by blast
  then show False by simp
qed

lemma split_rows:
  assumes "0 < n" and "\<forall>row \<in> set rows. row_of n row"
  shows "\<exists>ls. split_lines (concat rows) = ls @ [[]] \<and> length ls = length rows \<and> (\<forall>l \<in> set ls. line_ok n l)"
  using assms(2)
proof (induction rows)
  case (Cons row rows)
  have here: "row_of n row" and rest: "\<forall>row \<in> set rows. row_of n row" using Cons.prems by simp_all
  obtain l where l: "row = l @ [CHR 0x0A]" "line_ok n l" using row_line [OF assms(1) here] by blast
  obtain ls where ls: "split_lines (concat rows) = ls @ [[]]" "length ls = length rows" "\<forall>l \<in> set ls. line_ok n l"
    using Cons.IH [OF rest] by blast
  have "split_lines (concat (row # rows)) = l # split_lines (concat rows)"
    using split_lines_line [OF line_no_break [OF l(2)], of "concat rows"] by (simp only: concat.simps l(1) append_assoc append_Cons append_Nil)
  then have "split_lines (concat (row # rows)) = (l # ls) @ [[]]" by (simp only: ls(1) append_Cons)
  then show ?case using l(2) ls(2,3) by (intro exI [of _ "l # ls"]) simp
qed simp

lemma add_rows_text:
  "tbText (add_rows style row rs t) = tbText t @ concat (map row rs)"
  "length (tbStyles (add_rows style row rs t)) = length (tbStyles t) + length rs"
proof -
  have "tbText (add_rows style row rs t) = tbText t @ concat (map row rs) \<and>
      length (tbStyles (add_rows style row rs t)) = length (tbStyles t) + length rs"
    unfolding add_rows_def by (induction rs arbitrary: t) (simp_all add: rowf_def)
  then show "tbText (add_rows style row rs t) = tbText t @ concat (map row rs)"
    "length (tbStyles (add_rows style row rs t)) = length (tbStyles t) + length rs" by simp_all
qed

text \<open>
  C35: A relay cannot forge rows of an operator's table. Whatever names, serials, addresses and
  numbers a snapshot carries, the table of a session's peers has exactly a heading, a publisher
  row and one row per subscriber, of five cells each, that of its streams a heading and one row
  per stream and per waiting request, of seven; no cell holds a tab, a line break, an escape or
  any other control character; and there is a style for every row and for no other.
\<close>

theorem snapshot_rows_unforgeable:
  assumes "print_env_ok pe"
  shows "\<exists>peers streams. split_lines (tbText (peers_table pe p now sess)) = peers @ [[]] \<and>
      length peers = 2 + length (smSubscribers sess) \<and> (\<forall>l \<in> set peers. line_ok 5 l) \<and>
      length (tbStyles (peers_table pe p now sess)) = length peers \<and>
      split_lines (tbText (streams_table pe p now sess)) = streams @ [[]] \<and>
      length streams = 1 + length (smStreams sess) + length (smPending sess) \<and> (\<forall>l \<in> set streams. line_ok 7 l) \<and>
      length (tbStyles (streams_table pe p now sess)) = length streams"
proof -
  let ?peers = "cells [''ROLE'', ''COMMON NAME'', ''SERIAL'', ''ADDRESS'', ''UP''] #
    peer_row pe now ''publisher'' (smPublisher sess) # map (peer_row pe now ''subscriber'') (smSubscribers sess)"
  let ?head = "cells [''STREAM'', ''PORT'', ''AGE'', ''TO SUBSCRIBER'', ''Mb/s'', ''TO PUBLISHER'', ''Mb/s'']"
  let ?streams = "?head # map (stream_row pe now) (sort_key ssReqID (smStreams sess)) @ map (pending_row pe now) (smPending sess)"
  have heads: "row_of 5 (hd ?peers)" "row_of 7 ?head"
    unfolding row_of_def list.sel by (rule exI, rule conjI [OF _ conjI [OF HOL.refl]], simp_all)+
  have tx: "tbText (peers_table pe p now sess) = concat ?peers" "tbText (streams_table pe p now sess) = concat ?streams"
    by (simp_all add: peers_table_def streams_table_def add_rows_text rowf_def newTable_def)
  have len: "length (tbStyles (peers_table pe p now sess)) = 2 + length (smSubscribers sess)"
    "length (tbStyles (streams_table pe p now sess)) = 1 + length (smStreams sess) + length (smPending sess)"
    by (simp_all add: peers_table_def streams_table_def add_rows_text rowf_def newTable_def)
  have "\<forall>row \<in> set ?peers. row_of 5 row" "\<forall>row \<in> set ?streams. row_of 7 row"
    using heads rows_ok [OF assms] by auto
  with split_rows [of 5 ?peers] split_rows [of 7 ?streams] show ?thesis unfolding tx len by fastforce
qed

definition sample_print :: print_env where
  "sample_print = \<lparr>peIsPrint = (\<lambda>r. 32 \<le> r \<and> r \<noteq> 127), peDuration = (\<lambda>_. ''1s''), peRate = (\<lambda>_ _. ''0.001''), peLayout = Inr\<rparr>"

definition sample_peer :: "string \<Rightarrow> peer_summary" where
  "sample_peer cn = \<lparr>psCN = cn, psSerial = ''2a'', psAddr = [], psSince = 5\<rparr>"

definition sample_summary :: "string \<Rightarrow> string list \<Rightarrow> session_summary" where
  "sample_summary tag cns = \<lparr>smTag = tag, smMode = ''tcp'', smPorts = 1, smSince = 5, smPublisher = sample_peer ''p'',
     smSubscribers = map sample_peer cns, smStreams = [], smPending = []\<rparr>"

text \<open>A subscriber whose common name tries to end its row and start another.\<close>

lemma snapshot_rows_unforgeable_witness:
  "\<exists>peers. split_lines (tbText (peers_table sample_print False 9
      (sample_summary ''t'' [''x'' @ [CHR 0x0A] @ ''  publisher'' @ [CHR 0x09] @ ''root'']))) = peers @ [[]] \<and>
     length peers = 3 \<and> list_all (line_ok 5) peers"
proof -
  have "print_env_ok sample_print"
    by (auto simp: print_env_ok_def sample_print_def print_ok_def cell_ok_def visible_def)
  from snapshot_rows_unforgeable [OF this, of False 9 "sample_summary ''t'' [''x'' @ [CHR 0x0A] @ ''  publisher'' @ [CHR 0x09] @ ''root'']"]
  show ?thesis by (auto simp: sample_summary_def list_all_iff)
qed

text \<open>The same session with its streams listed in another order.\<close>

definition reordered :: "session_summary \<Rightarrow> session_summary \<Rightarrow> bool" where
  "reordered a b \<longleftrightarrow> mset (smStreams b) = mset (smStreams a) \<and> b = a\<lparr>smStreams := smStreams b\<rparr>"

lemma printStreams_reordered:
  assumes "reordered a b" and "distinct (map ssReqID (smStreams a))"
  shows "session_head pe p now b = session_head pe p now a \<and> peers_table pe p now b = peers_table pe p now a \<and>
    printStreams pe p now b = printStreams pe p now a"
proof -
  obtain sts where b: "b = a\<lparr>smStreams := sts\<rparr>" "mset sts = mset (smStreams a)"
    using assms(1) unfolding reordered_def by metis
  have "sort_key ssReqID sts = sort_key ssReqID (smStreams a)"
    using assms(2) b(2) mset_eq_setD [OF b(2)] by (intro sort_key_inj_key_eq) (simp_all add: distinct_map)
  moreover have "sts = [] \<longleftrightarrow> smStreams a = []" using b(2) by auto
  ultimately show ?thesis
    by (simp add: b(1) session_head_def peers_table_def printStreams_def streams_table_def)
qed

lemma reordered_tag: "reordered a b \<Longrightarrow> smTag b = smTag a"
proof -
  assume "reordered a b"
  then have "smTag b = smTag (a\<lparr>smStreams := smStreams b\<rparr>)" unfolding reordered_def by metis
  then show ?thesis by simp
qed

lemma reordered_sort:
  assumes "list_all2 reordered as bs"
  shows "list_all2 reordered (sort_key smTag as) (sort_key smTag bs)"
proof -
  have ins: "list_all2 reordered (insort_key smTag a xs) (insort_key smTag b ys)"
    if "list_all2 reordered xs ys" "reordered a b" for a b xs ys
    using that by (induction rule: list_all2_induct) (auto simp: reordered_tag)
  show ?thesis using assms by (induction rule: list_all2_induct) (simp_all add: ins)
qed

lemma print_reordered:
  assumes "list_all2 reordered as bs" and "\<forall>a \<in> set as. distinct (map ssReqID (smStreams a))"
  shows "print_sessions pe p now first bs = print_sessions pe p now first as"
  using assms
proof (induction arbitrary: first rule: list_all2_induct)
  case (Cons a as b bs)
  then have "distinct (map ssReqID (smStreams a))" "\<forall>a \<in> set as. distinct (map ssReqID (smStreams a))" by simp_all
  note e = printStreams_reordered [OF Cons.hyps(1) this(1), THEN conjunct1] printStreams_reordered [OF Cons.hyps(1) this(1), THEN conjunct2, THEN conjunct1]
    printStreams_reordered [OF Cons.hyps(1) this(1), THEN conjunct2, THEN conjunct2] and ih = Cons.IH [OF this(2)]
  show ?case unfolding print_sessions.simps e ih by (rule HOL.refl)
qed simp

text \<open>
  C36: What \<open>ggrok admin ls\<close> prints does not depend on the order in which relay lists its
  sessions, nor, within a session, its streams: any two snapshots of the same sessions, with
  distinct tags and request identifiers, print the same.
\<close>

theorem snapshot_print_order_free:
  assumes "list_all2 reordered (snSessions sn) ss" and "mset (snSessions sn') = mset ss" and "snNow sn' = snNow sn"
    and "distinct (map smTag (snSessions sn))" and "\<forall>sess \<in> set (snSessions sn). distinct (map ssReqID (smStreams sess))"
  shows "printSnapshot pe p sn' = printSnapshot pe p sn"
proof -
  have tags: "map smTag ss = map smTag (snSessions sn)"
    using assms(1) by (induction rule: list_all2_induct) (simp_all add: reordered_tag)
  then have "distinct (map smTag ss)" using assms(4) by simp
  then have "inj_on smTag (set (snSessions sn'))" using mset_eq_setD [OF assms(2)] by (simp add: distinct_map)
  then have sort: "sort_key smTag (snSessions sn') = sort_key smTag ss"
    by (intro sort_key_inj_key_eq) (simp_all add: assms(2))
  have nil: "snSessions sn' = [] \<longleftrightarrow> snSessions sn = []"
    using assms(1) arg_cong [OF assms(2), of size] list_all2_lengthD [OF assms(1)]
    by (simp flip: length_0_conv)
  have "\<forall>a \<in> set (sort_key smTag (snSessions sn)). distinct (map ssReqID (smStreams a))" using assms(5) by simp
  from print_reordered [OF reordered_sort [OF assms(1)] this] show ?thesis
    unfolding printSnapshot_def nil sort assms(3) by simp
qed

lemma snapshot_print_order_free_witness:
  "printSnapshot sample_print False \<lparr>snNow = 9, snSessions = [sample_summary ''b'' [''x''], sample_summary ''a'' []]\<rparr> =
   printSnapshot sample_print False \<lparr>snNow = 9, snSessions = [sample_summary ''a'' [], sample_summary ''b'' [''x'']]\<rparr>"
  by (rule snapshot_print_order_free [where ss = "[sample_summary ''a'' [], sample_summary ''b'' [''x'']]"])
    (simp_all add: reordered_def sample_summary_def add_mset_commute)

text \<open>
  Of the subscribers, which relay lists in the order of a Go map, the order shows: two listings
  of the same session can print differently.
\<close>

lemma subscriber_order_shows:
  "mset (smSubscribers (sample_summary ''t'' [''x'', ''y''])) = mset (smSubscribers (sample_summary ''t'' [''y'', ''x''])) \<and>
   printSnapshot sample_print False \<lparr>snNow = 9, snSessions = [sample_summary ''t'' [''x'', ''y'']]\<rparr> \<noteq>
   printSnapshot sample_print False \<lparr>snNow = 9, snSessions = [sample_summary ''t'' [''y'', ''x'']]\<rparr>"
proof -
  have q: "terminalText (\<lambda>r. 32 \<le> r \<and> r \<noteq> 127) ''x'' = ''x''" "terminalText (\<lambda>r. 32 \<le> r \<and> r \<noteq> 127) ''y'' = ''y''"
    "terminalText (\<lambda>r. 32 \<le> r \<and> r \<noteq> 127) ''p'' = ''p''" "terminalText (\<lambda>r. 32 \<le> r \<and> r \<noteq> 127) ''2a'' = ''2a''"
    by code_simp+
  show ?thesis
    by (simp add: printSnapshot_def sample_summary_def sample_peer_def sample_print_def session_head_def peers_table_def
        peer_row_def add_rows_def rowf_def newTable_def cells_def dash_def roundedSince_def table_flush_def trim_newline_def
        printStreams_def Let_def q add_mset_commute bold_def)
qed

end
