(* ===== verification/Operator.thy ===== *)
theory Operator
  imports Cli_Admin
begin

text \<open>
  The two ends of an admin connection together: what the client of \<^verbatim>\<open>cmd/ggrok/admin.go\<close> and the
  handler of \<^verbatim>\<open>internal/relay/admin.go\<close> make of each other's frames. What the text of an answer
  is in JSON is the client's parameter; its laws are \<open>answers_ok\<close>.
\<close>

section \<open>Frames that arrive\<close>

text \<open>A payload that marshals to a body within the limit; no JSON value is empty.\<close>

definition fits :: "json \<Rightarrow> admin_payload \<Rightarrow> byte list \<Rightarrow> bool" where
  "fits js p body \<longleftrightarrow> jsonMarshal js p = Inr body \<and> body \<noteq> [] \<and> length body \<le> maxAdminPayload"

text \<open>JSON gives back what was marshalled, as long as its strings are UTF-8.\<close>

definition answers_ok :: "client_json \<Rightarrow> bool" where
  "answers_ok cj \<longleftrightarrow>
     (\<forall>p body v. jsonMarshal (cjWire cj) (HelloPayload p) = Inr body \<longrightarrow> jsonUnmarshalHello (cjWire cj) body v = Inr p) \<and>
     (\<forall>p body v. utf8_text (akTag p) \<and> jsonMarshal (cjWire cj) (KillPayload p) = Inr body \<longrightarrow> jsonUnmarshalKill (cjWire cj) body v = Inr p) \<and>
     (\<forall>p body. utf8_text (aaErr p) \<and> jsonMarshal (cjWire cj) (AckPayload p) = Inr body \<longrightarrow> jsonUnmarshalAck cj body zero_ack = Inr p) \<and>
     (\<forall>p body. utf8_text (arDetail p) \<and> jsonMarshal (cjWire cj) (ResultPayload p) = Inr body \<longrightarrow> jsonUnmarshalResult cj body zero_result = Inr p)"

lemma write_fits:
  assumes "fits js p body" and "\<not> shut c" and "wscript c = []"
  shows "WriteAdminFrame js t (Some p) c = (Inr (), c\<lparr>outb := outb c @ encodeAdmin t body\<rparr>)"
  using assms by (simp add: WriteAdminFrame_def fits_def writeAdminFrame_ok admin_body_def)

lemma hello_fits:
  assumes "fits js (HelloPayload h) body" and "\<not> shut c" and "wscript c = []"
  shows "WriteAdminHello js h c = (Inr (), c\<lparr>outb := outb c @ ConnAdmin # encodeAdmin AdminHello body\<rparr>)"
  using assms by (simp add: WriteAdminHello_def fits_def writeAdminFrame_ok admin_body_def)

lemma read_fits:
  assumes "fits js p body" and "\<not> shut c" and "inb c = encodeAdmin t body @ rest"
  shows "ReadAdminFrame c = (Inr (t, body), c\<lparr>inb := rest\<rparr>)"
  using assms ReadAdminFrame_encode [of body c t rest] by (simp add: fits_def)

lemma decode_answers:
  assumes "answers_ok cj"
  shows "fits (cjWire cj) (HelloPayload h) body \<Longrightarrow> DecodeAdminPayload (jsonUnmarshalHello (cjWire cj)) body v = Inr h"
    and "utf8_text (akTag q) \<Longrightarrow> fits (cjWire cj) (KillPayload q) body \<Longrightarrow> DecodeAdminPayload (jsonUnmarshalKill (cjWire cj)) body u = Inr q"
    and "utf8_text (aaErr a) \<Longrightarrow> fits (cjWire cj) (AckPayload a) body \<Longrightarrow> DecodeAdminPayload (jsonUnmarshalAck cj) body zero_ack = Inr a"
    and "utf8_text (arDetail r) \<Longrightarrow> fits (cjWire cj) (ResultPayload r) body \<Longrightarrow> DecodeAdminPayload (jsonUnmarshalResult cj) body zero_result = Inr r"
  using assms by (simp_all add: DecodeAdminPayload_def fits_def answers_ok_def)

section \<open>The client\<close>

definition admin_hello :: admin_payload where "admin_hello = HelloPayload \<lparr>ahVersion = AdminVersion\<rparr>"

lemma adminHandshake_accepted:
  assumes "answers_ok cj" and "fits (cjWire cj) admin_hello hb"
    and "fits (cjWire cj) (AckPayload \<lparr>aaOK = True, aaErr = er, aaVersion = v\<rparr>) ab"
    and "\<not> shut c" and "wscript c = []" and "inb c = encodeAdmin AdminAck ab @ rest" and "utf8_text er"
  shows "adminHandshake cj c = (None, c\<lparr>outb := outb c @ ConnAdmin # encodeAdmin AdminHello hb, inb := rest\<rparr>)"
proof -
  let ?c = "c\<lparr>outb := outb c @ ConnAdmin # encodeAdmin AdminHello hb\<rparr>"
  have w: "WriteAdminHello (cjWire cj) \<lparr>ahVersion = AdminVersion\<rparr> c = (Inr (), ?c)"
    using hello_fits assms(2,4,5) by (simp add: admin_hello_def)
  have r: "ReadAdminFrame ?c = (Inr (AdminAck, ab), ?c\<lparr>inb := rest\<rparr>)"
    using read_fits [OF assms(3), of ?c AdminAck rest] assms(4,6) by simp
  show ?thesis by (simp add: adminHandshake_def w r decode_answers(3) [OF assms(1) _ assms(3)] assms(7))
qed

lemma requestMutation_answered:
  assumes "answers_ok cj" and "fits (cjWire cj) q qb" and "fits (cjWire cj) (ResultPayload res) rb"
    and "\<not> shut c" and "wscript c = []" and "inb c = encodeAdmin AdminResult rb @ rest" and "utf8_text (arDetail res)"
  shows "requestMutation cj t (Some q) c = (Inr res, c\<lparr>outb := outb c @ encodeAdmin t qb, inb := rest\<rparr>)"
proof -
  let ?c = "c\<lparr>outb := outb c @ encodeAdmin t qb\<rparr>"
  have r: "ReadAdminFrame ?c = (Inr (AdminResult, rb), ?c\<lparr>inb := rest\<rparr>)"
    using read_fits [OF assms(3), of ?c AdminResult rest] assms(4,6) by simp
  show ?thesis
    by (simp add: requestMutation_def requestAdmin_def write_fits [OF assms(2,4,5)] r decode_answers(4) [OF assms(1,7,3)])
qed

section \<open>Kill does not touch the operator's connection\<close>

definition session_conn :: "world \<Rightarrow> nat \<Rightarrow> bool" where
  "session_conn w k \<longleftrightarrow> (\<exists>(sid, ref) \<in> set (wSessions w). k = sPublisher (wSess w ref) \<or>
     k \<in> scControl ` set (gm_vals (sSubscribers (wSess w ref))) \<or> k \<in> prConn ` set (gm_vals (sPending (wSess w ref))))"

lemma notify_one_other: "k \<noteq> i \<Longrightarrow> wNet (notify_one i w) k = wNet w k"
  by (simp add: notify_one_def tls_close_net do_net_frame)

lemma fold_other: "(\<And>x w. key x \<noteq> k \<Longrightarrow> wNet (f x w) k = wNet w k) \<Longrightarrow> k \<notin> key ` set xs \<Longrightarrow> wNet (fold f xs w) k = wNet w k"
  by (induction xs arbitrary: w) auto

lemma session_shutdown_other:
  assumes "session_shutdown ref w = (n, w')" and "k \<notin> scControl ` set (gm_vals (sSubscribers (wSess w ref)))"
    and "k \<notin> prConn ` set (gm_vals (sPending (wSess w ref)))"
  shows "wNet w' k = wNet w k"
proof -
  obtain pending controls w1 where b: "on_sess ref beginShutdown w = ((pending, controls), w1)" by (metis prod.exhaust)
  have w1: "wNet w1 = wNet w" using on_sess_registry [OF b] by simp
  have "fst (beginShutdown (wSess w ref)) = (pending, controls)" using b by (auto simp: on_sess_def split: prod.splits)
  then have k: "k \<notin> id ` set controls" "k \<notin> prConn ` set (gm_vals pending)"
    using assms(2,3) by (auto simp: beginShutdown_def gm_vals_def image_iff split: if_split_asm)
  have "wNet (close_pending pending w1) k = wNet w1 k"
    unfolding close_pending_def by (rule fold_other [OF _ k(2)]) (simp add: tls_close_net)
  moreover have "wNet (notifySessionClosed controls (close_pending pending w1)) k = wNet (close_pending pending w1) k"
    unfolding notifySessionClosed_def by (rule fold_other [OF _ k(1)]) (simp add: notify_one_other)
  ultimately show ?thesis using assms(1) b w1 by (simp add: session_shutdown_def)
qed

lemma Kill_other:
  assumes "Kill tag w = (r, w')" and "\<not> session_conn w k"
  shows "wNet w' k = wNet w k"
proof -
  obtain p w1 where p: "kill_pick tag w = (p, w1)" by (metis prod.exhaust)
  have w1: "wNet w1 = wNet w" "wSess w1 = wSess w"
    using p by (auto simp: kill_pick_def split: prod.splits option.splits if_splits)
  show ?thesis
  proof (cases p)
    case (Inl e)
    with assms(1) p w1 show ?thesis by (auto simp: Kill_def)
  next
    case (Inr sr)
    obtain sid ref where sr: "sr = (sid, ref)" by (cases sr)
    have "(sid, ref) \<in> set (tagged tag w)" using kill_pick_Inr [OF p [unfolded Inr sr]] by simp
    then have "(sid, ref) \<in> set (wSessions w)" by (simp add: tagged_def)
    then have k: "k \<noteq> sPublisher (wSess w ref)" "k \<notin> scControl ` set (gm_vals (sSubscribers (wSess w ref)))"
      "k \<notin> prConn ` set (gm_vals (sPending (wSess w ref)))"
      using assms(2) by (auto simp: session_conn_def)
    let ?w2 = "tls_close (sPublisher (wSess w1 ref)) w1"
    obtain n w3 where s: "session_shutdown ref ?w2 = (n, w3)" by (metis prod.exhaust)
    have "w' = w3" using assms(1) p Inr sr s by (simp add: Kill_def)
    then show ?thesis
      using session_shutdown_other [OF s, of k] k w1 by (simp add: tls_close_net)
  qed
qed

text \<open>The answer of a kill and what it leaves of the registry depend on the registry only.\<close>

lemma Kill_cong:
  assumes "same_registry w v" and "wSess v = wSess w"
  shows "fst (Kill tag v) = fst (Kill tag w) \<and> same_registry (snd (Kill tag w)) (snd (Kill tag v)) \<and>
    wSess (snd (Kill tag v)) = wSess (snd (Kill tag w))"
proof -
  obtain p w1 where p: "kill_pick tag w = (p, w1)" by (metis prod.exhaust)
  obtain q v1 where q: "kill_pick tag v = (q, v1)" by (metis prod.exhaust)
  have pq: "q = p" "same_registry w1 v1" "wSess w1 = wSess w" "wSess v1 = wSess w"
    using p q assms by (auto simp: kill_pick_def same_registry_def split: prod.splits option.splits if_splits)
  show ?thesis
  proof (cases p)
    case (Inl e)
    with p q pq show ?thesis by (simp add: Kill_def)
  next
    case (Inr sr)
    obtain sid ref where sr: "sr = (sid, ref)" by (cases sr)
    obtain n w3 where w3: "session_shutdown ref (tls_close (sPublisher (wSess w1 ref)) w1) = (n, w3)"
      by (metis prod.exhaust)
    obtain m v3 where v3: "session_shutdown ref (tls_close (sPublisher (wSess v1 ref)) v1) = (m, v3)"
      by (metis prod.exhaust)
    note reg = session_shutdown_registry [OF w3] session_shutdown_registry [OF v3]
    have "same_registry w1 w3" "same_registry v1 v3"
      using reg by (blast intro: same_registry_trans [OF tls_close_registry(1)])+
    moreover have "wSess v3 = wSess w3" using reg pq(3,4) by simp
    moreover have "m = n" using session_shutdown_closes [OF w3] session_shutdown_closes [OF v3] pq(3,4) by simp
    ultimately show ?thesis using p q pq Inr sr w3 v3 by (simp add: Kill_def same_registry_def)
  qed
qed

section \<open>The handler\<close>

definition kill_answer :: "string \<Rightarrow> nat result \<Rightarrow> admin_result_payload" where
  "kill_answer tag r =
     (case r of
        Inl e \<Rightarrow> \<lparr>arOK = False, arDetail = error_text e, arAffected = 0\<rparr>
      | Inr n \<Rightarrow>
          \<lparr>arOK = True, arDetail = ''ended session '' @ tag @ '' and notified '' @ show_nat n @
             '' subscriber(s); it cannot re-register until this relay restarts'', arAffected = n\<rparr>)"

lemma show_nat_utf8: "utf8_text (show_nat n)"
proof (rule utf8_text_ascii)
  have "(of_char c :: nat) < 128" if "c \<in> set (show_nat n)" for c
    using show_nat_digits [OF that] by (auto simp: dec_digit_def Let_def split: if_split_asm)
  then show "list_all (\<lambda>c. of_char c < (128 :: nat)) (show_nat n)" by (simp add: list_all_iff)
qed

lemma sentinel_utf8: "utf8_text (sentinel_text e)"
  by (rule utf8_text_ascii, cases e) simp_all

lemma kill_answer_utf8:
  assumes "utf8_text tag"
  shows "utf8_text (arDetail (kill_answer tag (fst (Kill tag w))))"
proof -
  have ascii: "utf8_text '': ''" "utf8_text ''ended session ''" "utf8_text '' and notified ''"
    "utf8_text '' subscriber(s); it cannot re-register until this relay restarts''"
    by (rule utf8_text_ascii, simp)+
  show ?thesis
  proof (cases "fst (Kill tag w)")
    case (Inl e)
    then obtain t where "e = Wrap [] (Sentinel t) ('': '' @ tag)" by (auto simp: Kill_def split: prod.splits sum.splits)
    then have "arDetail (kill_answer tag (fst (Kill tag w))) = sentinel_text t @ '': '' @ tag" using Inl by (simp add: kill_answer_def)
    also have "utf8_text \<dots>" by (intro utf8_text_append sentinel_utf8 ascii assms)
    finally show ?thesis .
  next
    case (Inr n)
    then have "arDetail (kill_answer tag (fst (Kill tag w))) = ''ended session '' @ tag @ '' and notified '' @ show_nat n @
        '' subscriber(s); it cannot re-register until this relay restarts''" by (simp add: kill_answer_def)
    also have "utf8_text \<dots>" by (intro utf8_text_append show_nat_utf8 ascii assms)
    finally show ?thesis .
  qed
qed

lemma serveKill_answer:
  assumes "DecodeAdminPayload (jsonUnmarshalKill js) body \<lparr>akTag = []\<rparr> = Inr \<lparr>akTag = tag\<rparr>" and "tag \<noteq> []"
  shows "serveKill js k body w = reply js k (Some (ResultPayload (kill_answer tag (fst (Kill tag w))))) (snd (Kill tag w))"
  using assms by (auto simp: serveKill_def kill_answer_def refusal_def success_def split: prod.split sum.split)

text \<open>One connection of the relay, as a step on it alone.\<close>

definition put_net :: "nat \<Rightarrow> tls_conn \<Rightarrow> world \<Rightarrow> world" where "put_net k c w = w\<lparr>wNet := (wNet w)(k := c)\<rparr>"

lemma on_net_put: "f (wNet w k) = (r, c) \<Longrightarrow> on_net k f w = (r, put_net k c w)"
  by (simp add: on_net_def put_net_def)

lemma put_net_simps [simp]:
  "wNet (put_net k c w) i = (if i = k then c else wNet w i)" "same_registry w (put_net k c w)"
  "wSess (put_net k c w) = wSess w" "put_net k c (put_net k d w) = put_net k c w"
  by (simp_all add: put_net_def same_registry_def)

lemma serveAdmin_drained:
  assumes "inb (wNet w k) = []"
  shows "\<exists>c. serveAdmin srv files js k w = put_net k c w \<and> outb c = outb (wNet w k)"
proof -
  obtain r c where r: "ReadAdminFrame (wNet w k) = (r, c)" by (metis prod.exhaust)
  have "\<exists>e. r = Inl e" using r assms admin_frames.rd_sound [of "wNet w k" _ _ c] by (cases r) (auto simp: encodeAdmin_def)
  moreover have "outb c = outb (wNet w k)" using ReadAdminFrame_frame [OF r] by simp
  ultimately show ?thesis using on_net_put [of ReadAdminFrame w k, OF r] by (auto simp: serveAdmin.simps)
qed

lemma handleAdminConn_kill:
  assumes "answers_ok cj" and "fits (cjWire cj) admin_hello hb"
    and "fits (cjWire cj) (AckPayload \<lparr>aaOK = True, aaErr = [], aaVersion = AdminVersion\<rparr>) ab"
    and "fits (cjWire cj) (KillPayload \<lparr>akTag = tag\<rparr>) qb" and "tag \<noteq> []"
    and "fits (cjWire cj) (ResultPayload (kill_answer tag (fst (Kill tag w)))) rb"
    and "\<not> shut (wNet w k)" and "wscript (wNet w k) = []" and "\<not> session_conn w k"
    and "HasAdminEKU (case peerLeafCert (wNet w k) of Inl e \<Rightarrow> None | Inr ct \<Rightarrow> Some ct)"
    and "inb (wNet w k) = encodeAdmin AdminHello hb @ encodeAdmin AdminKill qb"
    and "handleAdminConn srv files (cjWire cj) k w = w'" and "utf8_text tag"
  shows "outb (wNet w' k) = outb (wNet w k) @ encodeAdmin AdminAck ab @ encodeAdmin AdminResult rb \<and> shut (wNet w' k) \<and>
    same_registry (snd (Kill tag w)) w' \<and> wSess w' = wSess (snd (Kill tag w))"
proof -
  let ?js = "cjWire cj" and ?c = "wNet w k" and ?q = "encodeAdmin AdminKill qb"
  let ?c1 = "?c\<lparr>inb := ?q\<rparr>" and ?c2 = "?c\<lparr>inb := ?q, outb := outb ?c @ encodeAdmin AdminAck ab\<rparr>"
  let ?c3 = "?c2\<lparr>inb := []\<rparr>" and ?c4 = "?c\<lparr>inb := [], outb := outb ?c @ encodeAdmin AdminAck ab @ encodeAdmin AdminResult rb\<rparr>"
  have cert: "peerLeafCert ?c1 = peerLeafCert ?c" by (simp add: more_peer [of ?c1 ?c])
  have r1: "on_net k ReadAdminFrame w = (Inr (AdminHello, hb), put_net k ?c1 w)"
    using read_fits [OF assms(2) assms(7) assms(11)] by (rule on_net_put)
  have hello: "DecodeAdminPayload (jsonUnmarshalHello ?js) hb \<lparr>ahVersion = 0\<rparr> = Inr \<lparr>ahVersion = AdminVersion\<rparr>"
    using decode_answers(1) [OF assms(1)] assms(2) by (simp add: admin_hello_def)
  have r2: "on_net k (WriteAdminFrame ?js AdminAck (ack True [])) (put_net k ?c1 w) = (Inr (), put_net k ?c2 w)"
    using write_fits [OF assms(3), of ?c1 AdminAck] assms(7,8)
      on_net_put [of "WriteAdminFrame ?js AdminAck (ack True [])" "put_net k ?c1 w" k "Inr ()" ?c2]
    by (simp add: ack_def)
  have r3: "on_net k ReadAdminFrame (put_net k ?c2 w) = (Inr (AdminKill, qb), put_net k ?c3 w)"
    using read_fits [OF assms(4), of ?c2 AdminKill "[]"] assms(7)
      on_net_put [of ReadAdminFrame "put_net k ?c2 w" k "Inr (AdminKill, qb)" ?c3] by simp
  have req: "DecodeAdminPayload (jsonUnmarshalKill ?js) qb \<lparr>akTag = []\<rparr> = Inr \<lparr>akTag = tag\<rparr>"
    by (rule decode_answers(2) [OF assms(1) _ assms(4)]) (simp add: assms(13))
  obtain res w3 where kill: "Kill tag (put_net k ?c3 w) = (res, w3)" by (metis prod.exhaust)
  have w3: "res = fst (Kill tag w)" "same_registry (snd (Kill tag w)) w3" "wSess w3 = wSess (snd (Kill tag w))"
    using Kill_cong [of w "put_net k ?c3 w" tag] kill by simp_all
  have "\<not> session_conn (put_net k ?c3 w) k" using assms(9) by (simp add: session_conn_def put_net_def)
  from Kill_other [OF kill this] have c3: "wNet w3 k = ?c3" by simp
  have r4: "serveKill ?js k qb (put_net k ?c3 w) = (Inr (), put_net k ?c4 w3)"
    using write_fits [OF assms(6), of ?c3 AdminResult] assms(7,8) c3 w3(1) kill
      on_net_put [of "WriteAdminFrame ?js AdminResult (Some (ResultPayload (kill_answer tag (fst (Kill tag w)))))" w3 k "Inr ()" ?c4]
    by (simp add: serveKill_answer [OF req assms(5)] reply_def)
  have ne: "AdminKill \<noteq> AdminList" "AdminKill \<noteq> AdminKick" by (simp_all add: go_consts)
  obtain c5 where c5: "serveAdmin srv files ?js k (put_net k ?c4 w3) = put_net k c5 (put_net k ?c4 w3)" "outb c5 = outb ?c4"
    using serveAdmin_drained [of "put_net k ?c4 w3" k srv files ?js] by auto
  have "serveAdmin srv files ?js k (put_net k ?c2 w) = put_net k c5 w3"
    unfolding put_net_simps(4) [of k c5 ?c4 w3, symmetric] c5(1) [symmetric]
    by (subst serveAdmin.simps)
      (simp only: r3 r4 ne serveAdminRequest_def prod.case sum.case fst_conv snd_conv if_False if_True simp_thms)
  then have w': "w' = tls_close k (put_net k c5 w3)"
    using assms(10,12) by (simp add: handleAdminConn_def r1 hello r2 cert)
  then show ?thesis
    using c5(2) w3(2,3) same_registry_trans [of "snd (Kill tag w)" w3]
      same_registry_trans [OF put_net_simps(2) tls_close_registry(1)]
    by (simp add: tls_close_net conn_close_def)
qed

section \<open>Properties\<close>

text \<open>What the client says when the handler answers the way it does.\<close>

lemma runAdminMutation_answered:
  assumes "answers_ok cj" and "fits (cjWire cj) admin_hello hb"
    and "fits (cjWire cj) (AckPayload \<lparr>aaOK = True, aaErr = er, aaVersion = v\<rparr>) ab"
    and "fits (cjWire cj) q qb" and "fits (cjWire cj) (ResultPayload res) rb"
    and "LoadConfig env (ncCertFile cfg) (ncKeyFile cfg) (ncCAFile cfg) False False = Inr tls"
    and "\<not> shut c" and "wscript c = []" and "inb c = encodeAdmin AdminAck ab @ encodeAdmin AdminResult rb"
    and "utf8_text er" and "utf8_text (arDetail res)"
  shows "\<exists>c'. runAdminMutation np cj env pe p cfg (Inr c) t (Some q) =
      (if arOK res then None else Some (Msg (''relay refused: '' @ arDetail res)),
       if arOK res then green p (terminalText (peIsPrint pe) (arDetail res)) @ [CHR 0x0A] else [], Some c') \<and>
    shut c' \<and> outb c' = outb c @ ConnAdmin # encodeAdmin AdminHello hb @ encodeAdmin t qb"
proof -
  let ?c1 = "c\<lparr>outb := outb c @ ConnAdmin # encodeAdmin AdminHello hb, inb := encodeAdmin AdminResult rb\<rparr>"
  have d: "dialAdmin np cj env cfg (Inr c) = (Inr ?c1, Some ?c1)"
    using adminHandshake_accepted [OF assms(1-3,7,8,9,10)] by (simp add: dialAdmin_def assms(6))
  let ?c2 = "?c1\<lparr>outb := outb ?c1 @ encodeAdmin t qb, inb := []\<rparr>"
  have r: "requestMutation cj t (Some q) ?c1 = (Inr res, ?c2)"
    using requestMutation_answered [OF assms(1,4,5), of ?c1 "[]" t] assms(7,8,11) by simp
  show ?thesis
    by (intro exI [of _ "conn_close ?c2"]) (simp add: runAdminMutation_def d r, simp add: conn_close_def)
qed

text \<open>
  C30: The operator is told what happened. Connect \<open>ggrok admin kill\<close> to the handler of a relay, each
  reading what the other writes, with a certificate that carries the admin role and a tag that is
  UTF-8 text. Then the
  relay's registry and sessions end up exactly as \<open>Kill\<close> of that tag leaves them, and the command
  reports that kill's outcome: it succeeds, naming the number of subscribers notified, if and
  only if a session was ended, and otherwise fails with relay's own reason. Both ends are closed.
\<close>

theorem operator_kill_faithful:
  assumes "answers_ok cj" and "fits (cjWire cj) admin_hello hb"
    and "fits (cjWire cj) (AckPayload \<lparr>aaOK = True, aaErr = [], aaVersion = AdminVersion\<rparr>) ab"
    and "fits (cjWire cj) (KillPayload \<lparr>akTag = tag\<rparr>) qb" and "tag \<noteq> []"
    and "fits (cjWire cj) (ResultPayload (kill_answer tag (fst (Kill tag w)))) rb"
    and "LoadConfig env (ncCertFile cfg) (ncKeyFile cfg) (ncCAFile cfg) False False = Inr tls"
    and "HasAdminEKU (case peerLeafCert (wNet w k) of Inl e \<Rightarrow> None | Inr ct \<Rightarrow> Some ct)" and "\<not> session_conn w k"
    and "\<not> shut (wNet w k)" and "wscript (wNet w k) = []" and "outb (wNet w k) = []"
    and "\<not> shut c" and "wscript c = []" and "outb c = []"
    and "inb c = outb (wNet w' k)" and "inb (wNet w k) = encodeAdmin AdminHello hb @ encodeAdmin AdminKill qb"
    and "handleAdminConn srv files (cjWire cj) k w = w'"
    and "runAdminKill np cj env pe p cfg (Inr c) tag = (err, out, Some c')" and "utf8_text tag"
  shows "outb c' = ConnAdmin # inb (wNet w k) \<and> same_registry (snd (Kill tag w)) w' \<and> wSess w' = wSess (snd (Kill tag w)) \<and>
    shut (wNet w' k) \<and> shut c' \<and>
    (case fst (Kill tag w) of
       Inl e \<Rightarrow> err = Some (Msg (''relay refused: '' @ error_text e)) \<and> out = []
     | Inr n \<Rightarrow> err = None \<and>
         out = green p (terminalText (peIsPrint pe) (''ended session '' @ tag @ '' and notified '' @ show_nat n @
           '' subscriber(s); it cannot re-register until this relay restarts'')) @ [CHR 0x0A])"
proof -
  note srv = handleAdminConn_kill [OF assms(1-6,10,11,9,8,17,18,20)]
  then have "inb c = encodeAdmin AdminAck ab @ encodeAdmin AdminResult rb" using assms(12,16) by simp
  from runAdminMutation_answered [OF assms(1-4,6,7,13,14) this _ kill_answer_utf8 [OF assms(20)], of np pe p AdminKill]
  show ?thesis using assms(5,15,17,19) srv utf8_text_ascii [of "[]"]
    by (auto simp: runAdminKill_def kill_answer_def split: sum.splits)
qed

text \<open>An encoding that can be read back, and a relay that an operator is connected to.\<close>

definition sample_client_json :: client_json where
  "sample_client_json =
     \<lparr>cjWire =
        \<lparr>jsonMarshal = (\<lambda>p. case p of
           HelloPayload h \<Rightarrow> if ahVersion h = 1 then Inr [1] else Inl (Fault 0)
         | KillPayload q \<Rightarrow> Inr (0 # map of_char (akTag q))
         | AckPayload a \<Rightarrow> if a = \<lparr>aaOK = True, aaErr = [], aaVersion = 1\<rparr> then Inr [2] else Inl (Fault 0)
         | ResultPayload r \<Rightarrow>
             if arAffected r < 256
             then Inr ((if arOK r then 1 else 0) # of_nat (arAffected r) # map of_char (arDetail r)) else Inl (Fault 0)
         | SnapshotPayload _ \<Rightarrow> Inl (Fault 0)),
         jsonUnmarshalHello = (\<lambda>_ _. Inr \<lparr>ahVersion = 1\<rparr>),
         jsonUnmarshalKill = (\<lambda>b _. Inr \<lparr>akTag = map (\<lambda>x. char_of (unat x)) (tl b)\<rparr>)\<rparr>,
      jsonUnmarshalAck = (\<lambda>_ _. Inr \<lparr>aaOK = True, aaErr = [], aaVersion = 1\<rparr>),
      jsonUnmarshalResult = (\<lambda>b _. Inr \<lparr>arOK = hd b = 1, arDetail = map (\<lambda>x. char_of (unat x)) (tl (tl b)), arAffected = unat (b ! 1)\<rparr>),
      jsonUnmarshalSnapshot = (\<lambda>_ v. Inr v)\<rparr>"

lemma char_of_byte [simp]: "char_of (unat (of_char c :: byte)) = c"
proof -
  have "unat (of_char c :: byte) = unat (of_nat (of_char c) :: byte)" by (simp only: of_nat_of_char)
  then show ?thesis by (simp add: unat_of_nat)
qed

lemma sample_answers: "answers_ok sample_client_json"
  by (auto simp: answers_ok_def sample_client_json_def comp_def unat_of_nat split: if_split_asm)

definition sample_operator :: world where
  "sample_operator = put_net 40
     ((sample_tls 4 (encodeAdmin AdminHello [1] @ encodeAdmin AdminKill (0 # map of_char (LogTag sample_sid))))
        \<lparr>peerCerts := [(sample_cert 4)\<lparr>cUnknownEKU := [AdminEKU]\<rparr>]\<rparr>) sample_relay"

lemma sample_operator_kill:
  "fst (Kill (LogTag sample_sid) sample_operator) = Inr 1 \<and>
   wSessions (snd (Kill (LogTag sample_sid) sample_operator)) = [] \<and>
   gm_has (wKilled (snd (Kill (LogTag sample_sid) sample_operator))) sample_sid"
proof -
  let ?w1 = "sample_relay\<lparr>wKilled := gm_set sample_sid () [], wSessions := []\<rparr>"
  have p: "kill_pick (LogTag sample_sid) sample_relay = (Inr (sample_sid, 0), ?w1)"
    by (simp add: kill_pick_cases sample_tagged) (simp add: sample_relay_def gm_del_def)
  obtain n w3 where s: "session_shutdown 0 (tls_close (sPublisher (wSess ?w1 0)) ?w1) = (n, w3)"
    by (metis prod.exhaust)
  have "n = 1" using session_shutdown_closes [OF s]
    by (simp add: sample_defs beginShutdown_def gm_vals_def)
  moreover have "same_registry ?w1 w3"
    using session_shutdown_registry [OF s] by (blast intro: same_registry_trans [OF tls_close_registry(1)])
  ultimately have "Kill (LogTag sample_sid) sample_relay = (Inr 1, w3) \<and> wSessions w3 = [] \<and> gm_has (wKilled w3) sample_sid"
    using p s by (simp add: Kill_def same_registry_def gomap_simps)
  moreover have "same_registry sample_relay sample_operator" "wSess sample_operator = wSess sample_relay"
    by (simp_all add: sample_operator_def)
  note Kill_cong [OF this, of "LogTag sample_sid"]
  ultimately show ?thesis by (simp add: same_registry_def)
qed

lemma operator_kill_faithful_witness:
  "\<exists>w' c'. handleAdminConn \<lparr>svAdmin = True, svRevokedFile = []\<rparr> (\<lambda>_. Inl (Fault 0)) (cjWire sample_client_json) 40 sample_operator = w' \<and>
     runAdminKill sample_netip sample_client_json
       \<lparr>loadX509KeyPair = \<lambda>_ _. Inr (), readFile = \<lambda>_. Inr [], certsFromPEM = \<lambda>_. Some ()\<rparr>
       \<lparr>peIsPrint = (\<lambda>_. True), peDuration = (\<lambda>_. []), peRate = (\<lambda>_ _. []), peLayout = Inr\<rparr> False
       \<lparr>ncServer = \<lparr>hpKind = KindName, hpIP = None, hpName = ''r'', hpPort = 9\<rparr>, ncCertFile = [], ncKeyFile = [], ncCAFile = []\<rparr>
       (Inr (new_conn (outb (wNet w' 40)))) (LogTag sample_sid) = (None, terminalText (\<lambda>_. True) (''ended session '' @ LogTag sample_sid @
         '' and notified 1 subscriber(s); it cannot re-register until this relay restarts'') @ [CHR 0x0A], Some c') \<and>
     shut c' \<and> wSessions w' = [] \<and> gm_has (wKilled w') sample_sid"
proof -
  let ?cj = sample_client_json and ?tag = "LogTag sample_sid"
  let ?env = "\<lparr>loadX509KeyPair = \<lambda>_ _. Inr (), readFile = \<lambda>_. Inr [], certsFromPEM = \<lambda>_. Some ()\<rparr> :: (unit, unit) tls_env"
  let ?pe = "\<lparr>peIsPrint = (\<lambda>_. True), peDuration = (\<lambda>_. []), peRate = (\<lambda>_ _. []), peLayout = Inr\<rparr>"
  let ?cfg = "\<lparr>ncServer = \<lparr>hpKind = KindName, hpIP = None, hpName = ''r'', hpPort = 9\<rparr>, ncCertFile = [], ncKeyFile = [], ncCAFile = []\<rparr> :: string node_conn_config"
  obtain w' where w': "handleAdminConn \<lparr>svAdmin = True, svRevokedFile = []\<rparr> (\<lambda>_. Inl (Fault 0)) (cjWire ?cj) 40 sample_operator = w'" by blast
  have tag: "?tag \<noteq> []" "length ?tag = 12" "show_nat (Suc 0) = ''1''" by code_simp+
  have f: "fits (cjWire ?cj) admin_hello [1]" "fits (cjWire ?cj) (AckPayload \<lparr>aaOK = True, aaErr = [], aaVersion = AdminVersion\<rparr>) [2]"
    "fits (cjWire ?cj) (KillPayload \<lparr>akTag = ?tag\<rparr>) (0 # map of_char ?tag)"
    by (simp_all add: fits_def sample_client_json_def admin_hello_def AdminVersion_def go_consts tag(2))
  have utf: "utf8_text ?tag" by (rule utf8_text_ascii) code_simp
  have utf0: "utf8_text []" by (rule utf8_text_ascii) simp
  obtain rb where rb: "fits (cjWire ?cj) (ResultPayload (kill_answer ?tag (fst (Kill ?tag sample_operator)))) rb"
    using sample_operator_kill by (simp add: fits_def sample_client_json_def kill_answer_def go_consts tag(2,3))
  obtain tls where tls: "LoadConfig ?env (ncCertFile ?cfg) (ncKeyFile ?cfg) (ncCAFile ?cfg) False False = Inr tls"
    by (simp add: LoadConfig_def Let_def)
  have k: "HasAdminEKU (case peerLeafCert (wNet sample_operator 40) of Inl e \<Rightarrow> None | Inr ct \<Rightarrow> Some ct)"
    "\<not> session_conn sample_operator 40" "\<not> shut (wNet sample_operator 40)" "wscript (wNet sample_operator 40) = []"
    "outb (wNet sample_operator 40) = []"
    "inb (wNet sample_operator 40) = encodeAdmin AdminHello [1] @ encodeAdmin AdminKill (0 # map of_char ?tag)"
    by (simp_all add: sample_operator_def sample_tls_def peerLeafCert_def HasAdminEKU_iff session_conn_def)
      (simp add: put_net_def sample_defs gm_vals_def sample_sub_def)
  let ?c = "new_conn (outb (wNet w' 40))"
  have c: "\<not> shut ?c" "wscript ?c = []" "outb ?c = []" "inb ?c = outb (wNet w' 40)" by (simp_all add: new_conn_def)
  note srv = handleAdminConn_kill [OF sample_answers f(1,2,3) tag(1) rb k(3,4,2,1,6) w' utf]
  have "inb ?c = encodeAdmin AdminAck [2] @ encodeAdmin AdminResult rb" using srv k(5) c(4) by simp
  from runAdminMutation_answered [OF sample_answers f rb tls c(1,2) this utf0 kill_answer_utf8 [OF utf], of sample_netip ?pe False AdminKill]
  obtain err out c' where r: "runAdminKill sample_netip ?cj ?env ?pe False ?cfg (Inr ?c) ?tag = (err, out, Some c')"
    using tag(1) by (auto simp: runAdminKill_def)
  from operator_kill_faithful [OF sample_answers f(1,2,3) tag(1) rb tls k(1-5) c k(6) w' r utf] sample_operator_kill r tag(3) w'
  show ?thesis by (auto simp: same_registry_def green_def)
qed

end
