(* ===== verification/CA_Dir.thy ===== *)
theory CA_Dir
  imports CRL
begin

text \<open>
  The CA's own bookkeeping (\<^verbatim>\<open>internal/ca/ca.go\<close>): a directory with the subdirectories
  \<open>issued\<close> and \<open>revoked\<close>, a PEM file per certificate. The file system is what the two
  subdirectories hold; each system call that can fail has its outcome in \<open>ca_os\<close>, and so has
  \<open>ParseCertificate\<close>, which only calls PEM and X.509 decoders. Paths matter to error texts
  only: a file is named by its subdirectory and its base name.
\<close>

section \<open>The two subdirectories\<close>

datatype subdir = IssuedDir | RevokedDir
datatype node = Directory | File "byte list"

type_synonym directory = "(string, node) gomap"

record ca_fs =
  fsPath :: string
  fsIssued :: "directory option"
  fsRevoked :: "directory option"

record ca_os =
  readDirErr :: "subdir \<Rightarrow> error option"
  readFileErr :: "subdir \<Rightarrow> string \<Rightarrow> error option"
  mkdirAllErr :: "subdir \<Rightarrow> error option"
  renameFileErr :: "string \<Rightarrow> error option"
  writeFileErr :: "string \<Rightarrow> (nat option \<times> error) option"
  parseCertificate :: "byte list \<Rightarrow> cert result"

definition issuedDirName :: string where "issuedDirName = ''issued''"
definition revokedDirName :: string where "revokedDirName = ''revoked''"

definition dir_of :: "subdir \<Rightarrow> ca_fs \<Rightarrow> directory option" where
  "dir_of d fs = (case d of IssuedDir \<Rightarrow> fsIssued fs | RevokedDir \<Rightarrow> fsRevoked fs)"

definition set_dir :: "subdir \<Rightarrow> directory \<Rightarrow> ca_fs \<Rightarrow> ca_fs" where
  "set_dir d m fs =
     (case d of IssuedDir \<Rightarrow> fs\<lparr>fsIssued := Some m\<rparr> | RevokedDir \<Rightarrow> fs\<lparr>fsRevoked := Some m\<rparr>)"

definition path_join :: "string \<Rightarrow> string \<Rightarrow> string" where
  "path_join a b = a @ ''/'' @ b"

definition dir_path :: "subdir \<Rightarrow> ca_fs \<Rightarrow> string" where
  "dir_path d fs =
     path_join (fsPath fs) (case d of IssuedDir \<Rightarrow> issuedDirName | RevokedDir \<Rightarrow> revokedDirName)"

text \<open>The node a name has in a subdirectory, if both exist.\<close>

definition node_at :: "subdir \<Rightarrow> ca_fs \<Rightarrow> string \<Rightarrow> node option" where
  "node_at d fs name = (case dir_of d fs of None \<Rightarrow> None | Some m \<Rightarrow> gm_get m name)"

definition fs_wf :: "ca_fs \<Rightarrow> bool" where
  "fs_wf fs \<longleftrightarrow> (\<forall>d m. dir_of d fs = Some m \<longrightarrow> gm_wf m)"

text \<open>The system calls: \<open>os.ReadDir\<close> lists by name, \<open>os.MkdirAll\<close> and \<open>os.Rename\<close>.\<close>

definition os_ReadDir :: "ca_os \<Rightarrow> subdir \<Rightarrow> ca_fs \<Rightarrow> (string \<times> node) list result" where
  "os_ReadDir os d fs =
     (case readDirErr os d of
        Some e \<Rightarrow> Inl e
      | None \<Rightarrow>
          (case dir_of d fs of
             None \<Rightarrow> Inl (Sentinel ErrNotExist)
           | Some m \<Rightarrow> Inr (map (\<lambda>k. (k, the (gm_get m k))) (sorted_keys m))))"

definition os_MkdirAll :: "ca_os \<Rightarrow> subdir \<Rightarrow> ca_fs \<Rightarrow> error option \<times> ca_fs" where
  "os_MkdirAll os d fs =
     (case mkdirAllErr os d of
        Some e \<Rightarrow> (Some e, fs)
      | None \<Rightarrow> (None, case dir_of d fs of None \<Rightarrow> set_dir d [] fs | Some _ \<Rightarrow> fs))"

text \<open>A rename from \<open>issued\<close> to the same name in \<open>revoked\<close>; a file there is replaced.\<close>

definition os_Rename :: "ca_os \<Rightarrow> string \<Rightarrow> ca_fs \<Rightarrow> error option \<times> ca_fs" where
  "os_Rename os name fs =
     (case renameFileErr os name of
        Some e \<Rightarrow> (Some e, fs)
      | None \<Rightarrow>
          (case (fsIssued fs, fsRevoked fs) of
             (Some iss, Some rvk) \<Rightarrow>
               (case gm_get iss name of
                  None \<Rightarrow> (Some (Sentinel ErrNotExist), fs)
                | Some nd \<Rightarrow>
                    if gm_get rvk name = Some Directory then (Some (Msg ''file exists''), fs)
                    else (None, fs\<lparr>fsIssued := Some (gm_del name iss),
                                   fsRevoked := Some (gm_set name nd rvk)\<rparr>))
           | _ \<Rightarrow> (Some (Sentinel ErrNotExist), fs)))"

section \<open>Reading\<close>

record listed_certificate =
  lcCert :: cert
  lcRevoked :: bool
  lcName :: string

fun read_entries ::
  "ca_os \<Rightarrow> subdir \<Rightarrow> string \<Rightarrow> (string \<times> node) list \<Rightarrow> listed_certificate list result" where
  "read_entries os d dir [] = Inr []"
| "read_entries os d dir ((name, Directory) # es) = read_entries os d dir es"
| "read_entries os d dir ((name, File pem) # es) =
     (case readFileErr os d name of
        Some e \<Rightarrow> Inl (wrap (''read '' @ path_join dir name) e)
      | None \<Rightarrow>
          (case parseCertificate os pem of
             Inl e \<Rightarrow> Inl (wrap (''parse '' @ path_join dir name) e)
           | Inr c \<Rightarrow>
               (case read_entries os d dir es of
                  Inl e \<Rightarrow> Inl e
                | Inr cs \<Rightarrow> Inr (\<lparr>lcCert = c, lcRevoked = False, lcName = name\<rparr> # cs))))"

definition readCertDir :: "ca_os \<Rightarrow> subdir \<Rightarrow> ca_fs \<Rightarrow> listed_certificate list result" where
  "readCertDir os d fs =
     (case os_ReadDir os d fs of
        Inl e \<Rightarrow> if errors_is e ErrNotExist then Inr [] else Inl e
      | Inr entries \<Rightarrow> read_entries os d (dir_path d fs) entries)"

definition ca_List :: "ca_os \<Rightarrow> ca_fs \<Rightarrow> listed_certificate list result" where
  "ca_List os fs =
     (case readCertDir os IssuedDir fs of
        Inl e \<Rightarrow> Inl (wrap ''read issued certificates'' e)
      | Inr issued \<Rightarrow>
          (case readCertDir os RevokedDir fs of
             Inl e \<Rightarrow> Inl (wrap ''read revoked certificates'' e)
           | Inr revoked \<Rightarrow> Inr (issued @ map (\<lambda>c. c\<lparr>lcRevoked := True\<rparr>) revoked)))"

definition RevokedSerials :: "ca_os \<Rightarrow> ca_fs \<Rightarrow> serials result" where
  "RevokedSerials os fs =
     (case readCertDir os RevokedDir fs of
        Inl e \<Rightarrow> Inl (wrap ''read revoked certificates'' e)
      | Inr revoked \<Rightarrow> Inr (fold (\<lambda>c m. gm_set (serial_text (lcCert c)) () m) revoked []))"

section \<open>Revoking and storing\<close>

fun revoke_loop ::
  "ca_os \<Rightarrow> string \<Rightarrow> listed_certificate list \<Rightarrow> nat \<Rightarrow> ca_fs \<Rightarrow> nat result \<times> ca_fs" where
  "revoke_loop os commonName [] matched fs = (Inr matched, fs)"
| "revoke_loop os commonName (c # cs) matched fs =
     (if cCN (lcCert c) \<noteq> commonName then revoke_loop os commonName cs matched fs
      else case (if matched = 0 then os_MkdirAll os RevokedDir fs else (None, fs)) of
             (Some e, fs1) \<Rightarrow> (Inl (wrap ''create revoked directory'' e), fs1)
           | (None, fs1) \<Rightarrow>
               (case os_Rename os (lcName c) fs1 of
                  (Some e, fs2) \<Rightarrow>
                    (Inl (wrap (''revoke '' @ path_join (dir_path IssuedDir fs) (lcName c)) e), fs2)
                | (None, fs2) \<Rightarrow> revoke_loop os commonName cs (matched + 1) fs2))"

definition Revoke :: "ca_os \<Rightarrow> string \<Rightarrow> ca_fs \<Rightarrow> error option \<times> ca_fs" where
  "Revoke os commonName fs =
     (if commonName = [] then (Some (Msg ''common name is required''), fs)
      else case readCertDir os IssuedDir fs of
             Inl e \<Rightarrow> (Some (wrap ''read issued certificates'' e), fs)
           | Inr issued \<Rightarrow>
               (case revoke_loop os commonName issued 0 fs of
                  (Inl e, fs1) \<Rightarrow> (Some e, fs1)
                | (Inr matched, fs1) \<Rightarrow>
                    if matched = 0
                    then (Some (Msg (''no issued certificate found for common name '' @ go_quote commonName)), fs1)
                    else (None, fs1)))"

text \<open>
  \<open>os.WriteFile\<close> truncates before it writes: a failure after the open leaves a prefix.
\<close>

definition cert_file :: "cert \<Rightarrow> string" where
  "cert_file ct = serial_text ct @ ''.pem''"

definition Store :: "ca_os \<Rightarrow> cert \<Rightarrow> byte list \<Rightarrow> ca_fs \<Rightarrow> error option \<times> ca_fs" where
  "Store os ct certPEM fs =
     (case os_MkdirAll os IssuedDir fs of
        (Some e, fs1) \<Rightarrow> (Some (wrap ''create issued directory'' e), fs1)
      | (None, fs1) \<Rightarrow>
          (let name = cert_file ct; iss = the (fsIssued fs1);
               failed = (\<lambda>e. Some (wrap (''write '' @ path_join (dir_path IssuedDir fs) name) e))
           in if gm_get iss name = Some Directory then (failed (Msg ''is a directory''), fs1)
              else case writeFileErr os name of
                     None \<Rightarrow> (None, fs1\<lparr>fsIssued := Some (gm_set name (File certPEM) iss)\<rparr>)
                   | Some (None, e) \<Rightarrow> (failed e, fs1)
                   | Some (Some k, e) \<Rightarrow>
                       (failed e, fs1\<lparr>fsIssued := Some (gm_set name (File (take k certPEM)) iss)\<rparr>)))"

section \<open>The system calls\<close>

lemma node_at_simps [simp]:
  "node_at IssuedDir (fs\<lparr>fsIssued := Some m\<rparr>) name = gm_get m name"
  "node_at RevokedDir (fs\<lparr>fsIssued := Some m\<rparr>) name = node_at RevokedDir fs name"
  "node_at RevokedDir (fs\<lparr>fsRevoked := Some m\<rparr>) name = gm_get m name"
  "node_at IssuedDir (fs\<lparr>fsRevoked := Some m\<rparr>) name = node_at IssuedDir fs name"
  by (simp_all add: node_at_def dir_of_def)

lemma os_MkdirAll_frame:
  "os_MkdirAll os d fs = (r, fs') \<Longrightarrow>
   node_at d' fs' name = node_at d' fs name \<and> fsPath fs' = fsPath fs \<and> (fs_wf fs \<longrightarrow> fs_wf fs')"
  by (cases d; cases d')
    (auto simp: os_MkdirAll_def set_dir_def node_at_def dir_of_def fs_wf_def split: option.splits subdir.splits if_splits)

lemma os_Rename_Some: "os_Rename os name fs = (Some e, fs') \<Longrightarrow> fs' = fs"
  by (auto simp: os_Rename_def split: option.splits if_splits)

lemma os_Rename_None:
  "os_Rename os name fs = (None, fs') \<Longrightarrow>
   node_at IssuedDir fs name \<noteq> None \<and>
   node_at IssuedDir fs' n = (if n = name then None else node_at IssuedDir fs n) \<and>
   node_at RevokedDir fs' n = (if n = name then node_at IssuedDir fs name else node_at RevokedDir fs n) \<and>
   fsPath fs' = fsPath fs"
  by (auto simp: os_Rename_def node_at_def dir_of_def gomap_simps split: option.splits if_splits)

section \<open>Reading a subdirectory\<close>

text \<open>
  What is relied on of the system: \<open>os.ReadDir\<close> reports a missing directory only if it is
  missing.
\<close>

definition os_honest :: "ca_os \<Rightarrow> bool" where
  "os_honest os \<longleftrightarrow> (\<forall>d e. readDirErr os d = Some e \<longrightarrow> \<not> errors_is e ErrNotExist)"

definition cert_at :: "ca_os \<Rightarrow> subdir \<Rightarrow> ca_fs \<Rightarrow> string \<Rightarrow> cert \<Rightarrow> bool" where
  "cert_at os d fs name ct \<longleftrightarrow>
     (\<exists>pem. node_at d fs name = Some (File pem) \<and> parseCertificate os pem = Inr ct)"

lemma read_entries_Inr:
  "read_entries os d dir es = Inr cs \<Longrightarrow>
   map lcName cs = map fst (filter (\<lambda>e. snd e \<noteq> Directory) es) \<and>
   (\<forall>c. c \<in> set cs \<longleftrightarrow> \<not> lcRevoked c \<and>
     (\<exists>pem. (lcName c, File pem) \<in> set es \<and> parseCertificate os pem = Inr (lcCert c))) \<and>
   (\<forall>name pem. (name, File pem) \<in> set es \<longrightarrow> (\<exists>ct. parseCertificate os pem = Inr ct))"
proof (induction os d dir es arbitrary: cs rule: read_entries.induct)
  case (3 os d dir name pem es)
  obtain c cs' where c: "parseCertificate os pem = Inr c" and r: "read_entries os d dir es = Inr cs'"
    and cs: "cs = \<lparr>lcCert = c, lcRevoked = False, lcName = name\<rparr> # cs'" and e: "readFileErr os d name = None"
    using "3.prems" by (auto split: option.splits sum.splits)
  have eq: "x = \<lparr>lcCert = c, lcRevoked = False, lcName = name\<rparr> \<longleftrightarrow>
      lcCert x = c \<and> \<not> lcRevoked x \<and> lcName x = name" for x :: listed_certificate
    by (cases x) auto
  show ?case using "3.IH" [OF e c r] c cs by (auto simp: eq)
qed auto

lemma readCertDir_Inr:
  assumes "readCertDir os d fs = Inr cs" and "os_honest os"
  shows "(\<forall>c. c \<in> set cs \<longleftrightarrow> \<not> lcRevoked c \<and> cert_at os d fs (lcName c) (lcCert c)) \<and>
    (\<forall>name pem. node_at d fs name = Some (File pem) \<longrightarrow> (\<exists>ct. parseCertificate os pem = Inr ct))"
proof (cases "dir_of d fs")
  case None
  then show ?thesis
    using assms by (auto simp: readCertDir_def os_ReadDir_def os_honest_def cert_at_def node_at_def
        split: option.splits if_splits)
next
  case (Some m)
  then have r: "read_entries os d (dir_path d fs) (map (\<lambda>k. (k, the (gm_get m k))) (sorted_keys m)) = Inr cs"
    using assms by (auto simp: readCertDir_def os_ReadDir_def os_honest_def split: option.splits if_splits)
  have "(name, nd) \<in> set (map (\<lambda>k. (k, the (gm_get m k))) (sorted_keys m)) \<longleftrightarrow> node_at d fs name = Some nd" for name nd
    using Some by (auto simp: node_at_def gm_keys_get image_iff)
  with read_entries_Inr [OF r] show ?thesis by (auto simp: cert_at_def)
qed

lemma readCertDir_distinct:
  assumes "readCertDir os d fs = Inr cs" and "fs_wf fs"
  shows "distinct (map lcName cs)"
proof (cases "readDirErr os d = None \<and> dir_of d fs \<noteq> None")
  case False
  then show ?thesis using assms(1) by (auto simp: readCertDir_def os_ReadDir_def split: option.splits if_splits)
next
  case True
  then obtain m where m: "dir_of d fs = Some m" by blast
  then have "distinct (gm_keys m)" using assms(2) by (auto simp: fs_wf_def gm_wf_def gm_keys_def)
  moreover have "distinct (foldr insert_string xs []) = distinct xs" for xs
  proof -
    have "distinct (insert_string x ys) \<longleftrightarrow> x \<notin> set ys \<and> distinct ys" for x ys
      by (induction ys) auto
    moreover have "set (foldr insert_string xs []) = set xs" for xs by (induction xs) auto
    ultimately show ?thesis by (induction xs) auto
  qed
  ultimately have "distinct (sorted_keys m)" by (simp add: sorted_keys_def)
  moreover have "map lcName cs = map fst (filter (\<lambda>e. snd e \<noteq> Directory) (map (\<lambda>k. (k, the (gm_get m k))) (sorted_keys m)))"
    using assms(1) True m read_entries_Inr by (auto simp: readCertDir_def os_ReadDir_def)
  moreover have "map fst (filter P (map (\<lambda>k. (k, the (gm_get m k))) ks)) = filter (\<lambda>k. P (k, the (gm_get m k))) ks" for P ks
    by (induction ks) auto
  ultimately show ?thesis by simp
qed

text \<open>The exported set: the serials of the certificates in \<open>revoked\<close>.\<close>

lemma RevokedSerials_Inr:
  assumes "RevokedSerials os fs = Inr m" and "os_honest os"
  shows "gm_has m k \<longleftrightarrow> (\<exists>name ct. cert_at os RevokedDir fs name ct \<and> k = serial_text ct)"
proof -
  obtain cs where cs: "readCertDir os RevokedDir fs = Inr cs"
    and m: "m = fold (\<lambda>c m. gm_set (serial_text (lcCert c)) () m) cs []"
    using assms(1) by (auto simp: RevokedSerials_def split: sum.splits)
  have "gm_has (fold (\<lambda>c m. gm_set (serial_text (lcCert c)) () m) cs m0) k \<longleftrightarrow>
      gm_has m0 k \<or> (\<exists>c \<in> set cs. k = serial_text (lcCert c))" for m0 :: serials
    by (induction cs arbitrary: m0) (auto simp: gomap_simps)
  then have "gm_has m k \<longleftrightarrow> (\<exists>c \<in> set cs. k = serial_text (lcCert c))" by (simp add: m)
  also have "\<dots> \<longleftrightarrow> (\<exists>name ct. cert_at os RevokedDir fs name ct \<and> k = serial_text ct)"
  proof
    assume "\<exists>c \<in> set cs. k = serial_text (lcCert c)"
    then show "\<exists>name ct. cert_at os RevokedDir fs name ct \<and> k = serial_text ct"
      using readCertDir_Inr [OF cs assms(2)] by blast
  next
    assume "\<exists>name ct. cert_at os RevokedDir fs name ct \<and> k = serial_text ct"
    then obtain name ct where ct: "cert_at os RevokedDir fs name ct" "k = serial_text ct" by blast
    then have "\<lparr>lcCert = ct, lcRevoked = False, lcName = name\<rparr> \<in> set cs"
      using readCertDir_Inr [OF cs assms(2)] by simp
    with ct show "\<exists>c \<in> set cs. k = serial_text (lcCert c)" by force
  qed
  finally show ?thesis .
qed

section \<open>The loop of Revoke\<close>

text \<open>The effect of moving the files named in \<open>M\<close>.\<close>

definition moved :: "string set \<Rightarrow> ca_fs \<Rightarrow> ca_fs \<Rightarrow> bool" where
  "moved M fs fs' \<longleftrightarrow> fsPath fs' = fsPath fs \<and>
     (\<forall>n. node_at IssuedDir fs' n = (if n \<in> M then None else node_at IssuedDir fs n) \<and>
          node_at RevokedDir fs' n = (if n \<in> M then node_at IssuedDir fs n else node_at RevokedDir fs n))"

lemma moved_empty: "(\<And>d n. node_at d fs' n = node_at d fs n) \<Longrightarrow> fsPath fs' = fsPath fs \<Longrightarrow> moved {} fs fs'"
  by (simp add: moved_def)

lemma moved_insert:
  assumes "os_Rename os name fs1 = (None, fs2)" and "\<And>d n. node_at d fs1 n = node_at d fs n"
    and "fsPath fs1 = fsPath fs" and "moved M fs2 fs'" and "name \<notin> M"
  shows "moved (insert name M) fs fs'"
proof -
  have s: "node_at IssuedDir fs2 n = (if n = name then None else node_at IssuedDir fs n)"
    "node_at RevokedDir fs2 n = (if n = name then node_at IssuedDir fs name else node_at RevokedDir fs n)"
    "fsPath fs2 = fsPath fs" for n
    using os_Rename_None [OF assms(1), of n] assms(2,3) by simp_all
  show ?thesis using assms(4,5) s by (auto simp: moved_def)
qed

lemma revoke_loop_moves:
  assumes "revoke_loop os cn cs k fs = (r, fs')" and "distinct (map lcName cs)"
  shows "\<exists>M. moved M fs fs' \<and> M \<subseteq> lcName ` {c \<in> set cs. cCN (lcCert c) = cn} \<and>
    (\<forall>n. r = Inr n \<longrightarrow> M = lcName ` {c \<in> set cs. cCN (lcCert c) = cn} \<and> (n = k \<longleftrightarrow> M = {}) \<and> k \<le> n)"
  using assms
proof (induction os cn cs k fs arbitrary: r fs' rule: revoke_loop.induct)
  case (1 os cn k fs)
  then show ?case by (auto intro!: exI [of _ "{}"] moved_empty)
next
  case (2 os cn c cs k fs)
  let ?mine = "\<lambda>cs. lcName ` {c \<in> set cs. cCN (lcCert c) = cn}"
  show ?case
  proof (cases "cCN (lcCert c) = cn")
    case False
    then have "?mine (c # cs) = ?mine cs" by auto
    with 2 False show ?thesis by simp
  next
    case True
    then have mine: "?mine (c # cs) = insert (lcName c) (?mine cs)" by auto
    have new: "lcName c \<notin> ?mine cs" using "2.prems"(2) by auto
    obtain e1 fs1 where mk: "(if k = 0 then os_MkdirAll os RevokedDir fs else (None, fs)) = (e1, fs1)"
      by (metis prod.exhaust)
    then have same: "node_at d fs1 n = node_at d fs n" "fsPath fs1 = fsPath fs" for d n
      using os_MkdirAll_frame [of os RevokedDir fs e1 fs1] by (auto split: if_splits)
    obtain e2 fs2 where rn: "os_Rename os (lcName c) fs1 = (e2, fs2)" by (metis prod.exhaust)
    show ?thesis
    proof (cases "e1 = None \<and> e2 = None")
      case False
      then have "(\<exists>e. r = Inl e) \<and> (fs' = fs1 \<or> fs' = fs2)"
        using "2.prems"(1) True mk rn by (auto split: option.splits)
      moreover have "fs' = fs2 \<longrightarrow> e1 \<noteq> None \<or> fs2 = fs1" using False rn os_Rename_Some by (cases e2) auto
      ultimately have "(\<exists>e. r = Inl e) \<and> fs' = fs1"
        using "2.prems"(1) True mk rn by (auto split: option.splits)
      with same show ?thesis by (auto intro!: exI [of _ "{}"] moved_empty)
    next
      case ok: True
      with "2.prems"(1) True mk rn have "revoke_loop os cn cs (k + 1) fs2 = (r, fs')" by simp
      with "2.IH"(2) [OF _ mk [symmetric] _ rn [symmetric]] ok True "2.prems"(2) obtain M where M: "moved M fs2 fs'" "M \<subseteq> ?mine cs"
        "\<forall>n. r = Inr n \<longrightarrow> M = ?mine cs \<and> (n = k + 1 \<longleftrightarrow> M = {}) \<and> k + 1 \<le> n"
        by auto
      have "moved (insert (lcName c) M) fs fs'"
        using moved_insert [OF _ same M(1)] rn ok new M(2) by blast
      with M(2,3) mine show ?thesis by (intro exI [of _ "insert (lcName c) M"]) auto
    qed
  qed
qed

lemma Revoke_moves:
  assumes "Revoke os cn fs = (r, fs')" and "fs_wf fs"
  shows "fs' = fs \<and> r \<noteq> None \<or>
    (\<exists>M cs. readCertDir os IssuedDir fs = Inr cs \<and> moved M fs fs' \<and>
       M \<subseteq> lcName ` {c \<in> set cs. cCN (lcCert c) = cn} \<and>
       (r = None \<longrightarrow> M = lcName ` {c \<in> set cs. cCN (lcCert c) = cn} \<and> M \<noteq> {}))"
proof (cases "cn = []")
  case True
  have "r \<noteq> None \<and> fs' = fs" using assms(1) True by (auto simp: Revoke_def)
  then show ?thesis by simp
next
  case False
  show ?thesis
  proof (cases "readCertDir os IssuedDir fs")
    case (Inl e)
    have "r \<noteq> None \<and> fs' = fs" using assms(1) False Inl by (auto simp: Revoke_def)
    then show ?thesis by simp
  next
    case (Inr cs)
    obtain r1 fs1 where l: "revoke_loop os cn cs 0 fs = (r1, fs1)" by (metis prod.exhaust)
    from revoke_loop_moves [OF l readCertDir_distinct [OF Inr assms(2)]]
    obtain M where M: "moved M fs fs1" "M \<subseteq> lcName ` {c \<in> set cs. cCN (lcCert c) = cn}"
      "\<forall>n. r1 = Inr n \<longrightarrow> M = lcName ` {c \<in> set cs. cCN (lcCert c) = cn} \<and> (n = 0 \<longleftrightarrow> M = {}) \<and> 0 \<le> n"
      by (elim exE conjE)
    have fr: "fs' = fs1 \<and> (r = None \<longrightarrow> (\<exists>n. r1 = Inr n \<and> n \<noteq> 0))"
      using assms(1) False Inr l by (cases r1) (auto simp: Revoke_def split: if_splits)
    have "r = None \<longrightarrow> M = lcName ` {c \<in> set cs. cCN (lcCert c) = cn} \<and> M \<noteq> {}"
    proof
      assume "r = None"
      then obtain n where "r1 = Inr n" "n \<noteq> 0" using fr by blast
      with M(3) show "M = lcName ` {c \<in> set cs. cCN (lcCert c) = cn} \<and> M \<noteq> {}" by blast
    qed
    with M(1,2) fr Inr show ?thesis by (intro disjI2 exI [of _ M] exI [of _ cs] conjI) blast+
  qed
qed

section \<open>Properties\<close>

text \<open>A CA directory with two certificates issued and one revoked, for the witnesses.\<close>

definition sample_os :: ca_os where
  "sample_os =
     \<lparr>readDirErr = \<lambda>_. None, readFileErr = \<lambda>_ _. None, mkdirAllErr = \<lambda>_. None,
      renameFileErr = \<lambda>_. None, writeFileErr = \<lambda>_. None,
      parseCertificate = \<lambda>pem.
        (case pem of
           [n] \<Rightarrow> Inr \<lparr>cRaw = [n], cCN = (if n < 10 then ''laptop'' else ''phone''), cSerial = unat n, cUnknownEKU = []\<rparr>
         | _ \<Rightarrow> Inl (Msg ''no PEM block found''))\<rparr>"

definition sample_fs :: ca_fs where
  "sample_fs = \<lparr>fsPath = ''ca'', fsIssued = Some [(''5.pem'', File [5]), (''b.pem'', File [11])],
     fsRevoked = Some [(''3.pem'', File [3])]\<rparr>"

lemma sample_fs_ok: "fs_wf sample_fs" "os_honest sample_os"
  by (auto simp: fs_wf_def dir_of_def sample_fs_def gm_wf_def os_honest_def sample_os_def split: subdir.splits)

lemma sample_revoke: "\<exists>fs'. Revoke sample_os ''laptop'' sample_fs = (None, fs')"
  by (simp add: Revoke_def readCertDir_def os_ReadDir_def sample_os_def sample_fs_def dir_of_def
      sorted_keys_def gm_keys_def gm_get_def os_Rename_def os_MkdirAll_def)

text \<open>A \<open>Revoke\<close> that succeeds moves exactly the certificates of the name.\<close>

lemma Revoke_ok:
  assumes "Revoke os cn fs = (None, fs')" and "fs_wf fs" and "os_honest os"
  shows "\<exists>M. M \<noteq> {} \<and> moved M fs fs' \<and> (\<forall>name. name \<in> M \<longleftrightarrow> (\<exists>ct. cert_at os IssuedDir fs name ct \<and> cCN ct = cn))"
proof -
  obtain M cs where r: "readCertDir os IssuedDir fs = Inr cs" and m: "moved M fs fs'" and ne: "M \<noteq> {}"
    and M: "M = lcName ` {c \<in> set cs. cCN (lcCert c) = cn}"
    using Revoke_moves [OF assms(1,2)] by auto
  have names: "name \<in> M \<longleftrightarrow> (\<exists>ct. cert_at os IssuedDir fs name ct \<and> cCN ct = cn)" for name
    unfolding M
  proof
    assume "name \<in> lcName ` {c \<in> set cs. cCN (lcCert c) = cn}"
    then show "\<exists>ct. cert_at os IssuedDir fs name ct \<and> cCN ct = cn"
      using readCertDir_Inr [OF r assms(3)] by auto
  next
    assume "\<exists>ct. cert_at os IssuedDir fs name ct \<and> cCN ct = cn"
    then obtain ct where ct: "cert_at os IssuedDir fs name ct" "cCN ct = cn" by blast
    let ?c = "\<lparr>lcCert = ct, lcRevoked = False, lcName = name\<rparr>"
    have "?c \<in> set cs" using readCertDir_Inr [OF r assms(3)] ct by simp
    with ct show "name \<in> lcName ` {c \<in> set cs. cCN (lcCert c) = cn}" by (intro image_eqI [of _ _ ?c]) simp_all
  qed
  then show ?thesis using m ne by blast
qed

text \<open>
  A revoked name is cut off entirely. If \<open>Revoke\<close> succeeds, some certificate was issued
  under the name, none is afterwards, each of them is now among the revoked ones with its
  content unchanged, and every other file of both subdirectories is where it was.
\<close>

theorem revoke_cuts_off_name:
  assumes "Revoke os cn fs = (None, fs')" and "fs_wf fs" and "os_honest os"
  shows "(\<exists>name ct. cert_at os IssuedDir fs name ct \<and> cCN ct = cn) \<and>
    (\<forall>name ct. cert_at os IssuedDir fs name ct \<and> cCN ct = cn \<longrightarrow>
       node_at IssuedDir fs' name = None \<and> node_at RevokedDir fs' name = node_at IssuedDir fs name) \<and>
    (\<forall>name. (\<forall>ct. cert_at os IssuedDir fs name ct \<longrightarrow> cCN ct \<noteq> cn) \<longrightarrow>
       node_at IssuedDir fs' name = node_at IssuedDir fs name \<and>
       node_at RevokedDir fs' name = node_at RevokedDir fs name)"
proof -
  obtain M where M: "M \<noteq> {}" "moved M fs fs'"
    "\<And>name. name \<in> M \<longleftrightarrow> (\<exists>ct. cert_at os IssuedDir fs name ct \<and> cCN ct = cn)"
    using Revoke_ok [OF assms] by blast
  have at: "node_at IssuedDir fs' n = (if n \<in> M then None else node_at IssuedDir fs n)"
    "node_at RevokedDir fs' n = (if n \<in> M then node_at IssuedDir fs n else node_at RevokedDir fs n)" for n
    using M(2) by (simp_all add: moved_def)
  show ?thesis using M(1,3) by (auto simp: at)
qed

lemma revoke_cuts_off_name_witness:
  "\<exists>fs'. Revoke sample_os ''laptop'' sample_fs = (None, fs') \<and> node_at IssuedDir fs' ''5.pem'' = None \<and>
     node_at RevokedDir fs' ''5.pem'' = Some (File [5]) \<and> node_at IssuedDir fs' ''b.pem'' = Some (File [11])"
proof -
  obtain fs' where r: "Revoke sample_os ''laptop'' sample_fs = (None, fs')" using sample_revoke by blast
  have "cert_at sample_os IssuedDir sample_fs ''5.pem'' \<lparr>cRaw = [5], cCN = ''laptop'', cSerial = 5, cUnknownEKU = []\<rparr>"
    "\<And>ct. cert_at sample_os IssuedDir sample_fs ''b.pem'' ct \<Longrightarrow> cCN ct \<noteq> ''laptop''"
    by (auto simp: cert_at_def node_at_def dir_of_def sample_fs_def gm_get_def sample_os_def)
  moreover have "node_at IssuedDir sample_fs ''5.pem'' = Some (File [5])" "node_at IssuedDir sample_fs ''b.pem'' = Some (File [11])"
    by (simp_all add: node_at_def dir_of_def sample_fs_def gm_get_def)
  ultimately show ?thesis using r revoke_cuts_off_name [OF r sample_fs_ok] by fastforce
qed

text \<open>Whatever is listed is there.\<close>

lemma readCertDir_listed:
  assumes "readCertDir os d fs = Inr cs" and "c \<in> set cs"
  shows "cert_at os d fs (lcName c) (lcCert c)"
proof (cases "readDirErr os d = None \<and> dir_of d fs \<noteq> None")
  case False
  then show ?thesis using assms by (auto simp: readCertDir_def os_ReadDir_def split: option.splits if_splits)
next
  case True
  then obtain m where m: "dir_of d fs = Some m" by blast
  then have r: "read_entries os d (dir_path d fs) (map (\<lambda>k. (k, the (gm_get m k))) (sorted_keys m)) = Inr cs"
    using assms(1) True by (auto simp: readCertDir_def os_ReadDir_def)
  then obtain pem where "(lcName c, File pem) \<in> set (map (\<lambda>k. (k, the (gm_get m k))) (sorted_keys m))"
    "parseCertificate os pem = Inr (lcCert c)" using read_entries_Inr [OF r] assms(2) by blast
  then show ?thesis using m by (auto simp: cert_at_def node_at_def gm_keys_get image_iff)
qed

text \<open>
  C23: Revoking loses nothing and touches no other name, whatever fails. After any \<open>Revoke\<close>, also one
  that stops half-way, each file of \<open>issued\<close> and \<open>revoked\<close> is as it was, except that a file issued for
  the common name may have moved from \<open>issued\<close> to \<open>revoked\<close> with its content, taking the place of a
  revoked file of the same name if there was one. If there is no such file \<open>Revoke\<close> fails; if it
  succeeds, and the system calls a directory missing only when it is, all of them have moved.
\<close>

theorem revoke_loses_nothing:
  assumes "Revoke os cn fs = (r, fs')" and "fs_wf fs"
  shows "(\<forall>name.
       node_at IssuedDir fs' name = node_at IssuedDir fs name \<and> node_at RevokedDir fs' name = node_at RevokedDir fs name \<or>
       (\<exists>ct. cert_at os IssuedDir fs name ct \<and> cCN ct = cn) \<and>
       node_at IssuedDir fs' name = None \<and> node_at RevokedDir fs' name = node_at IssuedDir fs name) \<and>
    (r = None \<longrightarrow> (\<exists>name ct. cert_at os IssuedDir fs name ct \<and> cCN ct = cn)) \<and>
    (r = None \<and> os_honest os \<longrightarrow> (\<forall>name ct. cert_at os IssuedDir fs name ct \<and> cCN ct = cn \<longrightarrow>
       node_at IssuedDir fs' name = None \<and> node_at RevokedDir fs' name = node_at IssuedDir fs name))"
proof -
  consider "fs' = fs" "r \<noteq> None" | M cs where "readCertDir os IssuedDir fs = Inr cs" "moved M fs fs'"
      "M \<subseteq> lcName ` {c \<in> set cs. cCN (lcCert c) = cn}" "r = None \<longrightarrow> M \<noteq> {}"
    using Revoke_moves [OF assms] by blast
  then have base: "(\<forall>name.
       node_at IssuedDir fs' name = node_at IssuedDir fs name \<and> node_at RevokedDir fs' name = node_at RevokedDir fs name \<or>
       (\<exists>ct. cert_at os IssuedDir fs name ct \<and> cCN ct = cn) \<and>
       node_at IssuedDir fs' name = None \<and> node_at RevokedDir fs' name = node_at IssuedDir fs name) \<and>
    (r = None \<longrightarrow> (\<exists>name ct. cert_at os IssuedDir fs name ct \<and> cCN ct = cn))"
  proof cases
    case 2
    have mine: "\<exists>ct. cert_at os IssuedDir fs name ct \<and> cCN ct = cn" if "name \<in> M" for name
      using that 2(3) readCertDir_listed [OF 2(1)] by blast
    with 2(2,4) show ?thesis unfolding moved_def by (metis ex_in_conv)
  qed auto
  have all: "node_at IssuedDir fs' name = None \<and> node_at RevokedDir fs' name = node_at IssuedDir fs name"
    if "r = None" "os_honest os" "cert_at os IssuedDir fs name ct" "cCN ct = cn" for name ct
    using Revoke_ok [of os cn fs fs'] assms that unfolding moved_def by metis
  show ?thesis by (intro conjI, rule conjunct1 [OF base], rule conjunct2 [OF base]) (use all in blast)
qed

lemma revoke_loses_nothing_witness:
  "\<exists>fs'. Revoke (sample_os\<lparr>renameFileErr := \<lambda>_. Some (Fault 1)\<rparr>) ''laptop'' sample_fs =
       (Some (wrap ''revoke ca/issued/5.pem'' (Fault 1)), fs') \<and>
     (node_at IssuedDir fs' ''5.pem'' = Some (File [5]) \<or> node_at RevokedDir fs' ''5.pem'' = Some (File [5])) \<and>
     node_at IssuedDir fs' ''b.pem'' = Some (File [11]) \<and> node_at RevokedDir fs' ''3.pem'' = Some (File [3])"
proof -
  let ?os = "sample_os\<lparr>renameFileErr := \<lambda>_. Some (Fault 1)\<rparr>"
  have n: "node_at IssuedDir sample_fs ''5.pem'' = Some (File [5])" "node_at IssuedDir sample_fs ''b.pem'' = Some (File [11])"
    "node_at RevokedDir sample_fs ''3.pem'' = Some (File [3])"
    by (simp_all add: node_at_def dir_of_def sample_fs_def gm_get_def)
  have other: "\<not> (cert_at ?os IssuedDir sample_fs ''b.pem'' ct \<and> cCN ct = ''laptop'')"
    "\<not> cert_at ?os IssuedDir sample_fs ''3.pem'' ct" for ct
    by (auto simp: cert_at_def node_at_def dir_of_def sample_fs_def gm_get_def sample_os_def)
  obtain fs' where r: "Revoke ?os ''laptop'' sample_fs = (Some (wrap ''revoke ca/issued/5.pem'' (Fault 1)), fs')"
    by (simp add: Revoke_def readCertDir_def os_ReadDir_def sample_os_def sample_fs_def dir_of_def
      sorted_keys_def gm_keys_def gm_get_def os_Rename_def os_MkdirAll_def path_join_def dir_path_def issuedDirName_def)
  note kept = conjunct1 [OF revoke_loses_nothing [OF r sample_fs_ok(1)], rule_format]
  have "node_at IssuedDir fs' ''5.pem'' = Some (File [5]) \<or> node_at RevokedDir fs' ''5.pem'' = Some (File [5])"
    using kept [of "''5.pem''"] n(1) by metis
  moreover have "node_at IssuedDir fs' ''b.pem'' = Some (File [11])" using kept [of "''b.pem''"] n(2) other(1) by metis
  moreover have "node_at RevokedDir fs' ''3.pem'' = Some (File [3])" using kept [of "''3.pem''"] n(3) other(2) by metis
  ultimately show ?thesis using r by blast
qed

lemma Store_ok:
  assumes "Store os ct pem fs = (None, fs')"
  shows "node_at d fs' name = (if (d, name) = (IssuedDir, cert_file ct) then Some (File pem) else node_at d fs name)"
    and "fs_wf fs \<Longrightarrow> fs_wf fs'"
proof -
  obtain fs1 where mk: "os_MkdirAll os IssuedDir fs = (None, fs1)"
    and fs': "fs' = fs1\<lparr>fsIssued := Some (gm_set (cert_file ct) (File pem) (the (fsIssued fs1)))\<rparr>"
    using assms by (auto simp: Store_def Let_def split: prod.splits option.splits if_splits)
  have "fsIssued fs1 \<noteq> None"
    using mk by (auto simp: os_MkdirAll_def set_dir_def dir_of_def split: option.splits)
  then obtain iss where iss: "fsIssued fs1 = Some iss" by blast
  then have at1: "gm_get iss name = node_at IssuedDir fs1 name" by (simp add: node_at_def dir_of_def)
  have same: "node_at d fs1 name = node_at d fs name" and wf: "fs_wf fs \<longrightarrow> fs_wf fs1"
    using os_MkdirAll_frame [OF mk] by blast+
  show "node_at d fs' name = (if (d, name) = (IssuedDir, cert_file ct) then Some (File pem) else node_at d fs name)"
    using same by (cases d) (simp_all add: fs' iss gomap_simps at1)
  show "fs_wf fs'" if "fs_wf fs"
    using that wf iss by (auto simp: fs' fs_wf_def dir_of_def gomap_simps split: subdir.splits)
qed

text \<open>
  A stored certificate is listed. After \<open>Store\<close> succeeds the file named by the serial holds
  the PEM text and nothing else has changed, so that \<open>List\<close>, when it can read the directory,
  lists the certificate as issued; a certificate of the same serial is the only thing replaced.
\<close>

theorem stored_certificate_listed:
  assumes "Store os ct pem fs = (None, fs')" and "parseCertificate os pem = Inr ct"
    and "ca_List os fs' = Inr listed" and "os_honest os"
  shows "\<lparr>lcCert = ct, lcRevoked = False, lcName = cert_file ct\<rparr> \<in> set listed \<and>
    (\<forall>d name. (d, name) \<noteq> (IssuedDir, cert_file ct) \<longrightarrow> node_at d fs' name = node_at d fs name)"
proof -
  note at = Store_ok(1) [OF assms(1)]
  obtain issued rest where l: "readCertDir os IssuedDir fs' = Inr issued" "listed = issued @ rest"
    using assms(3) by (auto simp: ca_List_def split: sum.splits)
  have "cert_at os IssuedDir fs' (cert_file ct) ct" using at assms(2) by (simp add: cert_at_def)
  with readCertDir_Inr [OF l(1) assms(4)] l(2) at show ?thesis by simp
qed

lemma stored_certificate_listed_witness:
  "\<exists>fs' listed. Store sample_os \<lparr>cRaw = [7], cCN = ''laptop'', cSerial = 7, cUnknownEKU = []\<rparr> [7] sample_fs = (None, fs') \<and>
     ca_List sample_os fs' = Inr listed \<and>
     \<lparr>lcCert = \<lparr>cRaw = [7], cCN = ''laptop'', cSerial = 7, cUnknownEKU = []\<rparr>, lcRevoked = False, lcName = ''7.pem''\<rparr> \<in> set listed"
proof -
  let ?ct = "\<lparr>cRaw = [7], cCN = ''laptop'', cSerial = 7, cUnknownEKU = []\<rparr> :: cert"
  have f: "cert_file ?ct = ''7.pem''" by code_simp
  have p: "parseCertificate sample_os [7] = Inr ?ct" by (simp add: sample_os_def)
  obtain fs' where s: "Store sample_os ?ct [7] sample_fs = (None, fs')"
    and fs': "fs' = sample_fs\<lparr>fsIssued := Some [(''5.pem'', File [5]), (''b.pem'', File [11]), (''7.pem'', File [7])]\<rparr>"
    by (simp add: Store_def f os_MkdirAll_def sample_os_def sample_fs_def dir_of_def gm_get_def gm_set_def Let_def)
  obtain listed where l: "ca_List sample_os fs' = Inr listed"
    by (simp add: fs' ca_List_def readCertDir_def os_ReadDir_def sample_os_def sample_fs_def dir_of_def
        sorted_keys_def gm_keys_def gm_get_def)
  show ?thesis using stored_certificate_listed [OF s p l sample_fs_ok(2)] s l f by auto
qed

end
