(* ===== verification/CA_Issue.thy ===== *)
theory CA_Issue
  imports CA_Dir
begin

text \<open>
  Making certificates (\<^verbatim>\<open>internal/ca/ca.go\<close>): \<open>Init\<close>, \<open>Load\<close>, \<open>Issue\<close> and what they
  call. A certificate here has the fields the CA sets beside those the relay reads. What encodes,
  signs and decodes (\<^verbatim>\<open>crypto/x509\<close>, \<^verbatim>\<open>crypto/mldsa\<close>, \<^verbatim>\<open>encoding/pem\<close>) is the parameter
  \<open>pki\<close>; key generation, the random serial and the clock are arguments. Points in time are
  nanoseconds.
\<close>

section \<open>Certificates and what encodes them\<close>

record 'pk x509_cert = cert +
  xNotBefore :: int
  xNotAfter :: int
  xKeyUsage :: nat
  xExtKeyUsage :: "nat list"
  xBasicConstraintsValid :: bool
  xIsCA :: bool
  xMaxPathLen :: int
  xMaxPathLenZero :: bool
  xPublicKey :: "'pk option"
  xDNSNames :: "string list"
  xIPs :: "byte list list"

definition KeyUsageDigitalSignature :: nat where "KeyUsageDigitalSignature = 1"
definition KeyUsageCertSign :: nat where "KeyUsageCertSign = 32"
definition KeyUsageCRLSign :: nat where "KeyUsageCRLSign = 64"
definition ExtKeyUsageServerAuth :: nat where "ExtKeyUsageServerAuth = 1"
definition ExtKeyUsageClientAuth :: nat where "ExtKeyUsageClientAuth = 2"

text \<open>What a PKCS#8 text holds: a key for ML-DSA, or one of another type.\<close>

datatype 'sk pkcs8_key = MLDSAKey 'sk | OtherKey string

record ('sk, 'pk) pki =
  mldsaPublic :: "'sk \<Rightarrow> 'pk"
  x509Create :: "nat \<Rightarrow> 'pk x509_cert \<Rightarrow> 'pk x509_cert \<Rightarrow> 'pk \<Rightarrow> 'sk \<Rightarrow> byte list result"
  x509Parse :: "byte list \<Rightarrow> 'pk x509_cert result"
  x509Signed :: "'pk \<Rightarrow> byte list \<Rightarrow> bool"
  pkcs8Marshal :: "'sk \<Rightarrow> byte list result"
  pkcs8Parse :: "byte list \<Rightarrow> 'sk pkcs8_key result"
  pemEncode :: "string \<Rightarrow> byte list \<Rightarrow> byte list"
  pemDecode :: "byte list \<Rightarrow> (string \<times> byte list) option"
  timeRFC3339 :: "int \<Rightarrow> string"

definition pemTypeCertificate :: string where "pemTypeCertificate = ''CERTIFICATE''"
definition pemTypeMLDSAKey :: string where "pemTypeMLDSAKey = ''PRIVATE KEY''"

section \<open>Constants\<close>

definition go_second :: int where "go_second = 1000000000"

definition DefaultCAValidity :: int where "DefaultCAValidity = 10 * 365 * 24 * 3600 * go_second"
definition DefaultDeviceValidity :: int where "DefaultDeviceValidity = 90 * 24 * 3600 * go_second"
definition clock_skew :: int where "clock_skew = 5 * 60 * go_second"

definition serialBits :: nat where "serialBits = 128"
definition serialLimit :: nat where "serialLimit = 2 ^ serialBits"

section \<open>Parts\<close>

record 'pk cert_bundle =
  bdCert :: "'pk x509_cert"
  bdCertPEM :: "byte list"
  bdKeyPEM :: "byte list"

record ('sk, 'pk) ca =
  caCert :: "'pk x509_cert"
  caCertPEM :: "byte list"
  caKey :: 'sk

record issue_request =
  rqCommonName :: string
  rqValidity :: int
  rqServer :: bool
  rqAdmin :: bool
  rqDNSNames :: "string list"
  rqIPs :: "byte list list"

text \<open>\<open>draw bound\<close> is what \<open>rand.Int\<close> gives below the bound.\<close>

definition newSerial :: "(nat \<Rightarrow> nat result) \<Rightarrow> nat result" where
  "newSerial draw =
     (let upperBound = serialLimit - 1
      in case draw upperBound of
           Inl e \<Rightarrow> Inl (wrap ''generate serial'' e)
         | Inr n \<Rightarrow> Inr (n + 1))"

definition defineCertificate ::
  "(nat \<Rightarrow> nat result) \<Rightarrow> int \<Rightarrow> string \<Rightarrow> int \<Rightarrow> 'pk x509_cert result" where
  "defineCertificate draw now commonName validity =
     (case newSerial draw of
        Inl e \<Rightarrow> Inl e
      | Inr serial \<Rightarrow>
          Inr \<lparr>cRaw = [], cCN = commonName, cSerial = serial, cUnknownEKU = [],
               xNotBefore = now - clock_skew, xNotAfter = now + validity,
               xKeyUsage = or (or KeyUsageCertSign KeyUsageCRLSign) KeyUsageDigitalSignature,
               xExtKeyUsage = [], xBasicConstraintsValid = True, xIsCA = True,
               xMaxPathLen = 0, xMaxPathLenZero = True,
               xPublicKey = None, xDNSNames = [], xIPs = []\<rparr>)"

definition signCertificate ::
  "('sk, 'pk) pki \<Rightarrow> nat \<Rightarrow> 'pk x509_cert \<Rightarrow> 'sk \<Rightarrow> byte list result" where
  "signCertificate k rnd certTemplate key =
     on_error (wrap ''self-sign ca certificate'')
       (x509Create k rnd certTemplate certTemplate (mldsaPublic k key) key)"

definition buildBundle :: "('sk, 'pk) pki \<Rightarrow> byte list \<Rightarrow> 'sk \<Rightarrow> 'pk cert_bundle result" where
  "buildBundle k der key =
     (case x509Parse k der of
        Inl e \<Rightarrow> Inl (wrap ''parse generated certificate'' e)
      | Inr ct \<Rightarrow>
          (case pkcs8Marshal k key of
             Inl e \<Rightarrow> Inl (wrap ''marshal private key'' e)
           | Inr keyDER \<Rightarrow>
               Inr \<lparr>bdCert = ct, bdCertPEM = pemEncode k pemTypeCertificate der,
                    bdKeyPEM = pemEncode k pemTypeMLDSAKey keyDER\<rparr>))"

definition ParseCertificate :: "('sk, 'pk) pki \<Rightarrow> byte list \<Rightarrow> 'pk x509_cert result" where
  "ParseCertificate k certPEM =
     (case pemDecode k certPEM of
        None \<Rightarrow> Inl (Msg ''no PEM block found'')
      | Some (typ, bytes) \<Rightarrow>
          if typ \<noteq> pemTypeCertificate
          then Inl (Msg (''expected a '' @ pemTypeCertificate @ '' block, got '' @ go_quote typ))
          else x509Parse k bytes)"

definition parsePrivateKey :: "('sk, 'pk) pki \<Rightarrow> string \<times> byte list \<Rightarrow> 'sk result" where
  "parsePrivateKey k block =
     (case block of
        (typ, bytes) \<Rightarrow>
          if typ \<noteq> ''PRIVATE KEY'' then Inl (Msg (''expected PKCS#8 private key, got '' @ go_quote typ))
          else case pkcs8Parse k bytes of
                 Inl e \<Rightarrow> Inl (wrap ''parse PKCS#8 key'' e)
               | Inr (OtherKey typ) \<Rightarrow> Inl (Msg (''expected an ML-DSA key, got '' @ typ))
               | Inr (MLDSAKey key) \<Rightarrow> Inr key)"

section \<open>Init, Load, Issue\<close>

text \<open>\<open>gen\<close> is what \<open>mldsa.GenerateKey\<close> gives, \<open>rnd\<close> the signature's randomness.\<close>

definition Init ::
  "('sk, 'pk) pki \<Rightarrow> 'sk result \<Rightarrow> (nat \<Rightarrow> nat result) \<Rightarrow> nat \<Rightarrow> int \<Rightarrow> string \<Rightarrow> int \<Rightarrow> 'pk cert_bundle result" where
  "Init k gen draw rnd now commonName validity =
     (if commonName = [] then Inl (Msg ''common name is required'')
      else
        let validity1 = (if validity \<le> 0 then DefaultCAValidity else validity)
        in case gen of
             Inl e \<Rightarrow> Inl (wrap ''generate ca key'' e)
           | Inr key \<Rightarrow>
               (case defineCertificate draw now commonName validity1 of
                  Inl e \<Rightarrow> Inl e
                | Inr ct \<Rightarrow>
                    (case signCertificate k rnd ct key of
                       Inl e \<Rightarrow> Inl e
                     | Inr der \<Rightarrow> buildBundle k der key)))"

definition Load :: "('sk, 'pk) pki \<Rightarrow> byte list \<Rightarrow> byte list \<Rightarrow> ('sk, 'pk) ca result" where
  "Load k certPEM keyPEM =
     (case ParseCertificate k certPEM of
        Inl e \<Rightarrow> Inl (wrap ''parse ca certificate'' e)
      | Inr ct \<Rightarrow>
          if \<not> xIsCA ct
          then Inl (Msg (''certificate '' @ go_quote (cCN ct) @ '' is not a CA certificate''))
          else case pemDecode k keyPEM of
                 None \<Rightarrow> Inl (Msg ''no PEM block found in CA key'')
               | Some block \<Rightarrow>
                   (case parsePrivateKey k block of
                      Inl e \<Rightarrow> Inl e
                    | Inr key \<Rightarrow>
                        if xPublicKey ct \<noteq> Some (mldsaPublic k key)
                        then Inl (Msg ''CA Key does not match CA certificate'')
                        else Inr \<lparr>caCert = ct, caCertPEM = certPEM, caKey = key\<rparr>))"

definition issue_template :: "int \<Rightarrow> nat \<Rightarrow> issue_request \<Rightarrow> 'pk x509_cert" where
  "issue_template now serial req =
     \<lparr>cRaw = [], cCN = rqCommonName req, cSerial = serial,
      cUnknownEKU = (if rqAdmin req then [AdminEKU] else []),
      xNotBefore = now - clock_skew, xNotAfter = now + rqValidity req,
      xKeyUsage = KeyUsageDigitalSignature,
      xExtKeyUsage = (if rqServer req then [ExtKeyUsageServerAuth] else [ExtKeyUsageClientAuth]),
      xBasicConstraintsValid = True, xIsCA = False, xMaxPathLen = 0, xMaxPathLenZero = False,
      xPublicKey = None, xDNSNames = rqDNSNames req, xIPs = rqIPs req\<rparr>"

definition Issue ::
  "('sk, 'pk) pki \<Rightarrow> 'sk result \<Rightarrow> (nat \<Rightarrow> nat result) \<Rightarrow> nat \<Rightarrow> int \<Rightarrow> ('sk, 'pk) ca \<Rightarrow> issue_request \<Rightarrow>
   'pk cert_bundle result" where
  "Issue k gen draw rnd now c request =
     (if rqCommonName request = [] then Inl (Msg ''common name is required'')
      else
        let req = (if rqValidity request \<le> 0 then request\<lparr>rqValidity := DefaultDeviceValidity\<rparr> else request)
        in if now + rqValidity req > xNotAfter (caCert c)
           then Inl (Msg (''requested validity outlives the CA certificate (CA expires '' @
                          timeRFC3339 k (xNotAfter (caCert c)) @ '')''))
           else case gen of
                  Inl e \<Rightarrow> Inl (wrap ''generate device key'' e)
                | Inr key \<Rightarrow>
                    (case newSerial draw of
                       Inl e \<Rightarrow> Inl e
                     | Inr serial \<Rightarrow>
                         (case x509Create k rnd (issue_template now serial req) (caCert c)
                                 (mldsaPublic k key) (caKey c) of
                            Inl e \<Rightarrow> Inl (wrap ''sign certificate'' e)
                          | Inr der \<Rightarrow> buildBundle k der key)))"

section \<open>What is relied on of the encoders\<close>

definition whole_second :: "int \<Rightarrow> int" where
  "whole_second t = t div go_second * go_second"

text \<open>
  A certificate that is created reads back with the fields of its template (times to the
  second, as they are encoded), the subject's public key and a signature by the key that
  signed. PEM and PKCS#8 read back what they wrote. \<open>rand.Int\<close> draws below its bound.
\<close>

definition reads_as :: "'pk x509_cert \<Rightarrow> 'pk \<Rightarrow> byte list \<Rightarrow> 'pk x509_cert \<Rightarrow> bool" where
  "reads_as tmpl pk der ct \<longleftrightarrow>
     cRaw ct = der \<and> cCN ct = cCN tmpl \<and> cSerial ct = cSerial tmpl \<and> cUnknownEKU ct = cUnknownEKU tmpl \<and>
     xNotBefore ct = whole_second (xNotBefore tmpl) \<and> xNotAfter ct = whole_second (xNotAfter tmpl) \<and>
     xKeyUsage ct = xKeyUsage tmpl \<and> xExtKeyUsage ct = xExtKeyUsage tmpl \<and>
     (xBasicConstraintsValid tmpl \<longrightarrow> xIsCA ct = xIsCA tmpl \<and>
        (xMaxPathLenZero tmpl \<and> xMaxPathLen tmpl = 0 \<longrightarrow> xMaxPathLen ct = 0 \<and> xMaxPathLenZero ct)) \<and>
     xPublicKey ct = Some pk \<and> xDNSNames ct = xDNSNames tmpl"

definition x509_ok :: "('sk, 'pk) pki \<Rightarrow> bool" where
  "x509_ok k \<longleftrightarrow> (\<forall>rnd tmpl parent pk sk der. x509Create k rnd tmpl parent pk sk = Inr der \<longrightarrow>
     x509Signed k (mldsaPublic k sk) der \<and> (\<forall>ct. x509Parse k der = Inr ct \<longrightarrow> reads_as tmpl pk der ct))"

definition pem_ok :: "('sk, 'pk) pki \<Rightarrow> bool" where
  "pem_ok k \<longleftrightarrow> (\<forall>typ \<in> {pemTypeCertificate, pemTypeMLDSAKey}. \<forall>bytes.
     pemDecode k (pemEncode k typ bytes) = Some (typ, bytes))"

definition pkcs8_ok :: "('sk, 'pk) pki \<Rightarrow> bool" where
  "pkcs8_ok k \<longleftrightarrow> (\<forall>sk der. pkcs8Marshal k sk = Inr der \<longrightarrow> pkcs8Parse k der = Inr (MLDSAKey sk))"

definition draw_ok :: "(nat \<Rightarrow> nat result) \<Rightarrow> bool" where
  "draw_ok draw \<longleftrightarrow> (\<forall>bound n. draw bound = Inr n \<longrightarrow> n < bound)"

section \<open>What the parts give\<close>

lemma newSerial_bounds: "newSerial draw = Inr n \<Longrightarrow> draw_ok draw \<Longrightarrow> 0 < n \<and> n < 2 ^ 128"
  by (fastforce simp: newSerial_def draw_ok_def serialLimit_def serialBits_def split: sum.splits)

lemma buildBundle_Inr:
  assumes "buildBundle k der key = Inr b" and "pem_ok k" and "pkcs8_ok k"
  shows "x509Parse k der = Inr (bdCert b) \<and> ParseCertificate k (bdCertPEM b) = Inr (bdCert b) \<and>
    (\<exists>block. pemDecode k (bdKeyPEM b) = Some block \<and> parsePrivateKey k block = Inr key)"
proof -
  obtain ct keyDER where p: "x509Parse k der = Inr ct" "pkcs8Marshal k key = Inr keyDER"
    "b = \<lparr>bdCert = ct, bdCertPEM = pemEncode k pemTypeCertificate der, bdKeyPEM = pemEncode k pemTypeMLDSAKey keyDER\<rparr>"
    using assms(1) by (auto simp: buildBundle_def split: sum.splits)
  have "pemDecode k (bdCertPEM b) = Some (pemTypeCertificate, der)"
    "pemDecode k (bdKeyPEM b) = Some (''PRIVATE KEY'', keyDER)"
    using assms(2) p(3) by (simp_all add: pem_ok_def pemTypeMLDSAKey_def)
  then show ?thesis
    using assms(3) p by (simp add: ParseCertificate_def parsePrivateKey_def pkcs8_ok_def)
qed

lemma Load_Inr:
  assumes "Load k certPEM keyPEM = Inr c"
  shows "ParseCertificate k certPEM = Inr (caCert c) \<and> caCertPEM c = certPEM \<and> xIsCA (caCert c) \<and>
    xPublicKey (caCert c) = Some (mldsaPublic k (caKey c))"
  using assms by (auto simp: Load_def split: sum.splits option.splits if_splits)

lemma Load_bundle:
  assumes "buildBundle k der key = Inr b" and "pem_ok k" and "pkcs8_ok k"
  shows "Load k (bdCertPEM b) (bdKeyPEM b) =
     (if \<not> xIsCA (bdCert b) then Inl (Msg (''certificate '' @ go_quote (cCN (bdCert b)) @ '' is not a CA certificate''))
      else if xPublicKey (bdCert b) \<noteq> Some (mldsaPublic k key) then Inl (Msg ''CA Key does not match CA certificate'')
      else Inr \<lparr>caCert = bdCert b, caCertPEM = bdCertPEM b, caKey = key\<rparr>)"
  using buildBundle_Inr [OF assms] by (auto simp: Load_def)

lemma reads_signed:
  assumes "x509Create k rnd tmpl parent pk sk = Inr der" and "x509Parse k der = Inr ct" and "x509_ok k"
  shows "reads_as tmpl pk der ct \<and> x509Signed k (mldsaPublic k sk) (cRaw ct)"
proof -
  have "reads_as tmpl pk der ct" "x509Signed k (mldsaPublic k sk) der"
    using assms unfolding x509_ok_def by blast+
  then show ?thesis by (simp add: reads_as_def)
qed

lemma Init_Inr:
  assumes "Init k gen draw rnd now cn validity = Inr b"
  obtains key tmpl der where "gen = Inr key"
    and "defineCertificate draw now cn (if validity \<le> 0 then DefaultCAValidity else validity) = Inr tmpl"
    and "x509Create k rnd tmpl tmpl (mldsaPublic k key) key = Inr der" and "buildBundle k der key = Inr b"
  using assms that by (auto simp: Init_def Let_def signCertificate_def split: sum.splits if_split_asm)

definition with_default :: "issue_request \<Rightarrow> issue_request" where
  "with_default request = (if rqValidity request \<le> 0 then request\<lparr>rqValidity := DefaultDeviceValidity\<rparr> else request)"

lemma with_default_simps [simp]:
  "rqCommonName (with_default r) = rqCommonName r" "rqServer (with_default r) = rqServer r"
  "rqAdmin (with_default r) = rqAdmin r" "rqDNSNames (with_default r) = rqDNSNames r" "rqValidity (with_default r) > 0"
  by (simp_all add: with_default_def DefaultDeviceValidity_def go_second_def)

lemma Issue_Inr:
  assumes "Issue k gen draw rnd now c request = Inr b"
  obtains key serial der where "rqCommonName request \<noteq> []"
    and "now + rqValidity (with_default request) \<le> xNotAfter (caCert c)"
    and "gen = Inr key" and "newSerial draw = Inr serial"
    and "x509Create k rnd (issue_template now serial (with_default request)) (caCert c) (mldsaPublic k key) (caKey c) = Inr der"
    and "buildBundle k der key = Inr b"
  using assms that unfolding Issue_def Let_def with_default_def [symmetric]
  by (auto split: sum.splits if_split_asm)

text \<open>A bundle that \<open>Init\<close> gives loads again, with the key that was generated.\<close>

lemma Init_bundle:
  assumes "Init k gen draw rnd now cn validity = Inr b" and "x509_ok k" and "pem_ok k" and "pkcs8_ok k"
  shows "\<exists>key. gen = Inr key \<and> cCN (bdCert b) = cn \<and>
    Load k (bdCertPEM b) (bdKeyPEM b) = Inr \<lparr>caCert = bdCert b, caCertPEM = bdCertPEM b, caKey = key\<rparr>"
proof -
  obtain key tmpl der where i: "gen = Inr key"
    "defineCertificate draw now cn (if validity \<le> 0 then DefaultCAValidity else validity) = Inr tmpl"
    "x509Create k rnd tmpl tmpl (mldsaPublic k key) key = Inr der" "buildBundle k der key = Inr b"
    using Init_Inr [OF assms(1)] .
  have "x509Parse k der = Inr (bdCert b)" using buildBundle_Inr [OF i(4) assms(3,4)] by blast
  note r = reads_signed [OF i(3) this assms(2)]
  have "xIsCA tmpl" "cCN tmpl = cn" "xBasicConstraintsValid tmpl"
    using i(2) by (auto simp: defineCertificate_def split: sum.splits)
  then show ?thesis using r i(1) Load_bundle [OF i(4) assms(3,4)] by (simp add: reads_as_def)
qed

section \<open>Properties\<close>

lemma whole_second_le: "whole_second t \<le> t" "t < whole_second t + go_second"
proof -
  have "whole_second t = t - t mod go_second" by (simp add: whole_second_def minus_mod_eq_div_mult)
  moreover have "0 \<le> t mod go_second" "t mod go_second < go_second" by (simp_all add: go_second_def)
  ultimately show "whole_second t \<le> t" "t < whole_second t + go_second" by simp_all
qed

text \<open>
  A new CA can be loaded. What \<open>Init\<close> writes out, \<open>Load\<close> reads back as the same
  certificate with the key that was generated. The certificate is self-signed, for the name
  asked for, may sign certificates but no further CAs, has a positive serial of at most 128
  bits and lasts, to the second, as long as asked, or ten years if nothing sensible was.
\<close>

theorem init_loads:
  assumes "Init k gen draw rnd now cn validity = Inr b"
    and "x509_ok k" and "pem_ok k" and "pkcs8_ok k" and "draw_ok draw"
  shows "\<exists>key. gen = Inr key \<and>
    Load k (bdCertPEM b) (bdKeyPEM b) = Inr \<lparr>caCert = bdCert b, caCertPEM = bdCertPEM b, caKey = key\<rparr> \<and>
    x509Signed k (mldsaPublic k key) (cRaw (bdCert b)) \<and> cn \<noteq> [] \<and> cCN (bdCert b) = cn \<and>
    xIsCA (bdCert b) \<and> xMaxPathLen (bdCert b) = 0 \<and> xMaxPathLenZero (bdCert b) \<and>
    bit (xKeyUsage (bdCert b)) 5 \<and> xExtKeyUsage (bdCert b) = [] \<and>
    0 < cSerial (bdCert b) \<and> cSerial (bdCert b) < 2 ^ 128 \<and>
    xNotAfter (bdCert b) = whole_second (now + (if validity \<le> 0 then 10 * 365 * 24 * 3600 * go_second else validity))"
proof -
  obtain key tmpl der where i: "gen = Inr key"
    "defineCertificate draw now cn (if validity \<le> 0 then DefaultCAValidity else validity) = Inr tmpl"
    "x509Create k rnd tmpl tmpl (mldsaPublic k key) key = Inr der" "buildBundle k der key = Inr b"
    using Init_Inr [OF assms(1)] .
  have "cn \<noteq> []" using assms(1) by (auto simp: Init_def)
  have "x509Parse k der = Inr (bdCert b)" using buildBundle_Inr [OF i(4) assms(3,4)] by blast
  note r = reads_signed [OF i(3) this assms(2)]
  obtain serial where n: "newSerial draw = Inr serial" using i(2) by (auto simp: defineCertificate_def split: sum.splits)
  then have t: "tmpl = \<lparr>cRaw = [], cCN = cn, cSerial = serial, cUnknownEKU = [],
               xNotBefore = now - clock_skew, xNotAfter = now + (if validity \<le> 0 then DefaultCAValidity else validity),
               xKeyUsage = or (or KeyUsageCertSign KeyUsageCRLSign) KeyUsageDigitalSignature,
               xExtKeyUsage = [], xBasicConstraintsValid = True, xIsCA = True,
               xMaxPathLen = 0, xMaxPathLenZero = True,
               xPublicKey = None, xDNSNames = [], xIPs = []\<rparr>"
    using i(2) by (simp add: defineCertificate_def)
  have "bit (xKeyUsage tmpl) 5"
    by (simp add: t KeyUsageCertSign_def KeyUsageCRLSign_def KeyUsageDigitalSignature_def bit_or_iff)
  then show ?thesis
    using r i(1) Load_bundle [OF i(4) assms(3,4)] newSerial_bounds [OF n assms(5)] \<open>cn \<noteq> []\<close>
    by (auto simp: reads_as_def t DefaultCAValidity_def)
qed

text \<open>
  C17: An issued certificate can do what was asked for and no more. Under a loaded CA, what
  \<open>Issue\<close> gives is signed by the CA's key, carries the name asked for and a positive serial of
  at most 128 bits, is good for clients or for servers but never for both, is an admin's
  exactly if that was asked for, is no CA, and expires no later than the CA does; its files
  read back as the certificate and a key for it, and \<open>Load\<close> refuses it as a CA with any key.
\<close>

theorem issue_grants_what_was_asked:
  assumes "Load k certPEM keyPEM = Inr c" and "Issue k gen draw rnd now c request = Inr b"
    and "x509_ok k" and "pem_ok k" and "pkcs8_ok k" and "draw_ok draw"
  shows "(\<exists>pk. xPublicKey (caCert c) = Some pk \<and> x509Signed k pk (cRaw (bdCert b))) \<and>
    cCN (bdCert b) = rqCommonName request \<and> rqCommonName request \<noteq> [] \<and>
    0 < cSerial (bdCert b) \<and> cSerial (bdCert b) < 2 ^ 128 \<and>
    xExtKeyUsage (bdCert b) = [if rqServer request then ExtKeyUsageServerAuth else ExtKeyUsageClientAuth] \<and>
    (HasAdminEKU (Some (cert.truncate (bdCert b))) \<longleftrightarrow> rqAdmin request) \<and> \<not> xIsCA (bdCert b) \<and>
    xNotAfter (bdCert b) \<le> xNotAfter (caCert c) \<and> now < xNotAfter (bdCert b) + go_second \<and>
    ParseCertificate k (bdCertPEM b) = Inr (bdCert b) \<and>
    (\<exists>block key. pemDecode k (bdKeyPEM b) = Some block \<and> parsePrivateKey k block = Inr key \<and>
       xPublicKey (bdCert b) = Some (mldsaPublic k key)) \<and>
    (\<forall>otherKey. \<exists>e. Load k (bdCertPEM b) otherKey = Inl e)"
proof -
  obtain key serial der where i: "rqCommonName request \<noteq> []"
    "now + rqValidity (with_default request) \<le> xNotAfter (caCert c)"
    "gen = Inr key" "newSerial draw = Inr serial"
    "x509Create k rnd (issue_template now serial (with_default request)) (caCert c) (mldsaPublic k key) (caKey c) = Inr der"
    "buildBundle k der key = Inr b"
    using Issue_Inr [OF assms(2)] .
  note b = buildBundle_Inr [OF i(6) assms(4,5)]
  note r = reads_signed [OF i(5) conjunct1 [OF b] assms(3)]
  have "xNotAfter (bdCert b) = whole_second (now + rqValidity (with_default request))"
    using r by (simp add: reads_as_def issue_template_def)
  then have "xNotAfter (bdCert b) \<le> xNotAfter (caCert c)" "now < xNotAfter (bdCert b) + go_second"
    using i(2) whole_second_le [of "now + rqValidity (with_default request)"] with_default_simps(5) [of request] by linarith+
  moreover have "cUnknownEKU (bdCert b) = (if rqAdmin request then [AdminEKU] else [])" "\<not> xIsCA (bdCert b)"
    using r by (simp_all add: reads_as_def issue_template_def)
  moreover from this have "\<exists>e. Load k (bdCertPEM b) otherKey = Inl e" for otherKey
    using b by (simp add: Load_def)
  ultimately show ?thesis
    using r b Load_Inr [OF assms(1)] newSerial_bounds [OF i(4) assms(6)] i(1)
    by (auto simp: reads_as_def issue_template_def HasAdminEKU_iff cert.truncate_def)
qed

section \<open>The directory's view\<close>

text \<open>The directory reads its files with \<open>ParseCertificate\<close> and looks at the common fields.\<close>

definition ca_parses :: "ca_os \<Rightarrow> ('sk, 'pk) pki \<Rightarrow> bool" where
  "ca_parses os k \<longleftrightarrow> (\<forall>pem. parseCertificate os pem = map_sum id cert.truncate (ParseCertificate k pem))"

text \<open>An issued certificate as the directory reads it.\<close>

lemma Issue_common:
  assumes "Issue k gen draw rnd now c request = Inr b"
    and "x509_ok k" and "pem_ok k" and "pkcs8_ok k" and "draw_ok draw" and "ca_parses os k"
  shows "parseCertificate os (bdCertPEM b) = Inr (cert.truncate (bdCert b))"
    and "cCN (cert.truncate (bdCert b)) = rqCommonName request"
    and "0 < cSerial (cert.truncate (bdCert b))" and "cSerial (cert.truncate (bdCert b)) < 2 ^ 128"
proof -
  obtain key serial der where i: "newSerial draw = Inr serial"
    "x509Create k rnd (issue_template now serial (with_default request)) (caCert c) (mldsaPublic k key) (caKey c) = Inr der"
    "buildBundle k der key = Inr b"
    by (rule Issue_Inr [OF assms(1)])
  note b = buildBundle_Inr [OF i(3) assms(3,4)]
  have r: "cCN (bdCert b) = rqCommonName request" "cSerial (bdCert b) = serial"
    using reads_signed [OF i(2) conjunct1 [OF b] assms(2)] by (simp_all add: reads_as_def issue_template_def)
  show "parseCertificate os (bdCertPEM b) = Inr (cert.truncate (bdCert b))"
    using b assms(6) by (simp add: ca_parses_def)
  show "cCN (cert.truncate (bdCert b)) = rqCommonName request"
    "0 < cSerial (cert.truncate (bdCert b))" "cSerial (cert.truncate (bdCert b)) < 2 ^ 128"
    using r newSerial_bounds [OF i(1) assms(5)] by (simp_all add: cert.truncate_def)
qed

text \<open>Serials that were issued: the directory holds no others before a certificate is added.\<close>

definition serials_ok :: "ca_os \<Rightarrow> ca_fs \<Rightarrow> bool" where
  "serials_ok os fs \<longleftrightarrow> (\<forall>d name ct. cert_at os d fs name ct \<longrightarrow> 0 < cSerial ct \<and> cSerial ct < 2 ^ 128)"

lemma Store_issued:
  assumes "Store os ct pem fs = (None, fs')" and "parseCertificate os pem = Inr ct"
  shows "cert_at os IssuedDir fs' (cert_file ct) ct"
    and "serials_ok os fs \<Longrightarrow> 0 < cSerial ct \<Longrightarrow> cSerial ct < 2 ^ 128 \<Longrightarrow> serials_ok os fs'"
proof -
  note at = Store_ok(1) [OF assms(1)]
  show "cert_at os IssuedDir fs' (cert_file ct) ct" using at assms(2) by (simp add: cert_at_def)
  assume ok: "serials_ok os fs" "0 < cSerial ct" "cSerial ct < 2 ^ 128"
  have "0 < cSerial x \<and> cSerial x < 2 ^ 128" if x: "cert_at os d fs' name x" for d name x
  proof (cases "(d, name) = (IssuedDir, cert_file ct)")
    case True
    then have "x = ct" using x assms(2) at by (auto simp: cert_at_def)
    then show ?thesis using ok by simp
  next
    case False
    then have "cert_at os d fs name x" using x at by (auto simp: cert_at_def)
    then show ?thesis using ok(1) unfolding serials_ok_def by blast
  qed
  then show "serials_ok os fs'" unfolding serials_ok_def by blast
qed

lemma show_hex_length: "n < 16 ^ Suc d \<Longrightarrow> length (show_hex n) \<le> Suc d"
proof (induction d arbitrary: n)
  case (Suc d)
  then have "n div 16 < 16 ^ Suc d" by (simp add: less_mult_imp_div_less mult.commute)
  then show ?case using Suc.IH [of "n div 16"] by (subst show_hex.simps) simp
qed (subst show_hex.simps, simp)

lemma serial_text_short: "cSerial ct < 2 ^ 128 \<Longrightarrow> length (serial_text ct) < maxTokenSize"
  using show_hex_length [of "cSerial ct" 31] by (simp add: serial_text_def maxTokenSize_def)

lemma moved_serials:
  assumes "moved M fs fs'" and "serials_ok os fs" and "cert_at os RevokedDir fs' name x"
  shows "cSerial x > 0 \<and> length (serial_text x) < maxTokenSize"
proof -
  have "cert_at os (if name \<in> M then IssuedDir else RevokedDir) fs name x"
    using assms(1,3) by (auto simp: moved_def cert_at_def)
  then have "0 < cSerial x \<and> cSerial x < 2 ^ 128" using assms(2) unfolding serials_ok_def by blast
  then show ?thesis using serial_text_short by blast
qed

lemma ca_List_issued:
  assumes "ca_List os fs = Inr listed" and "os_honest os" and "cert_at os IssuedDir fs name ct"
  shows "\<exists>l \<in> set listed. lcCert l = ct \<and> \<not> lcRevoked l"
proof -
  obtain found rest where l: "readCertDir os IssuedDir fs = Inr found" "listed = found @ rest"
    using assms(1) by (auto simp: ca_List_def split: sum.splits)
  then have "\<lparr>lcCert = ct, lcRevoked = False, lcName = name\<rparr> \<in> set listed"
    using readCertDir_Inr [OF l(1) assms(2)] assms(3) by simp
  then show ?thesis by force
qed

section \<open>A concrete instance\<close>

text \<open>A small encoder that knows a root and one device certificate.\<close>

definition sample_root_template :: "byte x509_cert" where
  "sample_root_template =
     \<lparr>cRaw = [], cCN = ''root'', cSerial = 5, cUnknownEKU = [], xNotBefore = - clock_skew,
      xNotAfter = 3600 * go_second, xKeyUsage = or (or KeyUsageCertSign KeyUsageCRLSign) KeyUsageDigitalSignature,
      xExtKeyUsage = [], xBasicConstraintsValid = True, xIsCA = True, xMaxPathLen = 0, xMaxPathLenZero = True,
      xPublicKey = None, xDNSNames = [], xIPs = []\<rparr>"

definition sample_request :: issue_request where
  "sample_request = \<lparr>rqCommonName = ''laptop'', rqValidity = 60 * go_second, rqServer = False, rqAdmin = True,
     rqDNSNames = [], rqIPs = []\<rparr>"

definition sample_root :: "byte x509_cert" where
  "sample_root = sample_root_template\<lparr>cRaw := [1], xPublicKey := Some 1\<rparr>"

definition sample_device :: "byte x509_cert" where
  "sample_device = (issue_template 0 7 sample_request)\<lparr>cRaw := [2], xPublicKey := Some 2\<rparr>"

definition sample_pki :: "(byte, byte) pki" where
  "sample_pki =
     \<lparr>mldsaPublic = id,
      x509Create = (\<lambda>rnd tmpl parent pk sk.
        if (tmpl, pk, sk) = (sample_root_template, 1, 1) then Inr [1]
        else if (tmpl, pk, sk) = (issue_template 0 7 sample_request, 2, 1) then Inr [2] else Inl (Fault 1)),
      x509Parse = (\<lambda>der. if der = [1] then Inr sample_root else if der = [2] then Inr sample_device else Inl (Fault 2)),
      x509Signed = (\<lambda>pk der. pk = 1),
      pkcs8Marshal = (\<lambda>sk. Inr [sk]),
      pkcs8Parse = (\<lambda>der. case der of [] \<Rightarrow> Inl (Fault 3) | b # r \<Rightarrow> Inr (MLDSAKey b)),
      pemEncode = (\<lambda>typ bytes. (if typ = pemTypeCertificate then 1 else 2) # bytes),
      pemDecode = (\<lambda>bs. case bs of [] \<Rightarrow> None
        | t # r \<Rightarrow> Some (if t = 1 then pemTypeCertificate else pemTypeMLDSAKey, r)),
      timeRFC3339 = (\<lambda>t. [])\<rparr>"

lemma sample_pki_ok: "x509_ok sample_pki" "pem_ok sample_pki" "pkcs8_ok sample_pki"
  by (auto simp: x509_ok_def pem_ok_def pkcs8_ok_def sample_pki_def reads_as_def sample_root_def sample_device_def
      sample_root_template_def issue_template_def sample_request_def whole_second_def clock_skew_def go_second_def
      pemTypeCertificate_def pemTypeMLDSAKey_def split: if_splits)

lemma sample_draw_ok: "n < 10 \<Longrightarrow> draw_ok (\<lambda>bound. if 10 < bound then Inr n else Inl (Fault 1))"
  by (auto simp: draw_ok_def split: if_splits)

lemma sample_init:
  "Init sample_pki (Inr 1) (\<lambda>bound. if 10 < bound then Inr 4 else Inl (Fault 1)) 0 0 ''root'' (3600 * go_second) =
     Inr \<lparr>bdCert = sample_root, bdCertPEM = [1, 1], bdKeyPEM = [2, 1]\<rparr>"
  by (simp add: Init_def defineCertificate_def newSerial_def signCertificate_def buildBundle_def sample_pki_def
      sample_root_template_def serialLimit_def serialBits_def go_second_def pemTypeCertificate_def pemTypeMLDSAKey_def)

lemma init_loads_witness:
  "\<exists>b. Init sample_pki (Inr 1) (\<lambda>bound. if 10 < bound then Inr 4 else Inl (Fault 1)) 0 0 ''root'' (3600 * go_second) = Inr b \<and>
     Load sample_pki (bdCertPEM b) (bdKeyPEM b) = Inr \<lparr>caCert = bdCert b, caCertPEM = bdCertPEM b, caKey = 1\<rparr> \<and>
     cSerial (bdCert b) < 2 ^ 128"
  using init_loads [OF sample_init sample_pki_ok sample_draw_ok] sample_init by auto

definition sample_ca :: "(byte, byte) ca" where
  "sample_ca = \<lparr>caCert = sample_root, caCertPEM = [1, 1], caKey = 1\<rparr>"

lemma sample_load: "Load sample_pki [1, 1] [2, 1] = Inr sample_ca"
  by (simp add: Load_def ParseCertificate_def parsePrivateKey_def sample_pki_def sample_ca_def sample_root_def
      sample_root_template_def pemTypeCertificate_def pemTypeMLDSAKey_def)

lemma sample_issue:
  "Issue sample_pki (Inr 2) (\<lambda>bound. if 10 < bound then Inr 6 else Inl (Fault 1)) 0 0 sample_ca sample_request =
     Inr \<lparr>bdCert = sample_device, bdCertPEM = [1, 2], bdKeyPEM = [2, 2]\<rparr>"
  by (simp add: Issue_def newSerial_def buildBundle_def sample_pki_def sample_ca_def sample_root_def sample_request_def
      sample_root_template_def issue_template_def serialLimit_def serialBits_def go_second_def pemTypeCertificate_def
      pemTypeMLDSAKey_def)

lemma issue_grants_what_was_asked_witness:
  "\<exists>b. Issue sample_pki (Inr 2) (\<lambda>bound. if 10 < bound then Inr 6 else Inl (Fault 1)) 0 0 sample_ca sample_request = Inr b \<and>
     HasAdminEKU (Some (cert.truncate (bdCert b))) \<and> xExtKeyUsage (bdCert b) = [ExtKeyUsageClientAuth] \<and>
     (\<exists>e. Load sample_pki (bdCertPEM b) [2, 2] = Inl e)"
  using issue_grants_what_was_asked [OF sample_load sample_issue sample_pki_ok sample_draw_ok] sample_issue
  by (auto simp: sample_request_def)

definition sample_pki_os :: ca_os where
  "sample_pki_os = sample_os\<lparr>parseCertificate := \<lambda>pem. map_sum id cert.truncate (ParseCertificate sample_pki pem)\<rparr>"

definition sample_empty :: ca_fs where
  "sample_empty = \<lparr>fsPath = ''ca'', fsIssued = None, fsRevoked = None\<rparr>"

end
