(* ===== verification/Cli_Secrets.thy ===== *)
theory Cli_Secrets
  imports Cli_Config Cli_Output Credentials
begin

text \<open>
  How the commands take secrets in and give them out (\<^verbatim>\<open>cmd/ggrok/secrets.go\<close>,
  \<^verbatim>\<open>credentials.go\<close>, and the parts of \<^verbatim>\<open>share.go\<close> and \<^verbatim>\<open>listen.go\<close> that choose between
  flags, files and the environment). The disk is a map from paths to contents; each system call
  that can fail has its outcome in \<open>cli_os\<close>.
\<close>

section \<open>Reading a secret\<close>

definition stdioPath :: string where "stdioPath = ''-''"
definition maxSecretBytes :: nat where "maxSecretBytes = 4096"

text \<open>What a reader delivers: bytes, then the end or an error.\<close>

type_synonym source = "string \<times> error option"

record secret_src =
  srcStdin :: source
  srcOpen :: "string \<Rightarrow> source result"

text \<open>\<open>io.ReadAll(io.LimitReader(r, n))\<close>.\<close>

definition read_limited :: "nat \<Rightarrow> source \<Rightarrow> string result" where
  "read_limited n r =
     (if length (fst r) \<ge> n then Inr (take n (fst r))
      else case snd r of Some e \<Rightarrow> Inl e | None \<Rightarrow> Inr (fst r))"

definition read_secret :: "source \<Rightarrow> string result" where
  "read_secret r =
     (case read_limited (maxSecretBytes + 1) r of
        Inl e \<Rightarrow> Inl (wrap ''read secret'' e)
      | Inr bytes \<Rightarrow>
          if length bytes > maxSecretBytes
          then Inl (Msg (''secret exceeds '' @ show_nat maxSecretBytes @ '' bytes''))
          else let secret = TrimSpace bytes
               in if secret = [] then Inl (Msg ''secret file is empty'') else Inr secret)"

definition readSecretFile :: "go_env \<Rightarrow> secret_src \<Rightarrow> string \<Rightarrow> string result" where
  "readSecretFile env src path =
     (if path = stdioPath then read_secret (srcStdin src)
      else case expandHome env path of
             Inl e \<Rightarrow> Inl e
           | Inr p \<Rightarrow>
               (case srcOpen src p of
                  Inl e \<Rightarrow> Inl (wrap ''read secret file'' e)
                | Inr r \<Rightarrow> read_secret r))"

section \<open>Creating files\<close>

type_synonym 'b disk = "(string, 'b list) gomap"

record cli_os =
  crMkdirErr :: "string \<Rightarrow> error option"
  crOpenErr :: "string \<Rightarrow> error option"
  crWriteErr :: "string \<Rightarrow> (nat \<times> error) option"
  crCloseErr :: "string \<Rightarrow> error option"
  crRemoveErr :: "string \<Rightarrow> error option"
  crStdoutErr :: "error option"

text \<open>\<open>os.OpenFile\<close> with \<open>O_CREATE | O_EXCL\<close>, \<open>Write\<close> and \<open>os.Remove\<close>.\<close>

definition create_excl :: "cli_os \<Rightarrow> string \<Rightarrow> 'b disk \<Rightarrow> error option \<times> 'b disk" where
  "create_excl os path d =
     (case crOpenErr os path of
        Some e \<Rightarrow> (Some e, d)
      | None \<Rightarrow> if gm_has d path then (Some (Msg (''open '' @ path @ '': file exists'')), d) else (None, gm_set path [] d))"

definition file_write :: "cli_os \<Rightarrow> string \<Rightarrow> 'b list \<Rightarrow> 'b disk \<Rightarrow> error option \<times> 'b disk" where
  "file_write os path bytes d =
     (case crWriteErr os path of
        None \<Rightarrow> (None, gm_set path bytes d)
      | Some (k, e) \<Rightarrow> (Some e, gm_set path (take k bytes) d))"

definition file_remove :: "cli_os \<Rightarrow> string \<Rightarrow> 'b disk \<Rightarrow> 'b disk" where
  "file_remove os path d = (case crRemoveErr os path of None \<Rightarrow> gm_del path d | Some e \<Rightarrow> d)"

text \<open>The error, the disk and what standard output gets.\<close>

definition writeSecretFile ::
  "go_env \<Rightarrow> cli_os \<Rightarrow> string \<Rightarrow> string \<Rightarrow> char disk \<Rightarrow> error option \<times> char disk \<times> string" where
  "writeSecretFile env os path secret d =
     (if path = stdioPath then (crStdoutErr os, d, secret @ [CHR 0x0A])
      else case expandHome env path of
             Inl e \<Rightarrow> (Some e, d, [])
           | Inr p \<Rightarrow>
               (case create_excl os p d of
                  (Some e, d1) \<Rightarrow> (Some (wrap ''write token file'' e), d1, [])
                | (None, d1) \<Rightarrow>
                    (case file_write os p (secret @ [CHR 0x0A]) d1 of
                       (Some e, d2) \<Rightarrow> (Some (wrap ''write token file'' e), d2, [])
                     | (None, d2) \<Rightarrow> (crCloseErr os p, d2, []))))"

section \<open>writeCredentials\<close>

text \<open>
  Go visits the map of contents, then the map of open files, in orders of its choosing:
  \<open>ord1\<close> and \<open>ord2\<close>. The reserved names are collected for the clean-up.
\<close>

fun reserve_all ::
  "cli_os \<Rightarrow> string \<Rightarrow> string list \<Rightarrow> string list \<Rightarrow> 'b disk \<Rightarrow> error option \<times> string list \<times> 'b disk" where
  "reserve_all os dir [] reserved d = (None, reserved, d)"
| "reserve_all os dir (name # names) reserved d =
     (case create_excl os (path_Join [dir, name]) d of
        (Some e, d1) \<Rightarrow>
          (Some (wrap (''reserve credential '' @ name @ '' (use a fresh output directory)'') e), reserved, d1)
      | (None, d1) \<Rightarrow> reserve_all os dir names (reserved @ [name]) d1)"

fun write_all ::
  "cli_os \<Rightarrow> string \<Rightarrow> (string, 'b list) gomap \<Rightarrow> string list \<Rightarrow> 'b disk \<Rightarrow> error option \<times> 'b disk" where
  "write_all os dir contents [] d = (None, d)"
| "write_all os dir contents (name # names) d =
     (let path = path_Join [dir, name]
      in case file_write os path (case gm_get contents name of None \<Rightarrow> [] | Some bs \<Rightarrow> bs) d of
           (Some e, d1) \<Rightarrow> (Some (wrap (''write credential '' @ name) e), d1)
         | (None, d1) \<Rightarrow>
             (case crCloseErr os path of
                Some e \<Rightarrow> (Some (wrap (''close credential '' @ name) e), d1)
              | None \<Rightarrow> write_all os dir contents names d1))"

definition clean_up :: "cli_os \<Rightarrow> string \<Rightarrow> string list \<Rightarrow> 'b disk \<Rightarrow> 'b disk" where
  "clean_up os dir names d = fold (\<lambda>name. file_remove os (path_Join [dir, name])) names d"

definition writeCredentials ::
  "cli_os \<Rightarrow> string list \<Rightarrow> string list \<Rightarrow> string \<Rightarrow> (string, 'b list) gomap \<Rightarrow> 'b disk \<Rightarrow> error option \<times> 'b disk" where
  "writeCredentials os ord1 ord2 dir contents d =
     (case crMkdirErr os dir of
        Some e \<Rightarrow> (Some (wrap ''create credential directory'' e), d)
      | None \<Rightarrow>
          (case reserve_all os dir ord1 [] d of
             (Some e, reserved, d1) \<Rightarrow> (Some e, clean_up os dir reserved d1)
           | (None, reserved, d1) \<Rightarrow>
               (case write_all os dir contents ord2 d1 of
                  (Some e, d2) \<Rightarrow> (Some e, clean_up os dir reserved d2)
                | (None, d2) \<Rightarrow> (None, d2))))"

section \<open>The subscriber token\<close>

text \<open>The text, and whether a warning about the positional form is printed.\<close>

definition resolveSubscriberToken ::
  "go_env \<Rightarrow> secret_src \<Rightarrow> string list \<Rightarrow> string \<Rightarrow> string \<Rightarrow> string result \<times> bool" where
  "resolveSubscriberToken env src args tokenStr tokenFile =
     (if length args > 1 then (Inl (Msg ''at most one token argument is accepted''), False)
      else if tokenFile \<noteq> [] then (readSecretFile env src tokenFile, False)
      else if tokenStr \<noteq> [] then (Inr tokenStr, False)
      else if envVar env ''GGROK_TOKEN'' \<noteq> [] then (Inr (envVar env ''GGROK_TOKEN''), False)
      else if length args = 1 then (Inr (hd args), True)
      else (Inl (Msg ''a subscriber token is required (-token-file, -token, or GGROK_TOKEN)''), False))"

definition suggestedListenAddr :: "'ip netip \<Rightarrow> 'ip port_range \<Rightarrow> string" where
  "suggestedListenAddr np addr =
     (if range_Len addr \<le> 1 then ''127.0.0.1:0''
      else case SplitHostPort (range_String np addr) of
             Inl e \<Rightarrow> range_String np addr
           | Inr (_, ports) \<Rightarrow> JoinHostPort ''127.0.0.1'' ports)"

record share_output =
  soDisk :: "char disk"
  soStdout :: string
  soStderr :: string

definition reportToken ::
  "'ip netip \<Rightarrow> go_env \<Rightarrow> cli_os \<Rightarrow> palette \<Rightarrow> palette \<Rightarrow> bool \<Rightarrow> string \<Rightarrow> 'ip port_range \<Rightarrow> 'ip hostPort \<Rightarrow>
   subscriber_token \<Rightarrow> share_output \<Rightarrow> error option \<times> share_output" where
  "reportToken np env os pOut pErr stdoutIsTerminal tokenOut addr server tok o0 =
     (if tokenOut \<noteq> []
      then case writeSecretFile env os tokenOut (SubscriberToken_String tok) (soDisk o0) of
             (Some e, d, out) \<Rightarrow> (Some e, o0\<lparr>soDisk := d, soStdout := soStdout o0 @ out\<rparr>)
           | (None, d, out) \<Rightarrow>
               (None, o0\<lparr>soDisk := d, soStdout := soStdout o0 @ out,
                  soStderr := soStderr o0 @
                    (if tokenOut \<noteq> stdioPath
                     then ''subscriber token written to '' @ bold pErr tokenOut @ [CHR 0x0A] else [])\<rparr>)
      else if \<not> stdoutIsTerminal
      then (Some (Msg (''refusing to print the subscriber token to a non-terminal stdout: '' @
                       ''pass -token-out <file>, or -token-out - to print it anyway'')), o0)
      else (None, o0\<lparr>soStdout := soStdout o0 @ ''subscriber token: '' @
              highlight pOut (SubscriberToken_String tok) @ [CHR 0x0A, CHR 0x0A] @
              ''To connect from another machine, run:'' @ [CHR 0x0A] @ ''  '' @
              cyan pOut (''GGROK_TOKEN='' @ SubscriberToken_String tok @ '' ggrok listen -tcp '' @
                suggestedListenAddr np addr @ '' -server '' @ hostPort_String np server) @ [CHR 0x0A, CHR 0x0A]\<rparr>))"

section \<open>What the flags come to\<close>

text \<open>\<open>newShareCommand\<close>'s and \<open>newListenCommand\<close>'s \<open>PreRunE\<close>; a missing \<open>-tcp\<close> is the empty range.\<close>

definition share_prerun ::
  "'ip netip \<Rightarrow> go_env \<Rightarrow> (string \<Rightarrow> byte list result) \<Rightarrow> (byte list \<Rightarrow> node_file_config result) \<Rightarrow> secret_src \<Rightarrow>
   conn_flags \<Rightarrow> 'ip port_range \<Rightarrow> string \<Rightarrow> string \<Rightarrow> ('ip node_conn_config \<times> session_key option) result" where
  "share_prerun np env readf unmarshal src flags addr keyStr keyFile =
     (case (if keyFile \<noteq> [] then readSecretFile env src keyFile else Inr keyStr) of
        Inl e \<Rightarrow> Inl e
      | Inr k \<Rightarrow>
          (let key = (if k = [] then envVar env ''GGROK_SESSION_KEY'' else k)
           in case finishConn np env readf unmarshal flags of
                Inl e \<Rightarrow> Inl e
              | Inr conn \<Rightarrow>
                  if range_Len addr = 0 then Inl (Msg ''-tcp <addr> is required'')
                  else if key = [] then Inr (conn, None)
                  else on_error (wrap ''invalid session key'')
                         (map_sum id (\<lambda>sk. (conn, Some sk)) (ParseSessionKey key))))"

definition listen_prerun ::
  "'ip netip \<Rightarrow> go_env \<Rightarrow> (string \<Rightarrow> byte list result) \<Rightarrow> (byte list \<Rightarrow> node_file_config result) \<Rightarrow> secret_src \<Rightarrow>
   conn_flags \<Rightarrow> 'ip port_range \<Rightarrow> string list \<Rightarrow> string \<Rightarrow> string \<Rightarrow>
   ('ip node_conn_config \<times> subscriber_token) result" where
  "listen_prerun np env readf unmarshal src flags addr args tokenStr tokenFile =
     (case finishConn np env readf unmarshal flags of
        Inl e \<Rightarrow> Inl e
      | Inr conn \<Rightarrow>
          if range_Len addr = 0 then Inl (Msg ''-tcp <addr> is required'')
          else case fst (resolveSubscriberToken env src args tokenStr tokenFile) of
                 Inl e \<Rightarrow> Inl e
               | Inr text \<Rightarrow>
                   on_error (wrap ''invalid subscriber token'')
                     (map_sum id (\<lambda>tok. (conn, tok)) (ParseSubscriberToken text)))"

section \<open>Where a credential goes\<close>

text \<open>A name that is one path element of its own.\<close>

definition plain_name :: "string \<Rightarrow> bool" where
  "plain_name n \<longleftrightarrow> n \<noteq> [] \<and> n \<noteq> ''.'' \<and> n \<noteq> ''..'' \<and> CHR ''/'' \<notin> set n"

lemma split_slash_not_Nil [simp]: "split_slash s \<noteq> []"
  by (induction s) (auto split: list.splits)

lemma split_slash_element: "CHR ''/'' \<notin> set n \<Longrightarrow> split_slash n = [n]"
  by (induction n) auto

lemma split_slash_append: "split_slash (a @ CHR ''/'' # b) = split_slash a @ split_slash b"
proof (induction a)
  case (Cons c a)
  show ?case
  proof (cases "c = CHR ''/''")
    case False
    obtain w ws where "split_slash a = w # ws" by (meson list.exhaust split_slash_not_Nil)
    with Cons False show ?thesis by simp
  qed (use Cons in simp)
qed simp

lemma join_slash_snoc: "join_slash (ws @ [n]) = (if ws = [] then [] else join_slash ws @ ''/'') @ n"
  by (induction ws rule: join_slash.induct) auto

text \<open>\<open>filepath.Join\<close> puts such a name behind a prefix that depends on the directory only.\<close>

lemma path_Clean_element:
  assumes "plain_name n"
  shows "path_Clean n = n" and
    "path_Clean (dir @ ''/'' @ n) =
      (let rooted = (dir = [] \<or> hd dir = CHR ''/''); ws = foldl (clean_step rooted) [] (split_slash dir)
       in (if rooted then ''/'' else []) @ (if ws = [] then [] else join_slash ws @ ''/'')) @ n"
proof -
  have n: "split_slash n = [n]" "n \<noteq> []" "hd n \<noteq> CHR ''/''"
    using assms split_slash_element by (auto simp: plain_name_def) (metis list.set_sel(1))
  have step: "clean_step r ws n = ws @ [n]" for r ws using assms by (simp add: clean_step_def plain_name_def)
  show "path_Clean n = n" using n by (simp add: path_Clean_def step Let_def)
  have "hd (dir @ ''/'' @ n) = (if dir = [] then CHR ''/'' else hd dir)" by (cases dir) simp_all
  then show "path_Clean (dir @ ''/'' @ n) =
      (let rooted = (dir = [] \<or> hd dir = CHR ''/''); ws = foldl (clean_step rooted) [] (split_slash dir)
       in (if rooted then ''/'' else []) @ (if ws = [] then [] else join_slash ws @ ''/'')) @ n"
    using n by (simp add: path_Clean_def split_slash_append step Let_def join_slash_snoc)
qed

lemma path_Join_element: "\<exists>p. \<forall>n. plain_name n \<longrightarrow> path_Join [dir, n] = p @ n"
proof (cases "dir = []")
  case True
  then have "\<forall>n. plain_name n \<longrightarrow> path_Join [dir, n] = [] @ n"
    by (auto simp: path_Join_def path_Clean_element plain_name_def)
  then show ?thesis by blast
next
  case False
  then have "path_Join [dir, n] = path_Clean (dir @ ''/'' @ n)" for n by (simp add: path_Join_def)
  then show ?thesis using path_Clean_element(2) by metis
qed

lemma path_Join_inj: "inj_on (\<lambda>n. path_Join [dir, n]) (Collect plain_name)"
proof -
  obtain p where "\<forall>n. plain_name n \<longrightarrow> path_Join [dir, n] = p @ n" using path_Join_element by blast
  then show ?thesis by (auto intro!: inj_onI)
qed

section \<open>All or nothing\<close>

text \<open>Two disks with the same files.\<close>

definition same_files :: "'b disk \<Rightarrow> 'b disk \<Rightarrow> bool" where
  "same_files d d' \<longleftrightarrow> gm_get d = gm_get d'"

lemma reserve_all_get:
  assumes "reserve_all os dir names reserved d = (err, reserved', d')"
  shows "\<exists>made. reserved' = reserved @ made \<and> (err = None \<longrightarrow> made = names) \<and> set made \<subseteq> set names \<and>
    (\<forall>n \<in> set made. gm_get d (path_Join [dir, n]) = None) \<and>
    (\<forall>p. gm_get d' p = (if p \<in> (\<lambda>n. path_Join [dir, n]) ` set made then Some [] else gm_get d p))"
  using assms
proof (induction names arbitrary: reserved d)
  case (Cons n names)
  show ?case
  proof (cases "crOpenErr os (path_Join [dir, n]) = None \<and> \<not> gm_has d (path_Join [dir, n])")
    case True
    let ?d = "gm_set (path_Join [dir, n]) [] d"
    have "reserve_all os dir names (reserved @ [n]) ?d = (err, reserved', d')"
      using Cons.prems True by (simp add: create_excl_def)
    from Cons.IH [OF this] obtain made where m: "reserved' = (reserved @ [n]) @ made" "err = None \<longrightarrow> made = names"
      "set made \<subseteq> set names" "\<forall>n \<in> set made. gm_get ?d (path_Join [dir, n]) = None"
      "\<forall>p. gm_get d' p = (if p \<in> (\<lambda>n. path_Join [dir, n]) ` set made then Some [] else gm_get ?d p)"
      by blast
    have "\<forall>n' \<in> set (n # made). gm_get d (path_Join [dir, n']) = None"
      using m(4) True by (auto simp: gm_get_set gm_has_def split: if_split_asm)
    then show ?thesis using m by (intro exI [of _ "n # made"]) (auto simp: gm_get_set)
  next
    case False
    then show ?thesis using Cons.prems by (auto simp: create_excl_def split: option.splits if_split_asm)
  qed
qed auto

lemma write_all_other:
  assumes "write_all os dir contents names d = (err, d')" and "p \<notin> (\<lambda>n. path_Join [dir, n]) ` set names"
  shows "gm_get d' p = gm_get d p"
  using assms
proof (induction names arbitrary: d)
  case (Cons n names)
  then show ?case
    by (auto simp: file_write_def gm_get_set Let_def split: option.splits prod.splits)
qed simp

lemma write_all_done:
  assumes "write_all os dir contents names d = (None, d')" and "n \<in> set names" and "\<forall>n \<in> set names. plain_name n"
  shows "gm_get d' (path_Join [dir, n]) = Some (case gm_get contents n of None \<Rightarrow> [] | Some bs \<Rightarrow> bs)"
  using assms
proof (induction names arbitrary: d)
  case (Cons m names)
  let ?bs = "case gm_get contents m of None \<Rightarrow> [] | Some bs \<Rightarrow> bs"
  have w: "write_all os dir contents names (gm_set (path_Join [dir, m]) ?bs d) = (None, d')"
    using Cons.prems(1) by (auto simp: file_write_def Let_def split: option.splits prod.splits)
  show ?case
  proof (cases "n \<in> set names")
    case True
    then show ?thesis using Cons.IH [OF w True] Cons.prems(3) by simp
  next
    case False
    then have "n = m" using Cons.prems(2) by simp
    moreover have "path_Join [dir, n] \<notin> (\<lambda>n. path_Join [dir, n]) ` set names"
    proof
      assume "path_Join [dir, n] \<in> (\<lambda>n. path_Join [dir, n]) ` set names"
      then obtain k where "k \<in> set names" "path_Join [dir, n] = path_Join [dir, k]" by blast
      moreover have "plain_name n" "plain_name k" using Cons.prems(2,3) \<open>k \<in> set names\<close> by auto
      ultimately have "n = k" using inj_onD [OF path_Join_inj [of dir]] by blast
      then show False using False \<open>k \<in> set names\<close> by simp
    qed
    ultimately show ?thesis using write_all_other [OF w] by (simp add: gm_get_set)
  qed
qed simp

lemma clean_up_get:
  "\<forall>p. crRemoveErr os p = None \<Longrightarrow>
   gm_get (clean_up os dir names d) p = (if p \<in> (\<lambda>n. path_Join [dir, n]) ` set names then None else gm_get d p)"
  by (induction names arbitrary: d) (auto simp: clean_up_def file_remove_def gm_get_del)

lemma clean_up_other:
  "p \<notin> (\<lambda>n. path_Join [dir, n]) ` set names \<Longrightarrow> gm_get (clean_up os dir names d) p = gm_get d p"
  by (induction names arbitrary: d) (auto simp: clean_up_def file_remove_def gm_get_del split: option.split)

text \<open>What \<open>writeCredentials\<close> does, by how far it gets.\<close>

lemma writeCredentials_cases:
  assumes "writeCredentials os ord1 ord2 dir contents d = (err, d')"
  obtains (no_dir) "err \<noteq> None" and "d' = d"
  | (undone) made d1 d2 where "err \<noteq> None" and "d' = clean_up os dir made d2" and "set made \<subseteq> set ord1"
      and "\<forall>n \<in> set made. gm_get d (path_Join [dir, n]) = None"
      and "\<forall>p. p \<notin> (\<lambda>n. path_Join [dir, n]) ` set made \<longrightarrow> gm_get d1 p = gm_get d p"
      and "d2 = d1 \<or> made = ord1 \<and> snd (write_all os dir contents ord2 d1) = d2"
  | (written) d1 where "err = None" and "\<forall>n \<in> set ord1. gm_get d (path_Join [dir, n]) = None"
      and "\<forall>p. p \<notin> (\<lambda>n. path_Join [dir, n]) ` set ord1 \<longrightarrow> gm_get d1 p = gm_get d p"
      and "write_all os dir contents ord2 d1 = (None, d')"
proof (cases "crMkdirErr os dir")
  case (Some e)
  then show ?thesis using assms no_dir by (auto simp: writeCredentials_def)
next
  case None
  obtain rerr reserved d1 where r: "reserve_all os dir ord1 [] d = (rerr, reserved, d1)" by (metis prod_cases3)
  from reserve_all_get [OF this] have res: "rerr = None \<longrightarrow> reserved = ord1" "set reserved \<subseteq> set ord1"
    "\<forall>n \<in> set reserved. gm_get d (path_Join [dir, n]) = None"
    "\<forall>p. p \<notin> (\<lambda>n. path_Join [dir, n]) ` set reserved \<longrightarrow> gm_get d1 p = gm_get d p" by auto
  obtain werr d2 where w: "write_all os dir contents ord2 d1 = (werr, d2)" by (metis prod.exhaust)
  show ?thesis
  proof (cases rerr)
    case (Some e)
    then have "err = Some e" "d' = clean_up os dir reserved d1" using assms None r by (simp_all add: writeCredentials_def)
    then show ?thesis using undone [of reserved d1 d1] res by simp
  next
    case rNone: None
    show ?thesis
    proof (cases werr)
      case (Some e)
      then have "err = Some e" "d' = clean_up os dir reserved d2" using assms None r w rNone by (simp_all add: writeCredentials_def)
      then show ?thesis using undone [of reserved d2 d1] res rNone w by simp
    next
      case wNone: None
      then have "err = None" "d' = d2" using assms None r w rNone by (simp_all add: writeCredentials_def)
      then show ?thesis using written [of d1] res rNone w wNone by simp
    qed
  qed
qed

section \<open>Properties\<close>

text \<open>
  Credentials come whole or not at all. If \<open>writeCredentials\<close> succeeds, every name was free,
  now holds exactly its contents, and no other file changed; if it fails, and the files it
  made can be removed, the disk is as it was. In no case, whatever else fails, is a file that
  was there before changed or removed. This holds for every order in which Go visits its maps.
\<close>

theorem credentials_all_or_nothing:
  assumes "writeCredentials os ord1 ord2 dir contents d = (err, d')"
    and "set ord1 = set (gm_keys contents)" and "set ord2 = set (gm_keys contents)"
    and "\<forall>n \<in> set (gm_keys contents). plain_name n"
  shows "(err = None \<longrightarrow> (\<forall>n bs. gm_get contents n = Some bs \<longrightarrow>
        gm_get d (path_Join [dir, n]) = None \<and> gm_get d' (path_Join [dir, n]) = Some bs) \<and>
      (\<forall>p. p \<notin> (\<lambda>n. path_Join [dir, n]) ` set (gm_keys contents) \<longrightarrow> gm_get d' p = gm_get d p)) \<and>
    (err \<noteq> None \<longrightarrow> (\<forall>p. crRemoveErr os p = None) \<longrightarrow> same_files d d') \<and>
    (\<forall>p. gm_has d p \<longrightarrow> gm_get d' p = gm_get d p)"
  using assms(1)
proof (cases rule: writeCredentials_cases)
  case no_dir
  then show ?thesis by (auto simp: same_files_def)
next
  case (undone made d1 d2)
  let ?made = "(\<lambda>n. path_Join [dir, n]) ` set made"
  have d2: "gm_get d2 p = gm_get d p" if p: "p \<notin> ?made" for p
  proof (cases "d2 = d1")
    case False
    then have "made = ord1" "snd (write_all os dir contents ord2 d1) = d2" using undone(6) by simp_all
    then have "gm_get d2 p = gm_get d1 p"
      using write_all_other [of os dir contents ord2 d1 _ d2 p] p assms(2,3) by (metis prod.collapse)
    then show ?thesis using undone(5) p by simp
  qed (use undone(5) p in simp)
  have d': "gm_get d' p = gm_get d p" if "p \<notin> ?made" for p
    using clean_up_other [OF that, of os d2] d2 [OF that] undone(2) by simp
  have made: "gm_get d p = None" if "p \<in> ?made" for p using undone(4) that by auto
  have "gm_get d' p = gm_get d p" if "\<forall>p. crRemoveErr os p = None" for p
    using clean_up_get [OF that, of dir made d2 p] d2 made undone(2) by (simp split: if_split_asm)
  moreover have "gm_get d' p = gm_get d p" if "gm_has d p" for p
    using d' [of p] made [of p] that unfolding gm_has_def by blast
  ultimately show ?thesis using undone(1) by (auto simp: same_files_def)
next
  case (written d1)
  let ?paths = "(\<lambda>n. path_Join [dir, n]) ` set (gm_keys contents)"
  have other: "gm_get d' p = gm_get d p" if "p \<notin> ?paths" for p
    using written(3) write_all_other [OF written(4)] that assms(2,3) by simp
  have "gm_get d (path_Join [dir, n]) = None \<and> gm_get d' (path_Join [dir, n]) = Some bs" if "gm_get contents n = Some bs" for n bs
    using that written(2) write_all_done [OF written(4), of n] assms(2-4) by (simp add: gm_keys_get)
  moreover have "gm_get d' p = gm_get d p" if "gm_has d p" for p
    using other [of p] written(2) that assms(2) by (cases "p \<in> ?paths") (auto simp: gm_has_def)
  ultimately show ?thesis using other written(1) by blast
qed

definition sample_cli_os :: cli_os where
  "sample_cli_os = \<lparr>crMkdirErr = (\<lambda>_. None), crOpenErr = (\<lambda>_. None),
     crWriteErr = (\<lambda>p. if p = ''out/key.pem'' then Some (2, Fault 28) else None), crCloseErr = (\<lambda>_. None),
     crRemoveErr = (\<lambda>_. None), crStdoutErr = None\<rparr>"

lemma sample_paths: "path_Join [''out'', ''cert.pem''] = ''out/cert.pem''" "path_Join [''out'', ''key.pem''] = ''out/key.pem''"
  by code_simp+

text \<open>The disk fills up while the key is written: the certificate is taken back too.\<close>

lemma credentials_all_or_nothing_witness:
  "\<exists>e d'. writeCredentials sample_cli_os [''key.pem'', ''cert.pem''] [''cert.pem'', ''key.pem''] ''out''
       [(''cert.pem'', ''C''), (''key.pem'', ''KEY'')] [(''other'', ''x'')] = (Some e, d') \<and>
     same_files [(''other'', ''x'')] d'"
proof -
  let ?run = "writeCredentials sample_cli_os [''key.pem'', ''cert.pem''] [''cert.pem'', ''key.pem''] ''out''
       [(''cert.pem'', ''C''), (''key.pem'', ''KEY'')] [(''other'', ''x'')]"
  obtain err d' where r: "?run = (err, d')" by (metis prod.exhaust)
  have "fst ?run \<noteq> None"
    by (simp add: writeCredentials_def sample_cli_os_def create_excl_def file_write_def sample_paths gm_has_def gm_get_def gm_set_def)
  moreover have "same_files [(''other'', ''x'')] d'" if "err \<noteq> None"
    using credentials_all_or_nothing [OF r] that by (simp add: gm_keys_def plain_name_def sample_cli_os_def insert_commute)
  ultimately show ?thesis using r by auto
qed

lemma graphic_b32: "d < 32 \<Longrightarrow> graphic (b32_char d)"
  by (simp add: graphic_def b32_char_def)

lemma read_secret_text:
  assumes "length tok = SubscriberTokenSize"
  shows "read_secret (SubscriberToken_String tok @ [CHR 0x0A], None) = Inr (SubscriberToken_String tok)"
proof -
  let ?s = "SubscriberToken_String tok"
  obtain vs where vs: "?s = map b32_char vs" "\<forall>d \<in> set vs. d < 32"
    using b32_encode_digits unfolding SubscriberToken_String_def by blast
  have len: "length ?s = 52" by (simp add: SubscriberToken_String_def length_b32_encode assms go_consts b32_len_def)
  then have "vs \<noteq> []" using vs(1) by auto
  then have "graphic (hd ?s)" "graphic (last ?s)" using vs graphic_b32 by (simp_all add: hd_map last_map)
  moreover have "?s \<noteq> []" using len by auto
  ultimately have "TrimSpace (?s @ [CHR 0x0A]) = ?s" by (intro TrimSpace_newline)
  then show ?thesis using len \<open>?s \<noteq> []\<close> by (simp add: read_secret_def read_limited_def maxSecretBytes_def Let_def)
qed

lemma writeSecretFile_done:
  assumes "writeSecretFile env os path secret d = (None, d', out)"
  shows "path = stdioPath \<and> d' = d \<and> out = secret @ [CHR 0x0A] \<or>
    (\<exists>p. path \<noteq> stdioPath \<and> expandHome env path = Inr p \<and> gm_get d p = None \<and> out = [] \<and>
      gm_get d' p = Some (secret @ [CHR 0x0A]))"
  using assms
  by (auto simp: writeSecretFile_def create_excl_def file_write_def gm_get_set gm_has_def
      split: if_split_asm sum.splits option.splits prod.splits)

text \<open>
  A token reaches the other end through a file or a pipe. What \<open>share\<close> leaves under
  \<open>-token-out\<close>, on a path that was free or on its standard output, \<open>listen -token-file\<close> reads back as the
  token that was issued, whatever else the environment or the command line names; and with a
  path nothing is printed on standard output.
\<close>

theorem token_file_hands_over:
  assumes "reportToken np env os pOut pErr terminal tokenOut addr server tok o0 = (None, o1)"
    and "tokenOut \<noteq> []" and "length tok = SubscriberTokenSize" and "length args \<le> 1"
    and "if tokenOut = stdioPath then srcStdin src = (drop (length (soStdout o0)) (soStdout o1), None)
         else \<forall>p bs. gm_get (soDisk o1) p = Some bs \<longrightarrow> srcOpen src p = Inr (bs, None)"
    and "finishConn np env readf unmarshal flags = Inr conn" and "range_Len local \<noteq> 0"
  shows "listen_prerun np env readf unmarshal src flags local args tokenStr tokenOut = Inr (conn, tok) \<and>
    (tokenOut \<noteq> stdioPath \<longrightarrow> soStdout o1 = soStdout o0)"
proof -
  obtain d out where w: "writeSecretFile env os tokenOut (SubscriberToken_String tok) (soDisk o0) = (None, d, out)"
    and o1: "soDisk o1 = d" "soStdout o1 = soStdout o0 @ out"
    using assms(1,2) by (auto simp: reportToken_def split: option.splits prod.splits)
  have "readSecretFile env src tokenOut = Inr (SubscriberToken_String tok) \<and> (tokenOut \<noteq> stdioPath \<longrightarrow> out = [])"
    using writeSecretFile_done [OF w] assms(5) o1 read_secret_text [OF assms(3)]
    by (auto simp: readSecretFile_def)
  moreover have "ParseSubscriberToken (SubscriberToken_String tok) = Inr tok"
    using decodeSecret_encode [of tok SubscriberTokenSize] assms(3)
    by (simp add: ParseSubscriberToken_def SubscriberToken_String_def)
  ultimately show ?thesis
    using assms(2,4,6,7) o1(2) by (simp add: listen_prerun_def resolveSubscriberToken_def)
qed


definition sample_env :: go_env where
  "sample_env = \<lparr>envHome = Inr ''/home/a'', envVar = (\<lambda>v. if v = ''GGROK_SERVER'' then ''127.0.0.1:7000'' else [])\<rparr>"

lemma sample_finishConn:
  "\<exists>conn. finishConn sample_netip sample_env (\<lambda>_. Inl (Sentinel ErrNotExist)) (\<lambda>_. Inl (Fault 0))
     \<lparr>cfServer = None, cfCertFile = None, cfKeyFile = None, cfCAFile = None\<rparr> = Inr conn"
proof -
  have joins: "path_Join [''/home/a'', ''.ggrok''] = ''/home/a/.ggrok''"
    "path_Join [''/home/a/.ggrok'', ''config.json''] = ''/home/a/.ggrok/config.json''"
    "path_Join [''/home/a/.ggrok'', ''cert.pem''] = ''/home/a/.ggrok/cert.pem''"
    "path_Join [''/home/a/.ggrok'', ''key.pem''] = ''/home/a/.ggrok/key.pem''"
    "path_Join [''/home/a/.ggrok'', ''ca.pem''] = ''/home/a/.ggrok/ca.pem''" by code_simp+
  show ?thesis
    by (simp add: finishConn_def defaultConfigDir_def loadNodeFileConfig_def joins sample_env_def conn_setting_def
        expandHome_def Let_def hp_Parse_def SplitHostPort_def LastIndexByte_def split_rest_def parsePort_def
        ParseUint_def dec_digit_def newHostPort_def sample_netip_def)
qed

lemma token_file_hands_over_witness:
  "\<exists>o1 conn. reportToken sample_netip sample_env sample_cli_os False False False ''/tmp/t''
       \<lparr>rgBase = \<lparr>hpKind = KindIP, hpIP = Some ''::1'', hpName = [], hpPort = 8000\<rparr>, rgCount = 1\<rparr>
       \<lparr>hpKind = KindName, hpIP = None, hpName = ''r'', hpPort = 9\<rparr> (replicate 32 5)
       \<lparr>soDisk = [], soStdout = [], soStderr = []\<rparr> = (None, o1) \<and>
     listen_prerun sample_netip sample_env (\<lambda>_. Inl (Sentinel ErrNotExist)) (\<lambda>_. Inl (Fault 0))
       \<lparr>srcStdin = ([], None), srcOpen = (\<lambda>p. case gm_get (soDisk o1) p of None \<Rightarrow> Inl (Fault 2) | Some bs \<Rightarrow> Inr (bs, None))\<rparr>
       \<lparr>cfServer = None, cfCertFile = None, cfKeyFile = None, cfCAFile = None\<rparr>
       \<lparr>rgBase = \<lparr>hpKind = KindIP, hpIP = Some ''::1'', hpName = [], hpPort = 8000\<rparr>, rgCount = 1\<rparr> [] [] ''/tmp/t'' =
       Inr (conn, replicate 32 5)"
proof -
  let ?range = "\<lparr>rgBase = \<lparr>hpKind = KindIP, hpIP = Some ''::1'', hpName = [], hpPort = 8000 :: u16\<rparr>, rgCount = 1 :: int\<rparr>"
  let ?server = "\<lparr>hpKind = KindName, hpIP = None, hpName = ''r'', hpPort = 9 :: u16\<rparr>"
  let ?run = "reportToken sample_netip sample_env sample_cli_os False False False ''/tmp/t'' ?range ?server
    (replicate 32 5) \<lparr>soDisk = [], soStdout = [], soStderr = []\<rparr>"
  obtain err o1 where r: "?run = (err, o1)" by (metis prod.exhaust)
  have "fst ?run = None"
    by (simp add: reportToken_def writeSecretFile_def expandHome_def stdioPath_def create_excl_def file_write_def
        sample_cli_os_def gm_has_def)
  then have r': "?run = (None, o1)" using r by simp
  obtain conn where c: "finishConn sample_netip sample_env (\<lambda>_. Inl (Sentinel ErrNotExist)) (\<lambda>_. Inl (Fault 0))
     \<lparr>cfServer = None, cfCertFile = None, cfKeyFile = None, cfCAFile = None\<rparr> = Inr conn"
    using sample_finishConn by blast
  show ?thesis
    using token_file_hands_over [OF r' _ _ _ _ c, of "[]"
        "\<lparr>srcStdin = ([], None), srcOpen = (\<lambda>p. case gm_get (soDisk o1) p of None \<Rightarrow> Inl (Fault 2) | Some bs \<Rightarrow> Inr (bs, None))\<rparr>"
        ?range "[]"] r'
    by (auto simp: go_consts stdioPath_def range_Len_def)
qed

text \<open>
  A token does not leak into logs. Unless standard output is a terminal or the user asks
  for it with \<open>-token-out -\<close>, neither of the standard streams nor the error depends on the
  token: whatever token is reported, they are the same, standard output stays as it was, and at
  most the one file the user named, which must not have existed, differs.
\<close>

theorem token_stays_out_of_logs:
  assumes "tokenOut \<noteq> stdioPath" and "tokenOut = [] \<longrightarrow> \<not> terminal"
    and "reportToken np env os pOut pErr terminal tokenOut addr server tok o0 = (err, o1)"
    and "reportToken np env os pOut pErr terminal tokenOut addr server tok' o0 = (err', o2)"
  shows "err = err' \<and> soStderr o1 = soStderr o2 \<and> soStdout o1 = soStdout o0 \<and> soStdout o2 = soStdout o0 \<and>
    (\<forall>p. gm_get (soDisk o1) p = gm_get (soDisk o0) p \<or>
      tokenOut \<noteq> [] \<and> expandHome env tokenOut = Inr p \<and> gm_get (soDisk o0) p = None)"
  using assms
  by (auto simp: reportToken_def writeSecretFile_def create_excl_def file_write_def gm_get_set gm_has_def
      split: if_split_asm sum.splits option.splits prod.splits)

lemma token_stays_out_of_logs_witness:
  "\<exists>e o1. reportToken sample_netip sample_env sample_cli_os False False False []
       \<lparr>rgBase = \<lparr>hpKind = KindIP, hpIP = Some ''::1'', hpName = [], hpPort = 8000\<rparr>, rgCount = 1\<rparr>
       \<lparr>hpKind = KindName, hpIP = None, hpName = ''r'', hpPort = 9\<rparr> (replicate 32 5)
       \<lparr>soDisk = [], soStdout = ''so far'', soStderr = []\<rparr> = (Some e, o1) \<and> soStdout o1 = ''so far''"
proof -
  let ?run = "\<lambda>tok. reportToken sample_netip sample_env sample_cli_os False False False []
       \<lparr>rgBase = \<lparr>hpKind = KindIP, hpIP = Some ''::1'', hpName = [], hpPort = 8000\<rparr>, rgCount = 1\<rparr>
       \<lparr>hpKind = KindName, hpIP = None, hpName = ''r'', hpPort = 9\<rparr> tok
       \<lparr>soDisk = [], soStdout = ''so far'', soStderr = []\<rparr>"
  obtain err o1 where r: "?run (replicate 32 5) = (err, o1)" by (metis prod.exhaust)
  have "fst (?run (replicate 32 5)) \<noteq> None" by (simp add: reportToken_def)
  moreover have "soStdout o1 = ''so far''"
    using token_stays_out_of_logs [OF _ _ r r] by (simp add: stdioPath_def)
  ultimately show ?thesis using r by auto
qed

text \<open>
  The command that \<open>share\<close> prints works. The address it suggests to \<open>listen\<close> parses, on the
  loopback host, to a range as long as the one shared, so that the two ends agree on the number
  of ports; for several ports, to the same numbers.
\<close>

theorem suggested_addr_fits:
  assumes "ParseRange np s = Inr r" and "netip_ok np" and "netParseAddr np ''127.0.0.1'' = Some lo"
  shows "\<exists>r'. ParseRange np (suggestedListenAddr np r) = Inr r' \<and> range_Len r' = range_Len r \<and>
    hpIP (rgBase r') = Some lo \<and> (range_Len r > 1 \<longrightarrow> hpPort (rgBase r') = hpPort (rgBase r))"
  using assms(1,2)
proof (rule range_text)
  fix host ports final
  assume t: "plain host" "plain ports" "CHR '':'' \<notin> set ports" "range_String np r = JoinHostPort host ports"
    "parsePortSpan ports = Inr (hpPort (rgBase r), final)"
    "rgCount r = int (unat final) - int (unat (hpPort (rgBase r))) + 1"
  have lo: "plain ''127.0.0.1''" "newHostPort np ''127.0.0.1'' port = Inr \<lparr>hpKind = KindIP, hpIP = Some lo, hpName = [], hpPort = port\<rparr>" for port
    using assms(3) by (simp_all add: plain_def newHostPort_def)
  show ?thesis
  proof (cases "range_Len r \<le> 1")
    case True
    then have "range_Len r = 1" using ParseRange_len [OF assms(1)] by simp
    moreover have "parsePortSpan ''0'' = Inr (0, 0)"
      by (simp add: parsePortSpan_def Cut_def parsePort_def ParseUint_def dec_digit_def)
    then have "ParseRange np (JoinHostPort ''127.0.0.1'' ''0'') =
        Inr \<lparr>rgBase = \<lparr>hpKind = KindIP, hpIP = Some lo, hpName = [], hpPort = 0\<rparr>, rgCount = 1\<rparr>"
      using ParseRange_Join [OF lo(1) _ _ _ lo(2), of "''0''" 0 0] by (simp add: plain_def)
    moreover have "JoinHostPort ''127.0.0.1'' ''0'' = ''127.0.0.1:0''" by (simp add: JoinHostPort_def)
    ultimately show ?thesis by (simp add: suggestedListenAddr_def range_Len_def)
  next
    case False
    then have "suggestedListenAddr np r = JoinHostPort ''127.0.0.1'' ports"
      using SplitHostPort_Join [OF t(1-3)] by (simp add: suggestedListenAddr_def t(4))
    then show ?thesis using ParseRange_Join [OF lo(1) t(2,3,5) lo(2)] t(6) by (simp add: range_Len_def)
  qed
qed

lemma suggested_addr_fits_witness:
  "\<exists>r'. ParseRange sample_netip (suggestedListenAddr sample_netip
      \<lparr>rgBase = \<lparr>hpKind = KindIP, hpIP = Some ''::1'', hpName = [], hpPort = 8000\<rparr>, rgCount = 11\<rparr>) = Inr r' \<and>
     range_Len r' = 11"
proof -
  have "netip_ok sample_netip" "netParseAddr sample_netip ''127.0.0.1'' = Some ''127.0.0.1''"
    by (auto simp: netip_ok_def sample_netip_def plain_def)
  from suggested_addr_fits [OF sample_range this] show ?thesis by (auto simp: range_Len_def)
qed

end
