(* ===== verification/Cli_CA.thy ===== *)
theory Cli_CA
  imports CA_Issue Cli_Secrets
begin

text \<open>
  The CA commands (\<^verbatim>\<open>cmd/ggrok/ca.go\<close>), composed of \<open>internal/ca\<close> and \<open>writeCredentials\<close>. The root's
  and a device's files are on the \<open>disk\<close>, the bookkeeping of the CA directory is a \<open>ca_fs\<close>;
  key generation, the random serial, the clock, the encoders and the outcomes of system calls
  are arguments, and so are the orders in which Go visits a map. Each command gives its error,
  the state it leaves and what standard output gets.
\<close>

section \<open>The directory\<close>

definition caCertFile :: string where "caCertFile = ''cert.pem''"
definition caKeyFile :: string where "caKeyFile = ''key.pem''"

definition defaultCADir :: "go_env \<Rightarrow> string result" where
  "defaultCADir env =
     (case envHome env of
        Inl e \<Rightarrow> Inl (wrap ''home directory'' e)
      | Inr home \<Rightarrow> Inr (path_Join [home, ''.ggrok'', ''ca'']))"

definition resolveCADir :: "go_env \<Rightarrow> string \<Rightarrow> error option \<times> string" where
  "resolveCADir env dir =
     (if dir = [] then (case defaultCADir env of Inl e \<Rightarrow> (Some e, dir) | Inr d \<Rightarrow> (None, d))
      else expandHomeInto env dir)"

definition os_ReadFile :: "(string \<Rightarrow> error option) \<Rightarrow> 'b disk \<Rightarrow> string \<Rightarrow> 'b list result" where
  "os_ReadFile readErr d path =
     (case readErr path of
        Some e \<Rightarrow> Inl e
      | None \<Rightarrow> (case gm_get d path of None \<Rightarrow> Inl (Sentinel ErrNotExist) | Some bs \<Rightarrow> Inr bs))"

definition loadCA ::
  "('sk, 'pk) pki \<Rightarrow> (string \<Rightarrow> error option) \<Rightarrow> byte disk \<Rightarrow> string \<Rightarrow> ('sk, 'pk) ca result" where
  "loadCA k readErr d caDir =
     (case os_ReadFile readErr d (path_Join [caDir, caCertFile]) of
        Inl e \<Rightarrow> Inl (wrap ''read root certificate'' e)
      | Inr certPEM \<Rightarrow>
          (case os_ReadFile readErr d (path_Join [caDir, caKeyFile]) of
             Inl e \<Rightarrow> Inl (wrap ''read root key'' e)
           | Inr keyPEM \<Rightarrow> on_error (wrap (''load CA from '' @ caDir)) (Load k certPEM keyPEM)))"

section \<open>ca init\<close>

record ca_init_config =
  inOut :: string
  inCommonName :: string
  inValidity :: int

text \<open>What the system and the random source give in one run.\<close>

record 'sk ca_draws =
  drKey :: "'sk result"
  drSerial :: "nat \<Rightarrow> nat result"
  drSign :: nat
  drNow :: int
  drOrd1 :: "string list"
  drOrd2 :: "string list"

definition init_contents :: "'pk cert_bundle \<Rightarrow> (string, byte list) gomap" where
  "init_contents b = [(caCertFile, bdCertPEM b), (caKeyFile, bdKeyPEM b)]"

definition caInit ::
  "go_env \<Rightarrow> ('sk, 'pk) pki \<Rightarrow> cli_os \<Rightarrow> palette \<Rightarrow> 'sk ca_draws \<Rightarrow> ca_init_config \<Rightarrow> byte disk \<Rightarrow>
   error option \<times> byte disk \<times> string" where
  "caInit env k os p dr cfg d =
     (case resolveCADir env (inOut cfg) of
        (Some e, _) \<Rightarrow> (Some e, d, [])
      | (None, out) \<Rightarrow>
          (case Init k (drKey dr) (drSerial dr) (drSign dr) (drNow dr) (inCommonName cfg) (inValidity cfg) of
             Inl e \<Rightarrow> (Some (wrap ''generate root CA'' e), d, [])
           | Inr b \<Rightarrow>
               (case writeCredentials os (drOrd1 dr) (drOrd2 dr) out (init_contents b) d of
                  (Some e, d1) \<Rightarrow> (Some e, d1, [])
                | (None, d1) \<Rightarrow>
                    (None, d1, green p ''initialized'' @ '' root CA '' @ go_quote (inCommonName cfg) @ '' in '' @ out @
                       '', valid until '' @ timeRFC3339 k (xNotAfter (bdCert b)) @ [CHR 0x0A]))))"

section \<open>ca issue\<close>

record ca_issue_config =
  isCADir :: string
  isCommonName :: string
  isOut :: string
  isTTL :: int
  isServer :: bool
  isDNSNames :: "string list"
  isIPs :: "byte list list"
  isAdmin :: bool

text \<open>The two repeatable flags; \<open>parseIP\<close> is \<open>net.ParseIP\<close>.\<close>

definition flag_dns_name :: "string \<Rightarrow> ca_issue_config \<Rightarrow> error option \<times> ca_issue_config" where
  "flag_dns_name name cfg = (None, cfg\<lparr>isDNSNames := isDNSNames cfg @ [name]\<rparr>)"

definition flag_ip :: "(string \<Rightarrow> byte list option) \<Rightarrow> string \<Rightarrow> ca_issue_config \<Rightarrow> error option \<times> ca_issue_config" where
  "flag_ip parseIP s cfg =
     (case parseIP s of
        None \<Rightarrow> (Some (Msg (''invalid IP '' @ go_quote s)), cfg)
      | Some ip \<Rightarrow> (None, cfg\<lparr>isIPs := isIPs cfg @ [ip]\<rparr>))"

definition issue_request_of :: "ca_issue_config \<Rightarrow> issue_request" where
  "issue_request_of cfg = \<lparr>rqCommonName = isCommonName cfg, rqValidity = isTTL cfg, rqServer = isServer cfg,
     rqAdmin = isAdmin cfg, rqDNSNames = isDNSNames cfg, rqIPs = isIPs cfg\<rparr>"

definition issue_contents :: "('sk, 'pk) ca \<Rightarrow> 'pk cert_bundle \<Rightarrow> (string, byte list) gomap" where
  "issue_contents root b = [(''cert.pem'', bdCertPEM b), (''key.pem'', bdKeyPEM b), (''ca.pem'', caCertPEM root)]"

text \<open>The files and, by directory, the CA's bookkeeping.\<close>

record ca_state =
  csDisk :: "byte disk"
  csDirs :: "string \<Rightarrow> ca_fs"

definition caIssue ::
  "go_env \<Rightarrow> ('sk, 'pk) pki \<Rightarrow> cli_os \<Rightarrow> ca_os \<Rightarrow> (string \<Rightarrow> error option) \<Rightarrow> palette \<Rightarrow> 'sk ca_draws \<Rightarrow>
   ca_issue_config \<Rightarrow> ca_state \<Rightarrow> error option \<times> ca_state \<times> string" where
  "caIssue env k os cos readErr p dr cfg s =
     (if isCommonName cfg = [] then (Some (Msg ''-common-name is required''), s, [])
      else if isOut cfg = [] then (Some (Msg ''-out is required''), s, [])
      else case expandHomeInto env (isOut cfg) of
             (Some e, _) \<Rightarrow> (Some e, s, [])
           | (None, out) \<Rightarrow>
               (case resolveCADir env (isCADir cfg) of
                  (Some e, _) \<Rightarrow> (Some e, s, [])
                | (None, caDir) \<Rightarrow>
                    (case loadCA k readErr (csDisk s) caDir of
                       Inl e \<Rightarrow> (Some e, s, [])
                     | Inr root \<Rightarrow>
                         (case Issue k (drKey dr) (drSerial dr) (drSign dr) (drNow dr) root (issue_request_of cfg) of
                            Inl e \<Rightarrow> (Some (wrap ''issue certificate'' e), s, [])
                          | Inr b \<Rightarrow>
                              (case Store cos (cert.truncate (bdCert b)) (bdCertPEM b) (csDirs s caDir) of
                                 (Some e, fs) \<Rightarrow>
                                   (Some (wrap ''record issued certificate'' e), s\<lparr>csDirs := (csDirs s)(caDir := fs)\<rparr>, [])
                               | (None, fs) \<Rightarrow>
                                   (case writeCredentials os (drOrd1 dr) (drOrd2 dr) out (issue_contents root b) (csDisk s) of
                                      (err, d1) \<Rightarrow>
                                        (err, \<lparr>csDisk = d1, csDirs = (csDirs s)(caDir := fs)\<rparr>,
                                         if err \<noteq> None then []
                                         else green p ''issued'' @ '' certificate for '' @ go_quote (isCommonName cfg) @
                                           '' (serial '' @ serial_text (cert.truncate (bdCert b)) @ '') in '' @ out @
                                           '', valid until '' @ timeRFC3339 k (xNotAfter (bdCert b)) @ [CHR 0x0A])))))))"

section \<open>ca list\<close>

definition extKeyUsageNames :: "nat \<Rightarrow> string option" where
  "extKeyUsageNames u =
     (if u = ExtKeyUsageServerAuth then Some ''server''
      else if u = ExtKeyUsageClientAuth then Some ''node'' else None)"

definition certRole :: "'pk x509_cert \<Rightarrow> string" where
  "certRole ct =
     (let roles = map (\<lambda>u. case extKeyUsageNames u of Some name \<Rightarrow> name | None \<Rightarrow> ''eku('' @ show_nat u @ '')'')
                    (xExtKeyUsage ct) @
                  (if HasAdminEKU (Some (cert.truncate ct)) then [''admin''] else [])
      in if roles = [] then ''-'' else join_with ''+'' roles)"

text \<open>\<open>full\<close> gives all the fields of a listed certificate, of which \<open>ca_List\<close> keeps those relay reads.\<close>

definition list_status :: "palette \<Rightarrow> int \<Rightarrow> (cert \<Rightarrow> 'pk x509_cert) \<Rightarrow> listed_certificate \<Rightarrow> string \<times> (string \<Rightarrow> string) option" where
  "list_status p now full c =
     (if lcRevoked c then (''revoked'', Some (red p))
      else if now > xNotAfter (full (lcCert c)) then (''expired'', Some (yellow p))
      else (''issued'', None))"

definition list_row :: "('sk, 'pk) pki \<Rightarrow> (nat \<Rightarrow> bool) \<Rightarrow> (cert \<Rightarrow> 'pk x509_cert) \<Rightarrow> string \<Rightarrow> listed_certificate \<Rightarrow> string" where
  "list_row k isPrint full status c =
     join_with [CHR 0x09] [terminalText isPrint (cCN (lcCert c)), serial_text (lcCert c), certRole (full (lcCert c)),
       status, timeRFC3339 k (xNotAfter (full (lcCert c)))] @ [CHR 0x0A]"

definition list_table ::
  "('sk, 'pk) pki \<Rightarrow> (nat \<Rightarrow> bool) \<Rightarrow> palette \<Rightarrow> int \<Rightarrow> (cert \<Rightarrow> 'pk x509_cert) \<Rightarrow> listed_certificate list \<Rightarrow> out_table" where
  "list_table k isPrint p now full certs =
     fold (\<lambda>c t. case list_status p now full c of (status, style) \<Rightarrow> rowf style (list_row k isPrint full status c) t) certs
       (rowf (Some (bold p))
         (join_with [CHR 0x09] [''COMMON NAME'', ''SERIAL'', ''ROLE'', ''STATUS'', ''EXPIRES''] @ [CHR 0x0A]) newTable)"

definition caList ::
  "go_env \<Rightarrow> ('sk, 'pk) pki \<Rightarrow> ca_os \<Rightarrow> (nat \<Rightarrow> bool) \<Rightarrow> (string \<Rightarrow> string result) \<Rightarrow> palette \<Rightarrow> int \<Rightarrow>
   (cert \<Rightarrow> 'pk x509_cert) \<Rightarrow> string \<Rightarrow> (string \<Rightarrow> ca_fs) \<Rightarrow> error option \<times> string" where
  "caList env k cos isPrint layout p now full dir dirs =
     (case resolveCADir env dir of
        (Some e, _) \<Rightarrow> (Some e, [])
      | (None, caDir) \<Rightarrow>
          (case ca_List cos (dirs caDir) of
             Inl e \<Rightarrow> (Some (wrap ''list certificates'' e), [])
           | Inr [] \<Rightarrow> (None, dim p ''no certificates issued'' @ [CHR 0x0A])
           | Inr certs \<Rightarrow>
               (case table_flush layout (list_table k isPrint p now full certs) of
                  Inl e \<Rightarrow> (Some e, [])
                | Inr out \<Rightarrow> (None, out))))"

section \<open>ca revoke, ca crl\<close>

definition caRevoke ::
  "go_env \<Rightarrow> ca_os \<Rightarrow> palette \<Rightarrow> string \<Rightarrow> string \<Rightarrow> (string \<Rightarrow> ca_fs) \<Rightarrow> error option \<times> (string \<Rightarrow> ca_fs) \<times> string" where
  "caRevoke env cos p dir commonName dirs =
     (if commonName = [] then (Some (Msg ''-common-name is required''), dirs, [])
      else case resolveCADir env dir of
             (Some e, _) \<Rightarrow> (Some e, dirs, [])
           | (None, caDir) \<Rightarrow>
               (case Revoke cos commonName (dirs caDir) of
                  (Some e, fs) \<Rightarrow> (Some (wrap ''revoke certificate'' e), dirs(caDir := fs), [])
                | (None, fs) \<Rightarrow>
                    (None, dirs(caDir := fs),
                     green p ''revoked'' @ '' certificate(s) for '' @ go_quote commonName @ [CHR 0x0A])))"

text \<open>The destination is a text file of its own.\<close>

definition caCRL ::
  "go_env \<Rightarrow> ca_os \<Rightarrow> crl_outcomes \<Rightarrow> palette \<Rightarrow> string \<Rightarrow> string \<Rightarrow> (string \<Rightarrow> ca_fs) \<Rightarrow> char disk \<Rightarrow>
   error option \<times> char disk \<times> string" where
  "caCRL env cos ros p dir out dirs d =
     (if out = [] then (Some (Msg ''-out is required''), d, [])
      else case expandHomeInto env out of
             (Some e, _) \<Rightarrow> (Some e, d, [])
           | (None, path) \<Rightarrow>
               (case resolveCADir env dir of
                  (Some e, _) \<Rightarrow> (Some e, d, [])
                | (None, caDir) \<Rightarrow>
                    (case RevokedSerials cos (dirs caDir) of
                       Inl e \<Rightarrow> (Some (wrap ''read revoked certificates'' e), d, [])
                     | Inr serials \<Rightarrow>
                         (case writeRevokedSerials ros serials (gm_get d path) of
                            (Some e, _) \<Rightarrow> (Some (wrap (''write '' @ path) e), d, [])
                          | (None, content) \<Rightarrow>
                              (None, case content of None \<Rightarrow> d | Some c \<Rightarrow> gm_set path c d,
                               green p ''wrote'' @ '' '' @ show_nat (gm_len serials) @ '' revoked serial(s) to '' @ path @
                                 [CHR 0x0A])))))"

section \<open>Properties\<close>

lemma ca_file_names: "plain_name caCertFile" "plain_name caKeyFile" "plain_name ''ca.pem''"
  by (simp_all add: plain_name_def caCertFile_def caKeyFile_def)

lemma init_contents_simps:
  "gm_keys (init_contents b) = [caCertFile, caKeyFile]" "gm_get (init_contents b) caCertFile = Some (bdCertPEM b)"
  "gm_get (init_contents b) caKeyFile = Some (bdKeyPEM b)"
  by (simp_all add: init_contents_def gm_keys_def gm_get_def caCertFile_def caKeyFile_def)

lemma issue_contents_simps:
  "gm_keys (issue_contents root b) = [caCertFile, caKeyFile, ''ca.pem'']" "gm_get (issue_contents root b) caCertFile = Some (bdCertPEM b)"
  "gm_get (issue_contents root b) caKeyFile = Some (bdKeyPEM b)" "gm_get (issue_contents root b) ''ca.pem'' = Some (caCertPEM root)"
  by (simp_all add: issue_contents_def gm_keys_def gm_get_def caCertFile_def caKeyFile_def)

text \<open>
  C32: A new CA is usable and an old one safe. If \<open>ggrok ca init\<close> succeeds, the commands that follow load
  from the same directory the CA it created, under the name asked for and with the key that was
  generated; if it fails, and what it made can be removed, the disk is as it was. Whatever
  happens, no file that was there before is changed: a second \<open>ca init\<close> never replaces the key.
\<close>

theorem init_command_safe:
  assumes "caInit env k os p dr cfg d = (err, d', out)"
    and "set (drOrd1 dr) = {caCertFile, caKeyFile}" and "set (drOrd2 dr) = {caCertFile, caKeyFile}"
    and "x509_ok k" and "pem_ok k" and "pkcs8_ok k"
  shows "(err = None \<longrightarrow> (\<exists>dir c. resolveCADir env (inOut cfg) = (None, dir) \<and>
        gm_get d (path_Join [dir, caCertFile]) = None \<and> gm_get d (path_Join [dir, caKeyFile]) = None \<and>
        loadCA k (\<lambda>_. None) d' dir = Inr c \<and> cCN (caCert c) = inCommonName cfg \<and> drKey dr = Inr (caKey c))) \<and>
    (err \<noteq> None \<longrightarrow> (\<forall>q. crRemoveErr os q = None) \<longrightarrow> same_files d d') \<and>
    (\<forall>q. gm_has d q \<longrightarrow> gm_get d' q = gm_get d q)"
proof (cases "\<exists>dir b. resolveCADir env (inOut cfg) = (None, dir) \<and>
    Init k (drKey dr) (drSerial dr) (drSign dr) (drNow dr) (inCommonName cfg) (inValidity cfg) = Inr b")
  case False
  then have "err \<noteq> None \<and> d' = d" using assms(1) by (auto simp: caInit_def split: prod.splits option.splits sum.splits)
  then show ?thesis by (auto simp: same_files_def)
next
  case True
  then obtain dir b where b: "resolveCADir env (inOut cfg) = (None, dir)"
    "Init k (drKey dr) (drSerial dr) (drSign dr) (drNow dr) (inCommonName cfg) (inValidity cfg) = Inr b" by blast
  have w: "writeCredentials os (drOrd1 dr) (drOrd2 dr) dir (init_contents b) d = (err, d')"
    using assms(1) b by (auto simp: caInit_def split: prod.splits option.splits)
  have "\<forall>n \<in> set (gm_keys (init_contents b)). plain_name n" by (simp add: init_contents_simps ca_file_names)
  note all = credentials_all_or_nothing [OF w _ _ this, unfolded init_contents_simps, simplified, OF assms(2,3)]
  obtain key where k: "drKey dr = Inr key" "cCN (bdCert b) = inCommonName cfg"
    "Load k (bdCertPEM b) (bdKeyPEM b) = Inr \<lparr>caCert = bdCert b, caCertPEM = bdCertPEM b, caKey = key\<rparr>"
    using Init_bundle [OF b(2) assms(4-6)] by blast
  have "loadCA k (\<lambda>_. None) d' dir = Inr \<lparr>caCert = bdCert b, caCertPEM = bdCertPEM b, caKey = key\<rparr>"
    "gm_get d (path_Join [dir, caCertFile]) = None" "gm_get d (path_Join [dir, caKeyFile]) = None" if "err = None"
    using all that init_contents_simps(2,3) [of b] k(3) by (simp_all add: loadCA_def os_ReadFile_def)
  then show ?thesis using all b(1) k(1,2) by auto
qed

text \<open>How far \<open>ca issue\<close> gets.\<close>

lemma caIssue_cases:
  assumes "caIssue env k os cos readErr p dr cfg s = (err, s', out)"
  obtains (nothing) "err \<noteq> None" and "csDisk s' = csDisk s"
  | (recorded) dir caDir root b fs where "expandHomeInto env (isOut cfg) = (None, dir)"
      and "resolveCADir env (isCADir cfg) = (None, caDir)" and "loadCA k readErr (csDisk s) caDir = Inr root"
      and "Issue k (drKey dr) (drSerial dr) (drSign dr) (drNow dr) root (issue_request_of cfg) = Inr b"
      and "Store cos (cert.truncate (bdCert b)) (bdCertPEM b) (csDirs s caDir) = (None, fs)"
      and "csDirs s' = (csDirs s)(caDir := fs)"
      and "writeCredentials os (drOrd1 dr) (drOrd2 dr) dir (issue_contents root b) (csDisk s) = (err, csDisk s')"
proof (cases "isCommonName cfg = [] \<or> isOut cfg = []")
  case True
  then have "err \<noteq> None \<and> s' = s"
    using assms by (cases "isCommonName cfg = []") (auto simp: caIssue_def)
  then show thesis by - (rule nothing, auto)
next
  case named: False
  obtain e1 dir where e1: "expandHomeInto env (isOut cfg) = (e1, dir)" by (metis prod.exhaust)
  obtain e2 caDir where e2: "resolveCADir env (isCADir cfg) = (e2, caDir)" by (metis prod.exhaust)
  show thesis
  proof (cases "e1 = None \<and> e2 = None \<and> (\<exists>root b. loadCA k readErr (csDisk s) caDir = Inr root \<and>
      Issue k (drKey dr) (drSerial dr) (drSign dr) (drNow dr) root (issue_request_of cfg) = Inr b)")
    case False
    then have "err \<noteq> None \<and> s' = s"
      using assms named e1 e2 by (auto simp: caIssue_def split: option.splits sum.splits)
    then show thesis by - (rule nothing, auto)
  next
    case True
    then obtain root b where b: "loadCA k readErr (csDisk s) caDir = Inr root"
      "Issue k (drKey dr) (drSerial dr) (drSign dr) (drNow dr) root (issue_request_of cfg) = Inr b" by blast
    obtain e3 fs where st: "Store cos (cert.truncate (bdCert b)) (bdCertPEM b) (csDirs s caDir) = (e3, fs)"
      by (metis prod.exhaust)
    obtain e4 d1 where w: "writeCredentials os (drOrd1 dr) (drOrd2 dr) dir (issue_contents root b) (csDisk s) = (e4, d1)"
      by (metis prod.exhaust)
    show thesis
    proof (cases e3)
      case (Some e)
      then have "err \<noteq> None \<and> csDisk s' = csDisk s"
        using assms named e1 e2 True b st by (simp add: caIssue_def) auto
      then show thesis by - (rule nothing, auto)
    next
      case None
      then have "csDirs s' = (csDirs s)(caDir := fs)" "err = e4" "csDisk s' = d1"
        using assms named e1 e2 True b st w by (simp_all add: caIssue_def) auto
      then show thesis using recorded [of dir caDir root b fs] e1 e2 True b st w None by simp
    qed
  qed
qed

text \<open>
  C31: A device's key is handed out only once its certificate is on record. If \<open>ggrok ca issue\<close>
  succeeds, the output directory holds the new certificate, its key and the root that signed it,
  in files that were not there before, and the certificate is among those the CA has issued,
  where \<open>ca revoke\<close> will find it; if it fails, the files are as they were (when what was made can
  be removed). No existing file outside the CA's own record of issued certificates is ever changed, and any file that does appear, even one left
  over from a failure, is there only when the certificate has been recorded.
\<close>

theorem issue_command_safe:
  assumes "caIssue env k os cos readErr p dr cfg s = (err, s', out)"
    and "set (drOrd1 dr) = {caCertFile, caKeyFile, ''ca.pem''}" and "set (drOrd2 dr) = {caCertFile, caKeyFile, ''ca.pem''}"
  defines "issued \<equiv> \<lambda>caDir root b. resolveCADir env (isCADir cfg) = (None, caDir) \<and> loadCA k readErr (csDisk s) caDir = Inr root \<and>
      Issue k (drKey dr) (drSerial dr) (drSign dr) (drNow dr) root (issue_request_of cfg) = Inr b \<and>
      node_at IssuedDir (csDirs s' caDir) (cert_file (cert.truncate (bdCert b))) = Some (File (bdCertPEM b))"
  shows "(err = None \<longrightarrow> (\<exists>dir caDir root b. expandHome env (isOut cfg) = Inr dir \<and> issued caDir root b \<and>
        (\<forall>n \<in> {caCertFile, caKeyFile, ''ca.pem''}. gm_get (csDisk s) (path_Join [dir, n]) = None) \<and>
        gm_get (csDisk s') (path_Join [dir, caCertFile]) = Some (bdCertPEM b) \<and>
        gm_get (csDisk s') (path_Join [dir, caKeyFile]) = Some (bdKeyPEM b) \<and>
        gm_get (csDisk s') (path_Join [dir, ''ca.pem'']) = Some (caCertPEM root))) \<and>
    (err \<noteq> None \<longrightarrow> (\<forall>q. crRemoveErr os q = None) \<longrightarrow> same_files (csDisk s) (csDisk s')) \<and>
    (\<forall>q. gm_has (csDisk s) q \<longrightarrow> gm_get (csDisk s') q = gm_get (csDisk s) q) \<and>
    (\<not> same_files (csDisk s) (csDisk s') \<longrightarrow> (\<exists>caDir root b. issued caDir root b))"
  using assms(1)
proof (cases rule: caIssue_cases)
  case nothing
  then show ?thesis by (auto simp: same_files_def)
next
  case (recorded dir caDir root b fs)
  have dir: "expandHome env (isOut cfg) = Inr dir"
    using recorded(1) by (auto simp: expandHomeInto_def split: sum.splits)
  have rec: "issued caDir root b"
    using recorded(2,3,4,6) Store_ok(1) [OF recorded(5)] by (simp add: issued_def)
  have "\<forall>n \<in> set (gm_keys (issue_contents root b)). plain_name n" by (simp add: issue_contents_simps ca_file_names)
  note all = credentials_all_or_nothing [OF recorded(7) _ _ this, unfolded issue_contents_simps, simplified, OF assms(2,3)]
  have files: "gm_get (csDisk s) (path_Join [dir, n]) = None \<and> gm_get (csDisk s') (path_Join [dir, n]) = Some bs"
    if "err = None" "gm_get (issue_contents root b) n = Some bs" for n bs
    using all that by blast
  have handed: "(\<forall>n \<in> {caCertFile, caKeyFile, ''ca.pem''}. gm_get (csDisk s) (path_Join [dir, n]) = None) \<and>
        gm_get (csDisk s') (path_Join [dir, caCertFile]) = Some (bdCertPEM b) \<and>
        gm_get (csDisk s') (path_Join [dir, caKeyFile]) = Some (bdKeyPEM b) \<and>
        gm_get (csDisk s') (path_Join [dir, ''ca.pem'']) = Some (caCertPEM root)" if "err = None"
    using files [OF that] issue_contents_simps(2-4) [of root b] by simp
  show ?thesis
  proof (intro conjI impI)
    assume "err = None"
    with dir rec handed [OF this] show "\<exists>dir caDir root b. expandHome env (isOut cfg) = Inr dir \<and> issued caDir root b \<and>
        (\<forall>n \<in> {caCertFile, caKeyFile, ''ca.pem''}. gm_get (csDisk s) (path_Join [dir, n]) = None) \<and>
        gm_get (csDisk s') (path_Join [dir, caCertFile]) = Some (bdCertPEM b) \<and>
        gm_get (csDisk s') (path_Join [dir, caKeyFile]) = Some (bdKeyPEM b) \<and>
        gm_get (csDisk s') (path_Join [dir, ''ca.pem'']) = Some (caCertPEM root)" by blast
  qed (use all rec in auto)
qed

text \<open>
  The role \<open>ca list\<close> shows is the role that was asked for. A certificate issued by a loaded CA
  shows as \<open>server\<close> if it was issued with \<open>-server\<close> and as \<open>node\<close> otherwise, followed by \<open>+admin\<close> exactly
  if it was issued with \<open>-admin\<close>; so a role that was forgotten is visible.
\<close>

theorem role_shows_request:
  assumes "Issue k gen draw rnd now root (issue_request_of cfg) = Inr b"
    and "x509_ok k" and "pem_ok k" and "pkcs8_ok k"
  shows "certRole (bdCert b) = (if isServer cfg then ''server'' else ''node'') @ (if isAdmin cfg then ''+admin'' else [])"
proof -
  obtain key serial der where i: "newSerial draw = Inr serial"
    "x509Create k rnd (issue_template now serial (with_default (issue_request_of cfg))) (caCert root) (mldsaPublic k key) (caKey root) = Inr der"
    "buildBundle k der key = Inr b"
    by (rule Issue_Inr [OF assms(1)])
  note r = reads_signed [OF i(2) conjunct1 [OF buildBundle_Inr [OF i(3) assms(3,4)]] assms(2)]
  then have "xExtKeyUsage (bdCert b) = [if isServer cfg then ExtKeyUsageServerAuth else ExtKeyUsageClientAuth]"
    "HasAdminEKU (Some (cert.truncate (bdCert b))) = isAdmin cfg"
    by (simp_all add: reads_as_def issue_template_def issue_request_of_def HasAdminEKU_iff cert.truncate_def)
  then show ?thesis
    by (simp add: certRole_def extKeyUsageNames_def ExtKeyUsageServerAuth_def ExtKeyUsageClientAuth_def Let_def)
qed

section \<open>A concrete run\<close>

definition sample_fine_os :: cli_os where
  "sample_fine_os = \<lparr>crMkdirErr = (\<lambda>_. None), crOpenErr = (\<lambda>_. None), crWriteErr = (\<lambda>_. None), crCloseErr = (\<lambda>_. None),
     crRemoveErr = (\<lambda>_. None), crStdoutErr = None\<rparr>"

definition sample_init_draws :: "byte ca_draws" where
  "sample_init_draws = \<lparr>drKey = Inr 1, drSerial = (\<lambda>bound. if 10 < bound then Inr 4 else Inl (Fault 1)), drSign = 0, drNow = 0,
     drOrd1 = [caCertFile, caKeyFile], drOrd2 = [caKeyFile, caCertFile]\<rparr>"

definition sample_issue_draws :: "byte ca_draws" where
  "sample_issue_draws = \<lparr>drKey = Inr 2, drSerial = (\<lambda>bound. if 10 < bound then Inr 6 else Inl (Fault 1)), drSign = 0, drNow = 0,
     drOrd1 = [caCertFile, caKeyFile, ''ca.pem''], drOrd2 = [''ca.pem'', caKeyFile, caCertFile]\<rparr>"

definition sample_issue_config :: ca_issue_config where
  "sample_issue_config = \<lparr>isCADir = ''ca'', isCommonName = ''laptop'', isOut = ''out'', isTTL = 60 * go_second, isServer = False,
     isDNSNames = [], isIPs = [], isAdmin = True\<rparr>"

definition sample_ca_state :: ca_state where
  "sample_ca_state = \<lparr>csDisk = [(''ca/cert.pem'', [1, 1]), (''ca/key.pem'', [2, 1])], csDirs = (\<lambda>_. sample_empty)\<rparr>"

lemma sample_ca_paths:
  "path_Join [''ca'', caCertFile] = ''ca/cert.pem''" "path_Join [''ca'', caKeyFile] = ''ca/key.pem''"
  "path_Join [''out'', caCertFile] = ''out/cert.pem''" "path_Join [''out'', caKeyFile] = ''out/key.pem''"
  "path_Join [''out'', ''ca.pem''] = ''out/ca.pem''"
  by code_simp+

lemma sample_dirs: "resolveCADir e ''ca'' = (None, ''ca'')" "expandHome e ''out'' = Inr ''out''"
  by (simp_all add: resolveCADir_def expandHomeInto_def expandHome_def)

lemma init_command_safe_witness:
  "\<exists>d' out c. caInit sample_env sample_pki sample_fine_os False sample_init_draws
       \<lparr>inOut = ''ca'', inCommonName = ''root'', inValidity = 3600 * go_second\<rparr> [] = (None, d', out) \<and>
     loadCA sample_pki (\<lambda>_. None) d' ''ca'' = Inr c \<and> cCN (caCert c) = ''root'' \<and> caKey c = 1"
proof -
  let ?run = "caInit sample_env sample_pki sample_fine_os False sample_init_draws
       \<lparr>inOut = ''ca'', inCommonName = ''root'', inValidity = 3600 * go_second\<rparr> []"
  obtain err d' out where r: "?run = (err, d', out)" by (metis prod_cases3)
  have "fst ?run = None"
    using sample_init
    by (simp add: caInit_def sample_dirs sample_init_draws_def writeCredentials_def init_contents_def sample_fine_os_def
        sample_ca_paths create_excl_def file_write_def gomap_simps)
  moreover note init_command_safe [OF r _ _ sample_pki_ok]
  ultimately show ?thesis using r sample_dirs(1) [of sample_env] by (auto simp: sample_init_draws_def)
qed

lemma issue_command_safe_witness:
  "\<exists>s' out. caIssue sample_env sample_pki sample_fine_os sample_pki_os (\<lambda>_. None) False sample_issue_draws sample_issue_config
       sample_ca_state = (None, s', out) \<and>
     gm_get (csDisk s') ''out/ca.pem'' = Some [1, 1] \<and> gm_get (csDisk s') ''ca/key.pem'' = Some [2, 1] \<and>
     node_at IssuedDir (csDirs s' ''ca'') (cert_file (cert.truncate sample_device)) \<noteq> None"
proof -
  let ?run = "caIssue sample_env sample_pki sample_fine_os sample_pki_os (\<lambda>_. None) False sample_issue_draws sample_issue_config sample_ca_state"
  obtain err s' out where r: "?run = (err, s', out)" by (metis prod_cases3)
  have ld: "loadCA sample_pki (\<lambda>_. None) (csDisk sample_ca_state) ''ca'' = Inr sample_ca"
    using sample_load by (simp add: loadCA_def os_ReadFile_def sample_ca_paths sample_ca_state_def gm_get_def)
  have rq: "issue_request_of sample_issue_config = sample_request"
    by (simp add: issue_request_of_def sample_issue_config_def sample_request_def)
  have isd: "Issue sample_pki (drKey sample_issue_draws) (drSerial sample_issue_draws) (drSign sample_issue_draws)
      (drNow sample_issue_draws) sample_ca (issue_request_of sample_issue_config) =
      Inr \<lparr>bdCert = sample_device, bdCertPEM = [1, 2], bdKeyPEM = [2, 2]\<rparr>"
    using sample_issue by (simp add: rq) (simp add: sample_issue_draws_def)
  have st: "\<exists>fs. Store sample_pki_os ct pem (csDirs sample_ca_state ''ca'') = (None, fs)" for ct pem
    by (simp add: Store_def os_MkdirAll_def sample_pki_os_def sample_os_def sample_ca_state_def sample_empty_def dir_of_def
        set_dir_def Let_def)
  have cw: "fst (writeCredentials sample_fine_os (drOrd1 sample_issue_draws) (drOrd2 sample_issue_draws) ''out'' c (csDisk sample_ca_state)) = None"
    for c
    by (simp add: writeCredentials_def sample_issue_draws_def sample_fine_os_def sample_ca_paths create_excl_def file_write_def
        gomap_simps sample_ca_state_def gm_has_def gm_get_def gm_set_def Let_def split: option.split)
  have cfg: "isCommonName sample_issue_config \<noteq> []" "isOut sample_issue_config = ''out''" "isCADir sample_issue_config = ''ca''"
    by (simp_all add: sample_issue_config_def)
  have "fst ?run = None"
    using st [of "cert.truncate sample_device" "[1, 2]"]
      cw [of "issue_contents sample_ca \<lparr>bdCert = sample_device, bdCertPEM = [1, 2], bdKeyPEM = [2, 2]\<rparr>"]
    by (auto simp: caIssue_def cfg sample_dirs expandHomeInto_def ld isd split: prod.split)
  then have err: "err = None" using r by simp
  have ord: "set (drOrd1 sample_issue_draws) = {caCertFile, caKeyFile, ''ca.pem''}"
    "set (drOrd2 sample_issue_draws) = {caCertFile, caKeyFile, ''ca.pem''}" by (auto simp: sample_issue_draws_def)
  from issue_command_safe [OF r ord] err obtain dir caDir root b where
    "expandHome sample_env (isOut sample_issue_config) = Inr dir" "resolveCADir sample_env (isCADir sample_issue_config) = (None, caDir)"
    "loadCA sample_pki (\<lambda>_. None) (csDisk sample_ca_state) caDir = Inr root"
    "Issue sample_pki (drKey sample_issue_draws) (drSerial sample_issue_draws) (drSign sample_issue_draws) (drNow sample_issue_draws)
       root (issue_request_of sample_issue_config) = Inr b"
    "node_at IssuedDir (csDirs s' caDir) (cert_file (cert.truncate (bdCert b))) = Some (File (bdCertPEM b))"
    "gm_get (csDisk s') (path_Join [dir, ''ca.pem'']) = Some (caCertPEM root)"
    "\<forall>q. gm_has (csDisk sample_ca_state) q \<longrightarrow> gm_get (csDisk s') q = gm_get (csDisk sample_ca_state) q"
    by blast
  then show ?thesis
    using r err ld isd by (auto simp: cfg sample_dirs sample_ca_paths sample_ca_def) (simp add: sample_ca_state_def gm_has_def gm_get_def)
qed

lemma role_shows_request_witness:
  "certRole sample_device = ''node+admin''"
proof -
  have "issue_request_of sample_issue_config = sample_request"
    by (simp add: issue_request_of_def sample_issue_config_def sample_request_def)
  with role_shows_request [where cfg = sample_issue_config, unfolded this, OF sample_issue sample_pki_ok]
  show ?thesis by (simp add: sample_issue_config_def)
qed

end
