(* ===== verification/Frame_Conn.thy ===== *)
theory Frame_Conn
  imports Credentials
begin

text \<open>
  The sealed stream of a tunnel (\<^verbatim>\<open>internal/proto/frame_conn.go\<close>): nonces, the write loop
  that splits a slice into frames, the reader that opens them, and the sticky errors of both
  halves. The reused buffers \<open>writeBuf\<close> and \<open>readBuf\<close> hold no state of their own: the
  first is emptied before every frame, the second is refilled only once \<open>plain\<close>, the part
  of it not yet handed out, is empty. The two mutexes make each call atomic.
\<close>

section \<open>State and construction\<close>

definition frameLenSize :: nat where [go_consts]: "frameLenSize = 2"
definition noncePrefixSize :: nat where [go_consts]: "noncePrefixSize = 16"
definition maxFramePlaintext :: nat where "maxFramePlaintext = 65535 - aead_overhead"

lemma maxFramePlaintext_eq [simp]: "maxFramePlaintext = 65519"
  by (simp add: maxFramePlaintext_def go_consts)

record enc_conn =
  econn :: conn
  writeErr :: "error option"
  writeAEAD :: data_key
  writeSeq :: u64
  writePrefix :: "byte list"
  prefixSent :: bool
  readErr :: "error option"
  readAEAD :: data_key
  readSeq :: u64
  readPrefix :: "byte list"
  prefixSeen :: bool
  plain :: "byte list"

definition NewEncryptedConn ::
  "('sk, 'pk) crypto \<Rightarrow> byte list result \<Rightarrow> conn \<Rightarrow> data_secret \<Rightarrow> role \<Rightarrow> enc_conn result" where
  "NewEncryptedConn cr drawn c secret role =
     (if role \<noteq> RolePublish \<and> role \<noteq> RoleSubscribe
      then Inl (Msg (''encrypted conn: invalid role '' @ show_nat (unat role)))
      else let (pubToSub, subToPub) = deriveDataKeys cr secret;
               (writeKey, readKey) =
                 (if role = RoleSubscribe then (subToPub, pubToSub) else (pubToSub, subToPub))
           in case aead_new cr writeKey of
                Inl e \<Rightarrow> Inl (wrap ''encrypted conn'' e)
              | Inr _ \<Rightarrow>
                  (case aead_new cr readKey of
                     Inl e \<Rightarrow> Inl (wrap ''encrypted conn'' e)
                   | Inr _ \<Rightarrow>
                       (case drawn of
                          Inl e \<Rightarrow> Inl (wrap ''encrypted conn: draw nonce prefix'' e)
                        | Inr prefix \<Rightarrow>
                            Inr \<lparr>econn = c, writeErr = None, writeAEAD = writeKey, writeSeq = 0,
                                 writePrefix = prefix, prefixSent = False,
                                 readErr = None, readAEAD = readKey, readSeq = 0,
                                 readPrefix = replicate noncePrefixSize 0, prefixSeen = False,
                                 plain = []\<rparr>)))"

definition frame_nonce :: "byte list \<Rightarrow> u64 \<Rightarrow> byte list" where
  "frame_nonce prefix seq = prefix @ put_u64 seq"

definition frame_counter_exhausted :: error where
  "frame_counter_exhausted = Msg ''frame counter exhausted''"

section \<open>Writing\<close>

text \<open>The bytes of one frame: the ciphertext's length and the ciphertext.\<close>

definition frame_bytes ::
  "('sk, 'pk) crypto \<Rightarrow> data_key \<Rightarrow> byte list \<Rightarrow> u64 \<Rightarrow> byte list \<Rightarrow> byte list" where
  "frame_bytes cr key prefix seq chunk =
     (let ct = aead_seal cr key (frame_nonce prefix seq) chunk
      in put_u16 (of_nat (length ct)) @ ct)"

text \<open>
  The loop of \<open>Write\<close>: \<open>rest\<close> is \<open>p[written:]\<close>. Each round seals at most
  \<open>maxFramePlaintext\<close> bytes; the nonce prefix rides in front of the first frame.
\<close>

function enc_write_loop ::
  "('sk, 'pk) crypto \<Rightarrow> byte list \<Rightarrow> nat \<Rightarrow> enc_conn \<Rightarrow> (nat \<times> error option) \<times> enc_conn" where
  "enc_write_loop cr rest written c =
     (if writeSeq c = - 1
      then ((written, Some frame_counter_exhausted), c\<lparr>writeErr := Some frame_counter_exhausted\<rparr>)
      else let chunk = take maxFramePlaintext rest;
               buf = (if prefixSent c then [] else writePrefix c) @
                     frame_bytes cr (writeAEAD c) (writePrefix c) (writeSeq c) chunk;
               (werr, k) = writeFull buf (econn c);
               c1 = c\<lparr>writeSeq := writeSeq c + 1, econn := k\<rparr>
           in case werr of
                Some e \<Rightarrow>
                  ((written, Some (wrap ''write frame'' e)),
                   c1\<lparr>writeErr := Some (wrap ''write frame'' e)\<rparr>)
              | None \<Rightarrow>
                  (let c2 = c1\<lparr>prefixSent := True\<rparr>;
                       written' = written + length chunk;
                       rest' = drop maxFramePlaintext rest
                   in if rest' = [] then ((written', None), c2)
                      else enc_write_loop cr rest' written' c2))"
  by pat_completeness auto
termination
  by (relation "measure (\<lambda>(cr, rest, written, c). length rest)") auto

declare enc_write_loop.simps [simp del]

definition enc_Write ::
  "('sk, 'pk) crypto \<Rightarrow> byte list \<Rightarrow> enc_conn \<Rightarrow> (nat \<times> error option) \<times> enc_conn" where
  "enc_Write cr p c =
     (case writeErr c of
        Some e \<Rightarrow> ((0, Some e), c)
      | None \<Rightarrow> if p = [] then ((0, None), c) else enc_write_loop cr p 0 c)"

section \<open>Reading\<close>

text \<open>
  \<open>readFrame\<close> in its three reads: the peer's nonce prefix (once), the length, the body. An
  end of stream before the prefix or before a header is a clean \<open>io.EOF\<close>.
\<close>

definition eof_or_wrap :: "string \<Rightarrow> error \<Rightarrow> error" where
  "eof_or_wrap what e = (if errors_is e EOF then Sentinel EOF else wrap what e)"

definition read_prefix :: "enc_conn \<Rightarrow> error option \<times> enc_conn" where
  "read_prefix c =
     (if prefixSeen c then (None, c)
      else case read_full noncePrefixSize (econn c) of
             (Inl e, k) \<Rightarrow> (Some (eof_or_wrap ''read nonce prefix'' e), c\<lparr>econn := k\<rparr>)
           | (Inr p, k) \<Rightarrow> (None, c\<lparr>econn := k, readPrefix := p, prefixSeen := True\<rparr>))"

definition read_body :: "('sk, 'pk) crypto \<Rightarrow> enc_conn \<Rightarrow> error option \<times> enc_conn" where
  "read_body cr c =
     (case read_full frameLenSize (econn c) of
        (Inl e, k) \<Rightarrow> (Some (eof_or_wrap ''read frame header'' e), c\<lparr>econn := k\<rparr>)
      | (Inr lenBuf, k) \<Rightarrow>
          (let size = unat (get_u16 lenBuf)
           in if size < aead_overhead
              then (Some (Msg (''read frame: '' @ show_nat size @ '' bytes cannot hold a tag'')),
                    c\<lparr>econn := k\<rparr>)
              else case read_full size k of
                     (Inl e, k') \<Rightarrow> (Some (wrap ''read frame body'' e), c\<lparr>econn := k'\<rparr>)
                   | (Inr body, k') \<Rightarrow>
                       (case aead_open cr (readAEAD c) (frame_nonce (readPrefix c) (readSeq c)) body of
                          Inl e \<Rightarrow>
                            (Some (wrap (''decrypt frame '' @ show_nat (unat (readSeq c))) e),
                             c\<lparr>econn := k'\<rparr>)
                        | Inr p \<Rightarrow>
                            (None, c\<lparr>econn := k', readSeq := readSeq c + 1, plain := p\<rparr>))))"

definition readFrame :: "('sk, 'pk) crypto \<Rightarrow> enc_conn \<Rightarrow> error option \<times> enc_conn" where
  "readFrame cr c =
     (if readSeq c = - 1 then (Some frame_counter_exhausted, c)
      else case read_prefix c of
             (Some e, c1) \<Rightarrow> (Some e, c1)
           | (None, c1) \<Rightarrow> read_body cr c1)"

lemma read_prefix_shrinks:
  assumes "read_prefix c = (r, c1)"
  shows "length (inb (econn c1)) \<le> length (inb (econn c))"
proof (cases "prefixSeen c")
  case False
  obtain q k where q: "read_full noncePrefixSize (econn c) = (q, k)"
    by (cases "read_full noncePrefixSize (econn c)")
  with assms False have "econn c1 = k"
    by (auto simp: read_prefix_def split: sum.split_asm)
  then show ?thesis using read_full_shrinks [OF q] by simp
qed (use assms in \<open>simp add: read_prefix_def\<close>)

lemma read_body_NoneE:
  assumes "read_body cr c = (None, c1)"
  obtains lenBuf k body k' p where
    "read_full frameLenSize (econn c) = (Inr lenBuf, k)"
    and "\<not> unat (get_u16 lenBuf) < aead_overhead"
    and "read_full (unat (get_u16 lenBuf)) k = (Inr body, k')"
    and "aead_open cr (readAEAD c) (frame_nonce (readPrefix c) (readSeq c)) body = Inr p"
    and "c1 = c\<lparr>econn := k', readSeq := readSeq c + 1, plain := p\<rparr>"
proof -
  obtain q k where q: "read_full frameLenSize (econn c) = (q, k)"
    by (cases "read_full frameLenSize (econn c)")
  obtain lenBuf where q': "q = Inr lenBuf"
    using assms q by (cases q) (auto simp: read_body_def)
  obtain b k' where b: "read_full (unat (get_u16 lenBuf)) k = (b, k')"
    by (cases "read_full (unat (get_u16 lenBuf)) k")
  show ?thesis
    using assms q q' b that
    by (simp add: read_body_def Let_def split: if_split_asm sum.split_asm)
qed

lemma read_body_shrinks:
  assumes "read_body cr c = (None, c1)"
  shows "length (inb (econn c1)) + aead_overhead + frameLenSize \<le> length (inb (econn c))"
  using assms by (elim read_body_NoneE) (auto dest!: read_full_split)

lemma readFrame_shrinks:
  assumes "readFrame cr c = (None, c1)"
  shows "length (inb (econn c1)) + aead_overhead + frameLenSize \<le> length (inb (econn c))"
proof -
  obtain r c0 where p: "read_prefix c = (r, c0)" by (cases "read_prefix c")
  with assms have "read_body cr c0 = (None, c1)"
    by (auto simp: readFrame_def split: if_split_asm option.split_asm)
  from read_body_shrinks [OF this] read_prefix_shrinks [OF p] show ?thesis by simp
qed

lemma read_body_le:
  assumes "read_body cr c = (r, c1)"
  shows "length (inb (econn c1)) \<le> length (inb (econn c))"
proof -
  obtain q k where q: "read_full frameLenSize (econn c) = (q, k)"
    by (cases "read_full frameLenSize (econn c)")
  have qk: "length (inb k) \<le> length (inb (econn c))" using read_full_shrinks [OF q] .
  show ?thesis
  proof (cases q)
    case (Inl e)
    with assms q qk show ?thesis by (auto simp: read_body_def)
  next
    case (Inr lenBuf)
    obtain b k' where b: "read_full (unat (get_u16 lenBuf)) k = (b, k')"
      by (cases "read_full (unat (get_u16 lenBuf)) k")
    have "length (inb k') \<le> length (inb k)" using read_full_shrinks [OF b] .
    with assms q qk Inr b show ?thesis
      by (auto simp: read_body_def Let_def split: if_split_asm sum.split_asm)
  qed
qed

lemma readFrame_le:
  assumes "readFrame cr c = (r, c1)"
  shows "length (inb (econn c1)) \<le> length (inb (econn c))"
proof -
  obtain q c0 where p: "read_prefix c = (q, c0)" by (cases "read_prefix c")
  then show ?thesis
    using assms read_prefix_shrinks [OF p] read_body_le [of cr c0 r c1]
    by (auto simp: readFrame_def split: if_split_asm option.split_asm)
qed

text \<open>The loop of \<open>Read\<close>: frames are read until one carries plaintext.\<close>

function fill_plain :: "('sk, 'pk) crypto \<Rightarrow> enc_conn \<Rightarrow> error option \<times> enc_conn" where
  "fill_plain cr c =
     (if plain c \<noteq> [] then (None, c)
      else case readFrame cr c of
             (Some e, c1) \<Rightarrow> (Some e, c1\<lparr>readErr := Some e\<rparr>)
           | (None, c1) \<Rightarrow> fill_plain cr c1)"
  by pat_completeness auto
termination
  by (relation "measure (\<lambda>(cr, c). length (inb (econn c)))")
    (auto dest!: readFrame_shrinks [OF sym] simp: go_consts)

declare fill_plain.simps [simp del]

text \<open>\<open>Read\<close> with a buffer of \<open>n\<close> bytes: the bytes copied, and the error.\<close>

definition enc_Read ::
  "('sk, 'pk) crypto \<Rightarrow> nat \<Rightarrow> enc_conn \<Rightarrow> (byte list \<times> error option) \<times> enc_conn" where
  "enc_Read cr n c =
     (if n = 0 then (([], None), c)
      else case readErr c of
             Some e \<Rightarrow> (([], Some e), c)
           | None \<Rightarrow>
               (case fill_plain cr c of
                  (Some e, c1) \<Rightarrow> (([], Some e), c1)
                | (None, c1) \<Rightarrow> ((take n (plain c1), None), c1\<lparr>plain := drop n (plain c1)\<rparr>)))"

definition enc_Close :: "enc_conn \<Rightarrow> enc_conn" where
  "enc_Close c = c\<lparr>econn := conn_close (econn c)\<rparr>"


section \<open>What the writer puts on the wire\<close>

text \<open>
  \<open>chunks p\<close> cuts a slice as the write loop does; \<open>frames_from seq\<close> is the byte string of
  consecutive frames numbered from \<open>seq\<close>.
\<close>

fun chunks :: "byte list \<Rightarrow> byte list list" where
  "chunks p = (if drop maxFramePlaintext p = [] then [p]
               else take maxFramePlaintext p # chunks (drop maxFramePlaintext p))"

declare chunks.simps [simp del]

fun frames_from ::
  "('sk, 'pk) crypto \<Rightarrow> data_key \<Rightarrow> byte list \<Rightarrow> u64 \<Rightarrow> byte list list \<Rightarrow> byte list" where
  "frames_from cr key prefix seq [] = []"
| "frames_from cr key prefix seq (ch # chs) =
     frame_bytes cr key prefix seq ch @ frames_from cr key prefix (seq + 1) chs"

lemma concat_chunks: "concat (chunks p) = p"
proof (induction p rule: chunks.induct)
  case (1 p)
  then show ?case by (simp add: chunks.simps [of p])
qed

lemma chunks_bound: "ch \<in> set (chunks p) \<Longrightarrow> length ch \<le> maxFramePlaintext"
proof (induction p rule: chunks.induct)
  case (1 p)
  then show ?case by (auto simp: chunks.simps [of p] split: if_splits)
qed

lemma chunks_nonempty: "p \<noteq> [] \<Longrightarrow> ch \<in> set (chunks p) \<Longrightarrow> ch \<noteq> []"
proof (induction p rule: chunks.induct)
  case (1 p)
  then show ?case by (auto simp: chunks.simps [of p] split: if_splits)
qed

lemma chunks_not_Nil [simp]: "chunks p \<noteq> []"
  by (simp add: chunks.simps)

lemma frames_from_append:
  "frames_from cr key prefix seq (xs @ ys) =
   frames_from cr key prefix seq xs @ frames_from cr key prefix (seq + of_nat (length xs)) ys"
  by (induction xs arbitrary: seq) (simp_all add: add.assoc add.left_commute)

text \<open>The header counts the ciphertext exactly: no frame overflows its 16-bit length.\<close>

lemma frame_bytes_header:
  assumes "aead_ok cr" and "length chunk \<le> maxFramePlaintext"
  shows "frame_bytes cr key prefix seq chunk =
           put_u16 (of_nat (length chunk + aead_overhead)) @
           aead_seal cr key (frame_nonce prefix seq) chunk"
    and "unat (of_nat (length chunk + aead_overhead) :: u16) = length chunk + aead_overhead"
proof -
  show "frame_bytes cr key prefix seq chunk =
      put_u16 (of_nat (length chunk + aead_overhead)) @
      aead_seal cr key (frame_nonce prefix seq) chunk"
    using assms(1) by (simp add: frame_bytes_def Let_def aead_ok_def go_consts)
  have "length chunk + aead_overhead < 65536"
    using assms(2) by (simp add: go_consts)
  then show "unat (of_nat (length chunk + aead_overhead) :: u16) = length chunk + aead_overhead"
    by (simp only: unat_of_nat) simp
qed

text \<open>
  A successful write loop: the bytes on the wire are the stream's prefix, if it was still
  owed, and one frame per chunk under consecutive counters.
\<close>

definition owed_prefix :: "enc_conn \<Rightarrow> byte list" where
  "owed_prefix c = (if prefixSent c then [] else writePrefix c)"

lemma enc_write_loop_ok:
  "enc_write_loop cr rest written c = ((n, None), c') \<Longrightarrow>
   n = written + length rest \<and>
   outb (econn c') = outb (econn c) @ owed_prefix c @
     frames_from cr (writeAEAD c) (writePrefix c) (writeSeq c) (chunks rest) \<and>
   writeSeq c' = writeSeq c + of_nat (length (chunks rest)) \<and>
   unat (writeSeq c) + length (chunks rest) < 2 ^ 64 \<and>
   prefixSent c' \<and> writeErr c' = writeErr c \<and> writeAEAD c' = writeAEAD c \<and>
   writePrefix c' = writePrefix c \<and> inb (econn c') = inb (econn c)"
proof (induction cr rest written c arbitrary: n c' rule: enc_write_loop.induct)
  case (1 cr rest written c)
  let ?buf = "(if prefixSent c then [] else writePrefix c) @
     frame_bytes cr (writeAEAD c) (writePrefix c) (writeSeq c) (take maxFramePlaintext rest)"
  have seq: "writeSeq c \<noteq> - 1"
    using "1.prems" by (auto simp: enc_write_loop.simps [of cr rest written c])
  obtain e k where w: "writeFull ?buf (econn c) = (e, k)"
    by (cases "writeFull ?buf (econn c)")
  have "e = None"
    using "1.prems" seq w
    by (cases e) (simp_all add: enc_write_loop.simps [of cr rest written c] Let_def)
  then have out: "outb k = outb (econn c) @ ?buf" and inb: "inb k = inb (econn c)"
    using writeFull_None writeFull_frame w by blast+
  have next_seq: "unat (writeSeq c + 1) = unat (writeSeq c) + 1"
    using seq by (rule unat_inc)
  let ?c2 = "c\<lparr>writeSeq := writeSeq c + 1, econn := k, prefixSent := True\<rparr>"
  show ?case
  proof (cases "drop maxFramePlaintext rest = []")
    case True
    then have "c' = ?c2" and "n = written + length rest"
      using "1.prems" seq w \<open>e = None\<close>
      by (simp_all add: enc_write_loop.simps [of cr rest written c] Let_def)
    moreover have "chunks rest = [rest]"
      using True by (simp add: chunks.simps [of rest])
    moreover have "unat (writeSeq c) + 1 < 2 ^ 64"
      using next_seq unsigned_less [where ?'a = nat and w = "writeSeq c + 1"] by simp
    ultimately show ?thesis
      using True out inb by (simp add: owed_prefix_def)
  next
    case False
    have loop: "enc_write_loop cr (drop maxFramePlaintext rest) (written + length (take maxFramePlaintext rest)) ?c2 =
      ((n, None), c')"
      using "1.prems" seq w \<open>e = None\<close> False
      by (simp add: enc_write_loop.simps [of cr rest written c] Let_def)
    have ch: "chunks rest = take maxFramePlaintext rest # chunks (drop maxFramePlaintext rest)"
      using False by (simp add: chunks.simps [of rest])
    have ih: "n = written + length (take maxFramePlaintext rest) + length (drop maxFramePlaintext rest) \<and>
      outb (econn c') = outb (econn ?c2) @ owed_prefix ?c2 @
        frames_from cr (writeAEAD ?c2) (writePrefix ?c2) (writeSeq ?c2) (chunks (drop maxFramePlaintext rest)) \<and>
      writeSeq c' = writeSeq ?c2 + of_nat (length (chunks (drop maxFramePlaintext rest))) \<and>
      unat (writeSeq ?c2) + length (chunks (drop maxFramePlaintext rest)) < 2 ^ 64 \<and>
      prefixSent c' \<and> writeErr c' = writeErr ?c2 \<and> writeAEAD c' = writeAEAD ?c2 \<and>
      writePrefix c' = writePrefix ?c2 \<and> inb (econn c') = inb (econn ?c2)"
      using seq w \<open>e = None\<close> False loop by (intro "1.IH") auto
    then show ?thesis
      using out inb next_seq ch False by (simp add: owed_prefix_def)
  qed
qed

section \<open>What the reader delivers\<close>

text \<open>
  \<open>in_stream cr key prefix c chs\<close>: what is still to come at the reader \<open>c\<close> is exactly
  the frames of \<open>chs\<close>, behind the nonce prefix if that has not been read.
\<close>

definition in_stream ::
  "('sk, 'pk) crypto \<Rightarrow> data_key \<Rightarrow> byte list \<Rightarrow> enc_conn \<Rightarrow> byte list list \<Rightarrow> bool" where
  "in_stream cr key prefix c chs \<longleftrightarrow>
     readErr c = None \<and> readAEAD c = key \<and> \<not> shut (econn c) \<and> inerr (econn c) = Sentinel EOF \<and>
     length prefix = noncePrefixSize \<and>
     (\<forall>ch \<in> set chs. length ch \<le> maxFramePlaintext) \<and>
     unat (readSeq c) + length chs < 2 ^ 64 - 1 \<and>
     (if prefixSeen c
      then readPrefix c = prefix \<and> inb (econn c) = frames_from cr key prefix (readSeq c) chs
      else inb (econn c) = (if chs = [] then [] else prefix @ frames_from cr key prefix (readSeq c) chs))"

lemma in_stream_open:
  assumes "in_stream cr key prefix c chs"
  shows "readSeq c \<noteq> - 1"
proof
  assume "readSeq c = - 1"
  then have "unat (readSeq c) = 2 ^ 64 - 1" by (simp add: unsigned_minus_1_eq_mask mask_eq_exp_minus_1)
  with assms show False by (simp add: in_stream_def)
qed

lemma read_prefix_stream:
  assumes "in_stream cr key prefix c (ch # chs)"
  shows "\<exists>c1. read_prefix c = (None, c1) \<and> in_stream cr key prefix c1 (ch # chs) \<and>
    prefixSeen c1 \<and> plain c1 = plain c \<and> readSeq c1 = readSeq c"
proof (cases "prefixSeen c")
  case True
  with assms show ?thesis by (simp add: read_prefix_def)
next
  case False
  let ?rest = "frames_from cr key prefix (readSeq c) (ch # chs)"
  from assms False have "inb (econn c) = prefix @ ?rest" "\<not> shut (econn c)"
    "length prefix = noncePrefixSize"
    by (simp_all add: in_stream_def)
  then have "read_full noncePrefixSize (econn c) = (Inr prefix, (econn c)\<lparr>inb := ?rest\<rparr>)"
    by (intro read_full_ok) auto
  with assms False show ?thesis
    by (simp add: read_prefix_def in_stream_def)
qed

lemma read_body_stream:
  assumes "aead_ok cr" and "in_stream cr key prefix c (ch # chs)" and "prefixSeen c"
  shows "\<exists>c1. read_body cr c = (None, c1) \<and> in_stream cr key prefix c1 chs \<and> plain c1 = ch"
proof -
  let ?rest = "frames_from cr key prefix (readSeq c + 1) chs"
  let ?ct = "aead_seal cr key (frame_nonce prefix (readSeq c)) ch"
  let ?len = "of_nat (length ch + aead_overhead) :: u16"
  have ch: "length ch \<le> maxFramePlaintext" using assms(2) by (simp add: in_stream_def)
  have open_conn: "\<not> shut (econn c)" using assms(2) by (simp add: in_stream_def)
  have "inb (econn c) = put_u16 ?len @ ?ct @ ?rest"
    using assms(2,3) frame_bytes_header(1) [OF assms(1) ch, of key prefix "readSeq c"]
    by (simp add: in_stream_def del: of_nat_add)
  then have hdr: "read_full frameLenSize (econn c) = (Inr (put_u16 ?len), (econn c)\<lparr>inb := ?ct @ ?rest\<rparr>)"
    using open_conn by (intro read_full_ok) (simp_all add: go_consts)
  have size: "unat (get_u16 (put_u16 ?len)) = length ch + aead_overhead"
    using frame_bytes_header(2) [OF assms(1) ch] by (simp del: of_nat_add)
  have body: "read_full (length ch + aead_overhead) ((econn c)\<lparr>inb := ?ct @ ?rest\<rparr>) =
      (Inr ?ct, (econn c)\<lparr>inb := ?rest\<rparr>)"
    using open_conn assms(1) read_full_ok [of "(econn c)\<lparr>inb := ?ct @ ?rest\<rparr>" ?ct ?rest]
    by (simp add: aead_ok_def)
  have "read_body cr c =
      (None, c\<lparr>econn := (econn c)\<lparr>inb := ?rest\<rparr>, readSeq := readSeq c + 1, plain := ch\<rparr>)"
    using assms hdr size body
    by (simp add: read_body_def Let_def in_stream_def aead_ok_def del: of_nat_add)
  moreover have "in_stream cr key prefix
      (c\<lparr>econn := (econn c)\<lparr>inb := ?rest\<rparr>, readSeq := readSeq c + 1, plain := ch\<rparr>) chs"
    using assms unat_inc [OF in_stream_open [OF assms(2)]] by (simp add: in_stream_def)
  ultimately show ?thesis by simp
qed

lemma readFrame_stream:
  assumes "aead_ok cr" and "in_stream cr key prefix c (ch # chs)"
  shows "\<exists>c1. readFrame cr c = (None, c1) \<and> in_stream cr key prefix c1 chs \<and> plain c1 = ch"
proof -
  obtain c0 where c0: "read_prefix c = (None, c0)" "in_stream cr key prefix c0 (ch # chs)" "prefixSeen c0"
    using read_prefix_stream [OF assms(2)] by blast
  with read_body_stream [OF assms(1) c0(2,3)] in_stream_open [OF assms(2)] show ?thesis
    by (simp add: readFrame_def)
qed

lemma readFrame_end:
  assumes "in_stream cr key prefix c []"
  shows "\<exists>c1. readFrame cr c = (Some (Sentinel EOF), c1) \<and> in_stream cr key prefix c1 [] \<and> plain c1 = plain c"
proof (cases "prefixSeen c")
  case True
  with assms in_stream_open [OF assms] show ?thesis
    by (simp add: readFrame_def read_prefix_def read_body_def read_full_def in_stream_def
        go_consts eof_or_wrap_def)
next
  case False
  with assms in_stream_open [OF assms] show ?thesis
    by (simp add: readFrame_def read_prefix_def read_full_def in_stream_def go_consts eof_or_wrap_def)
qed

text \<open>
  Filling the buffer takes the first non-empty frame and skips the empty ones before it, or
  reports the end of the stream if there is none.
\<close>

lemma in_stream_plain [simp]:
  "in_stream cr key prefix (c\<lparr>plain := p\<rparr>) chs = in_stream cr key prefix c chs"
  by (simp add: in_stream_def)

lemma fill_plain_stream:
  assumes "aead_ok cr" and "in_stream cr key prefix c chs"
  shows "if plain c @ concat chs = []
    then \<exists>c1. fill_plain cr c = (Some (Sentinel EOF), c1) \<and> readErr c1 = Some (Sentinel EOF)
    else \<exists>c1 chs1. fill_plain cr c = (None, c1) \<and> in_stream cr key prefix c1 chs1 \<and>
      plain c1 \<noteq> [] \<and> plain c1 @ concat chs1 = plain c @ concat chs"
  using assms(2)
proof (induction chs arbitrary: c)
  case Nil
  show ?case
  proof (cases "plain c = []")
    case True
    with readFrame_end [OF Nil] show ?thesis by (auto simp: fill_plain.simps [of cr c])
  next
    case False
    with Nil show ?thesis by (simp add: fill_plain.simps [of cr c] exI [of _ "[]"])
  qed
next
  case (Cons ch chs)
  show ?case
  proof (cases "plain c = []")
    case True
    obtain c0 where c0: "readFrame cr c = (None, c0)" "in_stream cr key prefix c0 chs" "plain c0 = ch"
      using readFrame_stream [OF assms(1) Cons.prems] by blast
    with True have "fill_plain cr c = fill_plain cr c0" by (simp add: fill_plain.simps [of cr c])
    moreover have "plain c0 @ concat chs = plain c @ concat (ch # chs)"
      using c0(3) True by simp
    ultimately show ?thesis using Cons.IH [OF c0(2)] by (simp only: )
  next
    case False
    with Cons.prems show ?thesis
      by (auto simp: fill_plain.simps [of cr c] intro: exI [of _ "ch # chs"])
  qed
qed

text \<open>
  A consumer that reads with a buffer of \<open>Suc n\<close> bytes until an error: everything it got,
  and the error that stopped it.
\<close>

lemma fill_plain_shrinks:
  "fill_plain cr c = (r, c1) \<Longrightarrow> length (inb (econn c1)) \<le> length (inb (econn c)) \<and>
     (plain c = [] \<longrightarrow> r = None \<longrightarrow> length (inb (econn c1)) < length (inb (econn c))) \<and>
     (plain c \<noteq> [] \<longrightarrow> c1 = c) \<and> (r = None \<longrightarrow> plain c1 \<noteq> [])"
proof (induction cr c arbitrary: r c1 rule: fill_plain.induct)
  case (1 cr c)
  show ?case
  proof (cases "plain c = []")
    case True
    obtain q c0 where q: "readFrame cr c = (q, c0)" by (cases "readFrame cr c")
    show ?thesis
    proof (cases q)
      case None
      with readFrame_shrinks [of cr c c0] q
      have "length (inb (econn c0)) < length (inb (econn c))" by (simp add: go_consts)
      moreover have "fill_plain cr c0 = (r, c1)"
        using "1.prems" True q None by (simp add: fill_plain.simps [of cr c])
      ultimately show ?thesis using "1.IH" [of q c0] True q None by fastforce
    next
      case (Some e)
      with "1.prems" True q have "c1 = c0\<lparr>readErr := Some e\<rparr>" "r = Some e"
        by (auto simp: fill_plain.simps [of cr c])
      with readFrame_le [OF q] True show ?thesis by simp
    qed
  qed (use "1.prems" in \<open>simp add: fill_plain.simps [of cr c]\<close>)
qed

lemma enc_Read_shrinks:
  assumes "enc_Read cr (Suc n) c = ((bs, None), c1)"
  shows "length (inb (econn c1)) < length (inb (econn c)) \<or>
    inb (econn c1) = inb (econn c) \<and> length (plain c1) < length (plain c)"
proof -
  obtain r c0 where f: "fill_plain cr c = (r, c0)" by (cases "fill_plain cr c")
  with assms have "r = None" "c1 = c0\<lparr>plain := drop (Suc n) (plain c0)\<rparr>"
    by (auto simp: enc_Read_def split: option.split_asm)
  with fill_plain_shrinks [OF f] show ?thesis by (cases "plain c = []") auto
qed

function enc_drain ::
  "('sk, 'pk) crypto \<Rightarrow> nat \<Rightarrow> enc_conn \<Rightarrow> byte list \<times> error \<times> enc_conn" where
  "enc_drain cr n c =
     (case enc_Read cr (Suc n) c of
        ((bs, Some e), c1) \<Rightarrow> (bs, e, c1)
      | ((bs, None), c1) \<Rightarrow> (case enc_drain cr n c1 of (bs', e, c2) \<Rightarrow> (bs @ bs', e, c2)))"
  by pat_completeness auto
termination
  by (relation "measures [\<lambda>(cr, n, c). length (inb (econn c)), \<lambda>(cr, n, c). length (plain c)]")
    (auto dest!: enc_Read_shrinks [OF sym])

declare enc_drain.simps [simp del]

text \<open>It gets the whole plaintext of the frames still to come, then the end of the stream.\<close>

lemma enc_drain_stream:
  "aead_ok cr \<Longrightarrow> in_stream cr key prefix c chs \<Longrightarrow>
    \<exists>c1. enc_drain cr n c = (plain c @ concat chs, Sentinel EOF, c1)"
proof (induction cr n c arbitrary: chs rule: enc_drain.induct)
  case (1 cr n c)
  have open_read: "readErr c = None" using "1.prems" by (simp add: in_stream_def)
  note fill = fill_plain_stream [OF "1.prems"]
  show ?case
  proof (cases "plain c @ concat chs = []")
    case True
    with fill obtain c1 where "fill_plain cr c = (Some (Sentinel EOF), c1)" by auto
    with True open_read show ?thesis
      by (simp add: enc_drain.simps [of cr n c] enc_Read_def)
  next
    case False
    with fill obtain c1 chs1 where f: "fill_plain cr c = (None, c1)" "in_stream cr key prefix c1 chs1"
      "plain c1 \<noteq> []" "plain c1 @ concat chs1 = plain c @ concat chs"
      unfolding if_not_P [OF False] by blast
    let ?c2 = "c1\<lparr>plain := drop (Suc n) (plain c1)\<rparr>"
    have r: "enc_Read cr (Suc n) c = ((take (Suc n) (plain c1), None), ?c2)"
      using open_read f(1) by (simp add: enc_Read_def)
    then obtain c3 where "enc_drain cr n ?c2 = (plain ?c2 @ concat chs1, Sentinel EOF, c3)"
      using "1.IH" [OF r [symmetric] refl refl "1.prems"(1), of chs1] f(2) by auto
    then have "enc_drain cr n c = (take (Suc n) (plain c1) @ drop (Suc n) (plain c1) @ concat chs1, Sentinel EOF, c3)"
      using r by (simp add: enc_drain.simps [of cr n c])
    moreover have "take (Suc n) (plain c1) @ drop (Suc n) (plain c1) @ concat chs1 = plain c @ concat chs"
      using f(4) by (metis append.assoc append_take_drop_id)
    ultimately show ?thesis by simp
  qed
qed

section \<open>A writer's history\<close>

text \<open>A sequence of \<open>Write\<close> calls that stops at the first error.\<close>

fun enc_Writes ::
  "('sk, 'pk) crypto \<Rightarrow> byte list list \<Rightarrow> enc_conn \<Rightarrow> error option \<times> enc_conn" where
  "enc_Writes cr [] c = (None, c)"
| "enc_Writes cr (p # ps) c =
     (case enc_Write cr p c of
        ((n, Some e), c1) \<Rightarrow> (Some e, c1)
      | ((n, None), c1) \<Rightarrow> enc_Writes cr ps c1)"

lemma enc_Write_ok:
  assumes "enc_Write cr p c = ((n, None), c')"
  shows "n = length p \<and> writeErr c = None \<and> writeErr c' = None \<and>
    writeAEAD c' = writeAEAD c \<and> writePrefix c' = writePrefix c \<and>
    (if p = [] then c' = c
     else prefixSent c' \<and>
       outb (econn c') = outb (econn c) @ owed_prefix c @
         frames_from cr (writeAEAD c) (writePrefix c) (writeSeq c) (chunks p) \<and>
       writeSeq c' = writeSeq c + of_nat (length (chunks p)) \<and>
       unat (writeSeq c') = unat (writeSeq c) + length (chunks p))"
proof -
  have err: "writeErr c = None" using assms by (cases "writeErr c") (auto simp: enc_Write_def)
  show ?thesis
  proof (cases "p = []")
    case False
    with assms err have "enc_write_loop cr p 0 c = ((n, None), c')" by (simp add: enc_Write_def)
    note ok = enc_write_loop_ok [OF this]
    then have "unat (writeSeq c') = unat (writeSeq c) + length (chunks p)"
      by (simp add: unat_word_ariths unat_of_nat)
    with ok False err show ?thesis by simp
  qed (use assms err in \<open>simp add: enc_Write_def\<close>)
qed

lemma enc_Writes_ok:
  "enc_Writes cr ps c = (None, c') \<Longrightarrow>
   \<exists>chs. concat chs = concat ps \<and> (\<forall>ch \<in> set chs. length ch \<le> maxFramePlaintext) \<and>
     outb (econn c') = outb (econn c) @
       (if chs = [] then []
        else owed_prefix c @ frames_from cr (writeAEAD c) (writePrefix c) (writeSeq c) chs) \<and>
     unat (writeSeq c') = unat (writeSeq c) + length chs"
proof (induction cr ps c rule: enc_Writes.induct)
  case (1 cr c)
  then show ?case by (auto intro: exI [of _ "[]"])
next
  case (2 cr p ps c)
  obtain n e c1 where w: "enc_Write cr p c = ((n, e), c1)"
    by (cases "enc_Write cr p c") auto
  then have e: "e = None" using "2.prems" by (cases e) auto
  with w "2.prems" have rest: "enc_Writes cr ps c1 = (None, c')" by simp
  note step = enc_Write_ok [OF w [unfolded e]]
  obtain chs where chs: "concat chs = concat ps" "\<forall>ch \<in> set chs. length ch \<le> maxFramePlaintext"
    "outb (econn c') = outb (econn c1) @
       (if chs = [] then []
        else owed_prefix c1 @ frames_from cr (writeAEAD c1) (writePrefix c1) (writeSeq c1) chs)"
    "unat (writeSeq c') = unat (writeSeq c1) + length chs"
    using "2.IH" [OF w [symmetric] refl e rest] by blast
  show ?case
  proof (cases "p = []")
    case True
    with step chs show ?thesis by (intro exI [of _ chs]) simp
  next
    case False
    have seq: "writeSeq c1 = writeSeq c + of_nat (length (chunks p))"
      using step False by simp
    show ?thesis
      using step False chs chunks_bound
      by (intro exI [of _ "chunks p @ chs"])
        (auto simp: concat_chunks frames_from_append seq owed_prefix_def)
  qed
qed

text \<open>
  Both ends of one tunnel: the writer's keys and the reader's are the same pair, crossed.
\<close>

definition peer_role :: "role \<Rightarrow> role" where
  "peer_role r = (if r = RoleSubscribe then RolePublish else RoleSubscribe)"

lemma NewEncryptedConn_Inr:
  assumes "NewEncryptedConn cr drawn c secret role = Inr e"
  shows "\<exists>prefix. drawn = Inr prefix \<and> (role = RolePublish \<or> role = RoleSubscribe) \<and>
    e = \<lparr>econn = c, writeErr = None,
         writeAEAD = (if role = RoleSubscribe then snd else fst) (deriveDataKeys cr secret),
         writeSeq = 0, writePrefix = prefix, prefixSent = False, readErr = None,
         readAEAD = (if role = RoleSubscribe then fst else snd) (deriveDataKeys cr secret),
         readSeq = 0, readPrefix = replicate noncePrefixSize 0, prefixSeen = False, plain = []\<rparr>"
  using assms unfolding NewEncryptedConn_def Let_def
  by (cases "deriveDataKeys cr secret") (simp split: if_split_asm sum.split_asm)

lemma new_keys_cross:
  assumes "NewEncryptedConn cr d1 k1 secret role = Inr w"
    and "NewEncryptedConn cr d2 k2 secret (peer_role role) = Inr r"
  shows "readAEAD r = writeAEAD w \<and> writeAEAD r = readAEAD w"
  using NewEncryptedConn_Inr [OF assms(1)] NewEncryptedConn_Inr [OF assms(2)]
  by (auto simp: peer_role_def RolePublish_def RoleSubscribe_def)

text \<open>The nonces of one writer are its prefix and a counter, so they are injective in both.\<close>

lemma frame_nonce_inj:
  "length p = length p' \<Longrightarrow> frame_nonce p s = frame_nonce p' s' \<longleftrightarrow> p = p' \<and> s = s'"
  by (simp add: frame_nonce_def)

text \<open>
  Every frame a reader accepts is one ciphertext off the wire that opens under the reader's
  own prefix and its own next counter; the counter then moves on by one.
\<close>

lemma read_body_sound:
  assumes "read_body cr c = (None, c1)"
  shows "\<exists>ct. inb (econn c) = put_u16 (of_nat (length ct)) @ ct @ inb (econn c1) \<and>
    unat (of_nat (length ct) :: u16) = length ct \<and>
    aead_open cr (readAEAD c) (frame_nonce (readPrefix c) (readSeq c)) ct = Inr (plain c1) \<and>
    readSeq c1 = readSeq c + 1 \<and> readAEAD c1 = readAEAD c \<and> readPrefix c1 = readPrefix c"
  using assms
proof (elim read_body_NoneE)
  fix lenBuf k body k' p
  assume *: "read_full frameLenSize (econn c) = (Inr lenBuf, k)"
    "read_full (unat (get_u16 lenBuf)) k = (Inr body, k')"
    "aead_open cr (readAEAD c) (frame_nonce (readPrefix c) (readSeq c)) body = Inr p"
    "c1 = c\<lparr>econn := k', readSeq := readSeq c + 1, plain := p\<rparr>"
  have "length lenBuf = 2" "length body = unat (get_u16 lenBuf)"
    using read_full_split [OF *(1)] read_full_split [OF *(2)] by (simp_all add: go_consts)
  then have "put_u16 (of_nat (length body)) = lenBuf"
    using put_get_u16 [of lenBuf] by simp
  with * show ?thesis
    using read_full_split [OF *(1)] read_full_split [OF *(2)]
    by (intro exI [of _ body]) simp
qed

lemma read_prefix_sound:
  assumes "read_prefix c = (None, c1)"
  shows "inb (econn c) = (if prefixSeen c then [] else readPrefix c1) @ inb (econn c1) \<and>
    prefixSeen c1 \<and> (prefixSeen c \<longrightarrow> c1 = c) \<and> readSeq c1 = readSeq c \<and> readAEAD c1 = readAEAD c"
proof (cases "prefixSeen c")
  case False
  obtain q k where q: "read_full noncePrefixSize (econn c) = (q, k)"
    by (cases "read_full noncePrefixSize (econn c)")
  with assms False show ?thesis
    by (cases q) (auto simp: read_prefix_def dest!: read_full_split)
qed (use assms in \<open>simp add: read_prefix_def\<close>)

text \<open>The first error of either half stays.\<close>

lemma enc_write_loop_err:
  "enc_write_loop cr rest written c = ((n, Some e), c') \<Longrightarrow> writeErr c' = Some e"
proof (induction cr rest written c arbitrary: n c' rule: enc_write_loop.induct)
  case (1 cr rest written c)
  let ?buf = "(if prefixSent c then [] else writePrefix c) @
     frame_bytes cr (writeAEAD c) (writePrefix c) (writeSeq c) (take maxFramePlaintext rest)"
  obtain w k where w: "writeFull ?buf (econn c) = (w, k)"
    by (cases "writeFull ?buf (econn c)")
  show ?case
  proof (cases "writeSeq c = - 1 \<or> w \<noteq> None \<or> drop maxFramePlaintext rest = []")
    case True
    with "1.prems" w show ?thesis
      by (auto simp: enc_write_loop.simps [of cr rest written c] Let_def
          split: if_split_asm option.split_asm)
  next
    case False
    with "1.prems" w have "enc_write_loop cr (drop maxFramePlaintext rest)
        (written + length (take maxFramePlaintext rest))
        (c\<lparr>writeSeq := writeSeq c + 1, econn := k, prefixSent := True\<rparr>) = ((n, Some e), c')"
      by (simp add: enc_write_loop.simps [of cr rest written c] Let_def)
    with False w show ?thesis by (intro "1.IH") auto
  qed
qed

lemma fill_plain_err: "fill_plain cr c = (Some e, c') \<Longrightarrow> readErr c' = Some e"
proof (induction cr c rule: fill_plain.induct)
  case (1 cr c)
  show ?case
  proof (cases "plain c = []")
    case True
    obtain q c0 where q: "readFrame cr c = (q, c0)" by (cases "readFrame cr c")
    with "1.prems" True "1.IH" [of q c0] show ?thesis
      by (cases q) (auto simp: fill_plain.simps [of cr c])
  qed (use "1.prems" in \<open>simp add: fill_plain.simps [of cr c]\<close>)
qed

section \<open>Sample streams\<close>

text \<open>A stream half-way: the peer's prefix is in, and two counters are about to run out.\<close>

definition sample_stream :: "byte list \<Rightarrow> u64 \<Rightarrow> enc_conn" where
  "sample_stream bs seq =
     \<lparr>econn = new_conn bs, writeErr = None, writeAEAD = replicate 32 1, writeSeq = seq,
      writePrefix = replicate 16 7, prefixSent = True, readErr = None,
      readAEAD = replicate 32 2, readSeq = seq, readPrefix = replicate 16 9,
      prefixSeen = True, plain = []\<rparr>"

lemma sample_new: "\<exists>w. NewEncryptedConn sample_crypto (Inr (replicate 16 7)) k (replicate 16 1) role = Inr w"
  if "role = RolePublish \<or> role = RoleSubscribe"
  using that by (auto simp: NewEncryptedConn_def deriveDataKeys_def deriveKey_def sample_crypto_def go_consts pubKeyInfo_def subKeyInfo_def Let_def)

section \<open>Properties\<close>

text \<open>
  C3: Sealed stream round trip. One end of a tunnel writes any sequence of slices without an
  error; the other end, which was given the same secret and the opposite role and receives
  those bytes, reads with buffers of any size exactly the concatenation of the slices and
  then the end of the stream. (Stated for fewer than \<open>2 ^ 64 - 1\<close> frames, where the counter
  of the writer has not run out.)
\<close>

theorem sealed_stream_roundtrip:
  assumes "aead_ok cr" and "length prefix = noncePrefixSize"
    and "NewEncryptedConn cr (Inr prefix) k1 secret role = Inr w"
    and "NewEncryptedConn cr drawn k2 secret (peer_role role) = Inr r"
    and "enc_Writes cr ps w = (None, w')" and "writeSeq w' \<noteq> - 1"
    and "outb (econn w') = outb k1 @ inb k2"
    and "\<not> shut k2" and "inerr k2 = Sentinel EOF"
  shows "\<exists>r'. enc_drain cr n r = (concat ps, Sentinel EOF, r')"
proof -
  obtain chs where chs: "concat chs = concat ps" "\<forall>ch \<in> set chs. length ch \<le> maxFramePlaintext"
    "outb (econn w') = outb (econn w) @
       (if chs = [] then []
        else owed_prefix w @ frames_from cr (writeAEAD w) (writePrefix w) (writeSeq w) chs)"
    "unat (writeSeq w') = unat (writeSeq w) + length chs"
    using enc_Writes_ok [OF assms(5)] by blast
  have w: "econn w = k1" "writePrefix w = prefix" "writeSeq w = 0" "\<not> prefixSent w"
    using NewEncryptedConn_Inr [OF assms(3)] by auto
  have r: "econn r = k2" "readErr r = None" "readSeq r = 0" "\<not> prefixSeen r" "plain r = []"
    using NewEncryptedConn_Inr [OF assms(4)] by auto
  have "readAEAD r = writeAEAD w" using new_keys_cross [OF assms(3,4)] by simp
  moreover have "length chs < 2 ^ 64 - 1"
    using chs(4) w unat_inc_less [OF assms(6)] by simp
  ultimately have "in_stream cr (writeAEAD w) prefix r chs"
    using assms(2,7-9) chs(2,3) w r by (auto simp: in_stream_def owed_prefix_def)
  from enc_drain_stream [OF assms(1) this, of n] chs(1) r show ?thesis by simp
qed

lemma sealed_stream_roundtrip_witness:
  "\<exists>w w' r r'. NewEncryptedConn sample_crypto (Inr (replicate 16 7)) (new_conn []) (replicate 16 1) RolePublish = Inr w \<and>
     enc_Writes sample_crypto [[1, 2], [3]] w = (None, w') \<and>
     NewEncryptedConn sample_crypto (Inr (replicate 16 7)) (new_conn (outb (econn w'))) (replicate 16 1) (peer_role RolePublish) = Inr r \<and>
     enc_drain sample_crypto 0 r = ([1, 2, 3], Sentinel EOF, r')"
proof -
  obtain w where w: "NewEncryptedConn sample_crypto (Inr (replicate 16 7)) (new_conn []) (replicate 16 1) RolePublish = Inr w"
    using sample_new [of RolePublish "new_conn []"] by auto
  then have f: "econn w = new_conn []" "writeErr w = None" "writeSeq w = 0" 
    using NewEncryptedConn_Inr [OF w] by auto
  obtain w' where w': "enc_Writes sample_crypto [[1, 2], [3]] w = (None, w')" "writeSeq w' = 2"
    using f by (simp add: enc_Write_def enc_write_loop.simps writeFull_def conn_write_def new_conn_def Let_def)
  obtain r where r: "NewEncryptedConn sample_crypto (Inr (replicate 16 7)) (new_conn (outb (econn w'))) (replicate 16 1) (peer_role RolePublish) = Inr r"
    using sample_new [of RoleSubscribe] by (auto simp: peer_role_def RolePublish_def RoleSubscribe_def)
  have "\<exists>r'. enc_drain sample_crypto 0 r = (concat [[1, 2], [3]], Sentinel EOF, r')"
    by (rule sealed_stream_roundtrip [OF _ _ w r w'(1)])
      (simp_all add: w'(2) new_conn_def go_consts)
  with w w' r show ?thesis by auto
qed

text \<open>
  C14: No nonce is used twice. A write that succeeds puts frames on the wire whose counters
  are consecutive from the one it started at and do not wrap, so all its nonces differ, and
  the next write starts after the last of them.
\<close>

theorem write_nonces_distinct:
  assumes "enc_Write cr p c = ((n, None), c')" and "p \<noteq> []"
  shows "\<exists>chs. concat chs = p \<and>
    outb (econn c') = outb (econn c) @ owed_prefix c @
      frames_from cr (writeAEAD c) (writePrefix c) (writeSeq c) chs \<and>
    unat (writeSeq c') = unat (writeSeq c) + length chs \<and>
    distinct (map (\<lambda>i. frame_nonce (writePrefix c) (writeSeq c + of_nat i)) [0..<length chs])"
proof -
  note ok = enc_Write_ok [OF assms(1)]
  let ?m = "length (chunks p)"
  have next_seq: "unat (writeSeq c') = unat (writeSeq c) + ?m"
    using ok unfolding if_not_P [OF assms(2)] by blast
  then have len: "unat (writeSeq c) + ?m < 2 ^ 64"
    using unsigned_less [where ?'a = nat and w = "writeSeq c'"] by (simp only: next_seq) simp
  have "inj_on (\<lambda>i. frame_nonce (writePrefix c) (writeSeq c + of_nat i)) {0..<?m}"
  proof (rule inj_onI)
    fix i j
    assume ij: "i \<in> {0..<?m}" "j \<in> {0..<?m}"
      and "frame_nonce (writePrefix c) (writeSeq c + of_nat i) =
        frame_nonce (writePrefix c) (writeSeq c + of_nat j)"
    then have "(of_nat i :: u64) = of_nat j" by (simp add: frame_nonce_inj)
    then show "i = j"
      using ij len by (auto simp: of_nat_eq_iff word_of_nat_eq_iff take_bit_nat_eq_self_iff
          take_bit_nat_eq_self)
  qed
  then show ?thesis
    using ok assms(2) next_seq
    by (intro exI [of _ "chunks p"] conjI) (simp_all only: concat_chunks distinct_map, simp_all)
qed

lemma write_nonces_distinct_witness:
  "\<exists>c c'. enc_Write sample_crypto [1, 2, 3] c = ((3, None), c') \<and>
     (\<exists>chs. concat chs = [1, 2, 3] \<and>
    outb (econn c') = outb (econn c) @ owed_prefix c @
      frames_from sample_crypto (writeAEAD c) (writePrefix c) (writeSeq c) chs \<and>
    unat (writeSeq c') = unat (writeSeq c) + length chs \<and>
    distinct (map (\<lambda>i. frame_nonce (writePrefix c) (writeSeq c + of_nat i)) [0..<length chs]))"
proof -
  obtain w where w: "NewEncryptedConn sample_crypto (Inr (replicate 16 7)) (new_conn []) (replicate 16 1) RolePublish = Inr w"
    using sample_new [of RolePublish "new_conn []"] by auto
  then have f: "econn w = new_conn []" "writeErr w = None" "writeSeq w = 0" 
    using NewEncryptedConn_Inr [OF w] by auto
  obtain w' where w': "enc_Write sample_crypto [1, 2, 3] w = ((3, None), w')"
    using f by (simp add: enc_Write_def enc_write_loop.simps writeFull_def conn_write_def new_conn_def Let_def)
  show ?thesis
    using w' write_nonces_distinct [OF w'] by blast
qed

text \<open>
  What a reader accepts. Plaintext reaches the buffer only when the wire carried, after
  the peer's nonce prefix if that was still to come, one length-prefixed ciphertext that
  opens under the reader's key, that prefix and the reader's own next counter; so a frame
  that was dropped, repeated or moved is opened under another nonce than it was sealed with.
\<close>

theorem readFrame_accepts_in_order:
  assumes "readFrame cr c = (None, c')"
  shows "readSeq c \<noteq> - 1 \<and> unat (readSeq c') = unat (readSeq c) + 1 \<and>
    (\<exists>ct. inb (econn c) = (if prefixSeen c then [] else readPrefix c') @
            put_u16 (of_nat (length ct)) @ ct @ inb (econn c') \<and>
      aead_open cr (readAEAD c) (frame_nonce (readPrefix c') (readSeq c)) ct = Inr (plain c'))"
proof -
  have seq: "readSeq c \<noteq> - 1" using assms by (auto simp: readFrame_def split: if_split_asm)
  obtain q c0 where p: "read_prefix c = (q, c0)" by (cases "read_prefix c")
  with assms seq have "q = None" "read_body cr c0 = (None, c')"
    by (auto simp: readFrame_def split: option.split_asm)
  then obtain ct where ct: "inb (econn c0) = put_u16 (of_nat (length ct)) @ ct @ inb (econn c')"
    "aead_open cr (readAEAD c0) (frame_nonce (readPrefix c0) (readSeq c0)) ct = Inr (plain c')"
    "readSeq c' = readSeq c0 + 1" "readPrefix c' = readPrefix c0"
    using read_body_sound by blast
  note pre = read_prefix_sound [OF p [unfolded \<open>q = None\<close>]]
  have "inb (econn c) = (if prefixSeen c then [] else readPrefix c') @
      put_u16 (of_nat (length ct)) @ ct @ inb (econn c')"
    using pre ct(1,4) by simp
  moreover have "aead_open cr (readAEAD c) (frame_nonce (readPrefix c') (readSeq c)) ct = Inr (plain c')"
    using pre ct(2,4) by simp
  moreover have "unat (readSeq c') = unat (readSeq c) + 1"
    using pre ct(3) unat_inc [OF seq] by simp
  ultimately show ?thesis using seq by blast
qed

lemma readFrame_accepts_in_order_witness:
  "\<exists>c'. readFrame sample_crypto (sample_stream ([0, 17, 5] @ replicate 16 0) 0) = (None, c') \<and>
     plain c' = [5] \<and> unat (readSeq c') = unat (0 :: u64) + 1"
proof -
  let ?c = "sample_stream ([0, 17, 5] @ replicate 16 0) 0"
  have "get_u16 [0, 17] = (17 :: u16)" by (simp add: get_u16_bytes)
  then obtain c' where c': "readFrame sample_crypto ?c = (None, c')" "plain c' = [5]"
    by (simp add: readFrame_def read_prefix_def read_body_def read_full_def sample_stream_def
        new_conn_def go_consts Let_def sample_crypto_def)
  with readFrame_accepts_in_order [OF c'(1)] show ?thesis by (simp add: sample_stream_def)
qed

text \<open>
  Errors are sticky and final. After a write fails, every later write of this stream
  returns the same error, reports no bytes and changes nothing; after a read fails, the same
  holds of every later read into a non-empty buffer.
\<close>

theorem stream_errors_stick:
  "(enc_Write cr p c = ((n, Some e), c') \<longrightarrow> enc_Write cr q c' = ((0, Some e), c')) \<and>
   (enc_Read cr m d = ((bs, Some e), d') \<and> 0 < k \<longrightarrow> enc_Read cr k d' = (([], Some e), d'))"
proof (intro conjI impI; (elim conjE)?)
  assume w: "enc_Write cr p c = ((n, Some e), c')"
  have "writeErr c' = Some e"
  proof (cases "writeErr c")
    case None
    then show ?thesis using w enc_write_loop_err by (auto simp: enc_Write_def split: if_split_asm)
  qed (use w in \<open>auto simp: enc_Write_def\<close>)
  then show "enc_Write cr q c' = ((0, Some e), c')" by (simp add: enc_Write_def)
next
  assume r: "enc_Read cr m d = ((bs, Some e), d')" and k: "0 < k"
  have "readErr d' = Some e"
  proof (cases "readErr d")
    case None
    obtain x d1 where f: "fill_plain cr d = (x, d1)" by (cases "fill_plain cr d")
    with None r have "x = Some e" "d1 = d'"
      by (auto simp: enc_Read_def split: if_split_asm option.split_asm)
    with f show ?thesis using fill_plain_err by simp
  qed (use r in \<open>auto simp: enc_Read_def split: if_split_asm\<close>)
  then show "enc_Read cr k d' = (([], Some e), d')" using k by (simp add: enc_Read_def)
qed

lemma stream_errors_stick_witness:
  "enc_Write sample_crypto [1] (sample_stream [] (- 1)\<lparr>writeErr := Some frame_counter_exhausted\<rparr>) =
     ((0, Some frame_counter_exhausted), sample_stream [] (- 1)\<lparr>writeErr := Some frame_counter_exhausted\<rparr>) \<and>
   enc_Read sample_crypto 5 (sample_stream [] (- 1)\<lparr>readErr := Some frame_counter_exhausted\<rparr>) =
     (([], Some frame_counter_exhausted), sample_stream [] (- 1)\<lparr>readErr := Some frame_counter_exhausted\<rparr>)"
proof -
  let ?c = "sample_stream [] (- 1)"
  have "enc_Write sample_crypto [4, 4] ?c =
      ((0, Some frame_counter_exhausted), ?c\<lparr>writeErr := Some frame_counter_exhausted\<rparr>)"
    by (simp add: enc_Write_def enc_write_loop.simps sample_stream_def)
  moreover have "enc_Read sample_crypto 9 ?c =
      (([], Some frame_counter_exhausted), ?c\<lparr>readErr := Some frame_counter_exhausted\<rparr>)"
    by (simp add: enc_Read_def fill_plain.simps readFrame_def sample_stream_def)
  ultimately show ?thesis
    using stream_errors_stick [of sample_crypto "[4, 4]" ?c 0 frame_counter_exhausted _ "[1]" 9 ?c "[]" _ 5]
    by simp
qed

end
