(* ===== verification/Auth.thy ===== *)
theory Auth
  imports Frame_Conn Claim
begin

text \<open>
  The mutual tunnel handshake (\<^verbatim>\<open>internal/proto/auth.go\<close>): both peers exchange fresh
  challenges, prove possession of the session's data secret over a transcript that binds the
  protocol version, both challenges and the port, and derive the stream's secret from it.
  \<open>rnd\<close> is what \<open>crypto/rand\<close> delivers for the local challenge, \<open>pfx\<close> what it delivers
  for the stream's nonce prefix.
\<close>

section \<open>The handshake\<close>

definition exchangeChallenges ::
  "byte list result \<Rightarrow> role \<Rightarrow> conn \<Rightarrow> (byte list \<times> byte list) result \<times> conn" where
  "exchangeChallenges rnd role c =
     (case rnd of
        Inl e \<Rightarrow> (Inl e, c)
      | Inr localc \<Rightarrow>
          if role = RoleSubscribe
          then (case writeFull localc c of
                  (Some e, c1) \<Rightarrow> (Inl e, c1)
                | (None, c1) \<Rightarrow>
                    (case read_full challengeSize c1 of
                       (Inl e, c2) \<Rightarrow> (Inl e, c2)
                     | (Inr remotec, c2) \<Rightarrow> (Inr (remotec, localc), c2)))
          else (case read_full challengeSize c of
                  (Inl e, c1) \<Rightarrow> (Inl e, c1)
                | (Inr remotec, c1) \<Rightarrow>
                    (case writeFull localc c1 of
                       (Some e, c2) \<Rightarrow> (Inl e, c2)
                     | (None, c2) \<Rightarrow> (Inr (localc, remotec), c2))))"

definition tunnelMAC :: "('sk, 'pk) crypto \<Rightarrow> data_secret \<Rightarrow> string \<Rightarrow> byte list \<Rightarrow> byte list" where
  "tunnelMAC cr secret purpose transcript =
     (let key = deriveKey cr secret (''ggrok tunnel '' @ purpose) 32
      in hmac256 cr key transcript)"

definition invalid_proof :: error where
  "invalid_proof = Msg ''invalid token proof or port binding''"

definition verifyProof :: "byte list \<Rightarrow> conn \<Rightarrow> error option \<times> conn" where
  "verifyProof expected c =
     (case read_full 32 c of
        (Inl e, c1) \<Rightarrow> (Some e, c1)
      | (Inr pf, c1) \<Rightarrow> (if pf \<noteq> expected then Some invalid_proof else None, c1))"

definition alpn_bytes :: "byte list" where
  "alpn_bytes = map of_char ALPN"

definition tunnel_transcript :: "byte list \<Rightarrow> byte list \<Rightarrow> u16 \<Rightarrow> byte list" where
  "tunnel_transcript sub pub port = alpn_bytes @ sub @ pub @ put_u16 port"

definition exchange_proofs ::
  "role \<Rightarrow> byte list \<Rightarrow> byte list \<Rightarrow> conn \<Rightarrow> error option \<times> conn" where
  "exchange_proofs role pubProof subProof c =
     (if role = RolePublish
      then (case writeFull pubProof c of
              (Some e, c1) \<Rightarrow> (Some e, c1)
            | (None, c1) \<Rightarrow> verifyProof subProof c1)
      else (case verifyProof pubProof c of
              (Some e, c1) \<Rightarrow> (Some e, c1)
            | (None, c1) \<Rightarrow> writeFull subProof c1))"

text \<open>
  The result, and the transport as the handshake left it (also inside the stream it
  returns, in which it is wrapped).
\<close>

definition NewAuthenticatedConn ::
  "('sk, 'pk) crypto \<Rightarrow> byte list result \<Rightarrow> byte list result \<Rightarrow> conn \<Rightarrow> 'sk credentials \<Rightarrow> role \<Rightarrow>
   u16 \<Rightarrow> enc_conn result \<times> conn" where
  "NewAuthenticatedConn cr rnd pfx c creds role port =
     (if role \<noteq> RolePublish \<and> role \<noteq> RoleSubscribe
      then (Inl (Msg (''authenticate tunnel: invalid role '' @ show_nat (unat role))), c)
      else case exchangeChallenges rnd role c of
             (Inl e, c1) \<Rightarrow> (Inl (wrap ''exchange tunnel challenges'' e), c1)
           | (Inr (pub, sub), c1) \<Rightarrow>
               (let transcript = tunnel_transcript sub pub port;
                    pubProof = tunnelMAC cr (crData creds) ''publisher proof'' transcript;
                    subProof = tunnelMAC cr (crData creds) ''subscriber proof'' transcript
                in case exchange_proofs role pubProof subProof c1 of
                     (Some e, c2) \<Rightarrow> (Inl (wrap ''authenticate tunnel'' e), c2)
                   | (None, c2) \<Rightarrow>
                       (let streamSecret = take DataSecretSize
                              (tunnelMAC cr (crData creds) ''stream secret'' transcript)
                        in (NewEncryptedConn cr pfx c2 streamSecret role, c2))))"

section \<open>Lemmas\<close>

lemma alpn_bytes_length [simp]: "length alpn_bytes = 7"
  by (simp add: alpn_bytes_def ALPN_def)

lemma length_tunnelMAC [simp]: "kdf_ok cr \<Longrightarrow> length (tunnelMAC cr s p t) = 32"
  by (simp add: tunnelMAC_def kdf_ok_def Let_def)

text \<open>The transcript determines both challenges and the port.\<close>

lemma tunnel_transcript_inj:
  assumes "length sub = challengeSize" "length sub' = challengeSize"
    and "length pub = challengeSize" "length pub' = challengeSize"
  shows "tunnel_transcript sub pub port = tunnel_transcript sub' pub' port' \<longleftrightarrow>
    sub = sub' \<and> pub = pub' \<and> port = port'"
  using assms by (auto simp: tunnel_transcript_def)

lemma exchangeChallenges_Inr:
  assumes "exchangeChallenges rnd role c = (Inr (pub, sub), c1)"
  shows "\<exists>l r. rnd = Inr l \<and> length r = challengeSize \<and> inb c = r @ inb c1 \<and>
    outb c1 = outb c @ l \<and> (if role = RoleSubscribe then sub = l \<and> pub = r else pub = l \<and> sub = r)"
proof -
  obtain l where l: "rnd = Inr l"
    using assms by (cases rnd) (auto simp: exchangeChallenges_def)
  show ?thesis
  proof (cases "role = RoleSubscribe")
    case True
    obtain e k where w: "writeFull l c = (e, k)" by (cases "writeFull l c")
    obtain q k' where r: "read_full challengeSize k = (q, k')" by (cases "read_full challengeSize k")
    from assms l True w r have "e = None" "q = Inr pub" "c1 = k'" "sub = l"
      by (auto simp: exchangeChallenges_def split: option.split_asm sum.split_asm)
    with l True w r show ?thesis
      using writeFull_None [of l c k] writeFull_frame [OF w] read_full_split [of challengeSize k pub k']
        read_full_frame [OF r] by simp
  next
    case False
    obtain q k where r: "read_full challengeSize c = (q, k)" by (cases "read_full challengeSize c")
    obtain e k' where w: "writeFull l k = (e, k')" by (cases "writeFull l k")
    from assms l False w r have "e = None" "q = Inr sub" "c1 = k'" "pub = l"
      by (auto simp: exchangeChallenges_def split: option.split_asm sum.split_asm)
    with l False w r show ?thesis
      using writeFull_None [of l k k'] writeFull_frame [OF w] read_full_split [of challengeSize c sub k]
        read_full_frame [OF r] by simp
  qed
qed

lemma verifyProof_None:
  assumes "verifyProof expected c = (None, c1)"
  shows "inb c = expected @ inb c1 \<and> outb c1 = outb c"
proof -
  obtain q k where r: "read_full 32 c = (q, k)" by (cases "read_full 32 c")
  with assms have "q = Inr expected" "c1 = k"
    by (auto simp: verifyProof_def split: sum.split_asm if_split_asm)
  with r show ?thesis using read_full_split [of 32 c expected k] read_full_frame [OF r] by simp
qed

lemma exchange_proofs_None:
  assumes "exchange_proofs role pubProof subProof c = (None, c1)"
  shows "if role = RolePublish
    then inb c = subProof @ inb c1 \<and> outb c1 = outb c @ pubProof
    else inb c = pubProof @ inb c1 \<and> outb c1 = outb c @ subProof"
proof (cases "role = RolePublish")
  case True
  obtain e k where w: "writeFull pubProof c = (e, k)" by (cases "writeFull pubProof c")
  with assms True have "e = None" "verifyProof subProof k = (None, c1)"
    by (auto simp: exchange_proofs_def split: option.split_asm)
  with w True show ?thesis
    using writeFull_None [of pubProof c k] writeFull_frame [OF w] verifyProof_None [of subProof k c1] by simp
next
  case False
  obtain e k where v: "verifyProof pubProof c = (e, k)" by (cases "verifyProof pubProof c")
  with assms False have "e = None" "writeFull subProof k = (None, c1)"
    by (auto simp: exchange_proofs_def split: option.split_asm)
  with v False show ?thesis
    using writeFull_None [of subProof k c1] writeFull_frame [of subProof k None c1]
      verifyProof_None [of pubProof c k] by simp
qed

text \<open>
  A successful handshake: what was sent, what was received and the stream secret, all in
  terms of one transcript.
\<close>

lemma NewAuthenticatedConn_Inr:
  assumes "NewAuthenticatedConn cr rnd pfx c creds role port = (Inr e, c')"
  shows "\<exists>l r. let sub = (if role = RoleSubscribe then l else r);
      pub = (if role = RoleSubscribe then r else l);
      t = tunnel_transcript sub pub port;
      pp = tunnelMAC cr (crData creds) ''publisher proof'' t;
      sp = tunnelMAC cr (crData creds) ''subscriber proof'' t
    in rnd = Inr l \<and> length r = challengeSize \<and>
      inb c = r @ (if role = RolePublish then sp else pp) @ inb c' \<and>
      outb c' = outb c @ l @ (if role = RolePublish then pp else sp) \<and>
      (role = RolePublish \<or> role = RoleSubscribe) \<and>
      NewEncryptedConn cr pfx c'
        (take DataSecretSize (tunnelMAC cr (crData creds) ''stream secret'' t)) role = Inr e"
proof -
  have role: "role = RolePublish \<or> role = RoleSubscribe"
    using assms by (auto simp: NewAuthenticatedConn_def split: if_split_asm)
  obtain q c1 where x: "exchangeChallenges rnd role c = (q, c1)" by (cases "exchangeChallenges rnd role c")
  obtain pub sub where q: "q = Inr (pub, sub)"
    using assms role x by (cases q) (auto simp: NewAuthenticatedConn_def)
  let ?t = "tunnel_transcript sub pub port"
  let ?pp = "tunnelMAC cr (crData creds) ''publisher proof'' ?t"
  let ?sp = "tunnelMAC cr (crData creds) ''subscriber proof'' ?t"
  obtain er c2 where p: "exchange_proofs role ?pp ?sp c1 = (er, c2)"
    by (cases "exchange_proofs role ?pp ?sp c1")
  from assms role x q p have "er = None" "c2 = c'"
    and enc: "NewEncryptedConn cr pfx c'
        (take DataSecretSize (tunnelMAC cr (crData creds) ''stream secret'' ?t)) role = Inr e"
    by (auto simp: NewAuthenticatedConn_def Let_def split: option.split_asm)
  with exchange_proofs_None [of role ?pp ?sp c1 c'] p exchangeChallenges_Inr [of rnd role c pub sub c1] x q
  show ?thesis using role enc
    by (auto simp: Let_def RolePublish_def RoleSubscribe_def split: if_split_asm)
qed

lemma exchangeChallenges_ok:
  assumes "\<not> shut c" "wscript c = []" "inb c = r @ rest" "length r = challengeSize"
  shows "exchangeChallenges (Inr l) role c =
    (Inr (if role = RoleSubscribe then (r, l) else (l, r)), c\<lparr>inb := rest, outb := outb c @ l\<rparr>)"
proof (cases "role = RoleSubscribe")
  case True
  have "read_full challengeSize (c\<lparr>outb := outb c @ l\<rparr>) = (Inr r, c\<lparr>outb := outb c @ l, inb := rest\<rparr>)"
    using assms by (subst read_full_ok [of _ r rest]) simp_all
  with True assms show ?thesis by (simp add: exchangeChallenges_def writeFull_ok)
next
  case False
  with assms show ?thesis
    by (simp add: exchangeChallenges_def writeFull_ok read_full_ok [of c r rest])
qed

lemma exchange_proofs_ok:
  assumes "\<not> shut c" "wscript c = []" "inb c = theirs @ rest" "length theirs = 32"
    and "theirs = (if role = RolePublish then sp else pp)" "ours = (if role = RolePublish then pp else sp)"
  shows "exchange_proofs role pp sp c = (None, c\<lparr>inb := rest, outb := outb c @ ours\<rparr>)"
proof (cases "role = RolePublish")
  case True
  have "read_full 32 (c\<lparr>outb := outb c @ pp\<rparr>) = (Inr sp, c\<lparr>outb := outb c @ pp, inb := rest\<rparr>)"
    using assms True by (subst read_full_ok [of _ sp rest]) simp_all
  with True assms show ?thesis by (simp add: exchange_proofs_def writeFull_ok verifyProof_def)
next
  case False
  with assms show ?thesis
    by (simp add: exchange_proofs_def writeFull_ok verifyProof_def read_full_ok [of c pp rest])
qed

lemma NewEncryptedConn_ok:
  assumes "kdf_ok cr" "aead_ok cr" "role = RolePublish \<or> role = RoleSubscribe"
  shows "\<exists>e. NewEncryptedConn cr (Inr prefix) c secret role = Inr e \<and> econn e = c"
proof -
  have keys: "length (deriveKey cr secret i aead_key_size) = aead_key_size" for i
    using assms(1) by (simp add: go_consts)
  then show ?thesis
    using assms(2,3) by (auto simp: NewEncryptedConn_def deriveDataKeys_def aead_ok_def Let_def)
qed

lemma NewAuthenticatedConn_ok:
  fixes lc rc :: "byte list"
  defines "t role port \<equiv> tunnel_transcript (if role = RoleSubscribe then lc else rc)
      (if role = RoleSubscribe then rc else lc) port"
  assumes "kdf_ok cr" "aead_ok cr" "role = RolePublish \<or> role = RoleSubscribe"
    and "length rc = challengeSize" and "\<not> shut c" "wscript c = []"
    and "inb c = rc @ tunnelMAC cr (crData creds)
        (if role = RolePublish then ''subscriber proof'' else ''publisher proof'') (t role port) @ rest"
  shows "\<exists>e c'. NewAuthenticatedConn cr (Inr lc) (Inr prefix) c creds role port = (Inr e, c') \<and>
    econn e = c' \<and> inb c' = rest \<and>
    outb c' = outb c @ lc @ tunnelMAC cr (crData creds)
      (if role = RolePublish then ''publisher proof'' else ''subscriber proof'') (t role port)"
proof -
  let ?t = "t role port"
  let ?pp = "tunnelMAC cr (crData creds) ''publisher proof'' ?t"
  let ?sp = "tunnelMAC cr (crData creds) ''subscriber proof'' ?t"
  let ?theirs = "if role = RolePublish then ?sp else ?pp"
  let ?ours = "if role = RolePublish then ?pp else ?sp"
  let ?c1 = "c\<lparr>inb := ?theirs @ rest, outb := outb c @ lc\<rparr>"
  let ?c2 = "?c1\<lparr>inb := rest, outb := outb ?c1 @ ?ours\<rparr>"
  have x: "exchangeChallenges (Inr lc) role c =
      (Inr (if role = RoleSubscribe then (rc, lc) else (lc, rc)), ?c1)"
    using assms by (intro exchangeChallenges_ok) auto
  have p: "exchange_proofs role ?pp ?sp ?c1 = (None, ?c2)"
    using assms by (intro exchange_proofs_ok [of _ ?theirs]) auto
  obtain e where e: "NewEncryptedConn cr (Inr prefix) ?c2
      (take DataSecretSize (tunnelMAC cr (crData creds) ''stream secret'' ?t)) role = Inr e" "econn e = ?c2"
    using NewEncryptedConn_ok [OF assms(2-4)] by blast
  have "NewAuthenticatedConn cr (Inr lc) (Inr prefix) c creds role port = (Inr e, ?c2)"
    using x p e(1) assms(4) by (auto simp: NewAuthenticatedConn_def t_def Let_def)
  then show ?thesis using e(2) by auto
qed

text \<open>Two peers of one session that receive what the other sends after what was sent before.\<close>

lemma peers_agree:
  assumes "kdf_ok cr" and "aead_ok cr" and "crData pc = crData sc"
    and "length pch = challengeSize" and "length sch = challengeSize"
    and "\<not> shut pk" "wscript pk = []" and "\<not> shut sk" "wscript sk = []"
    and "inb pk = sch @ tunnelMAC cr (crData sc) ''subscriber proof'' (tunnel_transcript sch pch port)"
    and "inb sk = pch @ tunnelMAC cr (crData pc) ''publisher proof'' (tunnel_transcript sch pch port)"
  shows "\<exists>pe pk' se sk'.
    NewAuthenticatedConn cr (Inr pch) (Inr p1) pk pc RolePublish port = (Inr pe, pk') \<and>
    NewAuthenticatedConn cr (Inr sch) (Inr p2) sk sc RoleSubscribe port = (Inr se, sk') \<and>
    outb pk' = outb pk @ inb sk \<and> outb sk' = outb sk @ inb pk \<and> inb pk' = [] \<and> inb sk' = [] \<and>
    econn pe = pk' \<and> econn se = sk' \<and> readAEAD se = writeAEAD pe \<and> readAEAD pe = writeAEAD se"
proof -
  have roles [simp]: "RolePublish \<noteq> RoleSubscribe" "RoleSubscribe \<noteq> RolePublish"
    by (simp_all add: RolePublish_def RoleSubscribe_def)
  obtain pe pk' where p: "NewAuthenticatedConn cr (Inr pch) (Inr p1) pk pc RolePublish port = (Inr pe, pk')"
    "inb pk' = []" "outb pk' = outb pk @ inb sk" "econn pe = pk'"
    using NewAuthenticatedConn_ok [OF assms(1,2), of RolePublish sch pk pc pch port "[]" p1] assms
    by auto
  obtain se sk' where s: "NewAuthenticatedConn cr (Inr sch) (Inr p2) sk sc RoleSubscribe port = (Inr se, sk')"
    "inb sk' = []" "outb sk' = outb sk @ inb pk" "econn se = sk'"
    using NewAuthenticatedConn_ok [OF assms(1,2), of RoleSubscribe pch sk sc sch port "[]" p2] assms
    by auto
  have ls: "length pch = length sch" using assms by simp
  let ?secret = "take DataSecretSize (tunnelMAC cr (crData pc) ''stream secret'' (tunnel_transcript sch pch port))"
  have "NewEncryptedConn cr (Inr p1) pk' ?secret RolePublish = Inr pe"
    using NewAuthenticatedConn_Inr [OF p(1)] assms(5,10) by (auto simp: Let_def)
  moreover have "NewEncryptedConn cr (Inr p2) sk' ?secret (peer_role RolePublish) = Inr se"
    using NewAuthenticatedConn_Inr [OF s(1)] assms(3,4,11) by (auto simp: Let_def peer_role_def)
  ultimately have "readAEAD se = writeAEAD pe \<and> writeAEAD se = readAEAD pe"
    by (rule new_keys_cross)
  with p s show ?thesis
    by (intro exI [of _ pe] exI [of _ pk'] exI [of _ se] exI [of _ sk']) simp
qed

text \<open>Two connections whose ends are a publisher and a subscriber of one session.\<close>

definition sample_creds :: "byte credentials" where
  "sample_creds = \<lparr>crID = replicate 16 6, crData = replicate 16 5, crSigner = None\<rparr>"

definition sample_publisher_conn :: "u16 \<Rightarrow> conn" where
  "sample_publisher_conn port = new_conn (replicate 32 2 @
     tunnelMAC sample_crypto (crData sample_creds) ''subscriber proof''
       (tunnel_transcript (replicate 32 2) (replicate 32 1) port))"

definition sample_subscriber_conn :: "u16 \<Rightarrow> conn" where
  "sample_subscriber_conn port = new_conn (replicate 32 1 @
     tunnelMAC sample_crypto (crData sample_creds) ''publisher proof''
       (tunnel_transcript (replicate 32 2) (replicate 32 1) port))"

section \<open>Properties\<close>

text \<open>
  Two peers that hold the same data secret and ask for the same port complete the
  handshake with each other: when each receives what the other sends, both succeed, they
  have sent nothing else, and the streams they get use the same two keys, crossed.
\<close>

theorem tunnel_peers_agree:
  assumes "kdf_ok cr" and "aead_ok cr" and "crData pc = crData sc"
    and "length pch = challengeSize" and "length sch = challengeSize"
    and "\<not> shut pk" "wscript pk = []" "outb pk = []" and "\<not> shut sk" "wscript sk = []" "outb sk = []"
    and "inb pk = sch @ tunnelMAC cr (crData sc) ''subscriber proof'' (tunnel_transcript sch pch port)"
    and "inb sk = pch @ tunnelMAC cr (crData pc) ''publisher proof'' (tunnel_transcript sch pch port)"
  shows "\<exists>pe pk' se sk'.
    NewAuthenticatedConn cr (Inr pch) (Inr p1) pk pc RolePublish port = (Inr pe, pk') \<and>
    NewAuthenticatedConn cr (Inr sch) (Inr p2) sk sc RoleSubscribe port = (Inr se, sk') \<and>
    outb pk' = inb sk \<and> outb sk' = inb pk \<and> inb pk' = [] \<and> inb sk' = [] \<and>
    readAEAD se = writeAEAD pe \<and> readAEAD pe = writeAEAD se"
  using peers_agree [OF assms(1-5) assms(6,7) assms(9,10) assms(12,13), of p1 p2] assms(8,11) by auto

lemma tunnel_peers_agree_witness:
  "\<exists>pe pk' se sk'.
    NewAuthenticatedConn sample_crypto (Inr (replicate 32 1)) (Inr (replicate 16 3))
      (sample_publisher_conn 80) sample_creds RolePublish 80 = (Inr pe, pk') \<and>
    NewAuthenticatedConn sample_crypto (Inr (replicate 32 2)) (Inr (replicate 16 4))
      (sample_subscriber_conn 80) sample_creds RoleSubscribe 80 = (Inr se, sk') \<and>
    outb pk' = inb (sample_subscriber_conn 80) \<and> outb sk' = inb (sample_publisher_conn 80) \<and>
    inb pk' = [] \<and> inb sk' = [] \<and> readAEAD se = writeAEAD pe \<and> readAEAD pe = writeAEAD se"
  by (rule tunnel_peers_agree)
    (simp_all add: sample_publisher_conn_def sample_subscriber_conn_def new_conn_def go_consts)

text \<open>
  A peer accepts only a proof over its own fresh challenge. If the handshake succeeds,
  what arrived was a 32-byte challenge followed by the other role's MAC, under this session's
  data secret, over the transcript of this challenge, the challenge this end drew and the
  port it asked for; and that transcript fixes all three, so neither a proof recorded on
  another connection nor one for another port is accepted as it stands.
\<close>

theorem tunnel_proof_binds:
  assumes "NewAuthenticatedConn cr (Inr l) pfx c creds role port = (Inr e, c')"
    and "length l = challengeSize"
  shows "\<exists>r. length r = challengeSize \<and>
    (let t = (if role = RolePublish then tunnel_transcript r l port else tunnel_transcript l r port)
     in inb c = r @ tunnelMAC cr (crData creds)
          (if role = RolePublish then ''subscriber proof'' else ''publisher proof'') t @ inb c' \<and>
        (\<forall>sub pub port'. length sub = challengeSize \<and> length pub = challengeSize \<and>
           t = tunnel_transcript sub pub port' \<longrightarrow>
             port' = port \<and> (if role = RolePublish then pub = l \<and> sub = r else sub = l \<and> pub = r)))"
proof -
  have roles [simp]: "RolePublish \<noteq> RoleSubscribe" "RoleSubscribe \<noteq> RolePublish"
    by (simp_all add: RolePublish_def RoleSubscribe_def)
  obtain r where r: "length r = challengeSize" "role = RolePublish \<or> role = RoleSubscribe"
    "inb c = r @ tunnelMAC cr (crData creds)
       (if role = RolePublish then ''subscriber proof'' else ''publisher proof'')
       (if role = RolePublish then tunnel_transcript r l port else tunnel_transcript l r port) @ inb c'"
    using NewAuthenticatedConn_Inr [OF assms(1)] by (auto simp: Let_def split: if_splits)
  show ?thesis
    using r(1,3) assms(2) tunnel_transcript_inj [of r _ l] tunnel_transcript_inj [of l _ r]
    by (intro exI [of _ r]) (auto simp: Let_def split: if_splits)
qed

lemma tunnel_proof_binds_witness:
  "\<exists>r. length r = challengeSize \<and>
    (let t = tunnel_transcript r (replicate 32 1) 80
     in \<exists>e c'. NewAuthenticatedConn sample_crypto (Inr (replicate 32 1)) (Inr (replicate 16 3))
          (sample_publisher_conn 80) sample_creds RolePublish 80 = (Inr e, c') \<and>
        inb (sample_publisher_conn 80) =
          r @ tunnelMAC sample_crypto (replicate 16 5) ''subscriber proof'' t @ inb c')"
proof -
  obtain e c' where run: "NewAuthenticatedConn sample_crypto (Inr (replicate 32 1)) (Inr (replicate 16 3))
      (sample_publisher_conn 80) sample_creds RolePublish 80 = (Inr e, c')"
    using NewAuthenticatedConn_ok [of sample_crypto RolePublish "replicate 32 2" "sample_publisher_conn 80"
        sample_creds "replicate 32 1" 80 "[]" "replicate 16 3"]
    by (auto simp: sample_publisher_conn_def new_conn_def go_consts RolePublish_def RoleSubscribe_def)
  have "length (replicate 32 1 :: byte list) = challengeSize" by (simp add: go_consts)
  with tunnel_proof_binds [OF run this] run show ?thesis
    by (auto simp: Let_def sample_creds_def)
qed

end
