(* ===== verification/Peer.thy ===== *)
theory Peer
  imports Auth HostPort Wire_Attach Wire_Control
begin

text \<open>
  What share and listen have in common (\<^verbatim>\<open>internal/peer\<close>): dialing relay, opening a tunnel,
  the control loop and the reconnect loop. What a dial finds, random draws and elapsed time
  are arguments. A context is the answers \<open>ctx.Err()\<close> gives when it is asked; canceling it
  also closes the connection, which then shows in the reads and writes of the connection
  itself. A function that opens a connection returns it as it left it, \<open>None\<close> if it never had
  one.
\<close>

section \<open>Dialing relay\<close>

record ('ip, 'tls, 'sk) peer_session =
  peRelay :: "'ip hostPort"
  peTLS :: 'tls
  peCreds :: "'sk credentials"
  peRole :: role
  peID :: session_id

definition NewSession ::
  "'ip hostPort \<Rightarrow> 'tls \<Rightarrow> 'sk credentials \<Rightarrow> role \<Rightarrow> ('ip, 'tls, 'sk) peer_session" where
  "NewSession relay tls creds role =
     \<lparr>peRelay = relay, peTLS = tls, peCreds = creds, peRole = role, peID = crID creds\<rparr>"

definition MaxTunnels :: nat where [go_consts]: "MaxTunnels = 256"

text \<open>
  The dialer fails, or gives a TLS connection and the protocol it negotiated, or (which the
  code calls unreachable) something that is no TLS connection, of some type.
\<close>

datatype dial_outcome = DialErr error | DialTLS conn string | DialOther conn string

definition err_protocol :: error where
  "err_protocol = Wrap [] (Sentinel ErrProtocolMismatch) ('' (expected '' @ ALPN @ '')'')"

definition dial ::
  "'ip netip \<Rightarrow> ('ip, 'tls, 'sk) peer_session \<Rightarrow> dial_outcome \<Rightarrow> conn result \<times> conn option" where
  "dial np s d =
     (case d of
        DialErr e \<Rightarrow> (Inl (wrap (''dial '' @ hostPort_String np (peRelay s)) e), None)
      | DialOther c typ \<Rightarrow>
          (Inl (Msg (''dial '' @ hostPort_String np (peRelay s) @ '': unexpected connection type '' @ typ)),
           Some (conn_close c))
      | DialTLS c proto \<Rightarrow>
          if proto \<noteq> ALPN then (Inl err_protocol, Some (conn_close c)) else (Inr c, Some c))"

section \<open>Tunnels\<close>

definition await_verdict :: "attach_kind \<Rightarrow> conn \<Rightarrow> error option \<times> conn" where
  "await_verdict kind c =
     (if kind \<noteq> AttachSubscriber then (None, c)
      else case ReadAck c of
             (Inl e, c1) \<Rightarrow> (Some (wrap ''read relay tunnel response'' e), c1)
           | (Inr status, c1) \<Rightarrow> (map_option (wrap ''relay refused tunnel'') (ack_Err status), c1))"

definition session_attach ::
  "('sk, 'pk) crypto \<Rightarrow> byte list result \<Rightarrow> byte list result \<Rightarrow> ('ip, 'tls, 'sk) peer_session \<Rightarrow>
   conn \<Rightarrow> attach \<Rightarrow> enc_conn result \<times> conn" where
  "session_attach cr rnd pfx s c a =
     (let a1 = a\<lparr>aSessionID := peID s\<rparr>
      in case WriteDataAttach a1 c of
           (Inl e, c1) \<Rightarrow> (Inl (wrap ''send tunnel request'' e), c1)
         | (Inr _, c1) \<Rightarrow>
             (case await_verdict (aKind a1) c1 of
                (Some e, c2) \<Rightarrow> (Inl e, c2)
              | (None, c2) \<Rightarrow> NewAuthenticatedConn cr rnd pfx c2 (peCreds s) (peRole s) (aPort a1)))"

definition OpenTunnel ::
  "'ip netip \<Rightarrow> ('sk, 'pk) crypto \<Rightarrow> byte list result \<Rightarrow> byte list result \<Rightarrow>
   ('ip, 'tls, 'sk) peer_session \<Rightarrow> dial_outcome \<Rightarrow> attach \<Rightarrow> enc_conn result \<times> conn option" where
  "OpenTunnel np cr rnd pfx s d a =
     (case dial np s d of
        (Inl e, k) \<Rightarrow> (Inl e, k)
      | (Inr c, _) \<Rightarrow>
          (case session_attach cr rnd pfx s c a of
             (Inl e, c1) \<Rightarrow> (Inl e, Some (conn_close c1))
           | (Inr tunnel, c1) \<Rightarrow> (Inr tunnel, Some c1)))"

section \<open>The control loop\<close>

text \<open>
  Pings go out from a goroutine of their own until one fails; it shares no state with the
  reading loop but the connection, of which it only uses the write side.
\<close>

fun sendPings :: "nat \<Rightarrow> 'a conn_scheme \<Rightarrow> 'a conn_scheme" where
  "sendPings 0 c = c"
| "sendPings (Suc n) c =
     (case WriteControlFrame ControlPing [] c of
        (Inl e, c1) \<Rightarrow> c1
      | (Inr _, c1) \<Rightarrow> sendPings n c1)"

text \<open>
  The handler is any function on a state of the caller's. \<open>ctx i\<close> is the answer to the
  \<open>i\<close>-th \<open>ctx.Err()\<close>: one before every read, one after a read that fails. Every frame takes
  bytes off the connection, so the loop ends.
\<close>

type_synonym 's handler = "control_type \<Rightarrow> byte list \<Rightarrow> 's \<Rightarrow> error option \<times> 's"

function RunControlLoop ::
  "(nat \<Rightarrow> error option) \<Rightarrow> 's handler \<Rightarrow> nat \<Rightarrow> 'a conn_scheme \<Rightarrow> 's \<Rightarrow> error \<times> 'a conn_scheme \<times> 's" where
  "RunControlLoop ctx handle i c s =
     (case ctx i of
        Some ce \<Rightarrow> (ce, c, s)
      | None \<Rightarrow>
          (case ReadControlFrame c of
             (Inl e, c1) \<Rightarrow>
               (case ctx (i + 1) of
                  Some ce \<Rightarrow> (ce, c1, s)
                | None \<Rightarrow> (wrap ''read control frame'' e, c1, s))
           | (Inr (typ, payload), c1) \<Rightarrow>
               (case handle typ payload s of
                  (Some e, s1) \<Rightarrow> (e, c1, s1)
                | (None, s1) \<Rightarrow> RunControlLoop ctx handle (i + 1) c1 s1)))"
  by pat_completeness auto
termination
  by (relation "measure (\<lambda>(ctx, handle, i, c, s). length (inb c))")
    (auto dest: ReadControlFrame_shrinks [OF HOL.sym])

declare RunControlLoop.simps [simp del]

section \<open>Connecting\<close>

definition connect ::
  "'ip netip \<Rightarrow> ('sk, 'pk) crypto \<Rightarrow> ('ip, 'tls, 'sk) peer_session \<Rightarrow> mode \<Rightarrow> u16 \<Rightarrow> dial_outcome \<Rightarrow>
   conn result \<times> conn option" where
  "connect np cr s mode ports d =
     (case dial np s d of
        (Inl e, k) \<Rightarrow> (Inl e, k)
      | (Inr c, _) \<Rightarrow>
          (case WriteConnKind ConnControl c of
             (Inl e, c1) \<Rightarrow> (Inl e, Some (conn_close c1))
           | (Inr _, c1) \<Rightarrow>
               (case Handshake cr (peRole s) mode ports (peCreds s) c1 of
                  (Some e, c2) \<Rightarrow> (Inl e, Some (conn_close c2))
                | (None, c2) \<Rightarrow> (Inr c2, Some c2))))"

definition runSession ::
  "(nat \<Rightarrow> error option) \<Rightarrow> nat \<Rightarrow> 's handler \<Rightarrow> conn \<Rightarrow> 's \<Rightarrow> error \<times> conn \<times> 's" where
  "runSession ctx ticks handle c s =
     (case RunControlLoop ctx handle 0 (sendPings ticks c) s of
        (e, c1, s1) \<Rightarrow> (e, conn_close c1, s1))"

section \<open>Retrying\<close>

text \<open>Durations are nanoseconds in 64 bits; all of them are positive.\<close>

definition reconnectMinDelay :: u64 where "reconnectMinDelay = 250 * 1000000"
definition reconnectMaxDelay :: u64 where "reconnectMaxDelay = 10 * 1000000000"
definition reconnectMaxShift :: nat where "reconnectMaxShift = 8"
definition reconnectJitterDiv :: u64 where "reconnectJitterDiv = 4"

definition retryable :: "error \<Rightarrow> bool" where
  "retryable e =
     (if errors_is e ErrModeMismatch \<or> errors_is e ErrPortsMismatch then False
      else if errors_is e ErrDenied then False
      else if errors_is e CertVerification then False
      else if errors_is e ErrProtocolMismatch then False
      else if errors_is e RemoteTLSAlert then False
      else True)"

definition base_delay :: "nat \<Rightarrow> u64" where
  "base_delay attempt =
     (let delay = reconnectMaxDelay
      in if attempt < reconnectMaxShift
         then let doubled = push_bit attempt reconnectMinDelay in if doubled < delay then doubled else delay
         else delay)"

text \<open>\<open>jitter\<close> is what \<open>rand.Int64N\<close> draws, a number below a quarter of the delay.\<close>

definition retryDelay :: "nat \<Rightarrow> u64 \<Rightarrow> u64" where
  "retryDelay attempt jitter = base_delay attempt - jitter"

definition jitter_ok :: "nat \<Rightarrow> u64 \<Rightarrow> bool" where
  "jitter_ok attempt jitter \<longleftrightarrow> jitter < base_delay attempt div reconnectJitterDiv"

section \<open>Serve\<close>

text \<open>
  A callback that is not set is \<open>None\<close>, or \<open>False\<close> where it returns nothing; \<open>sgReady\<close> is
  what \<open>OnReady\<close> returns. Calls of callbacks are events.
\<close>

record 's serve_config =
  sgMode :: mode
  sgPorts :: u16
  sgHandle :: "'s handler"
  sgWait :: bool
  sgReady :: "error option option"
  sgOnWaiting :: bool
  sgOnReconnect :: bool
  sgOnDisconnect :: bool

datatype serve_event = Ready | Reconnected | Waiting error u64 | Disconnected error u64

text \<open>One turn of the loop meets: a dial, a context, pings due, whether the session lasted a
  minute, a random draw, and what ends the wait.\<close>

record serve_turn =
  stDial :: dial_outcome
  stCtx :: "nat \<Rightarrow> error option"
  stTicks :: nat
  stStable :: bool
  stCtxAfter :: "error option"
  stJitter :: u64
  stWait :: "error option"

definition notifyConnected :: "'s serve_config \<Rightarrow> bool \<Rightarrow> error option \<times> serve_event list" where
  "notifyConnected cfg connected =
     (if \<not> connected
      then (case sgReady cfg of Some r \<Rightarrow> (r, [Ready]) | None \<Rightarrow> (None, []))
      else (None, if sgOnReconnect cfg then [Reconnected] else []))"

text \<open>The end of a turn: the error to return, or the delay to wait and the event.\<close>

definition serve_verdict ::
  "'s serve_config \<Rightarrow> serve_turn \<Rightarrow> bool \<Rightarrow> nat \<Rightarrow> error \<Rightarrow> error option \<times> serve_event list" where
  "serve_verdict cfg t connected attempt err =
     (case stCtxAfter t of
        Some ce \<Rightarrow> (Some ce, [])
      | None \<Rightarrow>
          if (\<not> connected \<and> \<not> sgWait cfg) \<or> \<not> retryable err then (Some err, [])
          else
            (let delay = retryDelay attempt (stJitter t)
             in (stWait t,
                 if \<not> connected \<and> sgOnWaiting cfg then [Waiting err delay]
                 else if connected \<and> sgOnDisconnect cfg then [Disconnected err delay] else [])))"

text \<open>\<open>Serve\<close> over the turns given: the error it returns, or \<open>None\<close> if it is still running.\<close>

fun Serve ::
  "'ip netip \<Rightarrow> ('sk, 'pk) crypto \<Rightarrow> ('ip, 'tls, 'sk) peer_session \<Rightarrow> 's serve_config \<Rightarrow>
   serve_turn list \<Rightarrow> bool \<Rightarrow> nat \<Rightarrow> 's \<Rightarrow> error option \<times> 's \<times> serve_event list" where
  "Serve np cr ses cfg [] connected attempt s = (None, s, [])"
| "Serve np cr ses cfg (t # ts) connected attempt s =
     (case connect np cr ses (sgMode cfg) (sgPorts cfg) (stDial t) of
        (Inr control, _) \<Rightarrow>
          (case notifyConnected cfg connected of
             (Some readyErr, ev) \<Rightarrow> (Some readyErr, s, ev)
           | (None, ev) \<Rightarrow>
               (case runSession (stCtx t) (stTicks t) (sgHandle cfg) control s of
                  (err, _, s1) \<Rightarrow>
                    (let attempt1 = (if stStable t then 0 else attempt)
                     in case serve_verdict cfg t True attempt1 err of
                          (Some e, ev1) \<Rightarrow> (Some e, s1, ev @ ev1)
                        | (None, ev1) \<Rightarrow>
                            (case Serve np cr ses cfg ts True (attempt1 + 1) s1 of
                               (r, s2, ev2) \<Rightarrow> (r, s2, ev @ ev1 @ ev2)))))
      | (Inl err, _) \<Rightarrow>
          (case serve_verdict cfg t connected attempt err of
             (Some e, ev1) \<Rightarrow> (Some e, s, ev1)
           | (None, ev1) \<Rightarrow>
               (case Serve np cr ses cfg ts connected (attempt + 1) s of
                  (r, s2, ev2) \<Rightarrow> (r, s2, ev1 @ ev2))))"

section \<open>Frames of the operations\<close>

text \<open>The pinger and the reading loop use different halves of the connection.\<close>

lemma sendPings_frame:
  "inb (sendPings n c) = inb c \<and> inerr (sendPings n c) = inerr c \<and> shut (sendPings n c) = shut c"
proof (induction n arbitrary: c)
  case (Suc n)
  obtain r c1 where w: "WriteControlFrame ControlPing [] c = (r, c1)" by (cases "WriteControlFrame ControlPing [] c")
  show ?case using Suc.IH [of c1] WriteControlFrame_frame [OF w] w by (cases r) simp_all
qed simp

text \<open>What ends the control loop: the context, the handler, or a read that fails.\<close>

lemma RunControlLoop_error:
  fixes c :: "'a conn_scheme"
  shows "RunControlLoop ctx handle i c s = (e, c', s') \<Longrightarrow>
   (\<exists>j. ctx j = Some e) \<or> (\<exists>typ p s1 s2. handle typ p s1 = (Some e, s2)) \<or>
   (\<exists>(c1 :: 'a conn_scheme) c2 e'. ReadControlFrame c1 = (Inl e', c2) \<and> e = wrap ''read control frame'' e')"
proof (induction ctx handle i c s rule: RunControlLoop.induct)
  case (1 ctx handle i c s)
  show ?case
  proof (cases "ctx i")
    case None
    obtain r c1 where rd: "ReadControlFrame c = (r, c1)" by (cases "ReadControlFrame c")
    show ?thesis
    proof (cases r)
      case (Inl er)
      then have "(\<exists>j. ctx j = Some e) \<or> e = wrap ''read control frame'' er"
        using "1.prems" None rd by (subst (asm) RunControlLoop.simps) (auto split: option.splits)
      then show ?thesis using rd Inl by blast
    next
      case (Inr tp)
      obtain ty p where tp: "tp = (ty, p)" by (cases tp)
      obtain h s1 where h: "handle ty p s = (h, s1)" by (cases "handle ty p s")
      show ?thesis
      proof (cases h)
        case None': None
        then have "RunControlLoop ctx handle (i + 1) c1 s1 = (e, c', s')"
          using "1.prems" None rd Inr tp h by (subst (asm) RunControlLoop.simps) simp
        then show ?thesis using "1.IH" [OF None rd [symmetric] Inr tp [symmetric] h [symmetric] None'] by simp
      next
        case (Some he)
        then have "e = he"
          using "1.prems" None rd Inr tp h by (subst (asm) RunControlLoop.simps) simp
        then show ?thesis using h Some by blast
      qed
    qed
  next
    case (Some ce)
    then show ?thesis using "1.prems" by (subst (asm) RunControlLoop.simps) auto
  qed
qed

lemma RunControlLoop_keeps:
  assumes "\<And>ty payload s r s'. good s \<Longrightarrow> handle ty payload s = (r, s') \<Longrightarrow> good s'"
  shows "RunControlLoop ctx handle i c s = (e, c', s') \<Longrightarrow> good s \<Longrightarrow> good s'"
  using assms
proof (induction ctx handle i c s rule: RunControlLoop.induct)
  case (1 ctx handle i c s)
  obtain r c1 where rd: "ReadControlFrame c = (r, c1)" by (cases "ReadControlFrame c")
  show ?case
  proof (cases "ctx i = None \<and> (\<exists>tp. r = Inr tp)")
    case False
    then have "s' = s"
      using "1.prems"(1) rd by (subst (asm) RunControlLoop.simps) (auto split: option.splits sum.splits)
    then show ?thesis using "1.prems"(2) by simp
  next
    case True
    then obtain ty p where tp: "ctx i = None" "r = Inr (ty, p)" by auto
    obtain h s1 where h: "handle ty p s = (h, s1)" by (cases "handle ty p s")
    have s1: "good s1" by (rule "1.prems"(3) [OF "1.prems"(2) h])
    show ?thesis
    proof (cases h)
      case None
      then have "RunControlLoop ctx handle (i + 1) c1 s1 = (e, c', s')"
        using "1.prems"(1) tp rd h by (subst (asm) RunControlLoop.simps) simp
      from "1.IH" [OF tp(1) rd [symmetric] tp(2) HOL.refl h [symmetric] None this s1 "1.prems"(3)]
      show ?thesis .
    next
      case (Some e')
      then have "s' = s1" using "1.prems"(1) tp rd h by (subst (asm) RunControlLoop.simps) simp
      then show ?thesis using s1 by simp
    qed
  qed
qed

text \<open>
  A handler that never errors has handled, in order, exactly the frames that were read until the
  context ended or a read failed.
\<close>

lemma RunControlLoop_frames:
  fixes c :: "'a conn_scheme"
  assumes "\<And>ty payload s. fst (handle ty payload s) = None"
  shows "RunControlLoop ctx handle i c s = (e, c', s') \<Longrightarrow>
    \<exists>frames (c1 :: 'a conn_scheme). inb c = encode_frames frames @ inb c1 \<and> shut c1 = shut c \<and> inerr c1 = inerr c \<and>
      (\<forall>j < length frames. ctx (i + j) = None) \<and>
      (ctx (i + length frames) = Some e \<and> c' = c1 \<or>
       ctx (i + length frames) = None \<and> (\<exists>e'. ReadControlFrame c1 = (Inl e', c') \<and>
         e = (case ctx (i + length frames + 1) of Some ce \<Rightarrow> ce | None \<Rightarrow> wrap ''read control frame'' e'))) \<and>
      s' = fold (\<lambda>(ty, payload) s. snd (handle ty payload s)) frames s"
  using assms
proof (induction ctx handle i c s rule: RunControlLoop.induct)
  case (1 ctx handle i c s)
  obtain r c1 where rd: "ReadControlFrame c = (r, c1)" by (cases "ReadControlFrame c")
  show ?case
  proof (cases "ctx i = None \<and> (\<exists>tp. r = Inr tp)")
    case False
    then show ?thesis
      using "1.prems"(1) rd by (subst (asm) RunControlLoop.simps)
        (auto intro!: exI [of _ "[]"] exI [of _ c] simp: encode_frames_def split: option.splits sum.splits)
  next
    case True
    then obtain ty p where tp: "ctx i = None" "r = Inr (ty, p)" by auto
    obtain s1 where h: "handle ty p s = (None, s1)" using "1.prems"(2) by (metis prod.collapse)
    have "RunControlLoop ctx handle (i + 1) c1 s1 = (e, c', s')"
      using "1.prems"(1) tp rd h by (subst (asm) RunControlLoop.simps) simp
    from "1.IH" [OF tp(1) rd [symmetric] tp(2) HOL.refl h [symmetric] HOL.refl this "1.prems"(2)] obtain frames c2 where
      ih: "inb c1 = encode_frames frames @ inb c2" "shut c2 = shut c1" "inerr c2 = inerr c1"
        "\<forall>j < length frames. ctx (i + 1 + j) = None"
        "ctx (i + 1 + length frames) = Some e \<and> c' = c2 \<or>
         ctx (i + 1 + length frames) = None \<and> (\<exists>e'. ReadControlFrame c2 = (Inl e', c') \<and>
           e = (case ctx (i + 1 + length frames + 1) of Some ce \<Rightarrow> ce | None \<Rightarrow> wrap ''read control frame'' e'))"
        "s' = fold (\<lambda>(ty, payload) s. snd (handle ty payload s)) frames s1" by blast
    have first: "inb c = encodeControl ty p @ inb c1" "shut c1 = shut c" "inerr c1 = inerr c"
      using ReadControlFrame_sound ReadControlFrame_frame rd tp(2) by blast+
    have "ctx (i + j) = None" if "j < length ((ty, p) # frames)" for j
      using that ih(4) tp(1) by (cases j) auto
    then show ?thesis
      using ih first h by (intro exI [of _ "(ty, p) # frames"] exI [of _ c2]) (simp add: encode_frames_def)
  qed
qed

text \<open>What a handler keeps of its state is kept through every frame, session and reconnect.\<close>

locale control_handler =
  fixes handle :: "'s handler" and good :: "'s \<Rightarrow> bool"
  assumes handle_good: "good s \<Longrightarrow> handle ty payload s = (r, s') \<Longrightarrow> good s'"
begin

lemma loop_good: "RunControlLoop ctx handle i c s = (e, c', s') \<Longrightarrow> good s \<Longrightarrow> good s'"
  by (rule RunControlLoop_keeps [of good handle, OF handle_good])

lemma session_good: "runSession ctx ticks handle c s = (e, c', s') \<Longrightarrow> good s \<Longrightarrow> good s'"
  by (auto simp: runSession_def dest: loop_good split: prod.splits)

lemma Serve_good:
  assumes "sgHandle cfg = handle"
  shows "Serve np cr ses cfg ts connected attempt s = (r, s', ev) \<Longrightarrow> good s \<Longrightarrow> good s'"
proof (induction ts arbitrary: connected attempt s r ev)
  case (Cons t ts)
  show ?case
    using Cons.prems Cons.IH session_good [of "stCtx t" "stTicks t"] assms
    by (fastforce simp: Let_def split: prod.splits sum.splits option.splits)
qed simp

end

section \<open>Properties\<close>

lemma base_delay_exact:
  "unat (base_delay attempt) = min (250000000 * 2 ^ attempt) 10000000000"
proof (cases "attempt < 8")
  case True
  then have "attempt \<in> {0, 1, 2, 3, 4, 5, 6, 7}" by auto
  then show ?thesis
    by (auto simp: base_delay_def reconnectMaxShift_def reconnectMaxDelay_def reconnectMinDelay_def Let_def)
next
  case False
  then have "(2::nat) ^ 8 \<le> 2 ^ attempt" by (intro power_increasing) simp_all
  then show ?thesis using False by (simp add: base_delay_def reconnectMaxShift_def reconnectMaxDelay_def)
qed

text \<open>
  How long a peer waits. The delay before the attempt of any number is more than three
  quarters of 250 ms doubled once per attempt so far, and at most that, with the doubling
  capped at 10 s; for no attempt does the shift or the subtraction of the jitter leave the 64
  bits of a duration. So every retry comes within relay's 30 s heartbeat window.
\<close>

theorem retry_delay_bounds:
  assumes "jitter_ok attempt jitter"
  defines "base \<equiv> min (250000000 * 2 ^ attempt) 10000000000 :: nat"
  shows "3 * base < 4 * unat (retryDelay attempt jitter) \<and> unat (retryDelay attempt jitter) \<le> base \<and>
    187500000 < unat (retryDelay attempt jitter) \<and> unat (retryDelay attempt jitter) \<le> 10000000000"
proof -
  have b: "unat (base_delay attempt) = base" by (simp add: base_delay_exact base_def)
  have j: "unat jitter < base div 4"
    using assms(1) b by (simp add: jitter_ok_def reconnectJitterDiv_def word_less_nat_alt unat_div)
  then have "unat (base_delay attempt - jitter) = base - unat jitter"
    using b by (simp add: unat_sub word_le_nat_alt)
  moreover have "250000000 \<le> base"
    by (simp add: base_def)
  moreover have "base \<le> 10000000000" by (simp add: base_def)
  ultimately show ?thesis using j by (simp add: retryDelay_def) linarith
qed

lemma retry_delay_bounds_witness: "187500000 < unat (retryDelay 70 1000)"
proof -
  have "jitter_ok 70 1000"
    by (simp add: jitter_ok_def base_delay_def reconnectMaxShift_def reconnectMaxDelay_def reconnectJitterDiv_def)
  from retry_delay_bounds [OF this] show ?thesis by simp
qed

text \<open>
  What a peer keeps trying. Of relay's refusals, a subscriber retries all but a mode
  mismatch, a port mismatch and a denial - in particular no such session and publisher exists -
  and the connection of a refused attempt is closed; a relay of another protocol version is not
  retried, and a failed dial is retried unless it is TLS that failed.
\<close>

theorem retry_verdicts:
  fixes cr :: "('sk, 'pk) crypto" and ses :: "('ip, 'tls, 'sk) peer_session"
  assumes "peRole ses = RoleSubscribe" and "ports \<noteq> 0" and "\<not> shut c" and "wscript c = []"
    and "inb c = status # rest"
  shows "(status = AckOK \<longrightarrow> (\<exists>c'. connect np cr ses ModeTCP ports (DialTLS c ALPN) = (Inr c', Some c') \<and>
      inb c' = rest \<and> \<not> shut c')) \<and>
    (status \<noteq> AckOK \<longrightarrow> (\<exists>e c'. connect np cr ses ModeTCP ports (DialTLS c ALPN) = (Inl e, Some c') \<and> shut c' \<and>
      (retryable e \<longleftrightarrow> status \<notin> {AckModeMismatch, AckPortsMismatch, AckDenied}))) \<and>
    (\<forall>proto. proto \<noteq> ALPN \<longrightarrow> (\<exists>e c'. connect np cr ses ModeTCP ports (DialTLS c proto) = (Inl e, Some c') \<and>
      shut c' \<and> \<not> retryable e)) \<and>
    (\<forall>e. \<exists>e'. connect np cr ses ModeTCP ports (DialErr e) = (Inl e', None) \<and> retryable e' = retryable e)"
proof -
  let ?h = "\<lparr>hRole = RoleSubscribe, hMode = ModeTCP, hSessionID = crID (peCreds ses), hPorts = ports\<rparr>"
  let ?c1 = "c\<lparr>outb := outb c @ [ConnControl]\<rparr>"
  let ?c2 = "?c1\<lparr>outb := outb ?c1 @ encodeHello ?h\<rparr>"
  have k: "WriteConnKind ConnControl c = (Inr (), ?c1)"
    using assms(3,4) by (simp add: WriteConnKind_def validConnKind_def write_msg_ok)
  have h: "WriteHello ?h ?c1 = (Inr (), ?c2)"
    using assms(2-4) by (simp add: WriteHello_def check_hello_def write_msg_ok go_consts)
  have a: "ReadAck ?c2 = (Inr status, ?c2\<lparr>inb := rest\<rparr>)"
    unfolding ReadAck_def by (subst read_msg_ok [where buf = "[status]" and rest = rest]) (use assms(3,5) in simp_all)
  have hs: "Handshake cr RoleSubscribe ModeTCP ports (peCreds ses) ?c1 = (ack_Err status, ?c2\<lparr>inb := rest\<rparr>)"
    using h a by (simp add: Handshake_def Let_def RolePublish_def RoleSubscribe_def)
  have verdict: "status \<noteq> AckOK \<Longrightarrow> \<exists>e. ack_Err status = Some e \<and>
      (retryable e \<longleftrightarrow> status \<notin> {AckModeMismatch, AckPortsMismatch, AckDenied})"
    by (auto simp: ack_Err_def retryable_def go_consts)
  have ok: "ack_Err AckOK = None" by (simp add: ack_Err_def)
  have conn: "connect np cr ses ModeTCP ports (DialTLS c ALPN) =
      (case ack_Err status of
         Some e \<Rightarrow> (Inl e, Some (conn_close (?c2\<lparr>inb := rest\<rparr>)))
       | None \<Rightarrow> (Inr (?c2\<lparr>inb := rest\<rparr>), Some (?c2\<lparr>inb := rest\<rparr>)))"
    using k hs assms(1) by (simp add: connect_def dial_def split: option.split)
  have refused: "\<exists>e c'. connect np cr ses ModeTCP ports (DialTLS c ALPN) = (Inl e, Some c') \<and> shut c' \<and>
      (retryable e \<longleftrightarrow> status \<notin> {AckModeMismatch, AckPortsMismatch, AckDenied})" if bad: "status \<noteq> AckOK"
  proof -
    obtain e where e: "ack_Err status = Some e" "retryable e \<longleftrightarrow> status \<notin> {AckModeMismatch, AckPortsMismatch, AckDenied}"
      using verdict [OF bad] by blast
    then show ?thesis using conn by (intro exI [of _ e]) (simp add: conn_close_def)
  qed
  have other: "\<exists>e c'. connect np cr ses ModeTCP ports (DialTLS c proto) = (Inl e, Some c') \<and> shut c' \<and> \<not> retryable e"
    if "proto \<noteq> ALPN" for proto
    using that by (simp add: connect_def dial_def conn_close_def retryable_def err_protocol_def)
  have failed: "\<exists>e'. connect np cr ses ModeTCP ports (DialErr e) = (Inl e', None) \<and> retryable e' = retryable e" for e
    by (simp add: connect_def dial_def) (simp add: retryable_def)
  show ?thesis using conn refused other failed ok assms(3) by auto
qed

lemma retry_verdicts_witness:
  "\<exists>e c'. connect sample_netip sample_crypto
      (NewSession \<lparr>hpKind = KindIP, hpIP = Some ''127.0.0.1'', hpName = [], hpPort = 443\<rparr> () sample_creds RoleSubscribe)
      ModeTCP 2 (DialTLS (new_conn [AckNoSuchSession]) ALPN) = (Inl e, Some c') \<and> shut c' \<and> retryable e"
  using retry_verdicts [of "NewSession \<lparr>hpKind = KindIP, hpIP = Some ''127.0.0.1'', hpName = [], hpPort = 443\<rparr> ()
      sample_creds RoleSubscribe" 2 "new_conn [AckNoSuchSession]" AckNoSuchSession "[]" sample_netip sample_crypto]
  by (auto simp: NewSession_def new_conn_def go_consts)

text \<open>One error a turn may end \<open>Serve\<close> with, or why the loop may go on.\<close>

lemma serve_verdict_cases:
  assumes "serve_verdict cfg t connected attempt err = (r, ev)"
  shows "(\<forall>e. r = Some e \<longrightarrow> ev = [] \<and> e = err \<and> (\<not> connected \<and> \<not> sgWait cfg \<or> \<not> retryable err) \<or>
      stCtxAfter t = Some e \<or> stWait t = Some e) \<and>
    (ev = [] \<or> retryable err \<and> (\<exists>d. ev = [if connected then Disconnected err d else Waiting err d])) \<and>
    (r = None \<longrightarrow> retryable err \<and> (connected \<or> sgWait cfg))"
  using assms by (auto simp: serve_verdict_def Let_def split: option.splits if_splits)

definition gap_event :: "serve_event \<Rightarrow> bool" where
  "gap_event x \<longleftrightarrow> x = Reconnected \<or> (\<exists>e d. x = Disconnected e d \<and> retryable e)"

definition wait_event :: "serve_event \<Rightarrow> bool" where
  "wait_event x \<longleftrightarrow> (\<exists>e d. x = Waiting e d \<and> retryable e)"

definition turn_ends :: "'s serve_config \<Rightarrow> serve_turn list \<Rightarrow> error \<Rightarrow> bool" where
  "turn_ends cfg ts e \<longleftrightarrow> \<not> retryable e \<or> (\<exists>t \<in> set ts. stCtxAfter t = Some e \<or> stWait t = Some e)"

lemma Serve_connected:
  "Serve np cr ses cfg ts True attempt s = (r, s', ev) \<Longrightarrow>
   (\<forall>x \<in> set ev. gap_event x) \<and> (\<forall>e. r = Some e \<longrightarrow> turn_ends cfg ts e)"
proof (induction ts arbitrary: attempt s r s' ev)
  case (Cons t ts)
  obtain cn k where c: "connect np cr ses (sgMode cfg) (sgPorts cfg) (stDial t) = (cn, k)" by (metis prod.exhaust)
  define start where "start = (if sgOnReconnect cfg then [Reconnected] else [])"
  obtain err st nxt pre where go: "pre = [] \<or> pre = start"
    and step: "(r, s', ev) = (case serve_verdict cfg t True nxt err of
        (Some e, ev1) \<Rightarrow> (Some e, st, pre @ ev1)
      | (None, ev1) \<Rightarrow> (case Serve np cr ses cfg ts True (nxt + 1) st of (r, s2, ev2) \<Rightarrow> (r, s2, pre @ ev1 @ ev2)))"
  proof (cases cn)
    case (Inl err)
    with Cons.prems c show thesis by (intro that [where pre = "[]" and err = err and st = s and nxt = attempt])
        (auto split: prod.splits option.splits)
  next
    case (Inr control)
    obtain err c' s1 where rs: "runSession (stCtx t) (stTicks t) (sgHandle cfg) control s = (err, c', s1)" by (metis prod.exhaust)
    with Cons.prems c Inr show thesis
      by (intro that [where pre = start and err = err and st = s1 and nxt = "if stStable t then 0 else attempt"])
        (auto simp: notifyConnected_def start_def Let_def split: prod.splits option.splits)
  qed
  obtain v ev1 where v: "serve_verdict cfg t True nxt err = (v, ev1)" by (metis prod.exhaust)
  note vc = serve_verdict_cases [OF v]
  have pre1: "\<forall>x \<in> set (pre @ ev1). gap_event x"
    using go vc by (auto simp: gap_event_def start_def split: if_splits)
  show ?case
  proof (cases v)
    case (Some e)
    then show ?thesis using step v vc pre1 by (auto simp: turn_ends_def)
  next
    case None
    obtain r2 s2 ev2 where rest: "Serve np cr ses cfg ts True (nxt + 1) st = (r2, s2, ev2)" by (metis prod.exhaust)
    then show ?thesis
      using step v None pre1 Cons.IH [OF rest] by (auto simp: turn_ends_def)
  qed
qed simp

text \<open>The turn that connects first, and all that follow.\<close>

lemma Serve_first_connected:
  assumes c: "connect np cr ses (sgMode cfg) (sgPorts cfg) (stDial t) = (Inr control, k)"
    and n: "notifyConnected cfg False = (None, ev0)" and run: "Serve np cr ses cfg (t # ts) False attempt s = (r, s', ev)"
  shows "\<exists>gs. ev = ev0 @ gs \<and> (\<forall>x \<in> set gs. gap_event x) \<and> (\<forall>e. r = Some e \<longrightarrow> turn_ends cfg (t # ts) e)"
proof -
  obtain err c' s1 where rs: "runSession (stCtx t) (stTicks t) (sgHandle cfg) control s = (err, c', s1)" by (metis prod.exhaust)
  let ?a = "if stStable t then 0 else attempt"
  obtain v ev1 where v: "serve_verdict cfg t True ?a err = (v, ev1)" by (metis prod.exhaust)
  note vc = serve_verdict_cases [OF v]
  have g: "\<forall>x \<in> set ev1. gap_event x" using vc by (auto simp: gap_event_def)
  show ?thesis
  proof (cases v)
    case (Some e)
    with run c n rs v Some have "ev = ev0 @ ev1" "r = Some e" by (simp_all add: Let_def)
    then show ?thesis using g vc Some by (intro exI [of _ ev1]) (auto simp: turn_ends_def)
  next
    case None
    obtain r2 s2 ev2 where rest: "Serve np cr ses cfg ts True (?a + 1) s1 = (r2, s2, ev2)" by (metis prod.exhaust)
    with run c n rs v None have "ev = ev0 @ ev1 @ ev2" "r = r2" by (simp_all add: Let_def)
    then show ?thesis using g Serve_connected [OF rest] by (intro exI [of _ "ev1 @ ev2"]) (auto simp: turn_ends_def)
  qed
qed

text \<open>
  C28: \<open>Serve\<close> gives up only for a reason it can name, and says what it does. If it returns, the
  error is the context's, \<open>OnReady\<close>'s, one that \<open>retryable\<close> excludes, or - unless it was asked
  to wait - that of its first attempt to connect. Its callbacks come in order: retries before
  the first connection, then \<open>OnReady\<close> at most once, then disconnects and reconnects; and
  every error it reports as being retried is retryable.
\<close>

theorem serve_returns_for_reason:
  assumes "Serve np cr ses cfg ts False attempt s = (r, s', ev)"
  shows "(\<exists>ws rs. ev = ws @ rs \<and> (\<forall>x \<in> set ws. wait_event x) \<and>
      (rs = [] \<or> (\<exists>gs. rs = (if sgReady cfg = None then gs else Ready # gs) \<and> (\<forall>x \<in> set gs. gap_event x)))) \<and>
    (\<forall>e. r = Some e \<longrightarrow> turn_ends cfg ts e \<or> sgReady cfg = Some (Some e) \<or>
       \<not> sgWait cfg \<and> ts \<noteq> [] \<and> (\<exists>k. connect np cr ses (sgMode cfg) (sgPorts cfg) (stDial (hd ts)) = (Inl e, k)))"
  using assms
proof (induction ts arbitrary: attempt s r s' ev)
  case Nil
  then show ?case by simp
next
  case (Cons t ts)
  obtain cn k where c: "connect np cr ses (sgMode cfg) (sgPorts cfg) (stDial t) = (cn, k)" by (metis prod.exhaust)
  show ?case
  proof (cases cn)
    case (Inl err)
    obtain v ev1 where v: "serve_verdict cfg t False attempt err = (v, ev1)" by (metis prod.exhaust)
    note vc = serve_verdict_cases [OF v]
    have w: "\<forall>x \<in> set ev1. wait_event x" using vc by (auto simp: wait_event_def)
    show ?thesis
    proof (cases v)
      case (Some e)
      then have "r = Some e" "ev = ev1" using Cons.prems c Inl v by simp_all
      moreover have "\<forall>e. r = Some e \<longrightarrow> turn_ends cfg (t # ts) e \<or> sgReady cfg = Some (Some e) \<or>
          \<not> sgWait cfg \<and> t # ts \<noteq> [] \<and>
          (\<exists>k. connect np cr ses (sgMode cfg) (sgPorts cfg) (stDial (hd (t # ts))) = (Inl e, k))"
        using Some vc c Inl by (auto simp: turn_ends_def \<open>r = Some e\<close>)
      ultimately show ?thesis using w by (intro conjI exI [of _ ev1] exI [of _ "[]"]) auto
    next
      case None
      obtain r2 s2 ev2 where rest: "Serve np cr ses cfg ts False (attempt + 1) s = (r2, s2, ev2)" by (metis prod.exhaust)
      have out: "r = r2" "ev = ev1 @ ev2" using Cons.prems c Inl v None rest by simp_all
      have wait: "sgWait cfg" using vc None by simp
      obtain ws rs where e: "ev2 = ws @ rs" "\<forall>x \<in> set ws. wait_event x"
        "rs = [] \<or> (\<exists>gs. rs = (if sgReady cfg = None then gs else Ready # gs) \<and> (\<forall>x \<in> set gs. gap_event x))"
        using Cons.IH [OF rest] by blast
      have "\<exists>ws rs. ev = ws @ rs \<and> (\<forall>x \<in> set ws. wait_event x) \<and>
          (rs = [] \<or> (\<exists>gs. rs = (if sgReady cfg = None then gs else Ready # gs) \<and> (\<forall>x \<in> set gs. gap_event x)))"
        using e w by (intro exI [of _ "ev1 @ ws"] exI [of _ rs]) (auto simp: out)
      then show ?thesis using Cons.IH [OF rest] wait out by (auto simp: turn_ends_def)
    qed
  next
    case (Inr control)
    obtain rdy ev0 where n: "notifyConnected cfg False = (rdy, ev0)" by (metis prod.exhaust)
    have ev0: "ev0 = (if sgReady cfg = None then [] else [Ready])" "rdy = (case sgReady cfg of None \<Rightarrow> None | Some x \<Rightarrow> x)"
      using n by (auto simp: notifyConnected_def split: option.splits)
    show ?thesis
    proof (cases rdy)
      case (Some e)
      then have "r = Some e" "ev = ev0" using Cons.prems c Inr n by simp_all
      then show ?thesis using ev0 Some
        by (intro conjI exI [of _ "[] :: serve_event list"] exI [of _ ev]) (auto split: option.splits)
    next
      case None
      obtain gs where gs: "ev = ev0 @ gs" "\<forall>x \<in> set gs. gap_event x" "\<forall>e. r = Some e \<longrightarrow> turn_ends cfg (t # ts) e"
        using Serve_first_connected [of np cr ses cfg t control k ev0 ts attempt s r s' ev] Cons.prems c Inr n None by blast
      then show ?thesis using ev0(1)
        by (intro conjI exI [of _ "[] :: serve_event list"] exI [of _ ev]) auto
    qed
  qed
qed

definition sample_peer :: "(string, unit, byte) peer_session" where
  "sample_peer = NewSession \<lparr>hpKind = KindIP, hpIP = Some ''127.0.0.1'', hpName = [], hpPort = 443\<rparr> ()
     sample_creds RoleSubscribe"

lemma serve_returns_for_reason_witness:
  "let cfg = \<lparr>sgMode = ModeTCP, sgPorts = 1, sgHandle = (\<lambda>typ p s. (None, s :: nat)), sgWait = False,
       sgReady = Some None, sgOnWaiting = True, sgOnReconnect = True, sgOnDisconnect = True\<rparr>;
     t = \<lparr>stDial = DialErr (Fault 1), stCtx = (\<lambda>_. None), stTicks = 0, stStable = False, stCtxAfter = None,
       stJitter = 0, stWait = None\<rparr>
   in \<exists>e. Serve sample_netip sample_crypto sample_peer cfg [t, t] False 0 0 = (Some e, 0, []) \<and>
     (turn_ends cfg [t, t] e \<or>
      (\<exists>k. connect sample_netip sample_crypto sample_peer ModeTCP 1 (stDial t) = (Inl e, k)))"
proof -
  let ?cfg = "\<lparr>sgMode = ModeTCP, sgPorts = 1, sgHandle = (\<lambda>typ p s. (None, s :: nat)), sgWait = False,
       sgReady = Some None, sgOnWaiting = True, sgOnReconnect = True, sgOnDisconnect = True\<rparr>"
  let ?t = "\<lparr>stDial = DialErr (Fault 1), stCtx = (\<lambda>_. None), stTicks = 0, stStable = False, stCtxAfter = None,
       stJitter = 0, stWait = None\<rparr> :: serve_turn"
  obtain e where e: "Serve sample_netip sample_crypto sample_peer ?cfg [?t, ?t] False 0 0 = (Some e, 0, [])"
    by (simp add: connect_def dial_def serve_verdict_def)
  from serve_returns_for_reason [OF e] e show ?thesis by (simp add: Let_def)
qed

lemma OpenTunnel_Inl:
  "OpenTunnel np cr rnd pfx ses d a = (Inl e, k) \<Longrightarrow> k = None \<or> (\<exists>c. k = Some c \<and> shut c)"
  by (auto simp: OpenTunnel_def dial_def conn_close_def split: dial_outcome.splits sum.splits prod.splits if_splits)

text \<open>
  C9: A tunnel opens only to a peer that proves the session's secret, or leaves nothing open.
  An \<open>OpenTunnel\<close> that fails has no connection or has closed it. One that succeeds dialed a
  relay of this protocol version, sent it the data discriminator and an attach for the
  session's own identifier that relay reads back as asked, heard \<open>AckOK\<close> if it subscribes,
  and then received a challenge and the other role's proof over it, its own challenge and the
  port.
\<close>

theorem tunnel_opens_authenticated:
  assumes "OpenTunnel np cr (Inr l) pfx ses d a = (r, k)" and "length (peID ses) = SessionIDSize"
  shows "(\<forall>e. r = Inl e \<longrightarrow> k = None \<or> (\<exists>c. k = Some c \<and> shut c)) \<and>
    (\<forall>tunnel. r = Inr tunnel \<longrightarrow> (\<exists>c c' rc sent. d = DialTLS c ALPN \<and> k = Some c' \<and>
       outb c' = outb c @ ConnData # encodeAttach (a\<lparr>aSessionID := peID ses\<rparr>) @ sent \<and>
       attach_valid (a\<lparr>aSessionID := peID ses\<rparr>) \<and>
       decodeAttach (encodeAttach (a\<lparr>aSessionID := peID ses\<rparr>)) = Inr (a\<lparr>aSessionID := peID ses\<rparr>) \<and>
       length rc = challengeSize \<and>
       inb c = (if aKind a = AttachSubscriber then [AckOK] else []) @ rc @
         (if peRole ses = RolePublish
          then tunnelMAC cr (crData (peCreds ses)) ''subscriber proof'' (tunnel_transcript rc l (aPort a))
          else tunnelMAC cr (crData (peCreds ses)) ''publisher proof'' (tunnel_transcript l rc (aPort a))) @ inb c'))"
proof (cases r)
  case (Inl e)
  then show ?thesis using assms(1) OpenTunnel_Inl by blast
next
  case (Inr tunnel)
  let ?a = "a\<lparr>aSessionID := peID ses\<rparr>"
  obtain c c' where d: "d = DialTLS c ALPN" "k = Some c'" "session_attach cr (Inr l) pfx ses c a = (Inr tunnel, c')"
    using assms(1) Inr by (auto simp: OpenTunnel_def dial_def split: dial_outcome.splits sum.splits prod.splits if_splits)
  obtain u c1 c2 where w: "WriteDataAttach ?a c = (Inr u, c1)" "await_verdict (aKind a) c1 = (None, c2)"
    "NewAuthenticatedConn cr (Inr l) pfx c2 (peCreds ses) (peRole ses) (aPort a) = (Inr tunnel, c')"
    using d(3) by (auto simp: session_attach_def Let_def split: sum.splits prod.splits option.splits)
  have kind: "aKind a \<in> {AttachSubscriber, AttachPublisher}"
    using w(1) by (auto simp: WriteDataAttach_def writeAttach_def split: sum.splits)
  then have c1: "outb c1 = outb c @ ConnData # encodeAttach ?a" "inb c1 = inb c"
    using w(1) by (auto simp: WriteDataAttach_def writeAttach_def dest: write_msg_Inr split: sum.splits)
  have valid: "attach_valid ?a" using kind assms(2) by (simp add: attach_valid_def)
  have c2: "outb c2 = outb c1 \<and> inb c1 = (if aKind a = AttachSubscriber then [AckOK] else []) @ inb c2"
  proof (cases "aKind a = AttachSubscriber")
    case True
    then obtain st where st: "ReadAck c1 = (Inr st, c2)" "ack_Err st = None"
      using w(2) by (auto simp: await_verdict_def split: sum.splits prod.splits)
    have "st = AckOK" using st(2) by (simp add: ack_Err_def split: if_splits)
    moreover have "inb c1 = [st] @ inb c2" using st(1) unfolding ReadAck_def by (rule ack_codec.read_sound [THEN conjunct2])
    ultimately show ?thesis using True st(1) read_msg_frame by (fastforce simp: ReadAck_def)
  qed (use w(2) in \<open>simp add: await_verdict_def\<close>)
  obtain rc sent where n: "length rc = challengeSize" "outb c' = outb c2 @ sent"
    "inb c2 = rc @ (if peRole ses = RolePublish
          then tunnelMAC cr (crData (peCreds ses)) ''subscriber proof'' (tunnel_transcript rc l (aPort a))
          else tunnelMAC cr (crData (peCreds ses)) ''publisher proof'' (tunnel_transcript l rc (aPort a))) @ inb c'"
    using NewAuthenticatedConn_Inr [OF w(3)]
    by (auto simp: Let_def RolePublish_def RoleSubscribe_def split: if_splits)
  then show ?thesis
    using Inr d(1,2) c1 c2 valid decode_encodeAttach [OF valid] by (intro conjI) (simp, auto)
qed

lemma relay_reads_attach:
  assumes "\<not> shut d" and "inb d = ConnData # encodeAttach a @ rest" and "attach_valid a"
  shows "ReadConnKind d = (Inr ConnData, d\<lparr>inb := encodeAttach a @ rest\<rparr>) \<and>
    ReadAttach (d\<lparr>inb := encodeAttach a @ rest\<rparr>) = (Inr a, d\<lparr>inb := rest\<rparr>)"
  using assms conn_kind_codec.read_enc [of ConnData d "encodeAttach a @ rest"]
    attach_codec.read_enc [of a "d\<lparr>inb := encodeAttach a @ rest\<rparr>" rest]
  by (simp add: ReadConnKind_def ReadAttach_def validConnKind_def)

text \<open>Both ends of a tunnel, and what each has sent by then.\<close>

lemma tunnel_pair:
  fixes cr :: "('sk, 'pk) crypto" and np :: "'ip netip"
  assumes "kdf_ok cr" and "aead_ok cr" and "crData pc = crData sc" and "crID pc = crID sc"
    and "length (crID pc) = SessionIDSize" and "length pch = challengeSize" and "length sch = challengeSize"
    and "\<not> shut pk" "wscript pk = []" "outb pk = []" and "\<not> shut sk" "wscript sk = []" "outb sk = []"
    and "inb pk = sch @ tunnelMAC cr (crData sc) ''subscriber proof'' (tunnel_transcript sch pch port)"
    and "inb sk = AckOK # pch @ tunnelMAC cr (crData pc) ''publisher proof'' (tunnel_transcript sch pch port)"
  shows "\<exists>pe pk' se sk'.
    OpenTunnel np cr (Inr pch) (Inr p1) (NewSession relay ptls pc RolePublish) (DialTLS pk ALPN)
      \<lparr>aKind = AttachPublisher, aSessionID = [], aRequestID = rid, aPort = port\<rparr> = (Inr pe, Some pk') \<and>
    OpenTunnel np cr (Inr sch) (Inr p2) (NewSession relay' stls sc RoleSubscribe) (DialTLS sk ALPN)
      \<lparr>aKind = AttachSubscriber, aSessionID = [], aRequestID = 0, aPort = port\<rparr> = (Inr se, Some sk') \<and>
    inb pk' = [] \<and> inb sk' = [] \<and> econn pe = pk' \<and> econn se = sk' \<and>
    readAEAD se = writeAEAD pe \<and> readAEAD pe = writeAEAD se \<and>
    outb pk' = ConnData # encodeAttach \<lparr>aKind = AttachPublisher, aSessionID = crID pc, aRequestID = rid, aPort = port\<rparr> @ tl (inb sk) \<and>
    outb sk' = ConnData # encodeAttach \<lparr>aKind = AttachSubscriber, aSessionID = crID pc, aRequestID = 0, aPort = port\<rparr> @ inb pk"
proof -
  let ?pa = "\<lparr>aKind = AttachPublisher, aSessionID = crID pc, aRequestID = rid, aPort = port\<rparr>"
  let ?sa = "\<lparr>aKind = AttachSubscriber, aSessionID = crID pc, aRequestID = 0, aPort = port\<rparr>"
  let ?pk = "pk\<lparr>outb := ConnData # encodeAttach ?pa\<rparr>" and ?sk = "sk\<lparr>outb := ConnData # encodeAttach ?sa\<rparr>"
  let ?sk2 = "?sk\<lparr>inb := tl (inb sk)\<rparr>"
  have kinds: "AttachPublisher \<noteq> AttachSubscriber" by (simp add: AttachPublisher_def AttachSubscriber_def)
  have wp: "WriteDataAttach ?pa pk = (Inr (), ?pk)" and ws: "WriteDataAttach ?sa sk = (Inr (), ?sk)"
    using assms(8-13) by (simp_all add: WriteDataAttach_def writeAttach_def check_attach_def write_msg_ok)
  have ack: "await_verdict AttachSubscriber ?sk = (None, ?sk2)"
  proof -
    have "ReadAck ?sk = (Inr AckOK, ?sk2)"
      unfolding ReadAck_def by (subst read_msg_ok [where buf = "[AckOK]" and rest = "tl (inb sk)"]) (use assms(11,15) in simp_all)
    then show ?thesis by (simp add: await_verdict_def ack_Err_def)
  qed
  obtain pe pk' se sk' where h:
    "NewAuthenticatedConn cr (Inr pch) (Inr p1) ?pk pc RolePublish port = (Inr pe, pk')"
    "NewAuthenticatedConn cr (Inr sch) (Inr p2) ?sk2 sc RoleSubscribe port = (Inr se, sk')"
    "outb pk' = outb ?pk @ inb ?sk2" "outb sk' = outb ?sk2 @ inb ?pk" "inb pk' = []" "inb sk' = []"
    "econn pe = pk'" "econn se = sk'" "readAEAD se = writeAEAD pe" "readAEAD pe = writeAEAD se"
    using peers_agree [OF assms(1-3,6,7), of ?pk ?sk2 port p1 p2] assms(8-15) by auto
  have "session_attach cr (Inr pch) (Inr p1) (NewSession relay ptls pc RolePublish) pk
      \<lparr>aKind = AttachPublisher, aSessionID = [], aRequestID = rid, aPort = port\<rparr> = (Inr pe, pk')"
    using wp h(1) kinds by (simp add: session_attach_def NewSession_def Let_def await_verdict_def)
  moreover have "session_attach cr (Inr sch) (Inr p2) (NewSession relay' stls sc RoleSubscribe) sk
      \<lparr>aKind = AttachSubscriber, aSessionID = [], aRequestID = 0, aPort = port\<rparr> = (Inr se, sk')"
    using ws ack h(2) assms(4) by (simp add: session_attach_def NewSession_def Let_def)
  ultimately show ?thesis
    using h by (intro exI [of _ pe] exI [of _ pk'] exI [of _ se] exI [of _ sk']) (simp add: OpenTunnel_def dial_def)
qed

text \<open>
  C10: Two ends of a session get a tunnel through relay. A publisher and a subscriber that hold
  the same session's credentials each dial relay; relay reads from each the discriminator and
  an attach for the same session and port, and passes the rest of what each sends to the other,
  after its \<open>AckOK\<close> to the subscriber. Then both calls succeed, nothing is left unread, and
  the two sealed streams use the same two keys, crossed.
\<close>

theorem tunnel_established:
  fixes cr :: "('sk, 'pk) crypto" and np :: "'ip netip"
  assumes "kdf_ok cr" and "aead_ok cr" and "crData pc = crData sc" and "crID pc = crID sc"
    and "length (crID pc) = SessionIDSize" and "length pch = challengeSize" and "length sch = challengeSize"
    and "\<not> shut pk" "wscript pk = []" "outb pk = []" and "\<not> shut sk" "wscript sk = []" "outb sk = []"
    and "inb pk = sch @ tunnelMAC cr (crData sc) ''subscriber proof'' (tunnel_transcript sch pch port)"
    and "inb sk = AckOK # pch @ tunnelMAC cr (crData pc) ''publisher proof'' (tunnel_transcript sch pch port)"
  shows "\<exists>pe pk' se sk'.
    OpenTunnel np cr (Inr pch) (Inr p1) (NewSession relay ptls pc RolePublish) (DialTLS pk ALPN)
      \<lparr>aKind = AttachPublisher, aSessionID = [], aRequestID = rid, aPort = port\<rparr> = (Inr pe, Some pk') \<and>
    OpenTunnel np cr (Inr sch) (Inr p2) (NewSession relay stls sc RoleSubscribe) (DialTLS sk ALPN)
      \<lparr>aKind = AttachSubscriber, aSessionID = [], aRequestID = 0, aPort = port\<rparr> = (Inr se, Some sk') \<and>
    inb pk' = [] \<and> inb sk' = [] \<and> econn pe = pk' \<and> econn se = sk' \<and>
    readAEAD se = writeAEAD pe \<and> readAEAD pe = writeAEAD se \<and>
    (\<forall>d :: conn. \<not> shut d \<and> inb d = outb pk' \<longrightarrow> (\<exists>d1 d2. ReadConnKind d = (Inr ConnData, d1) \<and>
       ReadAttach d1 = (Inr \<lparr>aKind = AttachPublisher, aSessionID = crID pc, aRequestID = rid, aPort = port\<rparr>, d2) \<and>
       inb sk = AckOK # inb d2)) \<and>
    (\<forall>d :: conn. \<not> shut d \<and> inb d = outb sk' \<longrightarrow> (\<exists>d1 d2. ReadConnKind d = (Inr ConnData, d1) \<and>
       ReadAttach d1 = (Inr \<lparr>aKind = AttachSubscriber, aSessionID = crID pc, aRequestID = 0, aPort = port\<rparr>, d2) \<and>
       inb pk = inb d2))"
proof -
  let ?pa = "\<lparr>aKind = AttachPublisher, aSessionID = crID pc, aRequestID = rid, aPort = port\<rparr>"
  let ?sa = "\<lparr>aKind = AttachSubscriber, aSessionID = crID pc, aRequestID = 0, aPort = port\<rparr>"
  have valid: "attach_valid ?pa" "attach_valid ?sa" using assms(5) by (simp_all add: attach_valid_def)
  have "\<exists>d1 d2. ReadConnKind d = (Inr ConnData, d1) \<and> ReadAttach d1 = (Inr ?pa, d2) \<and> inb sk = AckOK # inb d2"
    if "\<not> shut d" "inb d = ConnData # encodeAttach ?pa @ tl (inb sk)" for d :: conn
    using relay_reads_attach [of d ?pa "tl (inb sk)"] that valid assms(15) by fastforce
  moreover have "\<exists>d1 d2. ReadConnKind d = (Inr ConnData, d1) \<and> ReadAttach d1 = (Inr ?sa, d2) \<and> inb pk = inb d2"
    if "\<not> shut d" "inb d = ConnData # encodeAttach ?sa @ inb pk" for d :: conn
    using relay_reads_attach [of d ?sa "inb pk"] that valid by fastforce
  ultimately show ?thesis
    using tunnel_pair [OF assms, of np p1 relay ptls rid p2 relay stls] by metis
qed

lemma tunnel_established_witness:
  "\<exists>pe pk' se sk'.
    OpenTunnel sample_netip sample_crypto (Inr (replicate 32 1)) (Inr (replicate 16 3))
      (NewSession (peRelay sample_peer) () sample_creds RolePublish) (DialTLS (sample_publisher_conn 2) ALPN)
      \<lparr>aKind = AttachPublisher, aSessionID = [], aRequestID = 7, aPort = 2\<rparr> = (Inr pe, Some pk') \<and>
    OpenTunnel sample_netip sample_crypto (Inr (replicate 32 2)) (Inr (replicate 16 4))
      (NewSession (peRelay sample_peer) () sample_creds RoleSubscribe)
      (DialTLS (new_conn (AckOK # inb (sample_subscriber_conn 2))) ALPN)
      \<lparr>aKind = AttachSubscriber, aSessionID = [], aRequestID = 0, aPort = 2\<rparr> = (Inr se, Some sk') \<and>
    readAEAD se = writeAEAD pe"
  using tunnel_established [of sample_crypto sample_creds sample_creds "replicate 32 1" "replicate 32 2"
      "sample_publisher_conn 2" "new_conn (AckOK # inb (sample_subscriber_conn 2))" 2 sample_netip "replicate 16 3"
      "peRelay sample_peer" "()" 7 "replicate 16 4" "()"]
  by (simp add: sample_publisher_conn_def sample_subscriber_conn_def new_conn_def go_consts sample_creds_def) blast

lemma tunnel_opens_authenticated_witness:
  "\<exists>tunnel c'. OpenTunnel sample_netip sample_crypto (Inr (replicate 32 1)) (Inr (replicate 16 3))
      (NewSession (peRelay sample_peer) () sample_creds RolePublish) (DialTLS (sample_publisher_conn 2) ALPN)
      \<lparr>aKind = AttachPublisher, aSessionID = [], aRequestID = 7, aPort = 2\<rparr> = (Inr tunnel, Some c') \<and>
     (\<exists>sent. outb c' = ConnData #
        encodeAttach \<lparr>aKind = AttachPublisher, aSessionID = replicate 16 6, aRequestID = 7, aPort = 2\<rparr> @ sent)"
proof -
  let ?ses = "NewSession (peRelay sample_peer) () sample_creds RolePublish"
  let ?a = "\<lparr>aKind = AttachPublisher, aSessionID = [], aRequestID = 7, aPort = 2\<rparr> :: attach"
  let ?pk = "(sample_publisher_conn 2)\<lparr>outb := ConnData # encodeAttach (?a\<lparr>aSessionID := replicate 16 6\<rparr>)\<rparr>"
  have wp: "WriteDataAttach (?a\<lparr>aSessionID := replicate 16 6\<rparr>) (sample_publisher_conn 2) = (Inr (), ?pk)"
    by (simp add: WriteDataAttach_def writeAttach_def check_attach_def write_msg_ok sample_publisher_conn_def new_conn_def)
  obtain e c' where n: "NewAuthenticatedConn sample_crypto (Inr (replicate 32 1)) (Inr (replicate 16 3))
      ?pk sample_creds RolePublish 2 = (Inr e, c')"
    using NewAuthenticatedConn_ok [of sample_crypto RolePublish "replicate 32 2" ?pk
        sample_creds "replicate 32 1" 2 "[]" "replicate 16 3"]
    by (auto simp: sample_publisher_conn_def new_conn_def go_consts RolePublish_def RoleSubscribe_def)
  have "OpenTunnel sample_netip sample_crypto (Inr (replicate 32 1)) (Inr (replicate 16 3)) ?ses
      (DialTLS (sample_publisher_conn 2) ALPN) ?a = (Inr e, Some c')"
    using wp n by (simp add: OpenTunnel_def dial_def session_attach_def NewSession_def Let_def await_verdict_def
        sample_creds_def AttachPublisher_def AttachSubscriber_def)
  from tunnel_opens_authenticated [OF this] this show ?thesis
    by (auto simp: NewSession_def sample_creds_def sample_publisher_conn_def new_conn_def go_consts)
qed

end
