(* ===== verification/Tunnel.thy ===== *)
theory Tunnel
  imports Frame_Conn Splice "HOL-Library.Sublist"
begin

text \<open>
  The splice at either end of a tunnel (\<^verbatim>\<open>internal/streamio/splice.go\<close> as
  \<^verbatim>\<open>internal/listen\<close> and \<^verbatim>\<open>internal/share\<close> call it): one side is a plain connection, a
  local client's or the local service's, the other the sealed stream. As in \<open>Splice\<close>, a
  schedule says which of the two copies makes its next turn and how large a buffer that turn's
  \<open>Read\<close> has; the direction that ends closes the side it wrote into.
\<close>

section \<open>The splice\<close>

record tunnel_splice =
  tnLocal :: conn
  tnSealed :: enc_conn
  tnLocalDone :: bool
  tnSealedDone :: bool

definition tunnel_start :: "conn \<Rightarrow> enc_conn \<Rightarrow> tunnel_splice" where
  "tunnel_start local tunnel =
     \<lparr>tnLocal = local, tnSealed = tunnel, tnLocalDone = False, tnSealedDone = False\<rparr>"

definition turn_into_local :: "('sk, 'pk) crypto \<Rightarrow> nat \<Rightarrow> tunnel_splice \<Rightarrow> tunnel_splice" where
  "turn_into_local cr n st =
     (if tnLocalDone st then st
      else case enc_Read cr (max 1 n) (tnSealed st) of
             ((buf, er), tn) \<Rightarrow>
               (case (if buf = [] then ((0, None), tnLocal st) else conn_write buf (tnLocal st)) of
                  ((nw, ew), local) \<Rightarrow>
                    (let go = (ew = None \<and> nw = length buf \<and> er = None)
                     in st\<lparr>tnLocal := (if go then local else conn_close local), tnSealed := tn,
                           tnLocalDone := \<not> go\<rparr>)))"

definition turn_into_tunnel :: "('sk, 'pk) crypto \<Rightarrow> nat \<Rightarrow> tunnel_splice \<Rightarrow> tunnel_splice" where
  "turn_into_tunnel cr n st =
     (if tnSealedDone st then st
      else case conn_read n (tnLocal st) of
             ((buf, er), local) \<Rightarrow>
               (case (if buf = [] then ((0, None), tnSealed st) else enc_Write cr buf (tnSealed st)) of
                  ((nw, ew), tn) \<Rightarrow>
                    (let go = (ew = None \<and> nw = length buf \<and> er = None)
                     in st\<lparr>tnLocal := local, tnSealed := (if go then tn else enc_Close tn),
                           tnSealedDone := \<not> go\<rparr>)))"

definition tunnel_turn :: "('sk, 'pk) crypto \<Rightarrow> bool \<times> nat \<Rightarrow> tunnel_splice \<Rightarrow> tunnel_splice" where
  "tunnel_turn cr t st =
     (if fst t then turn_into_local cr (snd t) st else turn_into_tunnel cr (snd t) st)"

definition tunnel_run :: "('sk, 'pk) crypto \<Rightarrow> (bool \<times> nat) list \<Rightarrow> tunnel_splice \<Rightarrow> tunnel_splice" where
  "tunnel_run cr sched st = fold (tunnel_turn cr) sched st"

section \<open>What a write leaves on the wire\<close>

text \<open>The bytes of a stream with these chunks, its nonce prefix in front of the first frame.\<close>

definition sealed_bytes :: "('sk, 'pk) crypto \<Rightarrow> data_key \<Rightarrow> byte list \<Rightarrow> byte list list \<Rightarrow> byte list" where
  "sealed_bytes cr key pre chs = (if chs = [] then [] else pre @ frames_from cr key pre 0 chs)"

lemma frames_from_prefix:
  "prefix (frames_from cr key pre q xs) (frames_from cr key pre q (xs @ ys))"
  by (simp add: frames_from_append)

lemma chunks_eq: "chunks p = (if drop maxFramePlaintext p = [] then [p]
    else take maxFramePlaintext p # chunks (drop maxFramePlaintext p))"
  by (rule chunks.simps)

text \<open>A write that fails has put a part of its frames on the wire.\<close>

lemma enc_write_loop_partial:
  "enc_write_loop cr rest written c = (r, c') \<Longrightarrow>
   (\<exists>w. outb (econn c') = outb (econn c) @ w \<and>
      prefix w (owed_prefix c @ frames_from cr (writeAEAD c) (writePrefix c) (writeSeq c) (chunks rest))) \<and>
   writeAEAD c' = writeAEAD c \<and> writePrefix c' = writePrefix c \<and> inb (econn c') = inb (econn c)"
proof (induction cr rest written c arbitrary: r c' rule: enc_write_loop.induct)
  case (1 cr rest written c)
  let ?fb = "frame_bytes cr (writeAEAD c) (writePrefix c) (writeSeq c) (take maxFramePlaintext rest)"
  let ?buf = "(if prefixSent c then [] else writePrefix c) @ ?fb"
  let ?all = "owed_prefix c @ frames_from cr (writeAEAD c) (writePrefix c) (writeSeq c) (chunks rest)"
  have all: "?all = ?buf @ (if drop maxFramePlaintext rest = [] then []
      else frames_from cr (writeAEAD c) (writePrefix c) (writeSeq c + 1) (chunks (drop maxFramePlaintext rest)))"
    by (subst chunks_eq) (simp add: owed_prefix_def)
  obtain e k where w: "writeFull ?buf (econn c) = (e, k)" by (cases "writeFull ?buf (econn c)")
  obtain j where j: "outb k = outb (econn c) @ take j ?buf" using writeFull_prefix [OF w] by blast
  have k: "inb k = inb (econn c)" using writeFull_frame [OF w] by simp
  show ?case
  proof (cases "writeSeq c = - 1")
    case True
    then show ?thesis using "1.prems" by (auto simp: enc_write_loop.simps [of cr rest written c])
  next
    case False
    let ?c2 = "c\<lparr>writeSeq := writeSeq c + 1, econn := k, prefixSent := True\<rparr>"
    show ?thesis
    proof (cases "e = None \<and> drop maxFramePlaintext rest \<noteq> []")
      case True
      then have "enc_write_loop cr (drop maxFramePlaintext rest) (written + length (take maxFramePlaintext rest)) ?c2 = (r, c')"
        using "1.prems" False w by (simp add: enc_write_loop.simps [of cr rest written c] Let_def)
      then have ih: "(\<exists>w. outb (econn c') = outb (econn ?c2) @ w \<and>
          prefix w (owed_prefix ?c2 @ frames_from cr (writeAEAD ?c2) (writePrefix ?c2) (writeSeq ?c2)
            (chunks (drop maxFramePlaintext rest)))) \<and>
          writeAEAD c' = writeAEAD ?c2 \<and> writePrefix c' = writePrefix ?c2 \<and> inb (econn c') = inb (econn ?c2)"
        using True False w by (intro "1.IH" [OF False HOL.refl HOL.refl]) auto
      have "outb k = outb (econn c) @ ?buf" using writeFull_None w True by metis
      with ih True k all show ?thesis by (auto simp: owed_prefix_def)
    next
      case False': False
      then have c': "econn c' = k" "writeAEAD c' = writeAEAD c" "writePrefix c' = writePrefix c"
        using "1.prems" False w
        by (auto simp: enc_write_loop.simps [of cr rest written c] Let_def split: option.splits if_splits)
      have "prefix (take j ?buf) ?all" unfolding all by (meson prefix_order.trans prefixI take_is_prefix)
      with c' j k show ?thesis by auto
    qed
  qed
qed

section \<open>Reading a stream that may stop anywhere\<close>

text \<open>
  What a reader still has to get is \<open>T\<close>: the plaintext it has opened and not handed out, and
  the chunks of the frames its transport will deliver, all or the first part of them.
\<close>

definition to_come :: "('sk, 'pk) crypto \<Rightarrow> data_key \<Rightarrow> byte list \<Rightarrow> enc_conn \<Rightarrow> byte list \<Rightarrow> bool" where
  "to_come cr key pre c T \<longleftrightarrow> readErr c = None \<and> readAEAD c = key \<and> (prefixSeen c \<longrightarrow> readPrefix c = pre) \<and>
     (\<exists>chs. (\<forall>ch \<in> set chs. length ch \<le> maxFramePlaintext) \<and> T = plain c @ concat chs \<and>
        prefix (inb (econn c))
          (if prefixSeen c then frames_from cr key pre (readSeq c) chs
           else if chs = [] then [] else pre @ frames_from cr key pre (readSeq c) chs))"

lemma readFrame_fields: "readFrame cr c = (r, c1) \<Longrightarrow> readErr c1 = readErr c"
  by (auto simp: readFrame_def read_prefix_def read_body_def Let_def
      split: if_splits option.splits prod.splits sum.splits)

lemma prefix_cut: "prefix (xs @ ys) (us @ vs) \<Longrightarrow> length xs = length us \<Longrightarrow> xs = us \<and> prefix ys vs"
  by (auto simp: prefix_def)

lemma read_prefix_length:
  assumes "read_prefix c = (None, c0)" and "\<not> prefixSeen c"
  shows "length (readPrefix c0) = noncePrefixSize"
proof -
  obtain q k where q: "read_full noncePrefixSize (econn c) = (q, k)" by (cases "read_full noncePrefixSize (econn c)")
  then obtain pr where "q = Inr pr" "c0 = c\<lparr>econn := k, readPrefix := pr, prefixSeen := True\<rparr>"
    using assms by (cases q) (simp_all add: read_prefix_def)
  with q show ?thesis using read_full_split [of noncePrefixSize "econn c" pr k] by simp
qed

lemma read_body_seen: "read_body cr c = (None, c1) \<Longrightarrow> prefixSeen c1 = prefixSeen c"
  by (elim read_body_NoneE) simp

lemma readFrame_to_come:
  assumes "aead_ok cr" and "length pre = noncePrefixSize" and "to_come cr key pre c T" and "plain c = []"
    and "readFrame cr c = (None, c1)"
  shows "to_come cr key pre c1 T"
proof -
  obtain q c0 where q: "read_prefix c = (q, c0)" by (cases "read_prefix c")
  with assms(5) have p: "read_prefix c = (None, c0)" "read_body cr c0 = (None, c1)"
    by (cases q; simp add: readFrame_def split: if_split_asm)+
  note ps = read_prefix_sound [OF p(1)]
  obtain ct where ct: "inb (econn c0) = put_u16 (of_nat (length ct)) @ ct @ inb (econn c1)"
    "unat (of_nat (length ct) :: u16) = length ct"
    "aead_open cr (readAEAD c0) (frame_nonce (readPrefix c0) (readSeq c0)) ct = Inr (plain c1)"
    "readSeq c1 = readSeq c0 + 1" "readAEAD c1 = readAEAD c0" "readPrefix c1 = readPrefix c0"
    using read_body_sound [OF p(2)] by (elim exE conjE)
  obtain chs where chs: "\<forall>ch \<in> set chs. length ch \<le> maxFramePlaintext" "T = concat chs"
    "prefix (inb (econn c)) (if prefixSeen c then frames_from cr key pre (readSeq c) chs
       else if chs = [] then [] else pre @ frames_from cr key pre (readSeq c) chs)"
    and key: "readErr c = None" "readAEAD c = key" "prefixSeen c \<longrightarrow> readPrefix c = pre"
    using assms(3) unfolding to_come_def assms(4) append_Nil by (elim exE conjE)
  have len: "length (readPrefix c0) = noncePrefixSize" if "\<not> prefixSeen c"
    using read_prefix_length [OF p(1) that] .
  have "2 \<le> length (inb (econn c0))" unfolding ct(1) by simp
  then have "inb (econn c0) \<noteq> []" by auto
  then have ne: "inb (econn c) \<noteq> []" unfolding conjunct1 [OF ps] by simp
  then obtain ch rest where cs: "chs = ch # rest"
    using chs(3) by (cases chs) (auto split: if_splits)
  have pre0: "readPrefix c0 = pre \<and> prefix (inb (econn c0)) (frames_from cr key pre (readSeq c) chs)"
  proof (cases "prefixSeen c")
    case True
    then have "c0 = c" using ps by blast
    then show ?thesis using True chs(3) key(3) by simp
  next
    case False
    then have "prefix (readPrefix c0 @ inb (econn c0)) (pre @ frames_from cr key pre (readSeq c) chs)"
      using ps chs(3) cs by simp
    from prefix_cut [OF this] show ?thesis using len [OF False] assms(2) by simp
  qed
  have bound: "length ch \<le> maxFramePlaintext" using chs(1) cs by simp
  let ?seal = "aead_seal cr key (frame_nonce pre (readSeq c)) ch"
  note fb = frame_bytes_header [OF assms(1) bound]
  have ls: "length ?seal = length ch + aead_overhead" using assms(1) by (simp add: aead_ok_def)
  have "prefix (put_u16 (of_nat (length ct)) @ ct @ inb (econn c1))
      (put_u16 (of_nat (length ch + aead_overhead)) @ ?seal @ frames_from cr key pre (readSeq c + 1) rest)"
    using pre0 ct(1) cs fb(1) by simp
  note cut1 = prefix_cut [OF this]
  have "length ct = length ch + aead_overhead"
  proof -
    have "put_u16 (of_nat (length ct)) = put_u16 (of_nat (length ch + aead_overhead))" using cut1 by simp
    then have "get_u16 (put_u16 (of_nat (length ct)) @ []) = get_u16 (put_u16 (of_nat (length ch + aead_overhead)) @ [])"
      by (simp only:)
    then have "(of_nat (length ct) :: u16) = of_nat (length ch + aead_overhead)" by (simp only: get_put_u16)
    with fb(2) ct(2) show ?thesis by simp
  qed
  then have cut: "ct = ?seal" "prefix (inb (econn c1)) (frames_from cr key pre (readSeq c + 1) rest)"
    using cut1 prefix_cut [of ct "inb (econn c1)" ?seal] ls by simp_all
  have "plain c1 = ch" using ct(3) cut(1) ps pre0 key assms(1) by (simp add: aead_ok_def)
  moreover have "prefixSeen c1" using ps read_body_seen [OF p(2)] by simp
  moreover have "readErr c1 = None" using readFrame_fields [OF assms(5)] key by simp
  moreover have "readAEAD c1 = key" "readPrefix c1 = pre" "readSeq c1 = readSeq c + 1"
    using ct(4-6) ps pre0 key by simp_all
  moreover have "\<forall>ch \<in> set rest. length ch \<le> maxFramePlaintext" "T = ch @ concat rest" using chs(1,2) cs by simp_all
  ultimately show ?thesis unfolding to_come_def using cut(2) by (intro conjI exI [of _ rest]) simp_all
qed

lemma fill_plain_to_come:
  "fill_plain cr c = (None, c1) \<Longrightarrow> to_come cr key pre c T \<Longrightarrow> aead_ok cr \<Longrightarrow> length pre = noncePrefixSize \<Longrightarrow>
   to_come cr key pre c1 T"
proof (induction cr c rule: fill_plain.induct)
  case (1 cr c)
  show ?case
  proof (cases "plain c = []")
    case True
    obtain q c0 where q: "readFrame cr c = (q, c0)" by (cases "readFrame cr c")
    with "1.prems"(1) True have n: "q = None" "fill_plain cr c0 = (None, c1)"
      by (simp_all add: fill_plain.simps [of cr c] split: option.splits)
    have "to_come cr key pre c0 T"
      using readFrame_to_come [OF "1.prems"(3,4,2) True] q n(1) by simp
    with "1.IH" [OF _ q [symmetric] n(1) n(2)] "1.prems"(3,4) True show ?thesis by simp
  qed (use "1.prems" in \<open>simp add: fill_plain.simps [of cr c]\<close>)
qed

lemma enc_Read_to_come:
  assumes "enc_Read cr n c = ((buf, er), c1)" and "to_come cr key pre c T" and "aead_ok cr"
    and "length pre = noncePrefixSize"
  shows "if er = None then \<exists>T1. T = buf @ T1 \<and> to_come cr key pre c1 T1 else buf = []"
proof (cases "n = 0 \<or> readErr c \<noteq> None")
  case True
  then show ?thesis using assms(1,2) by (auto simp: enc_Read_def split: if_splits)
next
  case False
  obtain q c0 where q: "fill_plain cr c = (q, c0)" by (cases "fill_plain cr c")
  show ?thesis
  proof (cases q)
    case None
    then have r: "er = None" "buf = take n (plain c0)" "c1 = c0\<lparr>plain := drop n (plain c0)\<rparr>"
      using assms(1) False q by (simp_all add: enc_Read_def)
    have "to_come cr key pre c0 T" using fill_plain_to_come [OF _ assms(2-4)] q None by simp
    then obtain chs where "readErr c0 = None" "readAEAD c0 = key" "prefixSeen c0 \<longrightarrow> readPrefix c0 = pre"
      "\<forall>ch \<in> set chs. length ch \<le> maxFramePlaintext" "T = plain c0 @ concat chs"
      "prefix (inb (econn c0)) (if prefixSeen c0 then frames_from cr key pre (readSeq c0) chs
         else if chs = [] then [] else pre @ frames_from cr key pre (readSeq c0) chs)"
      unfolding to_come_def by (elim exE conjE)
    then have "T = buf @ drop n (plain c0) @ concat chs \<and> to_come cr key pre c1 (drop n (plain c0) @ concat chs)"
      unfolding to_come_def r by (intro conjI exI [of _ chs]) (auto split: if_splits)
    then show ?thesis using r(1) by auto
  next
    case (Some e)
    then show ?thesis using assms(1) False q by (auto simp: enc_Read_def)
  qed
qed

text \<open>Reading leaves the writing half alone and the other way round.\<close>

definition write_side :: "enc_conn \<Rightarrow> enc_conn \<Rightarrow> bool" where
  "write_side c c' \<longleftrightarrow> writeErr c' = writeErr c \<and> writeAEAD c' = writeAEAD c \<and> writeSeq c' = writeSeq c \<and>
     writePrefix c' = writePrefix c \<and> prefixSent c' = prefixSent c \<and> outb (econn c') = outb (econn c)"

definition read_side :: "enc_conn \<Rightarrow> enc_conn \<Rightarrow> bool" where
  "read_side c c' \<longleftrightarrow> readErr c' = readErr c \<and> readAEAD c' = readAEAD c \<and> readSeq c' = readSeq c \<and>
     readPrefix c' = readPrefix c \<and> prefixSeen c' = prefixSeen c \<and> plain c' = plain c \<and>
     inb (econn c') = inb (econn c)"

lemma read_prefix_write_side: "read_prefix c = (r, c') \<Longrightarrow> write_side c c'"
  by (cases "read_full noncePrefixSize (econn c)")
    (auto simp: read_prefix_def write_side_def dest: read_full_frame split: if_splits sum.splits)

lemma read_body_write_side:
  assumes "read_body cr c = (r, c')"
  shows "write_side c c'"
proof -
  obtain q k where q: "read_full frameLenSize (econn c) = (q, k)" by (cases "read_full frameLenSize (econn c)")
  show ?thesis
  proof (cases q)
    case (Inr lenBuf)
    obtain b k' where b: "read_full (unat (get_u16 lenBuf)) k = (b, k')" by (cases "read_full (unat (get_u16 lenBuf)) k")
    show ?thesis
      using assms q b Inr read_full_frame [OF q] read_full_frame [OF b]
      by (auto simp: read_body_def Let_def write_side_def split: if_splits sum.splits)
  qed (use assms q read_full_frame [OF q] in \<open>auto simp: read_body_def write_side_def\<close>)
qed

lemma write_side_trans: "write_side c c' \<Longrightarrow> write_side c' c'' \<Longrightarrow> write_side c c''"
  by (simp add: write_side_def)

lemma readFrame_write_side:
  assumes "readFrame cr c = (r, c')"
  shows "write_side c c'"
proof -
  obtain q c0 where q: "read_prefix c = (q, c0)" by (cases "read_prefix c")
  note p = read_prefix_write_side [OF q]
  show ?thesis
  proof (cases "readSeq c = - 1 \<or> q \<noteq> None")
    case True
    then show ?thesis using assms q p by (auto simp: readFrame_def write_side_def split: if_splits option.splits)
  next
    case False
    then have "read_body cr c0 = (r, c')" using assms q by (simp add: readFrame_def)
    from write_side_trans [OF p read_body_write_side [OF this]] show ?thesis .
  qed
qed

lemma fill_plain_write_side: "fill_plain cr c = (r, c') \<Longrightarrow> write_side c c'"
proof (induction cr c arbitrary: r c' rule: fill_plain.induct)
  case (1 cr c)
  show ?case
  proof (cases "plain c = []")
    case True
    obtain q c0 where q: "readFrame cr c = (q, c0)" by (cases "readFrame cr c")
    note w = readFrame_write_side [OF q]
    show ?thesis
    proof (cases q)
      case None
      then have "fill_plain cr c0 = (r, c')" using "1.prems" True q by (simp add: fill_plain.simps [of cr c])
      from write_side_trans [OF w "1.IH" [OF _ q [symmetric] None this]] True show ?thesis by simp
    next
      case (Some e)
      then show ?thesis using "1.prems" True q w by (auto simp: fill_plain.simps [of cr c] write_side_def)
    qed
  qed (use "1.prems" in \<open>simp add: fill_plain.simps [of cr c] write_side_def\<close>)
qed

lemma enc_Read_write_side:
  assumes "enc_Read cr n c = (r, c')"
  shows "write_side c c'"
proof -
  obtain q c0 where q: "fill_plain cr c = (q, c0)" by (cases "fill_plain cr c")
  from fill_plain_write_side [OF q] show ?thesis
    using assms q by (auto simp: enc_Read_def write_side_def split: if_splits option.splits)
qed

lemma enc_write_loop_read_side: "enc_write_loop cr rest written c = (r, c') \<Longrightarrow> read_side c c'"
proof (induction cr rest written c arbitrary: r c' rule: enc_write_loop.induct)
  case (1 cr rest written c)
  let ?buf = "(if prefixSent c then [] else writePrefix c) @
     frame_bytes cr (writeAEAD c) (writePrefix c) (writeSeq c) (take maxFramePlaintext rest)"
  obtain e k where w: "writeFull ?buf (econn c) = (e, k)" by (cases "writeFull ?buf (econn c)")
  have k: "inb k = inb (econn c)" using writeFull_frame [OF w] by simp
  show ?case
  proof (cases "writeSeq c \<noteq> - 1 \<and> e = None \<and> drop maxFramePlaintext rest \<noteq> []")
    case True
    let ?c2 = "c\<lparr>writeSeq := writeSeq c + 1, econn := k, prefixSent := True\<rparr>"
    have "enc_write_loop cr (drop maxFramePlaintext rest) (written + length (take maxFramePlaintext rest)) ?c2 = (r, c')"
      using "1.prems" True w by (simp add: enc_write_loop.simps [of cr rest written c] Let_def)
    then have "read_side ?c2 c'" using True w by (intro "1.IH" [OF _ HOL.refl HOL.refl]) auto
    then show ?thesis using k by (simp add: read_side_def)
  next
    case False
    then show ?thesis
      using "1.prems" w k
      by (auto simp: enc_write_loop.simps [of cr rest written c] Let_def read_side_def split: option.splits if_splits)
  qed
qed

lemma enc_Write_read_side: "enc_Write cr p c = (r, c') \<Longrightarrow> read_side c c'"
  using enc_write_loop_read_side [of cr p 0 c r c']
  by (auto simp: enc_Write_def read_side_def split: option.splits if_splits)

lemma to_come_read_side: "read_side c c' \<Longrightarrow> to_come cr key pre c' T = to_come cr key pre c T"
  by (simp add: read_side_def to_come_def)

section \<open>Two ends of a tunnel\<close>

text \<open>
  The half that seals: everything read from the local side so far has gone out as frames, the
  last of them perhaps cut short if the direction has ended.
\<close>

definition sealing ::
  "('sk, 'pk) crypto \<Rightarrow> data_key \<Rightarrow> byte list \<Rightarrow> byte list \<Rightarrow> byte list \<Rightarrow> tunnel_splice \<Rightarrow> bool" where
  "sealing cr key pre out S st \<longleftrightarrow>
     writeAEAD (tnSealed st) = key \<and> writePrefix (tnSealed st) = pre \<and>
     (\<exists>chs. (\<forall>ch \<in> set chs. length ch \<le> maxFramePlaintext) \<and>
        (if tnSealedDone st
         then \<exists>w. outb (econn (tnSealed st)) = out @ w \<and> prefix w (sealed_bytes cr key pre chs) \<and> prefix (concat chs) S
         else outb (econn (tnSealed st)) = out @ sealed_bytes cr key pre chs \<and> S = concat chs @ inb (tnLocal st) \<and>
           writeErr (tnSealed st) = None \<and> writeSeq (tnSealed st) = of_nat (length chs) \<and>
           (prefixSent (tnSealed st) \<longleftrightarrow> chs \<noteq> [])))"

lemma sealed_bytes_append:
  "sealed_bytes cr key pre (chs @ cs) = sealed_bytes cr key pre chs @
     (if cs = [] then [] else (if chs = [] then pre else []) @ frames_from cr key pre (of_nat (length chs)) cs)"
  by (simp add: sealed_bytes_def frames_from_append)

lemma conn_read_split:
  "conn_read n c = ((buf, er), c') \<Longrightarrow> inb c = buf @ inb c' \<and> (buf \<noteq> [] \<longrightarrow> er = None)"
  by (auto simp: conn_read_def Let_def split: if_splits)

lemma sealing_into_tunnel:
  assumes "sealing cr key pre out S st"
  shows "sealing cr key pre out S (turn_into_tunnel cr n st)"
proof (cases "tnSealedDone st")
  case True
  then show ?thesis using assms by (simp add: turn_into_tunnel_def)
next
  case False
  obtain chs where inv: "\<forall>ch \<in> set chs. length ch \<le> maxFramePlaintext"
    "outb (econn (tnSealed st)) = out @ sealed_bytes cr key pre chs" "S = concat chs @ inb (tnLocal st)"
    "writeErr (tnSealed st) = None" "writeSeq (tnSealed st) = of_nat (length chs)"
    "prefixSent (tnSealed st) \<longleftrightarrow> chs \<noteq> []"
    "writeAEAD (tnSealed st) = key" "writePrefix (tnSealed st) = pre"
    using assms False unfolding sealing_def by auto
  obtain buf er local where rd: "conn_read n (tnLocal st) = ((buf, er), local)" by (metis prod.exhaust)
  note b = conn_read_split [OF rd]
  show ?thesis
  proof (cases "buf = []")
    case True
    then have st': "turn_into_tunnel cr n st = st\<lparr>tnLocal := local,
        tnSealed := (if er = None then tnSealed st else enc_Close (tnSealed st)), tnSealedDone := er \<noteq> None\<rparr>"
      using False rd by (simp add: turn_into_tunnel_def)
    show ?thesis unfolding st' sealing_def
      using inv b True by (intro conjI exI [of _ chs]) (auto simp: enc_Close_def conn_close_def)
  next
    case buf: False
    obtain nw ew tn where w: "enc_Write cr buf (tnSealed st) = ((nw, ew), tn)" by (metis prod.exhaust)
    then have lp: "enc_write_loop cr buf 0 (tnSealed st) = ((nw, ew), tn)" using buf inv(4) by (simp add: enc_Write_def)
    let ?all = "chs @ chunks buf"
    have bound: "\<forall>ch \<in> set ?all. length ch \<le> maxFramePlaintext" using inv(1) chunks_bound by auto
    have cat: "concat ?all @ inb local = S" using inv(3) b by (simp add: concat_chunks)
    have new: "sealed_bytes cr key pre ?all = sealed_bytes cr key pre chs @ owed_prefix (tnSealed st) @
        frames_from cr key pre (of_nat (length chs)) (chunks buf)"
      using inv(6,8) by (simp add: sealed_bytes_append owed_prefix_def)
    show ?thesis
    proof (cases ew)
      case None
      note ok = enc_Write_ok [OF w [unfolded None]]
      have st': "turn_into_tunnel cr n st = st\<lparr>tnLocal := local, tnSealed := tn, tnSealedDone := False\<rparr>"
        using False rd w buf None ok b by (simp add: turn_into_tunnel_def)
      show ?thesis unfolding st' sealing_def
        using ok buf inv(2,4-8) new bound cat by (intro conjI exI [of _ ?all]) auto
    next
      case (Some e)
      obtain v where v: "outb (econn tn) = outb (econn (tnSealed st)) @ v"
        "prefix v (owed_prefix (tnSealed st) @ frames_from cr key pre (of_nat (length chs)) (chunks buf))"
        "writeAEAD tn = key" "writePrefix tn = pre"
        using enc_write_loop_partial [OF lp] inv(5,7,8) by auto
      have st': "turn_into_tunnel cr n st = st\<lparr>tnLocal := local, tnSealed := enc_Close tn, tnSealedDone := True\<rparr>"
        using False rd w buf Some by (simp add: turn_into_tunnel_def)
      have "prefix (sealed_bytes cr key pre chs @ v) (sealed_bytes cr key pre ?all)" using v(2) new by simp
      moreover have "prefix (concat ?all) S" using cat by (metis prefixI)
      ultimately show ?thesis unfolding st' sealing_def
        using v inv(2) bound by (intro conjI exI [of _ ?all]) (auto simp: enc_Close_def conn_close_def)
    qed
  qed
qed

lemma sealing_into_local:
  assumes "sealing cr key pre out S st"
  shows "sealing cr key pre out S (turn_into_local cr n st)"
proof (cases "tnLocalDone st")
  case True
  then show ?thesis using assms by (simp add: turn_into_local_def)
next
  case False
  obtain buf er tn where rd: "enc_Read cr (max 1 n) (tnSealed st) = ((buf, er), tn)" by (metis prod.exhaust)
  obtain nw ew local where w: "(if buf = [] then ((0, None), tnLocal st) else conn_write buf (tnLocal st)) = ((nw, ew), local)"
    by (metis prod.exhaust)
  have l: "inb local = inb (tnLocal st)" using w by (auto simp: conn_write_def split: if_splits list.splits prod.splits)
  define go where "go = (ew = None \<and> nw = length buf \<and> er = None)"
  define left where "left = (if go then local else conn_close local)"
  have st': "turn_into_local cr n st = st\<lparr>tnLocal := left, tnSealed := tn, tnLocalDone := \<not> go\<rparr>"
    using False rd w by (simp add: turn_into_local_def go_def left_def)
  have "inb left = inb (tnLocal st)" using l by (simp add: conn_close_def left_def)
  then show ?thesis using assms enc_Read_write_side [OF rd] unfolding st' sealing_def write_side_def
    by (cases "tnSealedDone st") simp_all
qed

text \<open>The half that opens: what it wrote into the local side is the first part of \<open>T\<close>.\<close>

definition unsealing ::
  "('sk, 'pk) crypto \<Rightarrow> data_key \<Rightarrow> byte list \<Rightarrow> byte list \<Rightarrow> byte list \<Rightarrow> tunnel_splice \<Rightarrow> bool" where
  "unsealing cr key pre out T st \<longleftrightarrow>
     (\<exists>d rest. outb (tnLocal st) = out @ d \<and> T = d @ rest \<and>
        (tnLocalDone st \<or> to_come cr key pre (tnSealed st) rest))"

lemma unsealing_into_local:
  assumes "unsealing cr key pre out T st" and "aead_ok cr" and "length pre = noncePrefixSize"
  shows "unsealing cr key pre out T (turn_into_local cr n st)"
proof (cases "tnLocalDone st")
  case True
  then show ?thesis using assms(1) by (simp add: turn_into_local_def)
next
  case False
  obtain d rest where inv: "outb (tnLocal st) = out @ d" "T = d @ rest" "to_come cr key pre (tnSealed st) rest"
    using assms(1) False by (auto simp: unsealing_def)
  obtain buf er tn where rd: "enc_Read cr (max 1 n) (tnSealed st) = ((buf, er), tn)" by (metis prod.exhaust)
  obtain nw ew local where w: "(if buf = [] then ((0, None), tnLocal st) else conn_write buf (tnLocal st)) = ((nw, ew), local)"
    by (metis prod.exhaust)
  obtain j where j: "outb local = outb (tnLocal st) @ take j buf" "ew = None \<and> nw = length buf \<longrightarrow> take j buf = buf"
  proof -
    have "\<exists>j. outb local = outb (tnLocal st) @ take j buf \<and> (ew = None \<and> nw = length buf \<longrightarrow> take j buf = buf)"
      using w by (auto simp: conn_write_def min_def split: if_splits list.splits prod.splits intro: exI [of _ 0] exI [of _ "length buf"])
    then show thesis using that by blast
  qed
  define go where "go = (ew = None \<and> nw = length buf \<and> er = None)"
  have st': "turn_into_local cr n st = st\<lparr>tnLocal := (if go then local else conn_close local), tnSealed := tn,
      tnLocalDone := \<not> go\<rparr>"
    using False rd w by (simp add: turn_into_local_def go_def)
  have out': "outb (if go then local else conn_close local) = out @ d @ take j buf" using j(1) inv(1) by (simp add: conn_close_def)
  note tc = enc_Read_to_come [OF rd inv(3) assms(2,3)]
  show ?thesis
  proof (cases "er = None")
    case True
    then obtain T1 where t1: "rest = buf @ T1" "to_come cr key pre tn T1" using tc by auto
    have "T = (d @ take j buf) @ drop j buf @ T1" using inv(2) t1(1) by simp
    moreover have "\<not> go \<or> to_come cr key pre tn (drop j buf @ T1)"
      using t1(2) j(2) append_take_drop_id [of j buf] by (auto simp: go_def)
    ultimately show ?thesis unfolding st' unsealing_def
      using out' by - (rule exI [of _ "d @ take j buf"], rule exI [of _ "drop j buf @ T1"], simp)
  next
    case False
    then have "buf = []" "\<not> go" using tc by (simp_all add: go_def)
    then show ?thesis unfolding st' unsealing_def
      using out' inv(2) by - (rule exI [of _ d], rule exI [of _ rest], simp)
  qed
qed

lemma unsealing_into_tunnel:
  assumes "unsealing cr key pre out T st"
  shows "unsealing cr key pre out T (turn_into_tunnel cr n st)"
proof (cases "tnSealedDone st")
  case True
  then show ?thesis using assms by (simp add: turn_into_tunnel_def)
next
  case False
  obtain buf er local where rd: "conn_read n (tnLocal st) = ((buf, er), local)" by (metis prod.exhaust)
  obtain nw ew tn where w: "(if buf = [] then ((0, None), tnSealed st) else enc_Write cr buf (tnSealed st)) = ((nw, ew), tn)"
    by (metis prod.exhaust)
  have o: "outb local = outb (tnLocal st)" using rd by (auto simp: conn_read_def Let_def split: if_splits)
  have "read_side (tnSealed st) tn"
    using w enc_Write_read_side [of cr buf "tnSealed st" "(nw, ew)" tn] by (auto simp: read_side_def split: if_splits)
  then have "read_side (tnSealed st) (if go then tn else enc_Close tn)" for go
    by (simp add: read_side_def enc_Close_def conn_close_def)
  note rs = to_come_read_side [OF this]
  have st': "turn_into_tunnel cr n st = st\<lparr>tnLocal := local,
      tnSealed := (if ew = None \<and> nw = length buf \<and> er = None then tn else enc_Close tn),
      tnSealedDone := \<not> (ew = None \<and> nw = length buf \<and> er = None)\<rparr>"
    using False rd w by (simp add: turn_into_tunnel_def Let_def)
  show ?thesis using assms unfolding st' unsealing_def by (simp add: o rs)
qed

lemma tunnel_run_keeps:
  assumes "\<And>n st. P st \<Longrightarrow> P (turn_into_local cr n st)" and "\<And>n st. P st \<Longrightarrow> P (turn_into_tunnel cr n st)"
  shows "P st \<Longrightarrow> P (tunnel_run cr sched st)"
  unfolding tunnel_run_def by (induction sched arbitrary: st) (simp_all add: tunnel_turn_def assms)

lemma sealing_out:
  assumes "sealing cr key pre out S st"
  shows "\<exists>w chs. outb (econn (tnSealed st)) = out @ w \<and> prefix w (sealed_bytes cr key pre chs) \<and>
    (\<forall>ch \<in> set chs. length ch \<le> maxFramePlaintext) \<and> prefix (concat chs) S"
proof (cases "tnSealedDone st")
  case True
  then show ?thesis using assms unfolding sealing_def by auto
next
  case False
  then obtain chs where "\<forall>ch \<in> set chs. length ch \<le> maxFramePlaintext"
    "outb (econn (tnSealed st)) = out @ sealed_bytes cr key pre chs" "S = concat chs @ inb (tnLocal st)"
    using assms unfolding sealing_def by auto
  then show ?thesis
    by (intro exI [of _ "sealed_bytes cr key pre chs"] exI [of _ chs]) simp
qed

section \<open>Properties\<close>

text \<open>
  C4: What comes out of a tunnel went into it. Let one end splice a local connection into its
  tunnel, relay pass on any part of the bytes it has read so far, and the other end splice its
  tunnel into its local connection, all three under any schedule, with writes that fail or stop
  half-way anywhere. Then what the far end has written into its local connection is the
  beginning of what the near end's local connection had to say: nothing is lost in the middle,
  repeated, reordered or invented.
\<close>

theorem tunnel_delivers_prefix:
  assumes "aead_ok cr" and "length pre = noncePrefixSize"
    and "NewEncryptedConn cr (Inr pre) k1 secret role = Inr near"
    and "NewEncryptedConn cr drawn k2 secret (peer_role role) = Inr far"
    and "prefix (inb ra) (drop (length (outb k1)) (outb (econn (tnSealed (tunnel_run cr s1 (tunnel_start local1 near))))))"
    and "SpliceCounted sched ra rb c = (totals, c', ra', rb')"
    and "prefix (inb k2) (drop (length (outb rb)) (outb rb'))"
  shows "\<exists>d. outb (tnLocal (tunnel_run cr s2 (tunnel_start local2 far))) = outb local2 @ d \<and> prefix d (inb local1)"
proof -
  let ?key = "writeAEAD near"
  have n: "econn near = k1" "writePrefix near = pre" "writeSeq near = 0" "\<not> prefixSent near" "writeErr near = None"
    using NewEncryptedConn_Inr [OF assms(3)] by auto
  have f: "econn far = k2" "readErr far = None" "readSeq far = 0" "\<not> prefixSeen far" "plain far = []" "readAEAD far = ?key"
    using NewEncryptedConn_Inr [OF assms(4)] new_keys_cross [OF assms(3,4)] by auto
  have "sealing cr ?key pre (outb k1) (inb local1) (tunnel_start local1 near)"
    unfolding sealing_def by (intro conjI exI [of _ "[]"]) (simp_all add: n tunnel_start_def sealed_bytes_def)
  from tunnel_run_keeps [OF sealing_into_local sealing_into_tunnel this]
  obtain w chs where w: "outb (econn (tnSealed (tunnel_run cr s1 (tunnel_start local1 near)))) = outb k1 @ w"
    "prefix w (sealed_bytes cr ?key pre chs)" "\<forall>ch \<in> set chs. length ch \<le> maxFramePlaintext"
    "prefix (concat chs) (inb local1)"
    using sealing_out by blast
  have "prefix (drop (length (outb rb)) (outb rb')) (inb ra)"
  proof -
    have "rb' = spB (splice_final sched ra rb (Some c))" using assms(6) by (simp add: SpliceCounted_def Let_def)
    then show ?thesis
      using splice_final_inv [of ra rb sched "Some c"] by (simp add: splice_inv_def take_is_prefix)
  qed
  with assms(5,7) w(1,2) have "prefix (inb k2) (sealed_bytes cr ?key pre chs)"
    by (metis append_eq_conv_conj prefix_order.trans)
  then have "to_come cr ?key pre far (concat chs)"
    unfolding to_come_def using f w(3)
    by (intro conjI exI [of _ chs]) (auto simp: sealed_bytes_def split: if_splits)
  then have "unsealing cr ?key pre (outb local2) (concat chs) (tunnel_start local2 far)"
    by (simp add: unsealing_def tunnel_start_def)
  from tunnel_run_keeps [OF unsealing_into_local [OF _ assms(1,2)] unsealing_into_tunnel this]
  obtain d rest where "outb (tnLocal (tunnel_run cr s2 (tunnel_start local2 far))) = outb local2 @ d" "concat chs = d @ rest"
    unfolding unsealing_def by blast
  then show ?thesis using w(4) by (metis prefixI prefix_order.trans)
qed

lemma tunnel_delivers_prefix_witness:
  "\<exists>near far totals c' ra' rb'.
     NewEncryptedConn sample_crypto (Inr (replicate 16 7)) (new_conn []) (replicate 16 1) RoleSubscribe = Inr near \<and>
     SpliceCounted [(False, 9)]
       (new_conn (outb (econn (tnSealed (tunnel_run sample_crypto [(False, 2), (False, 5)]
          (tunnel_start (new_conn [1, 2, 3]) near)))))) (new_conn []) (0, 0) = (totals, c', ra', rb') \<and>
     NewEncryptedConn sample_crypto (Inr (replicate 16 7)) (new_conn (outb rb')) (replicate 16 1) RolePublish = Inr far \<and>
     prefix (outb (tnLocal (tunnel_run sample_crypto [(True, 1), (True, 4)] (tunnel_start (new_conn []) far)))) [1, 2, 3]"
proof -
  obtain near where n: "NewEncryptedConn sample_crypto (Inr (replicate 16 7)) (new_conn []) (replicate 16 1) RoleSubscribe = Inr near"
    using sample_new [of RoleSubscribe "new_conn []"] by auto
  let ?wire = "outb (econn (tnSealed (tunnel_run sample_crypto [(False, 2), (False, 5)] (tunnel_start (new_conn [1, 2, 3]) near))))"
  obtain totals c' ra' rb' where s: "SpliceCounted [(False, 9)] (new_conn ?wire) (new_conn []) (0, 0) = (totals, c', ra', rb')"
    by (metis prod.exhaust)
  obtain far where f: "NewEncryptedConn sample_crypto (Inr (replicate 16 7)) (new_conn (outb rb')) (replicate 16 1) (peer_role RoleSubscribe) = Inr far"
    using sample_new [of "peer_role RoleSubscribe" "new_conn (outb rb')"] by (auto simp: peer_role_def)
  have "\<exists>d. outb (tnLocal (tunnel_run sample_crypto [(True, 1), (True, 4)] (tunnel_start (new_conn []) far))) =
      outb (new_conn []) @ d \<and> prefix d (inb (new_conn [1, 2, 3]))"
    by (rule tunnel_delivers_prefix [where ?s1.0 = "[(False, 2), (False, 5)]", OF _ _ n f _ s]) (simp_all add: new_conn_def go_consts)
  with n s f show ?thesis by (auto simp: new_conn_def peer_role_def)
qed

end
