(* ===== verification/Share.thy ===== *)
theory Share
  imports Peer Tunnel Revocation
begin

text \<open>
  The publisher's side (\<^verbatim>\<open>internal/share/share.go\<close>): what it does with the requests relay
  sends, and how one of them is fulfilled. Goroutines end on their own: which results of \<open>fulfill\<close>
  have come back by the time the next request arrives is part of the state, as \<open>shFreed\<close>.
  What dialing the local service finds is an argument, a function of the address dialed.
\<close>

section \<open>Fulfilling a request\<close>

text \<open>The error, and the tunnel's and the local connection as they are left.\<close>

definition fulfill ::
  "'ip netip \<Rightarrow> ('sk, 'pk) crypto \<Rightarrow> byte list result \<Rightarrow> byte list result \<Rightarrow>
   ('ip, 'tls, 'sk) peer_session \<Rightarrow> 'ip port_range \<Rightarrow> u64 \<Rightarrow> port_index \<Rightarrow> dial_outcome \<Rightarrow>
   (string \<Rightarrow> conn result) \<Rightarrow> (bool \<times> nat) list \<Rightarrow> error option \<times> conn option \<times> conn option" where
  "fulfill np cr rnd pfx ses addr reqID port d dialLocal sched =
     (case range_At addr (uint port) of
        None \<Rightarrow> (Some (Msg (''relay requested port index '' @ show_nat (unat port) @
                    '' outside the shared range'')), None, None)
      | Some local \<Rightarrow>
          (case OpenTunnel np cr rnd pfx ses d
                  \<lparr>aKind = AttachPublisher, aSessionID = replicate SessionIDSize 0, aRequestID = reqID, aPort = port\<rparr> of
             (Inl e, k) \<Rightarrow> (Some (wrap (''open tunnel to '' @ hostPort_String np local) e), k, None)
           | (Inr tunnel, k) \<Rightarrow>
               (case dialLocal (hostPort_String np local) of
                  Inl e \<Rightarrow>
                    (Some (Wrap (''could not reach local service '' @ hostPort_String np local @ '': '') e
                       ''; check that the service is running and the --tcp address is correct''),
                     Some (econn (enc_Close tunnel)), None)
                | Inr localConn \<Rightarrow>
                    (let st = tunnel_run cr sched (tunnel_start localConn tunnel)
                     in (None, Some (econn (enc_Close (tnSealed st))), Some (conn_close (tnLocal st)))))))"

section \<open>Requests from relay\<close>

text \<open>
  What happens to the requests, in order: a goroutine takes a slot and starts, the \<open>default\<close>
  branch refuses one, a goroutine has returned and given its slot back, the callback is called.
\<close>

datatype share_event = Dispatched u64 port_index | Refused u64 port_index | TunnelDone | ShareReported error

text \<open>\<open>shRunning\<close> is the number of values in \<open>slots\<close>; the log says which goroutines there are.\<close>

record share_state =
  shRunning :: nat
  shFreed :: "error option list list"
  shLog :: "share_event list"

definition started :: "share_event list \<Rightarrow> nat" where
  "started log = length (filter (\<lambda>ev. case ev of Dispatched _ _ \<Rightarrow> True | _ \<Rightarrow> False) log)"

definition finished :: "share_event list \<Rightarrow> nat" where
  "finished log = length (filter (\<lambda>ev. ev = TunnelDone) log)"

definition share_limit :: error where
  "share_limit = Msg (''publisher tunnel limit reached ('' @ show_nat MaxTunnels @
     ''); close unused connections and retry'')"

text \<open>\<open>report\<close>: there is an \<open>OnForwardError\<close> and the context is not canceled.\<close>

definition reportForwardError :: "bool \<Rightarrow> error option \<Rightarrow> share_event list" where
  "reportForwardError report err =
     (case err of None \<Rightarrow> [] | Some e \<Rightarrow> if report then [ShareReported e] else [])"

text \<open>Goroutines return, each with what \<open>fulfill\<close> gave it; there are only those that were started.\<close>

fun tunnels_end :: "bool \<Rightarrow> error option list \<Rightarrow> share_state \<Rightarrow> share_state" where
  "tunnels_end report [] s = s"
| "tunnels_end report (err # errs) s =
     (if started (shLog s) \<le> finished (shLog s) then s
      else tunnels_end report errs
             (s\<lparr>shRunning := shRunning s - 1, shLog := shLog s @ reportForwardError report err @ [TunnelDone]\<rparr>))"

definition share_handle :: "bool \<Rightarrow> share_state handler" where
  "share_handle report typ payload s =
     (if typ \<noteq> ControlRequestData then (None, s)
      else case ReadRequestData payload of
             Inl e \<Rightarrow> (None, s)
           | Inr (reqID, port) \<Rightarrow>
               (let s1 = tunnels_end report (case shFreed s of [] \<Rightarrow> [] | errs # _ \<Rightarrow> errs) (s\<lparr>shFreed := tl (shFreed s)\<rparr>)
                in if shRunning s1 < MaxTunnels
                   then (None, s1\<lparr>shRunning := shRunning s1 + 1, shLog := shLog s1 @ [Dispatched reqID port]\<rparr>)
                   else (None, s1\<lparr>shLog := shLog s1 @ Refused reqID port # reportForwardError report (Some share_limit)\<rparr>)))"

section \<open>Run\<close>

record 'ip share_config =
  sfServer :: "'ip hostPort"
  sfCert :: string
  sfKey :: string
  sfCA :: string
  sfMode :: mode
  sfAddr :: "'ip port_range"
  sfSessionKey :: "byte list"
  sfOnReady :: "error option option"
  sfOnForwardError :: bool
  sfOnReconnect :: bool
  sfOnDisconnect :: bool

definition share_serve_config :: "'ip share_config \<Rightarrow> share_state serve_config" where
  "share_serve_config cfg =
     \<lparr>sgMode = sfMode cfg, sgPorts = of_int (range_Len (sfAddr cfg)),
      sgHandle = share_handle (sfOnForwardError cfg), sgWait = False, sgReady = sfOnReady cfg,
      sgOnWaiting = False, sgOnReconnect = sfOnReconnect cfg, sgOnDisconnect = sfOnDisconnect cfg\<rparr>"

definition share_runTCP ::
  "'ip netip \<Rightarrow> ('sk, 'pk) crypto \<Rightarrow> ('ip, 'tls, 'sk) peer_session \<Rightarrow> 'ip share_config \<Rightarrow>
   serve_turn list \<Rightarrow> error option list list \<Rightarrow> error option \<times> share_state \<times> serve_event list" where
  "share_runTCP np cr ses cfg turns freed =
     Serve np cr ses (share_serve_config cfg) turns False 0 \<lparr>shRunning = 0, shFreed = freed, shLog = []\<rparr>"

text \<open>An error before the loop, or what the loop gives.\<close>

definition share_Run ::
  "'ip netip \<Rightarrow> ('sk, 'pk) crypto \<Rightarrow> ('kp, 'pool) tls_env \<Rightarrow> 'ip share_config \<Rightarrow> serve_turn list \<Rightarrow>
   error option list list \<Rightarrow> (error option \<times> share_state \<times> serve_event list) result" where
  "share_Run np cr env cfg turns freed =
     (if range_Len (sfAddr cfg) < 1 then Inl (Msg ''share: no local address to forward'')
      else case SessionKey_Credentials cr (sfSessionKey cfg) of
             Inl e \<Rightarrow> Inl (wrap ''share'' e)
           | Inr creds \<Rightarrow>
               (case LoadConfig env (sfCert cfg) (sfKey cfg) (sfCA cfg) False False of
                  Inl e \<Rightarrow> Inl (wrap ''share'' e)
                | Inr tls \<Rightarrow>
                    (let ses = NewSession (sfServer cfg) tls creds RolePublish
                     in if sfMode cfg = ModeTCP then Inr (share_runTCP np cr ses cfg turns freed)
                        else Inl (Msg (''share: unsupported mode '' @ mode_String (sfMode cfg))))))"

section \<open>Properties\<close>

text \<open>The slots are exactly the goroutines that have not returned, and there are never too many.\<close>

definition share_ok :: "share_state \<Rightarrow> bool" where
  "share_ok s \<longleftrightarrow> started (shLog s) = finished (shLog s) + shRunning s \<and>
     (\<forall>p. prefix p (shLog s) \<longrightarrow> finished p \<le> started p \<and> started p \<le> finished p + MaxTunnels) \<and>
     (\<forall>p rid port. prefix (p @ [Refused rid port]) (shLog s) \<longrightarrow> started p = finished p + MaxTunnels)"

text \<open>The requests in a run of frames, and those a run of events answers.\<close>

definition requests :: "(control_type \<times> byte list) list \<Rightarrow> (u64 \<times> port_index) list" where
  "requests frames = List.map_filter (\<lambda>(ty, payload). if ty = ControlRequestData
     then (case ReadRequestData payload of Inl e \<Rightarrow> None | Inr rp \<Rightarrow> Some rp) else None) frames"

definition answered :: "share_event list \<Rightarrow> (u64 \<times> port_index) list" where
  "answered evs = List.map_filter (\<lambda>ev. case ev of Dispatched rid port \<Rightarrow> Some (rid, port)
     | Refused rid port \<Rightarrow> Some (rid, port) | _ \<Rightarrow> None) evs"

lemma counts_append [simp]:
  "started (a @ b) = started a + started b" "finished (a @ b) = finished a + finished b"
  "answered (a @ b) = answered a @ answered b" "requests (fs @ gs) = requests fs @ requests gs"
  by (simp_all add: started_def finished_def answered_def requests_def map_filter_def)

lemma counts_simps [simp]:
  "started [] = 0" "finished [] = 0" "answered [] = []" "requests [] = []"
  "started (ev # evs) = (case ev of Dispatched _ _ \<Rightarrow> 1 | _ \<Rightarrow> 0) + started evs"
  "finished (ev # evs) = (if ev = TunnelDone then 1 else 0) + finished evs"
  "answered (ev # evs) = (case ev of Dispatched rid port \<Rightarrow> [(rid, port)] | Refused rid port \<Rightarrow> [(rid, port)] | _ \<Rightarrow> []) @ answered evs"
  by (simp_all add: started_def finished_def answered_def requests_def map_filter_def split: share_event.split)

lemma reports_count [simp]:
  "started (reportForwardError report e) = 0" "finished (reportForwardError report e) = 0"
  "answered (reportForwardError report e) = []"
  by (simp_all add: reportForwardError_def split: option.split)

text \<open>Reports do not count.\<close>

lemma share_ok_reports: "share_ok (s\<lparr>shLog := log @ reportForwardError report e\<rparr>) \<longleftrightarrow> share_ok (s\<lparr>shLog := log\<rparr>)"
  by (auto simp: share_ok_def reportForwardError_def split: option.split)

lemma share_ok_done:
  "share_ok s \<Longrightarrow> finished (shLog s) < started (shLog s) \<Longrightarrow>
   share_ok (s\<lparr>shRunning := shRunning s - 1, shLog := shLog s @ [TunnelDone]\<rparr>)"
  by (auto simp: share_ok_def)

lemma share_ok_dispatched:
  "share_ok s \<Longrightarrow> shRunning s < MaxTunnels \<Longrightarrow>
   share_ok (s\<lparr>shRunning := shRunning s + 1, shLog := shLog s @ [Dispatched rid port]\<rparr>)"
  by (auto simp: share_ok_def)

lemma share_ok_refused:
  "share_ok s \<Longrightarrow> \<not> shRunning s < MaxTunnels \<Longrightarrow> share_ok (s\<lparr>shLog := shLog s @ [Refused rid port]\<rparr>)"
proof -
  assume ok: "share_ok s" and full: "\<not> shRunning s < MaxTunnels"
  then have "started (shLog s) \<le> finished (shLog s) + MaxTunnels" unfolding share_ok_def by blast
  moreover have "started (shLog s) = finished (shLog s) + shRunning s" using ok by (simp add: share_ok_def)
  ultimately have "started (shLog s) = finished (shLog s) + MaxTunnels" using full by linarith
  with ok show ?thesis by (auto simp: share_ok_def)
qed

lemma tunnels_end_ok:
  "share_ok s \<Longrightarrow> share_ok (tunnels_end report errs s) \<and>
   (\<exists>ev. shLog (tunnels_end report errs s) = shLog s @ ev \<and> answered ev = [])"
proof (induction report errs s rule: tunnels_end.induct)
  case (2 report err errs s)
  show ?case
  proof (cases "started (shLog s) \<le> finished (shLog s)")
    case False
    let ?s = "s\<lparr>shRunning := shRunning s - 1, shLog := shLog s @ reportForwardError report err @ [TunnelDone]\<rparr>"
    have "share_ok (s\<lparr>shLog := shLog s @ reportForwardError report err\<rparr>)" using "2.prems" by (simp add: share_ok_reports)
    from share_ok_done [OF this] False have "share_ok ?s" by simp
    from "2.IH" [OF False this] obtain ev where
      "share_ok (tunnels_end report errs ?s)" "shLog (tunnels_end report errs ?s) = shLog ?s @ ev" "answered ev = []" by blast
    with False show ?thesis by (intro conjI exI [of _ "reportForwardError report err @ [TunnelDone] @ ev"]) simp_all
  qed (use "2.prems" in simp)
qed simp

lemma share_handle_step:
  fixes report :: bool and ty :: control_type and payload :: "byte list"
  assumes "share_ok s"
  defines "s' \<equiv> snd (share_handle report ty payload s)"
  shows "share_ok s' \<and> (\<exists>ev. shLog s' = shLog s @ ev \<and> answered ev = requests [(ty, payload)])"
proof (cases "ty = ControlRequestData \<and> (\<exists>rp. ReadRequestData payload = Inr rp)")
  case True
  then obtain rid port where rp: "ty = ControlRequestData" "ReadRequestData payload = Inr (rid, port)" by (metis prod.exhaust)
  define s1 where "s1 = tunnels_end report (case shFreed s of [] \<Rightarrow> [] | errs # _ \<Rightarrow> errs) (s\<lparr>shFreed := tl (shFreed s)\<rparr>)"
  have "share_ok (s\<lparr>shFreed := tl (shFreed s)\<rparr>)" using assms(1) by (simp add: share_ok_def)
  from tunnels_end_ok [OF this] obtain ev where s1: "share_ok s1" "shLog s1 = shLog s @ ev" "answered ev = []"
    unfolding s1_def by simp blast
  have req: "requests [(ty, payload)] = [(rid, port)]" using rp by (simp add: requests_def map_filter_def)
  show ?thesis
  proof (cases "shRunning s1 < MaxTunnels")
    case less: True
    then have s': "s' = s1\<lparr>shRunning := shRunning s1 + 1, shLog := shLog s1 @ [Dispatched rid port]\<rparr>"
      using rp by (simp add: s'_def share_handle_def Let_def s1_def)
    then have "share_ok s'" using share_ok_dispatched [OF s1(1) less] by simp
    then show ?thesis using s' s1(2,3) req by (intro conjI exI [of _ "ev @ [Dispatched rid port]"]) simp_all
  next
    case False
    then have s': "s' = s1\<lparr>shLog := (shLog s1 @ [Refused rid port]) @ reportForwardError report (Some share_limit)\<rparr>"
      using rp by (simp add: s'_def share_handle_def Let_def s1_def)
    have "share_ok (s1\<lparr>shLog := shLog s1 @ [Refused rid port]\<rparr>)" by (rule share_ok_refused [OF s1(1) False])
    then have "share_ok s'" unfolding s' by (simp only: share_ok_reports)
    then show ?thesis using s' s1(2,3) req
      by (intro conjI exI [of _ "ev @ Refused rid port # reportForwardError report (Some share_limit)"]) simp_all
  qed
next
  case False
  then have "s' = s" "requests [(ty, payload)] = []"
    by (auto simp: s'_def share_handle_def requests_def map_filter_def split: sum.splits)
  then show ?thesis using assms(1) by simp
qed

lemma share_handle_None [simp]: "fst (share_handle report ty payload s) = None"
  by (simp add: share_handle_def Let_def split: sum.split)

interpretation share_handler: control_handler "share_handle report" share_ok for report
  by unfold_locales (use share_handle_step in \<open>metis snd_conv\<close>)

text \<open>The bound holds over a whole share, every reconnect included.\<close>

lemma share_ok_start [simp]: "share_ok \<lparr>shRunning = 0, shFreed = freed, shLog = []\<rparr>"
  by (simp add: share_ok_def)

lemma share_runTCP_bounded: "share_runTCP np cr ses cfg turns freed = (r, st, evs) \<Longrightarrow> share_ok st"
  using share_handler.Serve_good [of "share_serve_config cfg" "sfOnForwardError cfg" np cr ses turns False 0
      "\<lparr>shRunning = 0, shFreed = freed, shLog = []\<rparr>" r st evs]
  by (simp add: share_runTCP_def share_serve_config_def)

lemma share_Run_bounded: "share_Run np cr env cfg turns freed = Inr (r, st, evs) \<Longrightarrow> share_ok st"
  by (auto simp: share_Run_def Let_def dest: share_runTCP_bounded split: if_split_asm sum.split_asm)

lemma share_frames:
  fixes report :: bool and frames :: "(control_type \<times> byte list) list"
  assumes "share_ok s"
  defines "s' \<equiv> fold (\<lambda>(ty, payload) s. snd (share_handle report ty payload s)) frames s"
  shows "share_ok s' \<and> (\<exists>ev. shLog s' = shLog s @ ev \<and> answered ev = requests frames)"
  using assms(1) unfolding s'_def
proof (induction frames arbitrary: s)
  case (Cons f frames)
  obtain ty payload where f: "f = (ty, payload)" by (cases f)
  let ?s1 = "snd (share_handle report ty payload s)"
  obtain ev where s1: "share_ok ?s1" "shLog ?s1 = shLog s @ ev" "answered ev = requests [f]"
    using share_handle_step [OF Cons.prems] f by blast
  obtain ev' where "shLog (fold (\<lambda>(ty, payload) s. snd (share_handle report ty payload s)) frames ?s1) = shLog ?s1 @ ev'"
    "answered ev' = requests frames" using Cons.IH [OF s1(1)] by blast
  then show ?case
    using Cons.IH [OF s1(1)] s1(2,3) f counts_append(4) [of "[f]" frames] by (intro conjI exI [of _ "ev @ ev'"]) simp_all
qed simp

text \<open>
  C25: A publisher keeps its tunnels bounded and its session up. Whatever relay sends, the control
  loop is ended only by the context or by a read that fails, never by the handler. Of the frames
  read until then, exactly the well-formed requests are answered, one by one and in order: each is
  given a tunnel or refused. At no moment have more than 256 tunnels been started that have not
  ended, and a request is refused only at a moment when just 256 are running.
\<close>

theorem share_bounded_and_patient:
  fixes c :: "'a conn_scheme"
  assumes "RunControlLoop ctx (share_handle report) i c s = (e, c', s')" and "share_ok s"
  shows "(\<forall>p. prefix p (shLog s') \<longrightarrow> finished p \<le> started p \<and> started p \<le> finished p + 256) \<and>
    (\<forall>p rid port. prefix (p @ [Refused rid port]) (shLog s') \<longrightarrow> started p = finished p + 256) \<and>
    (\<exists>frames (c1 :: 'a conn_scheme) ev. inb c = encode_frames frames @ inb c1 \<and> shut c1 = shut c \<and> inerr c1 = inerr c \<and>
      (\<forall>j < length frames. ctx (i + j) = None) \<and>
      (ctx (i + length frames) = Some e \<and> c' = c1 \<or>
       ctx (i + length frames) = None \<and> (\<exists>e'. ReadControlFrame c1 = (Inl e', c') \<and>
         e = (case ctx (i + length frames + 1) of Some ce \<Rightarrow> ce | None \<Rightarrow> wrap ''read control frame'' e'))) \<and>
      shLog s' = shLog s @ ev \<and> answered ev = requests frames)"
proof -
  obtain frames and c1 :: "'a conn_scheme" where read: "inb c = encode_frames frames @ inb c1" "shut c1 = shut c" "inerr c1 = inerr c"
    "\<forall>j < length frames. ctx (i + j) = None"
    "ctx (i + length frames) = Some e \<and> c' = c1 \<or>
     ctx (i + length frames) = None \<and> (\<exists>e'. ReadControlFrame c1 = (Inl e', c') \<and>
       e = (case ctx (i + length frames + 1) of Some ce \<Rightarrow> ce | None \<Rightarrow> wrap ''read control frame'' e'))"
    "s' = fold (\<lambda>(ty, payload) s. snd (share_handle report ty payload s)) frames s"
    using RunControlLoop_frames [OF share_handle_None assms(1)] by blast
  obtain ev where ev: "share_ok s'" "shLog s' = shLog s @ ev" "answered ev = requests frames"
    using share_frames [OF assms(2)] read(6) by blast
  have "MaxTunnels = 256" by (rule MaxTunnels_def)
  with ev(1) have "\<forall>p. prefix p (shLog s') \<longrightarrow> finished p \<le> started p \<and> started p \<le> finished p + 256"
    "\<forall>p rid port. prefix (p @ [Refused rid port]) (shLog s') \<longrightarrow> started p = finished p + 256"
    unfolding share_ok_def by simp_all
  with read(1-5) ev(2,3) show ?thesis by blast
qed

text \<open>A request that comes in while one goroutine runs and another ends.\<close>

lemma share_bounded_and_patient_witness:
  "\<exists>e c' s'. RunControlLoop (\<lambda>_. None) (share_handle True) 0
      (new_conn (encodeControl ControlRequestData (encodeRequestData (7, 2))))
      \<lparr>shRunning = 1, shFreed = [[Some (Fault 1)]], shLog = [Dispatched 6 0]\<rparr> = (e, c', s') \<and>
    (\<forall>p. prefix p (shLog s') \<longrightarrow> started p \<le> finished p + 256)"
proof -
  let ?s = "\<lparr>shRunning = 1, shFreed = [[Some (Fault 1)]], shLog = [Dispatched 6 0]\<rparr>"
  obtain e c' s' where r: "RunControlLoop (\<lambda>_. None) (share_handle True) 0
      (new_conn (encodeControl ControlRequestData (encodeRequestData (7, 2)))) ?s = (e, c', s')" by (metis prod.exhaust)
  have ok: "share_ok ?s" by (auto simp: share_ok_def prefix_Cons MaxTunnels_def)
  from share_bounded_and_patient [OF r ok] r show ?thesis by blast
qed

text \<open>Whatever was opened is closed, and nothing local is dialed before there is a tunnel.\<close>

lemma fulfill_closes:
  assumes "fulfill np cr rnd pfx ses addr reqID port d dialLocal sched = (err, tunnel, local)"
  shows "(local \<noteq> None \<longrightarrow> tunnel \<noteq> None) \<and> (err = None \<longrightarrow> local \<noteq> None) \<and>
    (\<forall>c. tunnel = Some c \<or> local = Some c \<longrightarrow> shut c)"
proof -
  let ?a = "\<lparr>aKind = AttachPublisher, aSessionID = replicate SessionIDSize 0, aRequestID = reqID, aPort = port\<rparr>"
  have closed: "\<forall>c. tunnel = Some c \<or> local = Some c \<longrightarrow> shut c"
  proof (cases "range_At addr (uint port)")
    case (Some h)
    obtain r k where o: "OpenTunnel np cr rnd pfx ses d ?a = (r, k)" by (cases "OpenTunnel np cr rnd pfx ses d ?a")
    show ?thesis
    proof (cases r)
      case (Inl e)
      then show ?thesis
        using assms Some o OpenTunnel_Inl [of np cr rnd pfx ses d ?a e k] by (auto simp: fulfill_def)
    next
      case (Inr tn)
      then show ?thesis
        using assms Some o by (auto simp: fulfill_def Let_def enc_Close_def conn_close_def split: sum.splits)
    qed
  qed (use assms in \<open>auto simp: fulfill_def\<close>)
  have order: "(local \<noteq> None \<longrightarrow> tunnel \<noteq> None) \<and> (err = None \<longrightarrow> local \<noteq> None)"
    using assms by (auto simp: fulfill_def Let_def split: option.splits sum.splits prod.splits)
  show ?thesis using closed order by blast
qed

text \<open>
  C24: A publisher reaches only what it shares. Relay names a port by its index. An index past
  the range is refused with nothing opened, whatever relay or the service would answer. For one
  inside it the only address dialed is the range's host with the port that index means, and a
  tunnel comes first. Whatever the outcome, every connection that was opened is closed.
\<close>

theorem share_serves_only_its_range:
  assumes "ParseRange np text = Inr addr"
    and "fulfill np cr rnd pfx ses addr reqID port d dialLocal sched = (err, tunnel, local)"
  shows "(uint port \<ge> range_Len addr \<longrightarrow> err \<noteq> None \<and> tunnel = None \<and> local = None) \<and>
    (uint port < range_Len addr \<longrightarrow> (\<exists>h. hpKind h = hpKind (rgBase addr) \<and> hpIP h = hpIP (rgBase addr) \<and>
       hpName h = hpName (rgBase addr) \<and> unat (hpPort h) = unat (hpPort (rgBase addr)) + unat port \<and>
       (\<forall>dialLocal'. dialLocal' (hostPort_String np h) = dialLocal (hostPort_String np h) \<longrightarrow>
          fulfill np cr rnd pfx ses addr reqID port d dialLocal' sched = (err, tunnel, local)))) \<and>
    (local \<noteq> None \<longrightarrow> tunnel \<noteq> None) \<and> (err = None \<longrightarrow> local \<noteq> None) \<and>
    (\<forall>c. tunnel = Some c \<or> local = Some c \<longrightarrow> shut c)"
proof -
  note at = ParseRange_At [OF assms(1)]
  have small: "0 \<le> uint port" by simp
  have inside: "\<exists>h. range_At addr (uint port) = Some h \<and> hpKind h = hpKind (rgBase addr) \<and> hpIP h = hpIP (rgBase addr) \<and>
      hpName h = hpName (rgBase addr) \<and> unat (hpPort h) = unat (hpPort (rgBase addr)) + unat port"
    if "uint port < range_Len addr"
    using at [of "uint port"] that by (auto simp: uint_nat simp del: of_nat_unat)
  have outside: "range_At addr (uint port) = None" if "uint port \<ge> range_Len addr"
    using that by (simp add: range_At_def range_Len_def)
  have past: "err \<noteq> None \<and> tunnel = None \<and> local = None" if "uint port \<ge> range_Len addr"
    using outside [OF that] assms(2) by (auto simp: fulfill_def)
  have dials: "\<exists>h. hpKind h = hpKind (rgBase addr) \<and> hpIP h = hpIP (rgBase addr) \<and>
       hpName h = hpName (rgBase addr) \<and> unat (hpPort h) = unat (hpPort (rgBase addr)) + unat port \<and>
       (\<forall>dialLocal'. dialLocal' (hostPort_String np h) = dialLocal (hostPort_String np h) \<longrightarrow>
          fulfill np cr rnd pfx ses addr reqID port d dialLocal' sched = (err, tunnel, local))"
    if lt: "uint port < range_Len addr"
  proof -
    obtain h where h: "range_At addr (uint port) = Some h" "hpKind h = hpKind (rgBase addr)" "hpIP h = hpIP (rgBase addr)"
      "hpName h = hpName (rgBase addr)" "unat (hpPort h) = unat (hpPort (rgBase addr)) + unat port"
      using inside [OF lt] by blast
    have "fulfill np cr rnd pfx ses addr reqID port d dialLocal' sched = (err, tunnel, local)"
      if "dialLocal' (hostPort_String np h) = dialLocal (hostPort_String np h)" for dialLocal'
      using assms(2) h(1) that by (auto simp: fulfill_def split: sum.splits prod.splits)
    with h show ?thesis by blast
  qed
  show ?thesis using past dials fulfill_closes [OF assms(2)] by blast
qed

lemma share_serves_only_its_range_witness:
  "\<exists>err. fulfill sample_netip sample_crypto (Inr []) (Inr [])
      (NewSession (peRelay sample_peer) () sample_creds RolePublish)
      \<lparr>rgBase = \<lparr>hpKind = KindIP, hpIP = Some ''::1'', hpName = [], hpPort = 8000\<rparr>, rgCount = 11\<rparr> 7 11
      (DialErr (Fault 1)) (\<lambda>_. Inl (Fault 2)) [] = (err, None, None) \<and> err \<noteq> None"
proof -
  obtain err t l where r: "fulfill sample_netip sample_crypto (Inr []) (Inr [])
      (NewSession (peRelay sample_peer) () sample_creds RolePublish)
      \<lparr>rgBase = \<lparr>hpKind = KindIP, hpIP = Some ''::1'', hpName = [], hpPort = 8000\<rparr>, rgCount = 11\<rparr> 7 11
      (DialErr (Fault 1)) (\<lambda>_. Inl (Fault 2)) [] = (err, t, l)" by (metis prod.exhaust)
  from share_serves_only_its_range [OF sample_range r] r show ?thesis by (simp add: range_Len_def)
qed

end
