(* ===== verification/Listen.thy ===== *)
theory Listen
  imports Peer Tunnel Revocation
begin

text \<open>
  The subscriber's side (\<^verbatim>\<open>internal/listen/listen.go\<close>): binding the local ports, accepting
  local connections, forwarding each through a tunnel of its own. The accept loops of all
  ports share the slots and the ready flag; a run of them is a list of events, each the next
  thing that happens to any of them. What binding an address gives, a listener or an error, is
  an argument.
\<close>

section \<open>Binding the ports\<close>

type_synonym listener = nat

definition zero_hostPort :: "'ip hostPort" where
  "zero_hostPort = \<lparr>hpKind = KindIP, hpIP = None, hpName = [], hpPort = 0\<rparr>"

text \<open>The result, and the listeners that were closed again.\<close>

fun bind_ports ::
  "'ip netip \<Rightarrow> (string \<Rightarrow> listener result) \<Rightarrow> 'ip port_range \<Rightarrow> nat list \<Rightarrow> listener list \<Rightarrow>
   listener list result \<times> listener list" where
  "bind_ports np bind addr [] listeners = (Inr listeners, [])"
| "bind_ports np bind addr (i # is) listeners =
     (let port = (case range_At addr (int i) of None \<Rightarrow> zero_hostPort | Some h \<Rightarrow> h)
      in case bind (hostPort_String np port) of
           Inl e \<Rightarrow> (Inl (wrap (''listen on '' @ hostPort_String np port) e), listeners)
         | Inr ln \<Rightarrow> bind_ports np bind addr is (listeners @ [ln]))"

definition bindRange ::
  "'ip netip \<Rightarrow> (string \<Rightarrow> listener result) \<Rightarrow> 'ip port_range \<Rightarrow> listener list result \<times> listener list" where
  "bindRange np bind addr = bind_ports np bind addr [0..<nat (range_Len addr)] []"

section \<open>Forwarding\<close>

definition forward ::
  "'ip netip \<Rightarrow> ('sk, 'pk) crypto \<Rightarrow> byte list result \<Rightarrow> byte list result \<Rightarrow>
   ('ip, 'tls, 'sk) peer_session \<Rightarrow> string \<Rightarrow> conn \<Rightarrow> port_index \<Rightarrow> dial_outcome \<Rightarrow> (bool \<times> nat) list \<Rightarrow>
   error option \<times> conn \<times> conn option" where
  "forward np cr rnd pfx ses localAddr local port d sched =
     (case OpenTunnel np cr rnd pfx ses d
             \<lparr>aKind = AttachSubscriber, aSessionID = replicate SessionIDSize 0, aRequestID = 0, aPort = port\<rparr> of
        (Inl e, k) \<Rightarrow>
          (Some (Wrap (''open tunnel for '' @ localAddr @ '': '') e ''; check the share and relay status''),
           conn_close local, k)
      | (Inr tunnel, k) \<Rightarrow>
          (let st = tunnel_run cr sched (tunnel_start local tunnel)
           in (None, conn_close (tnLocal st), Some (econn (enc_Close (tnSealed st))))))"

section \<open>The accept loops\<close>

text \<open>
  What happens next to any of the loops: a connection arrives on a port, the \<open>Accept\<close> of a port
  fails, a goroutine returns with what \<open>forward\<close> gave it, the ready flag changes, the context ends.
\<close>

datatype listen_event =
    Arrives port_index conn
  | TunnelEnds "error option"
  | ReadyIs bool
  | Cancels error
  | AcceptFails port_index error

text \<open>What became of it: a goroutine has taken a slot, a connection was closed, and why, a goroutine has given its slot back.\<close>

datatype listen_outcome = Forwarding port_index conn | TurnedAway error conn | ForwardingDone | ListenReport error

text \<open>
  \<open>liRunning\<close> is the number of values in \<open>slots\<close>; \<open>liFailed\<close> what the loops that have returned have
  put into \<open>acceptErr\<close>, each with the context's error at that time.
\<close>

record listen_state =
  liRunning :: nat
  liReady :: bool
  liCtx :: "error option"
  liFailed :: "(port_index \<times> error option \<times> error) list"
  liLog :: "listen_outcome list"

definition listen_start :: listen_state where
  "listen_start = \<lparr>liRunning = 0, liReady = False, liCtx = None, liFailed = [], liLog = []\<rparr>"

definition not_ready :: "string \<Rightarrow> error" where
  "not_ready lnAddr = Msg (''cannot forward connection on '' @ lnAddr @
     '': tunnel is not ready; wait for the ready message and retry'')"

definition listen_limit :: error where
  "listen_limit = Msg (''listener tunnel limit reached ('' @ show_nat MaxTunnels @
     ''); close unused connections and retry'')"

definition listen_report :: "bool \<Rightarrow> error option \<Rightarrow> listen_state \<Rightarrow> listen_outcome list" where
  "listen_report report err st =
     (case err of None \<Rightarrow> [] | Some e \<Rightarrow> if report \<and> liCtx st = None then [ListenReport e] else [])"

definition turn_away :: "bool \<Rightarrow> error \<Rightarrow> conn \<Rightarrow> listen_state \<Rightarrow> listen_state" where
  "turn_away report err local st =
     st\<lparr>liLog := liLog st @ TurnedAway err (conn_close local) # listen_report report (Some err) st\<rparr>"

text \<open>One turn of the loop of a port, from its \<open>Accept\<close> on.\<close>

definition accept_turn :: "bool \<Rightarrow> (port_index \<Rightarrow> string) \<Rightarrow> port_index \<Rightarrow> conn \<Rightarrow> listen_state \<Rightarrow> listen_state" where
  "accept_turn report lnAddr port local st =
     (if \<not> liReady st then turn_away report (not_ready (lnAddr port)) local st
      else if liRunning st < MaxTunnels
      then st\<lparr>liRunning := liRunning st + 1, liLog := liLog st @ [Forwarding port local]\<rparr>
      else turn_away report listen_limit local st)"

definition accepted :: "listen_outcome list \<Rightarrow> nat" where
  "accepted log = length (filter (\<lambda>x. case x of Forwarding _ _ \<Rightarrow> True | _ \<Rightarrow> False) log)"

definition released :: "listen_outcome list \<Rightarrow> nat" where
  "released log = length (filter (\<lambda>x. x = ForwardingDone) log)"

text \<open>A goroutine returns, if there is one.\<close>

definition forward_ends :: "bool \<Rightarrow> error option \<Rightarrow> listen_state \<Rightarrow> listen_state" where
  "forward_ends report err st =
     (if accepted (liLog st) \<le> released (liLog st) then st
      else st\<lparr>liRunning := liRunning st - 1, liLog := liLog st @ listen_report report err st @ [ForwardingDone]\<rparr>)"

text \<open>A port whose loop has returned accepts nothing any more; the other loops go on.\<close>

definition listen_turn :: "bool \<Rightarrow> (port_index \<Rightarrow> string) \<Rightarrow> listen_event \<Rightarrow> listen_state \<Rightarrow> listen_state" where
  "listen_turn report lnAddr ev st =
     (case ev of
        Arrives port local \<Rightarrow>
          if port \<in> fst ` set (liFailed st) then st else accept_turn report lnAddr port local st
      | AcceptFails port e \<Rightarrow>
          if port \<in> fst ` set (liFailed st) then st else st\<lparr>liFailed := liFailed st @ [(port, liCtx st, e)]\<rparr>
      | TunnelEnds err \<Rightarrow> forward_ends report err st
      | ReadyIs b \<Rightarrow> st\<lparr>liReady := b\<rparr>
      | Cancels e \<Rightarrow> st\<lparr>liCtx := Some e\<rparr>)"

definition acceptLoop ::
  "bool \<Rightarrow> (port_index \<Rightarrow> string) \<Rightarrow> listen_event list \<Rightarrow> listen_state \<Rightarrow> listen_state" where
  "acceptLoop report lnAddr evs st = fold (listen_turn report lnAddr) evs st"

section \<open>The session\<close>

definition sessionClosedErr :: "byte list \<Rightarrow> error" where
  "sessionClosedErr payload =
     (case ReadSessionClosed payload of
        Inl e \<Rightarrow> Wrap [] (Sentinel ErrSessionClosed) '': reason unknown''
      | Inr reason \<Rightarrow> Wrap [] (Sentinel ErrSessionClosed) ('': '' @ reason_String reason))"

definition listen_handle :: "unit handler" where
  "listen_handle typ payload s =
     (if typ = ControlSessionClosed then (Some (sessionClosedErr payload), s) else (None, s))"

record 'ip listen_config =
  lfServer :: "'ip hostPort"
  lfCert :: string
  lfKey :: string
  lfCA :: string
  lfMode :: mode
  lfAddr :: "'ip port_range"
  lfToken :: "byte list"
  lfWait :: bool
  lfOnReady :: "error option option"
  lfOnWaiting :: bool
  lfOnForwardError :: bool
  lfOnReconnect :: bool
  lfOnDisconnect :: bool

text \<open>\<open>runTCP\<close>'s own callbacks are always set; they pass on to the configured ones.\<close>

definition listen_serve_config :: "'ip listen_config \<Rightarrow> unit serve_config" where
  "listen_serve_config cfg =
     \<lparr>sgMode = lfMode cfg, sgPorts = of_int (range_Len (lfAddr cfg)), sgHandle = listen_handle,
      sgWait = lfWait cfg,
      sgReady = Some (case lfOnReady cfg of None \<Rightarrow> None | Some r \<Rightarrow> r),
      sgOnWaiting = lfOnWaiting cfg, sgOnReconnect = True, sgOnDisconnect = True\<rparr>"

text \<open>The ready flag as the callbacks set it, event by event.\<close>

fun ready_after :: "serve_event list \<Rightarrow> bool \<Rightarrow> bool" where
  "ready_after [] b = b"
| "ready_after (Ready # evs) b = ready_after evs True"
| "ready_after (Reconnected # evs) b = ready_after evs True"
| "ready_after (Disconnected e d # evs) b = ready_after evs False"
| "ready_after (Waiting e d # evs) b = ready_after evs b"

definition ShutdownErr :: "error option \<Rightarrow> error option \<Rightarrow> error \<Rightarrow> string \<Rightarrow> error" where
  "ShutdownErr serveErr ctx err op =
     (case serveErr of
        Some sErr \<Rightarrow> sErr
      | None \<Rightarrow> (case ctx of Some ce \<Rightarrow> ce | None \<Rightarrow> wrap op err))"

text \<open>
  \<open>served\<close> is what \<open>Serve\<close> has put into its channel by the time an accept loop ends, if it
  has ended, and \<open>evs\<close> what happens to the loops. \<open>None\<close>: they are still running.
\<close>

definition listen_runTCP ::
  "'ip netip \<Rightarrow> (string \<Rightarrow> listener result) \<Rightarrow> (port_index \<Rightarrow> string) \<Rightarrow> error option \<Rightarrow>
   'ip listen_config \<Rightarrow> listen_event list \<Rightarrow> error option \<times> listen_state \<times> listener list" where
  "listen_runTCP np bind lnAddr served cfg evs =
     (case bindRange np bind (lfAddr cfg) of
        (Inl e, closed) \<Rightarrow> (Some e, listen_start, closed)
      | (Inr listeners, _) \<Rightarrow>
          (let st = acceptLoop (lfOnForwardError cfg) lnAddr evs listen_start
           in case liFailed st of
                [] \<Rightarrow> (None, st, [])
              | (port, ctx, err) # _ \<Rightarrow> (Some (ShutdownErr served ctx err ''accept''), st, listeners)))"

definition listen_Run ::
  "'ip netip \<Rightarrow> ('sk, 'pk) crypto \<Rightarrow> ('kp, 'pool) tls_env \<Rightarrow> (string \<Rightarrow> listener result) \<Rightarrow>
   (port_index \<Rightarrow> string) \<Rightarrow> 'ip listen_config \<Rightarrow> serve_turn list \<Rightarrow> listen_event list \<Rightarrow>
   (error option \<times> listen_state \<times> listener list) result" where
  "listen_Run np cr env bind lnAddr cfg turns evs =
     (if range_Len (lfAddr cfg) < 1 then Inl (Msg ''listen: no local address to bind'')
      else case LoadConfig env (lfCert cfg) (lfKey cfg) (lfCA cfg) False False of
             Inl e \<Rightarrow> Inl (wrap ''listen'' e)
           | Inr tls \<Rightarrow>
               (let ses = NewSession (lfServer cfg) tls (SubscriberToken_Credentials (lfToken cfg)) RoleSubscribe
                in if lfMode cfg = ModeTCP
                   then Inr (listen_runTCP np bind lnAddr
                          (fst (Serve np cr ses (listen_serve_config cfg) turns False 0 ())) cfg evs)
                   else Inl (Msg (''listen: unsupported mode '' @ mode_String (lfMode cfg)))))"

section \<open>Properties\<close>

lemma bind_ports_spec:
  "bind_ports np bind addr is ls = (r, closed) \<Longrightarrow>
   (\<forall>out. r = Inr out \<longrightarrow> closed = [] \<and>
      out = ls @ drop (length ls) out \<and> length out = length ls + length is \<and>
      (\<forall>j < length is. bind (hostPort_String np (case range_At addr (int (is ! j)) of None \<Rightarrow> zero_hostPort | Some h \<Rightarrow> h)) =
         Inr (out ! (length ls + j)))) \<and>
   (\<forall>e. r = Inl e \<longrightarrow> (\<exists>j < length is. closed = ls @ drop (length ls) closed \<and> length closed = length ls + j \<and>
      (\<forall>k < j. bind (hostPort_String np (case range_At addr (int (is ! k)) of None \<Rightarrow> zero_hostPort | Some h \<Rightarrow> h)) =
         Inr (closed ! (length ls + k))) \<and>
      (\<exists>e'. bind (hostPort_String np (case range_At addr (int (is ! j)) of None \<Rightarrow> zero_hostPort | Some h \<Rightarrow> h)) = Inl e' \<and>
        e = wrap (''listen on '' @ hostPort_String np (case range_At addr (int (is ! j)) of None \<Rightarrow> zero_hostPort | Some h \<Rightarrow> h)) e')))"
proof (induction "is" arbitrary: ls r closed)
  case (Cons i js)
  let ?h = "\<lambda>i. hostPort_String np (case range_At addr (int i) of None \<Rightarrow> zero_hostPort | Some h \<Rightarrow> h)"
  let ?b = "\<lambda>i. bind (?h i)"
  show ?case
  proof (cases "?b i")
    case (Inl e)
    then have "r = Inl (wrap (''listen on '' @ ?h i) e)" "closed = ls" using Cons.prems by (auto simp: Let_def)
    then show ?thesis using Inl by (auto intro!: exI [of _ 0])
  next
    case (Inr ln)
    then have "bind_ports np bind addr js (ls @ [ln]) = (r, closed)" using Cons.prems by (simp add: Let_def)
    note ih = Cons.IH [OF this]
    show ?thesis
    proof (cases r)
      case (Inl e)
      then obtain j where j: "j < length js" "closed = (ls @ [ln]) @ drop (length (ls @ [ln])) closed"
        "length closed = length (ls @ [ln]) + j"
        "\<forall>k < j. ?b (js ! k) = Inr (closed ! (length (ls @ [ln]) + k))"
        "\<exists>e'. ?b (js ! j) = Inl e' \<and> e = wrap (''listen on '' @ ?h (js ! j)) e'"
        using ih by blast
      have "closed ! length ls = ln" by (subst j(2)) (simp add: nth_append)
      then have "?b ((i # js) ! k) = Inr (closed ! (length ls + k))" if "k < Suc j" for k
        using that Inr j(4) by (cases k) simp_all
      moreover have "closed = ls @ drop (length ls) closed"
        using arg_cong [OF j(2), of "take (length ls)"] append_take_drop_id [of "length ls" closed] by simp
      ultimately show ?thesis using Inl j(1,3,5) by (auto intro!: exI [of _ "Suc j"])
    next
      case (Inr out)
      then have o: "closed = []" "out = (ls @ [ln]) @ drop (length (ls @ [ln])) out"
        "length out = length (ls @ [ln]) + length js"
        "\<forall>j < length js. ?b (js ! j) = Inr (out ! (length (ls @ [ln]) + j))"
        using ih by blast+
      have "out ! length ls = ln" by (subst o(2)) (simp add: nth_append)
      then have "?b ((i # js) ! j) = Inr (out ! (length ls + j))" if "j < Suc (length js)" for j
        using that \<open>?b i = Inr ln\<close> o(4) by (cases j) simp_all
      moreover have "out = ls @ drop (length ls) out"
        using arg_cong [OF o(2), of "take (length ls)"] append_take_drop_id [of "length ls" out] by simp
      ultimately show ?thesis using Inr o(1,3) by simp
    qed
  qed
qed auto

text \<open>
  C27: A listen binds its whole range or nothing. If \<open>bindRange\<close> succeeds there is one listener
  per index, the one at index \<open>i\<close> bound to the range's host and the port \<open>i\<close> after its first;
  if it fails, the error names the first address that could not be bound and wraps what binding it
  gave, and exactly the listeners bound before it have been closed.
\<close>

theorem bind_all_or_none:
  assumes "ParseRange np text = Inr addr" and "bindRange np bind addr = (r, closed)"
  shows "(\<forall>out. r = Inr out \<longrightarrow> closed = [] \<and> int (length out) = range_Len addr \<and>
      (\<forall>i < length out. \<exists>h. range_At addr (int i) = Some h \<and> bind (hostPort_String np h) = Inr (out ! i))) \<and>
    (\<forall>e. r = Inl e \<longrightarrow> int (length closed) < range_Len addr \<and>
      (\<forall>i < length closed. \<exists>h. range_At addr (int i) = Some h \<and> bind (hostPort_String np h) = Inr (closed ! i)) \<and>
      (\<exists>h e'. range_At addr (int (length closed)) = Some h \<and> bind (hostPort_String np h) = Inl e' \<and>
         e = wrap (''listen on '' @ hostPort_String np h) e'))"
proof -
  have at: "\<exists>h. range_At addr (int i) = Some h" if "int i < range_Len addr" for i
    using ParseRange_At [OF assms(1), of "int i"] that by auto
  note spec = bind_ports_spec [OF assms(2) [unfolded bindRange_def]]
  have len: "0 < range_Len addr" using ParseRange_len [OF assms(1)] by simp
  show ?thesis
  proof (intro conjI allI impI)
    fix out assume r: "r = Inr out"
    have o: "closed = []" "length out = nat (range_Len addr)"
      "\<forall>j < nat (range_Len addr). bind (hostPort_String np (case range_At addr (int j) of None \<Rightarrow> zero_hostPort | Some h \<Rightarrow> h)) = Inr (out ! j)"
      using spec r by auto
    show "closed = []" "int (length out) = range_Len addr" using o len by simp_all
    fix i assume i: "i < length out"
    then have "int i < range_Len addr" using o(2) by simp
    then obtain h where "range_At addr (int i) = Some h" using at by blast
    then show "\<exists>h. range_At addr (int i) = Some h \<and> bind (hostPort_String np h) = Inr (out ! i)" using o(2,3) i by auto
  next
    fix e assume r: "r = Inl e"
    obtain j where j: "j < nat (range_Len addr)" "length closed = j"
      "\<forall>k < j. bind (hostPort_String np (case range_At addr (int k) of None \<Rightarrow> zero_hostPort | Some h \<Rightarrow> h)) = Inr (closed ! k)"
      "\<exists>e'. bind (hostPort_String np (case range_At addr (int j) of None \<Rightarrow> zero_hostPort | Some h \<Rightarrow> h)) = Inl e' \<and>
         e = wrap (''listen on '' @ hostPort_String np (case range_At addr (int j) of None \<Rightarrow> zero_hostPort | Some h \<Rightarrow> h)) e'"
      using spec r by auto
    show "int (length closed) < range_Len addr" using j(1,2) by simp
    have "int j < range_Len addr" using j(1) by simp
    then obtain h where "range_At addr (int j) = Some h" using at by blast
    then show "\<exists>h e'. range_At addr (int (length closed)) = Some h \<and> bind (hostPort_String np h) = Inl e' \<and>
        e = wrap (''listen on '' @ hostPort_String np h) e'" using j(2,4) by auto
    fix i assume i: "i < length closed"
    then have "int i < range_Len addr" using j(1,2) by simp
    then obtain h where "range_At addr (int i) = Some h" using at by blast
    then show "\<exists>h. range_At addr (int i) = Some h \<and> bind (hostPort_String np h) = Inr (closed ! i)" using j(2,3) i by auto
  qed
qed

lemma bind_all_or_none_witness:
  "\<exists>r closed. bindRange sample_netip (\<lambda>a. if a = ''[::1]:8002'' then Inl (Fault 1) else Inr (length a))
     \<lparr>rgBase = \<lparr>hpKind = KindIP, hpIP = Some ''::1'', hpName = [], hpPort = 8000\<rparr>, rgCount = 11\<rparr> = (r, closed) \<and>
     (\<forall>e. r = Inl e \<longrightarrow> int (length closed) < 11 \<and> (\<exists>a. e = wrap (''listen on '' @ a) (Fault 1)))"
proof -
  let ?addr = "\<lparr>rgBase = \<lparr>hpKind = KindIP, hpIP = Some ''::1'', hpName = [], hpPort = 8000\<rparr>, rgCount = 11\<rparr>"
  let ?bind = "\<lambda>a. if a = ''[::1]:8002'' then Inl (Fault 1) else Inr (length a)"
  obtain r closed where r: "bindRange sample_netip ?bind ?addr = (r, closed)"
    by (cases "bindRange sample_netip ?bind ?addr")
  have "int (length closed) < 11 \<and> (\<exists>a. e = wrap (''listen on '' @ a) (Fault 1))" if e: "r = Inl e" for e
  proof -
    obtain h e' where "int (length closed) < range_Len ?addr" and b: "?bind (hostPort_String sample_netip h) = Inl e'"
      and w: "e = wrap (''listen on '' @ hostPort_String sample_netip h) e'"
      using bind_all_or_none [OF sample_range r] e by blast
    moreover have "e' = Fault 1" using b by (simp split: if_split_asm)
    ultimately show ?thesis by (auto simp: range_Len_def)
  qed
  with r show ?thesis by blast
qed

text \<open>The connections the loops accept, each with whether the session is ready when it comes.\<close>

fun arrivals :: "port_index set \<Rightarrow> bool \<Rightarrow> listen_event list \<Rightarrow> (port_index \<times> conn \<times> bool) list" where
  "arrivals failed ready [] = []"
| "arrivals failed ready (AcceptFails port e # evs) = arrivals (insert port failed) ready evs"
| "arrivals failed ready (Arrives port local # evs) =
     (if port \<in> failed then arrivals failed ready evs else (port, local, ready) # arrivals failed ready evs)"
| "arrivals failed ready (TunnelEnds err # evs) = arrivals failed ready evs"
| "arrivals failed ready (ReadyIs b # evs) = arrivals failed b evs"
| "arrivals failed ready (Cancels e # evs) = arrivals failed ready evs"

definition outcomes :: "listen_outcome list \<Rightarrow> listen_outcome list" where
  "outcomes log = filter (\<lambda>x. case x of Forwarding _ _ \<Rightarrow> True | TurnedAway _ _ \<Rightarrow> True | _ \<Rightarrow> False) log"

definition handled :: "(port_index \<Rightarrow> string) \<Rightarrow> port_index \<times> conn \<times> bool \<Rightarrow> listen_outcome \<Rightarrow> bool" where
  "handled lnAddr a x \<longleftrightarrow>
     (case a of (port, local, ready) \<Rightarrow>
        if ready then x = Forwarding port local \<or> x = TurnedAway listen_limit (conn_close local)
        else x = TurnedAway (not_ready (lnAddr port)) (conn_close local))"

text \<open>The slots are exactly the goroutines that have not returned, and there are never too many.\<close>

definition listen_ok :: "listen_state \<Rightarrow> bool" where
  "listen_ok st \<longleftrightarrow> accepted (liLog st) = released (liLog st) + liRunning st \<and>
     (\<forall>p. prefix p (liLog st) \<longrightarrow> released p \<le> accepted p \<and> accepted p \<le> released p + MaxTunnels) \<and>
     (\<forall>p c. prefix (p @ [TurnedAway listen_limit c]) (liLog st) \<longrightarrow> accepted p = released p + MaxTunnels)"

lemma tally_append [simp]:
  "accepted (a @ b) = accepted a + accepted b" "released (a @ b) = released a + released b"
  "outcomes (a @ b) = outcomes a @ outcomes b"
  by (simp_all add: accepted_def released_def outcomes_def)

lemma tally_simps [simp]:
  "accepted [] = 0" "released [] = 0" "outcomes [] = []"
  "accepted (x # xs) = (case x of Forwarding _ _ \<Rightarrow> 1 | _ \<Rightarrow> 0) + accepted xs"
  "released (x # xs) = (if x = ForwardingDone then 1 else 0) + released xs"
  "outcomes (x # xs) = (case x of Forwarding _ _ \<Rightarrow> [x] | TurnedAway _ _ \<Rightarrow> [x] | _ \<Rightarrow> []) @ outcomes xs"
  by (simp_all add: accepted_def released_def outcomes_def split: listen_outcome.split)

lemma listen_report_tally [simp]:
  "accepted (listen_report report e st) = 0" "released (listen_report report e st) = 0"
  "outcomes (listen_report report e st) = []"
  by (simp_all add: listen_report_def split: option.split)

lemma listen_ok_reports: "listen_ok (st\<lparr>liLog := log @ listen_report report e st'\<rparr>) \<longleftrightarrow> listen_ok (st\<lparr>liLog := log\<rparr>)"
  by (auto simp: listen_ok_def listen_report_def split: option.split)

lemma listen_ok_start [simp]: "listen_ok listen_start"
  by (simp add: listen_ok_def listen_start_def)

lemma limits_differ: "not_ready a \<noteq> listen_limit"
  by (simp add: not_ready_def listen_limit_def)

lemma listen_ok_turned:
  assumes "listen_ok st" and "err = listen_limit \<Longrightarrow> \<not> liRunning st < MaxTunnels"
  shows "listen_ok (turn_away report err local st)"
proof -
  have "accepted (liLog st) = released (liLog st) + liRunning st" using assms(1) by (simp add: listen_ok_def)
  moreover have "accepted (liLog st) \<le> released (liLog st) + MaxTunnels" using assms(1) unfolding listen_ok_def by blast
  ultimately have full: "err = listen_limit \<Longrightarrow> liRunning st = MaxTunnels" using assms(2) by linarith
  have "listen_ok (st\<lparr>liLog := liLog st @ [TurnedAway err (conn_close local)]\<rparr>)"
    using assms(1) full by (auto simp: listen_ok_def)
  moreover have "turn_away report err local st =
      st\<lparr>liLog := (liLog st @ [TurnedAway err (conn_close local)]) @ listen_report report (Some err) st\<rparr>"
    by (simp add: turn_away_def)
  ultimately show ?thesis by (simp only: listen_ok_reports)
qed

lemma accept_turn_spec:
  fixes report :: bool and lnAddr :: "port_index \<Rightarrow> string" and port :: port_index and local :: conn
  assumes "listen_ok st"
  defines "st' \<equiv> accept_turn report lnAddr port local st"
  shows "listen_ok st' \<and> liReady st' = liReady st \<and> liFailed st' = liFailed st \<and>
    (\<exists>x. outcomes (liLog st') = outcomes (liLog st) @ [x] \<and> handled lnAddr (port, local, liReady st) x)"
proof (cases "liReady st \<and> liRunning st < MaxTunnels")
  case True
  then have st': "st' = st\<lparr>liRunning := liRunning st + 1, liLog := liLog st @ [Forwarding port local]\<rparr>"
    by (simp add: st'_def accept_turn_def)
  have "listen_ok st'" using assms(1) True unfolding st' by (auto simp: listen_ok_def)
  with True show ?thesis by (simp add: st' handled_def)
next
  case False
  define err where "err = (if liReady st then listen_limit else not_ready (lnAddr port))"
  have st': "st' = turn_away report err local st" using False by (auto simp: st'_def accept_turn_def err_def)
  have "listen_ok st'" unfolding st'
    by (rule listen_ok_turned [OF assms(1)]) (use False in \<open>auto simp: err_def limits_differ split: if_splits\<close>)
  then show ?thesis by (simp add: st' turn_away_def handled_def err_def)
qed

lemma listen_ok_done:
  "listen_ok st \<Longrightarrow> released (liLog st) < accepted (liLog st) \<Longrightarrow>
   listen_ok (st\<lparr>liRunning := liRunning st - 1, liLog := liLog st @ [ForwardingDone]\<rparr>)"
  by (auto simp: listen_ok_def)

lemma forward_ends_spec:
  fixes report :: bool and err :: "error option"
  assumes "listen_ok st"
  defines "st' \<equiv> forward_ends report err st"
  shows "listen_ok st' \<and> liReady st' = liReady st \<and> liFailed st' = liFailed st \<and> outcomes (liLog st') = outcomes (liLog st)"
proof (cases "accepted (liLog st) \<le> released (liLog st)")
  case False
  let ?log = "liLog st @ listen_report report err st"
  have ok: "listen_ok (st\<lparr>liLog := ?log\<rparr>)" using assms(1) by (simp add: listen_ok_reports)
  have st': "st' = st\<lparr>liRunning := liRunning st - 1, liLog := ?log @ [ForwardingDone]\<rparr>"
    using False by (simp add: st'_def forward_ends_def)
  have "listen_ok st'" using listen_ok_done [OF ok] False unfolding st' by simp
  then show ?thesis by (simp add: st')
qed (use assms in \<open>simp add: forward_ends_def\<close>)

lemma listen_turn_spec:
  assumes "listen_ok st"
  shows "listen_ok (listen_turn report lnAddr ev st) \<and>
    (\<exists>ys. outcomes (liLog (listen_turn report lnAddr ev st)) = outcomes (liLog st) @ ys \<and>
      (\<forall>xs. list_all2 (handled lnAddr) (arrivals (fst ` set (liFailed (listen_turn report lnAddr ev st)))
             (liReady (listen_turn report lnAddr ev st)) evs) xs \<longrightarrow>
           list_all2 (handled lnAddr) (arrivals (fst ` set (liFailed st)) (liReady st) (ev # evs)) (ys @ xs)))"
proof (cases ev)
  case (Arrives port local)
  show ?thesis
  proof (cases "port \<in> fst ` set (liFailed st)")
    case False
    then show ?thesis
      using accept_turn_spec [OF assms, of report lnAddr port local] by (auto simp: listen_turn_def Arrives)
  qed (use assms in \<open>simp add: listen_turn_def Arrives\<close>)
next
  case (TunnelEnds err)
  then show ?thesis using forward_ends_spec [OF assms, of report err] by (simp add: listen_turn_def)
next
  case (AcceptFails port e)
  have "insert port (fst ` set (liFailed st)) = fst ` set (liFailed st)" if "port \<in> fst ` set (liFailed st)"
    using that by blast
  then show ?thesis using assms by (auto simp: listen_turn_def AcceptFails listen_ok_def)
qed (use assms in \<open>simp_all add: listen_turn_def listen_ok_def\<close>)

text \<open>
  C26: Every local connection is accounted for. Whatever the accept loops of all ports meet, the
  connections they accept have, in the order they came, each been given to a tunnel under the port
  they arrived on or been closed; one that came while the session was not ready has been closed,
  for that reason. At no moment have more than 256 tunnels been started that have not ended, and
  a connection is closed for want of a slot only at a moment when just 256 are running.
\<close>

theorem listen_accounts_for_every_connection:
  fixes report :: bool and lnAddr :: "port_index \<Rightarrow> string" and evs :: "listen_event list"
  assumes "listen_ok st"
  defines "st' \<equiv> acceptLoop report lnAddr evs st"
  shows "(\<forall>p. prefix p (liLog st') \<longrightarrow> released p \<le> accepted p \<and> accepted p \<le> released p + 256) \<and>
    (\<forall>p c. prefix (p @ [TurnedAway listen_limit c]) (liLog st') \<longrightarrow> accepted p = released p + 256) \<and>
    (\<exists>xs. outcomes (liLog st') = outcomes (liLog st) @ xs \<and>
       list_all2 (handled lnAddr) (arrivals (fst ` set (liFailed st)) (liReady st) evs) xs)"
proof -
  have "listen_ok st' \<and> (\<exists>xs. outcomes (liLog st') = outcomes (liLog st) @ xs \<and>
      list_all2 (handled lnAddr) (arrivals (fst ` set (liFailed st)) (liReady st) evs) xs)"
    using assms(1) unfolding st'_def acceptLoop_def
  proof (induction evs arbitrary: st)
    case (Cons ev evs)
    let ?st1 = "listen_turn report lnAddr ev st"
    obtain ys where ys: "listen_ok ?st1" "outcomes (liLog ?st1) = outcomes (liLog st) @ ys"
      "\<And>xs. list_all2 (handled lnAddr) (arrivals (fst ` set (liFailed ?st1)) (liReady ?st1) evs) xs \<Longrightarrow>
         list_all2 (handled lnAddr) (arrivals (fst ` set (liFailed st)) (liReady st) (ev # evs)) (ys @ xs)"
      using listen_turn_spec [OF Cons.prems, of report lnAddr ev evs] by blast
    from Cons.IH [OF ys(1)] obtain xs where xs: "listen_ok (fold (listen_turn report lnAddr) evs ?st1)"
      "outcomes (liLog (fold (listen_turn report lnAddr) evs ?st1)) = outcomes (liLog ?st1) @ xs"
      "list_all2 (handled lnAddr) (arrivals (fst ` set (liFailed ?st1)) (liReady ?st1) evs) xs" by blast
    show ?case
      by (intro conjI exI [of _ "ys @ xs"], use xs(1) in simp, use xs(2) ys(2) in simp, rule ys(3) [OF xs(3)])
  qed simp
  moreover have "MaxTunnels = 256" by (rule MaxTunnels_def)
  ultimately show ?thesis unfolding listen_ok_def by simp
qed

lemma listen_accounts_for_every_connection_witness:
  "\<exists>xs. outcomes (liLog (acceptLoop True (\<lambda>_. ''127.0.0.1:80'') [Arrives 0 (new_conn [1]), ReadyIs True,
       AcceptFails 0 (Fault 1), Arrives 0 (new_conn [3]), Arrives 1 (new_conn [2])] listen_start)) = xs \<and>
     list_all2 (handled (\<lambda>_. ''127.0.0.1:80'')) [(0, new_conn [1], False), (1, new_conn [2], True)] xs"
  using listen_accounts_for_every_connection [OF listen_ok_start, of True "\<lambda>_. ''127.0.0.1:80''"
      "[Arrives 0 (new_conn [1]), ReadyIs True, AcceptFails 0 (Fault 1), Arrives 0 (new_conn [3]), Arrives 1 (new_conn [2])]"]
  by (simp add: listen_start_def)

text \<open>
  The end of a session is waited out. When relay says a session is over, in whatever words,
  the control loop returns an error that is \<open>ErrSessionClosed\<close> and that \<open>Serve\<close> retries: unless
  the context has ended, \<open>Serve\<close> goes on to the next attempt; and the ready flag is down from
  then on until the session is back.
\<close>

theorem publisher_gone_is_waited_out:
  assumes "length payload \<le> maxControlPayload" and "\<not> shut c"
    and "inb c = encodeControl ControlSessionClosed payload @ rest" and "ctx i = None"
  shows "\<exists>e. RunControlLoop ctx listen_handle i c () = (e, c\<lparr>inb := rest\<rparr>, ()) \<and>
    errors_is e ErrSessionClosed \<and> retryable e \<and>
    (\<forall>(cfg :: 'ip listen_config) t attempt. stCtxAfter t = None \<longrightarrow>
       serve_verdict (listen_serve_config cfg) t True attempt e =
         (stWait t, [Disconnected e (retryDelay attempt (stJitter t))])) \<and>
    (\<forall>evs d. \<not> ready_after (evs @ [Disconnected e d]) True \<and>
       ready_after (evs @ [Disconnected e d, Reconnected]) True)"
proof -
  let ?e = "sessionClosedErr payload"
  have e: "errors_is ?e ErrSessionClosed" "retryable ?e"
    by (auto simp: sessionClosedErr_def retryable_def split: sum.splits)
  have loop: "RunControlLoop ctx listen_handle i c () = (?e, c\<lparr>inb := rest\<rparr>, ())"
    using ReadControlFrame_encode [OF assms(1,2,3)] assms(4)
    by (subst RunControlLoop.simps) (simp add: listen_handle_def)
  have ready: "ready_after (evs @ x) b = ready_after x (ready_after evs b)" for evs x b
    by (induction evs b rule: ready_after.induct) auto
  have "serve_verdict (listen_serve_config cfg) t True attempt ?e =
      (stWait t, [Disconnected ?e (retryDelay attempt (stJitter t))])" if "stCtxAfter t = None" for cfg :: "'ip listen_config" and t attempt
    using that e(2) by (simp add: serve_verdict_def listen_serve_config_def Let_def)
  with e loop ready show ?thesis by (intro exI [of _ ?e]) auto
qed

lemma publisher_gone_is_waited_out_witness:
  "\<exists>e. RunControlLoop (\<lambda>_. None) listen_handle 0 (new_conn (encodeControl ControlSessionClosed [1])) () =
     (e, new_conn [], ()) \<and> errors_is e ErrSessionClosed \<and> retryable e"
  using publisher_gone_is_waited_out [of "[1]" "new_conn (encodeControl ControlSessionClosed [1])" "[]" "\<lambda>_. None" 0]
  by (auto simp: new_conn_def go_consts)

end
