(* ===== verification/Cli_Run.thy ===== *)
theory Cli_Run
  imports Cli_Secrets Share Listen Relay
begin

text \<open>
  The three long-running commands (\<^verbatim>\<open>runShare\<close>, \<^verbatim>\<open>runListen\<close> and \<^verbatim>\<open>runRelay\<close> of \<^verbatim>\<open>cmd/ggrok\<close>):
  what they hand to \<open>share.Run\<close>, \<open>listen.Run\<close> and \<open>relay.Run\<close>, and what they tell the user. Forwarding
  errors are reported beside the session's events, in an order Go does not fix; their lines are
  given apart. \<open>cwRetry\<close> prints a rounded delay.
\<close>

record 'ip cli_world =
  cwNetip :: "'ip netip"
  cwEnv :: go_env
  cwOs :: cli_os
  cwIsPrint :: "nat \<Rightarrow> bool"
  cwOutColor :: palette
  cwErrColor :: palette
  cwTerminal :: bool
  cwRetry :: "u64 \<Rightarrow> string"

definition say :: "string \<Rightarrow> share_output \<Rightarrow> share_output" where
  "say s out = out\<lparr>soStderr := soStderr out @ s\<rparr>"

section \<open>share\<close>

record 'ip share_cli_config =
  scConn :: "'ip node_conn_config"
  scAddr :: "'ip port_range"
  scSessionKey :: "session_key option"
  scTokenOut :: string

text \<open>\<open>registerModeFlags\<close>: a value that does not parse leaves the range alone.\<close>

definition flag_tcp :: "'ip netip \<Rightarrow> string \<Rightarrow> 'ip port_range \<Rightarrow> error option \<times> 'ip port_range" where
  "flag_tcp np addr r = (case ParseRange np addr of Inl e \<Rightarrow> (Some e, r) | Inr ports \<Rightarrow> (None, ports))"

definition share_ready ::
  "'ip cli_world \<Rightarrow> 'ip share_cli_config \<Rightarrow> subscriber_token \<Rightarrow> share_output \<Rightarrow> error option \<times> share_output" where
  "share_ready cw cfg tok out =
     (case reportToken (cwNetip cw) (cwEnv cw) (cwOs cw) (cwOutColor cw) (cwErrColor cw) (cwTerminal cw) (scTokenOut cfg)
             (scAddr cfg) (ncServer (scConn cfg)) tok out of
        (Some e, out1) \<Rightarrow> (Some e, out1)
      | (None, out1) \<Rightarrow>
          (None, say (green (cwErrColor cw) (''ready: sharing TCP '' @ range_String (cwNetip cw) (scAddr cfg) @ '' through '' @
              hostPort_String (cwNetip cw) (ncServer (scConn cfg))) @ [CHR 0x0A]) out1))"

definition session_event :: "'ip cli_world \<Rightarrow> (share_output \<Rightarrow> share_output) \<Rightarrow> serve_event \<Rightarrow> share_output \<Rightarrow> share_output" where
  "session_event cw ready ev out =
     (case ev of
        Ready \<Rightarrow> ready out
      | Reconnected \<Rightarrow> say (reportReconnect (cwErrColor cw)) out
      | Waiting e d \<Rightarrow> say (reportWaiting (cwIsPrint cw) (cwErrColor cw) e (cwRetry cw d)) out
      | Disconnected e d \<Rightarrow> say (reportDisconnect (cwIsPrint cw) (cwErrColor cw) e (cwRetry cw d)) out)"

definition forward_lines :: "'ip cli_world \<Rightarrow> error list \<Rightarrow> int list \<Rightarrow> string list" where
  "forward_lines cw errs whens =
     map snd (fst (reporter_run (cwIsPrint cw) (cwErrColor cw) (zip errs whens) fresh_reporter))"

definition share_run_config :: "'ip share_cli_config \<Rightarrow> session_key \<Rightarrow> error option \<Rightarrow> 'ip share_config" where
  "share_run_config cfg key ready =
     \<lparr>sfServer = ncServer (scConn cfg), sfCert = ncCertFile (scConn cfg), sfKey = ncKeyFile (scConn cfg),
      sfCA = ncCAFile (scConn cfg), sfMode = ModeTCP, sfAddr = scAddr cfg, sfSessionKey = key,
      sfOnReady = Some ready, sfOnForwardError = True, sfOnReconnect = True, sfOnDisconnect = True\<rparr>"

text \<open>The error, the output, the lines about forwarding errors, and the session as it is left.\<close>

definition runShare ::
  "'ip cli_world \<Rightarrow> ('sk, 'pk) crypto \<Rightarrow> ('kp, 'pool) tls_env \<Rightarrow> byte list result \<Rightarrow> 'ip share_cli_config \<Rightarrow>
   serve_turn list \<Rightarrow> error option list list \<Rightarrow> int list \<Rightarrow> share_output \<Rightarrow>
   error option \<times> share_output \<times> string list \<times> share_state option" where
  "runShare cw cr tls drawn cfg turns freed whens out0 =
     (case (case scSessionKey cfg of Some key \<Rightarrow> Inr key | None \<Rightarrow> NewSessionKey drawn) of
        Inl e \<Rightarrow> (Some e, out0, [], None)
      | Inr key \<Rightarrow>
          (case SessionKey_Credentials cr key of
             Inl e \<Rightarrow> (Some e, out0, [], None)
           | Inr creds \<Rightarrow>
               (let out1 = say (reportConnecting (cwNetip cw) (cwErrColor cw) (ncServer (scConn cfg))) out0;
                    tok = credentials_SubscriberToken creds;
                    ready = fst (share_ready cw cfg tok out1)
                in case share_Run (cwNetip cw) cr tls (share_run_config cfg key ready) turns freed of
                     Inl e \<Rightarrow> (explainSessionError (Some e), out1, [], None)
                   | Inr (err, st, evs) \<Rightarrow>
                       (explainSessionError err,
                        fold (session_event cw (\<lambda>out. snd (share_ready cw cfg tok out))) evs out1,
                        forward_lines cw (List.map_filter (\<lambda>ev. case ev of ShareReported e \<Rightarrow> Some e | _ \<Rightarrow> None) (shLog st)) whens,
                        Some st))))"

section \<open>listen\<close>

record 'ip listen_cli_config =
  lcConn :: "'ip node_conn_config"
  lcAddr :: "'ip port_range"
  lcToken :: subscriber_token
  lcWait :: bool

text \<open>\<open>OnReady\<close>: a line per address that \<open>OnListen\<close> named.\<close>

definition listen_ready :: "'ip cli_world \<Rightarrow> 'ip listen_cli_config \<Rightarrow> string list \<Rightarrow> share_output \<Rightarrow> share_output" where
  "listen_ready cw cfg addresses out =
     say (green (cwErrColor cw) (''ready: connected to publisher through '' @
         hostPort_String (cwNetip cw) (ncServer (lcConn cfg))) @ [CHR 0x0A])
       (out\<lparr>soStdout := soStdout out @ concat (map (\<lambda>a. green (cwOutColor cw) ''listening on'' @ '' '' @
          bold (cwOutColor cw) a @ [CHR 0x0A]) addresses)\<rparr>)"

definition listen_run_config :: "'ip listen_cli_config \<Rightarrow> 'ip listen_config" where
  "listen_run_config cfg =
     \<lparr>lfServer = ncServer (lcConn cfg), lfCert = ncCertFile (lcConn cfg), lfKey = ncKeyFile (lcConn cfg),
      lfCA = ncCAFile (lcConn cfg), lfMode = ModeTCP, lfAddr = lcAddr cfg, lfToken = lcToken cfg, lfWait = lcWait cfg,
      lfOnReady = Some None, lfOnWaiting = True, lfOnForwardError = True, lfOnReconnect = True, lfOnDisconnect = True\<rparr>"

text \<open>The session's events, once the ports are bound.\<close>

definition listen_events ::
  "'ip netip \<Rightarrow> ('sk, 'pk) crypto \<Rightarrow> ('kp, 'pool) tls_env \<Rightarrow> 'ip listen_config \<Rightarrow> serve_turn list \<Rightarrow> serve_event list" where
  "listen_events np cr env cfg turns =
     (case LoadConfig env (lfCert cfg) (lfKey cfg) (lfCA cfg) False False of
        Inl e \<Rightarrow> []
      | Inr tls \<Rightarrow>
          snd (snd (Serve np cr (NewSession (lfServer cfg) tls (SubscriberToken_Credentials (lfToken cfg)) RoleSubscribe)
            (listen_serve_config cfg) turns False 0 ())))"

definition runListen ::
  "'ip cli_world \<Rightarrow> ('sk, 'pk) crypto \<Rightarrow> ('kp, 'pool) tls_env \<Rightarrow> (string \<Rightarrow> listener result) \<Rightarrow> (port_index \<Rightarrow> string) \<Rightarrow>
   'ip listen_cli_config \<Rightarrow> serve_turn list \<Rightarrow> listen_event list \<Rightarrow> share_output \<Rightarrow> error option \<times> share_output" where
  "runListen cw cr tls bind lnAddr cfg turns evs out0 =
     (let out1 = say (reportConnecting (cwNetip cw) (cwErrColor cw) (ncServer (lcConn cfg))) out0;
          run = listen_run_config cfg
      in case listen_Run (cwNetip cw) cr tls bind lnAddr run turns evs of
           Inl e \<Rightarrow> (explainSessionError (Some e), out1)
         | Inr (err, st, listeners) \<Rightarrow>
             (explainSessionError err,
              case fst (bindRange (cwNetip cw) bind (lcAddr cfg)) of
                Inl _ \<Rightarrow> out1
              | Inr bound \<Rightarrow>
                  fold (session_event cw (listen_ready cw cfg (map (\<lambda>i. lnAddr (of_nat i)) [0 ..< length bound])))
                    (listen_events (cwNetip cw) cr tls run turns) out1))"

section \<open>relay\<close>

record 'ip relay_cli_config =
  rcListen :: "'ip hostPort"
  rcCertFile :: string
  rcKeyFile :: string
  rcCAFile :: string
  rcRevokedFile :: string
  rcAdmin :: bool

definition flag_listen :: "'ip netip \<Rightarrow> string \<Rightarrow> 'ip hostPort \<Rightarrow> error option \<times> 'ip hostPort" where
  "flag_listen np s h = (case hp_Parse np s of Inl e \<Rightarrow> (Some e, h) | Inr pair \<Rightarrow> (None, pair))"

text \<open>The paths are expanded in turn; the first that fails stops the command.\<close>

definition relay_prerun :: "go_env \<Rightarrow> 'ip relay_cli_config \<Rightarrow> 'ip relay_cli_config result" where
  "relay_prerun env cfg =
     (case expandHome env (rcCertFile cfg) of
        Inl e \<Rightarrow> Inl e
      | Inr cert \<Rightarrow>
          (case expandHome env (rcKeyFile cfg) of
             Inl e \<Rightarrow> Inl e
           | Inr key \<Rightarrow>
               (case expandHome env (rcCAFile cfg) of
                  Inl e \<Rightarrow> Inl e
                | Inr caf \<Rightarrow>
                    (case expandHome env (rcRevokedFile cfg) of
                       Inl e \<Rightarrow> Inl e
                     | Inr rvk \<Rightarrow>
                         Inr (cfg\<lparr>rcCertFile := cert, rcKeyFile := key, rcCAFile := caf, rcRevokedFile := rvk\<rparr>)))))"

definition runRelay ::
  "'ip netip \<Rightarrow> Relay_Admin.files \<Rightarrow> ('kp, 'pool) tls_env \<Rightarrow> (string \<Rightarrow> unit result) \<Rightarrow> (server \<Rightarrow> nat \<Rightarrow> world \<Rightarrow> world) \<Rightarrow>
   error option \<Rightarrow> accept_event list \<Rightarrow> 'ip relay_cli_config \<Rightarrow> error option \<times> world option" where
  "runRelay np fls env lis handle ctxErr evs cfg =
     Relay.Run fls env lis handle ctxErr evs
       \<lparr>cfListen = hostPort_String np (rcListen cfg), cfCert = rcCertFile cfg, cfKey = rcKeyFile cfg, cfCA = rcCAFile cfg,
        cfRevoked = rcRevokedFile cfg, cfAdmin = rcAdmin cfg\<rparr>"

section \<open>Properties\<close>

text \<open>A session whose \<open>OnReady\<close> fails handles no frame.\<close>

lemma Serve_not_ready:
  assumes "sgReady cfg = Some (Some e)"
  shows "Serve np cr ses cfg ts False attempt s = (r, s', ev) \<Longrightarrow> s' = s"
proof (induction ts arbitrary: attempt r s' ev)
  case (Cons t ts)
  obtain cn k where c: "connect np cr ses (sgMode cfg) (sgPorts cfg) (stDial t) = (cn, k)" by (metis prod.exhaust)
  show ?case
  proof (cases cn)
    case (Inr control)
    then show ?thesis using Cons.prems c assms by (simp add: notifyConnected_def)
  next
    case (Inl err)
    then show ?thesis
      using Cons.prems Cons.IH c by (auto split: prod.splits option.splits)
  qed
qed simp

lemma say_keeps [simp]: "soStdout (say s out) = soStdout out" "soDisk (say s out) = soDisk out"
  by (simp_all add: say_def)

lemma session_events_keep:
  assumes "\<And>out. soStdout (ready out) = soStdout out \<and> soDisk (ready out) = soDisk out"
  shows "soStdout (fold (session_event cw ready) evs out) = soStdout out \<and>
    soDisk (fold (session_event cw ready) evs out) = soDisk out"
proof (induction evs arbitrary: out)
  case (Cons ev evs)
  have "soStdout (session_event cw ready ev out) = soStdout out" "soDisk (session_event cw ready ev out) = soDisk out"
    using assms by (cases ev; simp add: session_event_def)+
  then show ?case using Cons.IH by simp
qed simp

text \<open>
  C33: Nobody can use a share whose token was handed to nobody. If standard output is no terminal
  and \<open>-token-out\<close> is not given, then whatever relay sends, however often it is dialed and
  whatever session key is used, no request is served and no tunnel is left running, and neither
  standard output nor any file has been written.
\<close>

theorem share_without_token_serves_nothing:
  assumes "scTokenOut cfg = []" and "\<not> cwTerminal cw"
    and "runShare cw cr tls drawn cfg turns freed whens out0 = (err, out, forwardErrs, st)"
  shows "soStdout out = soStdout out0 \<and> soDisk out = soDisk out0 \<and> forwardErrs = [] \<and>
    (\<forall>s. st = Some s \<longrightarrow> shLog s = [] \<and> shRunning s = 0)"
proof -
  have refuses: "fst (share_ready cw cfg tok o1) \<noteq> None \<and> snd (share_ready cw cfg tok o1) = o1" for tok o1
    using assms(1,2) by (simp add: share_ready_def reportToken_def)
  have quiet: "s = \<lparr>shRunning = 0, shFreed = freed, shLog = []\<rparr>"
    if "share_Run (cwNetip cw) cr tls (share_run_config cfg key (fst (share_ready cw cfg tok o1))) turns freed = Inr (r, s, evs)"
    for key tok o1 r s evs
  proof -
    obtain e where e: "fst (share_ready cw cfg tok o1) = Some e" using refuses by blast
    then have "sgReady (share_serve_config (share_run_config cfg key (Some e))) = Some (Some e)"
      by (simp add: share_serve_config_def share_run_config_def)
    from Serve_not_ready [OF this] that e show ?thesis
      by (auto simp: share_Run_def share_runTCP_def Let_def split: if_splits sum.splits)
  qed
  have evs: "soStdout (fold (session_event cw (\<lambda>o2. snd (share_ready cw cfg tok o2))) ev o1) = soStdout o1 \<and>
      soDisk (fold (session_event cw (\<lambda>o2. snd (share_ready cw cfg tok o2))) ev o1) = soDisk o1" for tok ev o1
    by (rule session_events_keep) (simp add: refuses)
  show ?thesis
    using assms(3) evs
    by (auto simp: runShare_def Let_def forward_lines_def map_filter_simps dest!: quiet split: option.splits sum.splits prod.splits)
qed

definition sample_cli :: "string cli_world" where
  "sample_cli = \<lparr>cwNetip = sample_netip, cwEnv = Cli_Secrets.sample_env, cwOs = sample_cli_os, cwIsPrint = (\<lambda>_. True),
     cwOutColor = False, cwErrColor = False, cwTerminal = False, cwRetry = (\<lambda>_. ''1s'')\<rparr>"

lemma share_without_token_serves_nothing_witness:
  "\<exists>err out st. runShare sample_cli sample_crypto
       \<lparr>loadX509KeyPair = \<lambda>_ _. Inr (), readFile = \<lambda>_. Inr [], certsFromPEM = \<lambda>_. Some ()\<rparr> (Inr (replicate 32 7))
       \<lparr>scConn = \<lparr>ncServer = \<lparr>hpKind = KindName, hpIP = None, hpName = ''r'', hpPort = 9\<rparr>, ncCertFile = [], ncKeyFile = [],
          ncCAFile = []\<rparr>,
        scAddr = \<lparr>rgBase = \<lparr>hpKind = KindName, hpIP = None, hpName = ''db'', hpPort = 80\<rparr>, rgCount = 1\<rparr>,
        scSessionKey = Some (replicate 32 7), scTokenOut = []\<rparr>
       [\<lparr>stDial = DialErr (Fault 1), stCtx = (\<lambda>_. None), stTicks = 0, stStable = False, stCtxAfter = None,
         stJitter = 0, stWait = None\<rparr>] [] [] \<lparr>soDisk = [], soStdout = [], soStderr = []\<rparr> = (err, out, [], st) \<and>
     soStdout out = [] \<and> soDisk out = []"
proof -
  let ?cfg = "\<lparr>scConn = \<lparr>ncServer = \<lparr>hpKind = KindName, hpIP = None, hpName = ''r'', hpPort = 9\<rparr>, ncCertFile = [], ncKeyFile = [],
          ncCAFile = []\<rparr>,
        scAddr = \<lparr>rgBase = \<lparr>hpKind = KindName, hpIP = None, hpName = ''db'', hpPort = 80\<rparr>, rgCount = 1\<rparr>,
        scSessionKey = Some (replicate 32 7), scTokenOut = []\<rparr> :: string share_cli_config"
  let ?turn = "\<lparr>stDial = DialErr (Fault 1), stCtx = (\<lambda>_. None), stTicks = 0, stStable = False, stCtxAfter = None,
         stJitter = 0, stWait = None\<rparr> :: serve_turn"
  let ?env = "\<lparr>loadX509KeyPair = \<lambda>_ _. Inr (), readFile = \<lambda>_. Inr [], certsFromPEM = \<lambda>_. Some ()\<rparr> :: (unit, unit) tls_env"
  obtain err out lns st where r: "runShare sample_cli sample_crypto ?env (Inr (replicate 32 7)) ?cfg [?turn] [] []
      \<lparr>soDisk = [], soStdout = [], soStderr = []\<rparr> = (err, out, lns, st)" by (metis prod.exhaust)
  from share_without_token_serves_nothing [OF _ _ this] r show ?thesis by (simp add: sample_cli_def)
qed

end
