(* ===== verification/End_To_End.thy ===== *)
theory End_To_End
  imports Cli_Run
begin

text \<open>
  From the publisher's session key to a tunnel: \<open>share\<close>'s report of the token, \<open>listen\<close>'s reading of it,
  and the two ends' tunnels composed.
\<close>

text \<open>
  C34: Handing over the token is all it takes. Let \<open>share\<close> derive a session from its key and report
  the token with \<open>-token-out\<close>, through a file or its standard output, and let \<open>listen\<close> take it with
  \<open>-token-file\<close>. Then \<open>listen\<close> starts, cannot sign for the session, and whenever relay pairs a
  connection of each and passes on what they send, both ends' \<open>OpenTunnel\<close> succeed for the port asked
  for and the two streams use the same two keys, crossed, though relay is only shown the
  session's identifier.
\<close>

theorem handed_token_opens_tunnels:
  fixes cr :: "('sk, 'pk) crypto" and np :: "'ip netip"
  assumes "kdf_ok cr" and "aead_ok cr" and "SessionKey_Credentials cr key = Inr creds"
    and "reportToken np env os pOut pErr terminal tokenOut addr server (credentials_SubscriberToken creds) o0 = (None, o1)"
    and "tokenOut \<noteq> []" and "length args \<le> 1"
    and "if tokenOut = stdioPath then srcStdin src = (drop (length (soStdout o0)) (soStdout o1), None)
         else \<forall>p bs. gm_get (soDisk o1) p = Some bs \<longrightarrow> srcOpen src p = Inr (bs, None)"
    and "finishConn np env readf unmarshal flags = Inr conn" and "range_Len local \<noteq> 0"
    and "length pch = challengeSize" and "length sch = challengeSize"
    and "\<not> shut pk" "wscript pk = []" "outb pk = []" and "\<not> shut sk" "wscript sk = []" "outb sk = []"
    and "inb pk = sch @ tunnelMAC cr (crData creds) ''subscriber proof'' (tunnel_transcript sch pch port)"
    and "inb sk = AckOK # pch @ tunnelMAC cr (crData creds) ''publisher proof'' (tunnel_transcript sch pch port)"
  shows "\<exists>tok pe pk' se sk'.
    listen_prerun np env readf unmarshal src flags local args tokenStr tokenOut = Inr (conn, tok) \<and>
    crSigner (SubscriberToken_Credentials tok :: 'sk credentials) = None \<and>
    OpenTunnel np cr (Inr pch) (Inr p1) (NewSession server ptls creds RolePublish) (DialTLS pk ALPN)
      \<lparr>aKind = AttachPublisher, aSessionID = [], aRequestID = rid, aPort = port\<rparr> = (Inr pe, Some pk') \<and>
    OpenTunnel np cr (Inr sch) (Inr p2) (NewSession (ncServer conn) stls (SubscriberToken_Credentials tok) RoleSubscribe)
      (DialTLS sk ALPN) \<lparr>aKind = AttachSubscriber, aSessionID = [], aRequestID = 0, aPort = port\<rparr> = (Inr se, Some sk') \<and>
    readAEAD se = writeAEAD pe \<and> readAEAD pe = writeAEAD se \<and>
    outb pk' = ConnData # encodeAttach \<lparr>aKind = AttachPublisher, aSessionID = crID creds, aRequestID = rid, aPort = port\<rparr> @ tl (inb sk) \<and>
    outb sk' = ConnData # encodeAttach \<lparr>aKind = AttachSubscriber, aSessionID = crID creds, aRequestID = 0, aPort = port\<rparr> @ inb pk"
proof -
  have wf: "creds_wf creds" by (rule SessionKey_Credentials_wf [OF assms(1,3)])
  let ?sc = "creds\<lparr>crSigner := None\<rparr>"
  note tok = token_of_credentials [OF wf]
  have handed: "listen_prerun np env readf unmarshal src flags local args tokenStr tokenOut =
      Inr (conn, credentials_SubscriberToken creds)"
    using token_file_hands_over [OF assms(4,5) tok(1) assms(6-9)] by simp
  have len: "length (crID creds) = SessionIDSize" using wf by (simp add: creds_wf_def)
  have same: "crData creds = crData ?sc" "crID creds = crID ?sc" by simp_all
  have "inb pk = sch @ tunnelMAC cr (crData ?sc) ''subscriber proof'' (tunnel_transcript sch pch port)" using assms(18) by simp
  from tunnel_pair [OF assms(1,2) same len assms(10-17) this assms(19), of np p1 server ptls rid p2 "ncServer conn" stls]
  show ?thesis using handed tok(2) by fastforce
qed

text \<open>The token of a session, handed over in \<open>/tmp/t\<close>.\<close>

definition sample_share_range :: "string port_range" where
  "sample_share_range = \<lparr>rgBase = \<lparr>hpKind = KindIP, hpIP = Some ''::1'', hpName = [], hpPort = 8000\<rparr>, rgCount = 1\<rparr>"

definition sample_share_server :: "string hostPort" where
  "sample_share_server = \<lparr>hpKind = KindName, hpIP = None, hpName = ''r'', hpPort = 9\<rparr>"

definition sample_report :: "subscriber_token \<Rightarrow> error option \<times> share_output" where
  "sample_report tok = reportToken sample_netip Cli_Secrets.sample_env sample_cli_os False False False ''/tmp/t''
     sample_share_range sample_share_server tok \<lparr>soDisk = [], soStdout = [], soStderr = []\<rparr>"

definition sample_source :: "share_output \<Rightarrow> secret_src" where
  "sample_source o1 = \<lparr>srcStdin = ([], None),
     srcOpen = (\<lambda>p. case gm_get (soDisk o1) p of None \<Rightarrow> Inl (Fault 2) | Some bs \<Rightarrow> Inr (bs, None))\<rparr>"

lemma sample_report_done: "fst (sample_report tok) = None"
  by (simp add: sample_report_def reportToken_def writeSecretFile_def expandHome_def stdioPath_def create_excl_def file_write_def
      sample_cli_os_def gm_has_def)

lemma handed_token_opens_tunnels_witness:
  "\<exists>creds o1 conn tok sk se sk'.
    SessionKey_Credentials sample_crypto (replicate 16 7) = Inr creds \<and>
    sample_report (credentials_SubscriberToken creds) = (None, o1) \<and>
    listen_prerun sample_netip Cli_Secrets.sample_env (\<lambda>_. Inl (Sentinel ErrNotExist)) (\<lambda>_. Inl (Fault 0)) (sample_source o1)
      \<lparr>cfServer = None, cfCertFile = None, cfKeyFile = None, cfCAFile = None\<rparr> sample_share_range [] [] ''/tmp/t'' = Inr (conn, tok) \<and>
    OpenTunnel sample_netip sample_crypto (Inr (replicate 32 2)) (Inr (replicate 16 4))
      (NewSession (ncServer conn) () (SubscriberToken_Credentials tok) RoleSubscribe) (DialTLS sk ALPN)
      \<lparr>aKind = AttachSubscriber, aSessionID = [], aRequestID = 0, aPort = 0\<rparr> = (Inr se, Some sk')"
proof -
  obtain creds where cr: "SessionKey_Credentials sample_crypto (replicate 16 7) = Inr creds"
    by (simp add: SessionKey_Credentials_def deriveKey_def sample_crypto_def signSeedInfo_def Let_def)
  obtain o1 where r: "sample_report (credentials_SubscriberToken creds) = (None, o1)"
    using sample_report_done [of "credentials_SubscriberToken creds"] by (metis prod.collapse)
  obtain conn where c: "finishConn sample_netip Cli_Secrets.sample_env (\<lambda>_. Inl (Sentinel ErrNotExist)) (\<lambda>_. Inl (Fault 0))
     \<lparr>cfServer = None, cfCertFile = None, cfKeyFile = None, cfCAFile = None\<rparr> = Inr conn"
    using sample_finishConn by blast
  let ?t = "tunnel_transcript (replicate 32 2) (replicate 32 1) 0"
  let ?pk = "new_conn (replicate 32 2 @ tunnelMAC sample_crypto (crData creds) ''subscriber proof'' ?t)"
  let ?sk = "new_conn (AckOK # replicate 32 1 @ tunnelMAC sample_crypto (crData creds) ''publisher proof'' ?t)"
  have kept: "if ''/tmp/t'' = stdioPath
      then srcStdin (sample_source o1) = (drop (length (soStdout \<lparr>soDisk = [], soStdout = [], soStderr = []\<rparr>)) (soStdout o1), None)
      else \<forall>p bs. gm_get (soDisk o1) p = Some bs \<longrightarrow> srcOpen (sample_source o1) p = Inr (bs, None)"
    by (simp add: stdioPath_def sample_source_def)
  have rest: "''/tmp/t'' \<noteq> []" "length ([] :: string list) \<le> 1" "range_Len sample_share_range \<noteq> 0"
    "length (replicate 32 1 :: byte list) = challengeSize" "length (replicate 32 2 :: byte list) = challengeSize"
    "\<not> shut ?pk" "wscript ?pk = []" "outb ?pk = []" "\<not> shut ?sk" "wscript ?sk = []" "outb ?sk = []"
    "inb ?pk = replicate 32 2 @ tunnelMAC sample_crypto (crData creds) ''subscriber proof'' ?t"
    "inb ?sk = AckOK # replicate 32 1 @ tunnelMAC sample_crypto (crData creds) ''publisher proof'' ?t"
    by (simp_all add: range_Len_def sample_share_range_def go_consts new_conn_def)
  note opens = handed_token_opens_tunnels [where tokenStr = "[]" and ?p1.0 = "replicate 16 3" and ?p2.0 = "replicate 16 4" and ptls = "()"
      and stls = "()" and rid = 5, OF sample_parts_ok(1,3) cr r [unfolded sample_report_def] rest(1,2) kept c rest(3-)]
  obtain tok se sk' where
    l: "listen_prerun sample_netip Cli_Secrets.sample_env (\<lambda>_. Inl (Sentinel ErrNotExist)) (\<lambda>_. Inl (Fault 0)) (sample_source o1)
      \<lparr>cfServer = None, cfCertFile = None, cfKeyFile = None, cfCAFile = None\<rparr> sample_share_range [] [] ''/tmp/t'' = Inr (conn, tok)"
    and t: "OpenTunnel sample_netip sample_crypto (Inr (replicate 32 2)) (Inr (replicate 16 4))
      (NewSession (ncServer conn) () (SubscriberToken_Credentials tok) RoleSubscribe) (DialTLS ?sk ALPN)
      \<lparr>aKind = AttachSubscriber, aSessionID = [], aRequestID = 0, aPort = 0\<rparr> = (Inr se, Some sk')"
    using opens by (elim exE conjE) (rule that)
  show ?thesis by (intro exI conjI, rule cr, rule r, rule l, rule t)
qed

end
