(* ===== verification/Spec2Isabelle.thy ===== *)
theory Spec2Isabelle
  imports Relay_Steps Cli_Main Operator Cli_CA End_To_End
begin

text \<open>
  Verification development for ggrok, which forwards TCP ports between a publisher (\<open>share\<close>) and its
  subscribers (\<open>listen\<close>) through a relay that pairs their connections and can read none of what it
  passes on. The sources are the Go files under \<^verbatim>\<open>src/cmd/ggrok\<close> and \<^verbatim>\<open>src/internal\<close>.

  \<^bold>\<open>The program.\<close> A CA (\<^verbatim>\<open>internal/ca\<close>) issues the certificates under which every process speaks
  TLS to the relay, and exports the serials it has revoked. A publisher derives from its session
  key a signing key, whose public half determines the session's identifier, and a data secret;
  the subscriber token is the secret and the identifier. Publisher and subscriber each keep a
  control connection to the relay (\<^verbatim>\<open>proto/hello.go\<close>, \<^verbatim>\<open>proto/control.go\<close>); the publisher claims the
  identifier by signing a challenge (\<^verbatim>\<open>proto/claim.go\<close>). For every local connection the subscriber
  opens a data connection to the relay, which asks the publisher for one of its own and splices
  the two (\<^verbatim>\<open>relay/registry.go\<close>, \<^verbatim>\<open>relay/session.go\<close>, \<^verbatim>\<open>streamio/splice.go\<close>); the ends authenticate one
  another over that and seal the stream (\<^verbatim>\<open>proto/auth.go\<close>, \<^verbatim>\<open>proto/frame_conn.go\<close>). An operator can
  list and kill sessions and reload the revoked serials over an admin connection
  (\<^verbatim>\<open>relay/admin.go\<close>, \<^verbatim>\<open>cmd/ggrok/admin.go\<close>).

  \<^bold>\<open>How it is modelled.\<close> Structs are records, fallible functions return \<open>error + 'a\<close> with the error
  values of \<open>Go_Errors\<close>, machine integers are words, Go maps are association lists with the laws of the
  locale \<open>go_map\<close>. A connection (\<open>Go_IO\<close>) is a record of the bytes that will arrive, the bytes written,
  a script of how writes fail and whether it is closed; a function that uses one returns it
  changed. The relay's state is the record \<open>world\<close> (\<open>Relay_World\<close>): its connections, the tracked
  transports, the revocation set, the registry's maps and a heap of sessions. What a mutex makes
  atomic is one function; handlers run these in the code's order, and the interleavings of all
  handlers are the step relations \<open>reg_step\<close> (registry), \<open>adm_step\<close> (admission against reload), \<open>sess_step\<close>
  (one session) and \<open>relay_step\<close> (everything), whose contract is the locale \<open>step_system\<close>. What the code
  leaves to the scheduler or the network - which direction of a splice moves and by how much,
  what dials, timers, contexts and reads give, the order in which Go visits a map - is an argument.

  \<^bold>\<open>Theories\<close>, bottom up:
  \<^item> \<open>Prelude\<close>, \<open>Go_Errors\<close>, \<open>Go_IO\<close>: bytes and big-endian integers, Go maps, step systems, errors,
    connections, and the locale \<open>fixed_codec\<close> of messages of a fixed size, which the readers and writers
    of \<open>Wire_Hello\<close>, \<open>Wire_Control\<close> and \<open>Wire_Attach\<close> interpret; \<open>Wire_Admin\<close> states length-prefixed frames once
    for both planes in the locale \<open>framing\<close>. Each reader accepts exactly what its writer emits.
  \<^item> \<open>Base32\<close>, \<open>Credentials\<close>, \<open>Claim\<close>, \<open>Auth\<close>, \<open>Frame_Conn\<close>: secrets and their text, the publish claim, the
    tunnel handshake and the sealed stream (\<^verbatim>\<open>internal/proto\<close>). The text round-trips, a claim that is
    accepted was signed for this challenge, and whatever slices one end writes the other reads
    back in order, under nonces that never repeat.
  \<^item> \<open>Splice\<close>, \<open>Tunnel\<close>: the copy loops of \<^verbatim>\<open>internal/streamio\<close> under every schedule, at the relay and at the
    ends; composed, what comes out of a tunnel is a prefix of what went in.
  \<^item> \<open>Certs\<close>, \<open>Revocation\<close>, \<open>CRL\<close>, \<open>CA_Dir\<close>, \<open>CA_Issue\<close>: certificates, \<^verbatim>\<open>internal/mtls\<close> and \<^verbatim>\<open>internal/ca\<close>. Issued
    certificates say what was asked for, revoking loses none and touches no other name, and the
    exported list, which replaces the one before, reads back.
  \<^item> \<open>Connections\<close>, \<open>Session\<close>, \<open>Relay_World\<close>, \<open>Registry\<close>, \<open>Registry_Steps\<close>, \<open>Registry_Props\<close>, \<open>Relay_Admin\<close>, \<open>Relay\<close>,
    \<open>Relay_Steps\<close>: \<^verbatim>\<open>internal/relay\<close>, one operation per function and one preservation lemma per step.
    A registered identifier was proved, belongs to one publisher until it leaves or is killed, no
    revoked peer stays, and nothing is left behind by the handlers; \<open>Relay_Steps\<close> shows that the
    handlers are sequences of the steps the invariants are proved for.
  \<^item> \<open>HostPort\<close>, \<open>Peer\<close>, \<open>Share\<close>, \<open>Listen\<close>: \<^verbatim>\<open>internal/hostport.go\<close>, \<^verbatim>\<open>peer\<close>, \<^verbatim>\<open>share\<close> and \<^verbatim>\<open>listen\<close>: addresses, opening
    tunnels, reconnecting, and what each side does with requests and local connections. \<open>Share\<close> and
    \<open>Listen\<close> keep a log of what starts and ends beside the slots the code counts with, and the bound
    of 256 is one on the log. The locale \<open>control_handler\<close> is what the control loop asks of a client's
    handler.
  \<^item> \<open>Cli_Config\<close>, \<open>Cli_Text\<close>, \<open>Cli_Output\<close>, \<open>Cli_Secrets\<close>, \<open>Cli_Flags\<close>, \<open>Cli_Main\<close>, \<open>Cli_Admin\<close>, \<open>Cli_CA\<close>, \<open>Cli_Run\<close>:
    \<^verbatim>\<open>cmd/ggrok\<close>: settings, escaping and colours, files of secrets, the command tree and its flags,
    and every command. What peers choose cannot forge an operator's output, no file of
    credentials or secrets is ever overwritten, and a token is shown only where it was asked for.
  \<^item> \<open>Operator\<close>, \<open>End_To_End\<close> and this theory: compositions. The operator's client against the relay's
    handler; the publisher's session key against the subscriber's tunnel; and, below, issuing and
    revoking a certificate in the CA against its admission by the relay.

  \<^bold>\<open>Parameters.\<close> Code that is not in the repository is an argument, and what is relied on is a named
  predicate with a concrete instance: \<open>crypto\<close> (HKDF, HMAC, ML-DSA, the AEAD) with \<open>kdf_ok\<close>, \<open>mldsa_ok\<close>,
  \<open>aead_ok\<close>, instance \<open>sample_crypto\<close>; \<open>pki\<close> (X.509, PEM, PKCS 8) with \<open>x509_ok\<close>, \<open>pem_ok\<close>, \<open>pkcs8_ok\<close>, instance
  \<open>sample_pki\<close>; \<open>json\<close>; \<open>netip\<close> with \<open>netip_ok\<close>; the file system (\<open>ca_os\<close>, \<open>cli_os\<close>); cobra; tabwriter's layout
  and which runes print (\<open>print_ok\<close>). The laws about keys and MACs are functional ones, such as that
  opening undoes sealing; no statement rests on the hardness of a problem.

  \<^bold>\<open>Bounds and fuel.\<close> No function here runs on fuel. Loops that consume a connection are functions
  with a measure on the bytes left (\<open>RunControlLoop\<close>, the heartbeat loop, \<open>serveAdmin\<close>, \<open>fill_plain\<close>); a splice
  runs a schedule and then both directions to their ends. \<open>Serve\<close> and the accept loops, which run
  for ever, take the list of turns or events met so far; while they go on the error of \<open>Serve\<close> and of
  \<open>listen\<close>'s \<open>runTCP\<close> is \<open>None\<close>. Points in time and durations are unbounded numbers of nanoseconds.
  \<open>handlers_refine_steps\<close> assumes that no session has used up its 2^64 identifiers.

  \<^bold>\<open>Not modelled.\<close> Logging; deadlines, keepalive, the pinger's clock and other timers, whose effect - an
  error of a read, a call of \<open>removePending\<close> at any moment - is an argument; the pool of copy buffers
  and the short cuts of \<open>io.Copy\<close> for sockets; help texts, and how cobra parses words once
  \<open>normalizeLegacyFlags\<close> has rewritten them; the layout of columns, of times and of rates; that a CA directory
  and an output directory could be one and the same, since the CA's record and the other files are
  two stores here. What is
  left of the files is imports, comments and the constants of those timers. Tests, the build and
  the documentation are outside the development.
\<close>

section \<open>From the certificate authority to the relay\<close>

text \<open>
  Let the operator revoke a name in the CA's directory, export the revoked serials, copy the
  file to the relay and ask for a reload. Then every certificate that had been issued under the
  name is refused in the handshake and at admission, and its live transports are closed.
\<close>

lemma revoked_device_refused:
  assumes "Revoke os cn fs = (None, fs')" and "fs_wf fs" and "os_honest os"
    and "\<And>name ct. cert_at os RevokedDir fs' name ct \<Longrightarrow>
           cSerial ct > 0 \<and> length (serial_text ct) < maxTokenSize"
    and "RevokedSerials os fs' = Inr m" and "writeRevokedSerials out m dest = (None, Some content)"
    and "svRevokedFile srv \<noteq> []" and "files (svRevokedFile srv) = Inr (content, None)"
    and "gm_wf (csConns (wConns w))" and "serveReloadCRL srv files js k w = (r, w')"
    and "cert_at os IssuedDir fs name ct" and "cCN ct = cn"
  shows "verifyNotRevoked (wRevoked w') ((ct # chain) # chs) \<noteq> None \<and>
    (\<forall>raw cs. authenticate raw (serial_text ct) (Some (wRevoked w')) cs = (False, cs)) \<and>
    (\<forall>c. gm_get (csConns (wConns w)) c = Some (serial_text ct) \<longrightarrow>
       shut (wNet w' c) \<and> gm_get (csConns (wConns w')) c = None)"
proof -
  obtain M where M: "moved M fs fs'" "name \<in> M" using Revoke_ok [OF assms(1-3)] assms(11,12) by blast
  then have "cert_at os RevokedDir fs' name ct" using assms(11) by (simp add: cert_at_def moved_def)
  then have inm: "gm_has m (serial_text ct)" using RevokedSerials_Inr [OF assms(5,3)] by blast
  have "\<exists>n > 0. k = show_hex n \<and> length k < maxTokenSize" if "gm_has m k" for k
    using that assms(4) RevokedSerials_Inr [OF assms(5,3)] by (auto simp: serial_text_def)
  from serials_text_parses [OF this] obtain m' where
    p: "ParseRevokedSerials (serials_text m, None) = Inr m'" "\<And>k. gm_has m' k \<longleftrightarrow> gm_has m k" by auto
  have c: "content = serials_text m" using writeRevokedSerials_result [OF assms(6)] by auto
  have load: "loadRevokedSerials files (svRevokedFile srv) = Inr m'"
    using assms(7,8) p(1) by (simp add: loadRevokedSerials_def c on_error_def)
  note reload = serveReloadCRL_loaded [OF assms(10,7,9) load]
  have rev: "rev_Contains (wRevoked w') (serial_text ct)" using reload p(2) inm by simp
  have "covered (gm_has m') (csConns (wConns w)) c" if "gm_get (csConns (wConns w)) c = Some (serial_text ct)" for c
    using that p(2) inm by (simp add: covered_def serial_text_def)
  moreover have "authenticate raw (serial_text ct) (Some (wRevoked w')) cs = (False, cs)" for raw cs
    using rev by (auto simp: authenticate_def authenticate_check_def split: net_conn.splits)
  ultimately show ?thesis using reload rev by (auto simp: verifyNotRevoked_None)
qed

text \<open>
  C16: A device that is issued a certificate can be cut off again. Load the CA, issue a
  certificate and store it: it is listed as issued. Then let the operator revoke its name,
  export the revoked serials, copy the file to the relay and ask for a reload, each step
  succeeding: a handshake with the certificate fails, no transport is admitted under it, and
  every transport that was live under it is closed and no longer tracked. Serials already in
  the directory are assumed to be positive and of at most 128 bits, as issued ones are.
\<close>

theorem issued_device_can_be_cut_off:
  assumes "Load k certPEM keyPEM = Inr c" and "Issue k gen draw rnd now c request = Inr b"
    and "x509_ok k" and "pem_ok k" and "pkcs8_ok k" and "draw_ok draw"
    and "ca_parses os k" and "os_honest os" and "fs_wf fs0"
    and "serials_ok os fs0"
    and "Store os (cert.truncate (bdCert b)) (bdCertPEM b) fs0 = (None, fs)"
    and "Revoke os (rqCommonName request) fs = (None, fs')"
    and "RevokedSerials os fs' = Inr m" and "writeRevokedSerials out m dest = (None, Some content)"
    and "svRevokedFile srv \<noteq> []" and "files (svRevokedFile srv) = Inr (content, None)"
    and "gm_wf (csConns (wConns w))" and "serveReloadCRL srv files js conn w = (r, w')"
  shows "(\<forall>listed. ca_List os fs = Inr listed \<longrightarrow>
      (\<exists>l \<in> set listed. lcCert l = cert.truncate (bdCert b) \<and> \<not> lcRevoked l)) \<and>
    verifyNotRevoked (wRevoked w') ((cert.truncate (bdCert b) # chain) # chs) \<noteq> None \<and>
    (\<forall>raw cs. authenticate raw (serial_text (cert.truncate (bdCert b))) (Some (wRevoked w')) cs = (False, cs)) \<and>
    (\<forall>t. gm_get (csConns (wConns w)) t = Some (serial_text (cert.truncate (bdCert b))) \<longrightarrow>
       shut (wNet w' t) \<and> gm_get (csConns (wConns w')) t = None)"
proof -
  let ?ct = "cert.truncate (bdCert b)"
  note ct = Issue_common [OF assms(2-7)]
  note st = Store_issued [OF assms(11) ct(1)]
  have wf: "fs_wf fs" using Store_ok(2) [OF assms(11,9)] .
  have ok: "serials_ok os fs" using st(2) [OF assms(10) ct(3,4)] .
  obtain M where M: "moved M fs fs'" using Revoke_ok [OF assms(12) wf assms(8)] by blast
  note refused = revoked_device_refused [OF assms(12) wf assms(8) moved_serials [OF M ok] assms(13-18) st(1) ct(2)]
  have "\<exists>l \<in> set listed. lcCert l = ?ct \<and> \<not> lcRevoked l" if "ca_List os fs = Inr listed" for listed
    using ca_List_issued [OF that assms(8) st(1)] .
  with refused show ?thesis by (intro conjI allI impI) simp_all
qed

lemma issued_device_can_be_cut_off_witness:
  "\<exists>b fs fs' m r w'.
     Issue sample_pki (Inr 2) (\<lambda>bound. if 10 < bound then Inr 6 else Inl (Fault 1)) 0 0 sample_ca sample_request = Inr b \<and>
     Store sample_pki_os (cert.truncate (bdCert b)) (bdCertPEM b) sample_empty = (None, fs) \<and>
     Revoke sample_pki_os ''laptop'' fs = (None, fs') \<and> RevokedSerials sample_pki_os fs' = Inr m \<and>
     serveReloadCRL \<lparr>svAdmin = True, svRevokedFile = ''crl''\<rparr> (\<lambda>_. Inr (serials_text m, None)) sample_json 30
       (sample_relay\<lparr>wConns := \<lparr>csSelf = 0, csConns = [(10, ''7''), (30, ''5'')]\<rparr>\<rparr>) = (r, w') \<and> shut (wNet w' 10)"
proof -
  let ?w = "sample_relay\<lparr>wConns := \<lparr>csSelf = 0, csConns = [(10, ''7''), (30, ''5'')]\<rparr>\<rparr>"
  let ?out = "\<lparr>createTempErr = None, writeStringErr = None, syncErr = None, closeErr = None, renameErr = None\<rparr>"
  let ?srv = "\<lparr>svAdmin = True, svRevokedFile = ''crl''\<rparr>"
  let ?b = "\<lparr>bdCert = sample_device, bdCertPEM = [1, 2], bdKeyPEM = [2, 2]\<rparr> :: byte cert_bundle"
  have seven: "show_hex 7 = ''7''" by code_simp
  have ct: "cert.truncate sample_device = \<lparr>cRaw = [2], cCN = ''laptop'', cSerial = 7, cUnknownEKU = [AdminEKU]\<rparr>"
    by (simp add: sample_device_def issue_template_def sample_request_def cert.truncate_def)
  have parses: "ca_parses sample_pki_os sample_pki" by (simp add: ca_parses_def sample_pki_os_def)
  have pc: "parseCertificate sample_pki_os [1, 2] = Inr (cert.truncate sample_device)"
    by (simp add: sample_pki_os_def ParseCertificate_def sample_pki_def pemTypeCertificate_def)
  have honest: "os_honest sample_pki_os" using sample_fs_ok(2) by (simp add: os_honest_def sample_pki_os_def)
  let ?fs = "\<lparr>fsPath = ''ca'', fsIssued = Some [(''7.pem'', File [1, 2])], fsRevoked = None\<rparr>"
  let ?fs' = "\<lparr>fsPath = ''ca'', fsIssued = Some [], fsRevoked = Some [(''7.pem'', File [1, 2])]\<rparr>"
  have f: "cert_file (cert.truncate sample_device) = ''7.pem''" by (simp add: cert_file_def serial_text_def ct seven)
  have noerr: "readDirErr sample_pki_os = (\<lambda>_. None)" "readFileErr sample_pki_os = (\<lambda>_ _. None)"
    "mkdirAllErr sample_pki_os = (\<lambda>_. None)" "renameFileErr sample_pki_os = (\<lambda>_. None)" "writeFileErr sample_pki_os = (\<lambda>_. None)"
    by (simp_all add: sample_pki_os_def sample_os_def)
  have st: "Store sample_pki_os (cert.truncate (bdCert ?b)) (bdCertPEM ?b) sample_empty = (None, ?fs)"
    by (simp add: Store_def f os_MkdirAll_def noerr sample_empty_def dir_of_def set_dir_def gm_get_def gm_set_def Let_def)
  have rv: "Revoke sample_pki_os (rqCommonName sample_request) ?fs = (None, ?fs')"
    by (simp add: Revoke_def readCertDir_def os_ReadDir_def noerr dir_of_def set_dir_def pc ct sample_request_def
      sorted_keys_def gm_keys_def gm_get_def os_Rename_def os_MkdirAll_def gm_set_def gm_del_def)
  obtain m where m: "RevokedSerials sample_pki_os ?fs' = Inr m"
    by (simp add: RevokedSerials_def readCertDir_def os_ReadDir_def noerr dir_of_def sorted_keys_def gm_keys_def gm_get_def pc)
  have out: "writeRevokedSerials ?out m None = (None, Some (serials_text m))" by (simp add: writeRevokedSerials_def)
  let ?files = "\<lambda>_ :: string. Inr (serials_text m, None) :: (string \<times> error option) result"
  obtain r w' where rl: "serveReloadCRL ?srv ?files sample_json 30 ?w = (r, w')" by (metis prod.exhaust)
  have wf: "gm_wf (csConns (wConns ?w))" "fs_wf sample_empty"
    by (simp_all add: gm_wf_def fs_wf_def dir_of_def sample_empty_def split: subdir.split)
  have none: "serials_ok sample_pki_os sample_empty"
    by (simp add: serials_ok_def cert_at_def node_at_def dir_of_def sample_empty_def split: subdir.split)
  have "shut (wNet w' 10)"
    using issued_device_can_be_cut_off [OF sample_load sample_issue sample_pki_ok sample_draw_ok parses honest wf(2) none st rv m out
        _ _ wf(1) rl]
    by (simp add: gm_get_def serial_text_def ct seven)
  with st rv m rl sample_issue show ?thesis by (fastforce simp: sample_request_def)
qed

end
